(* ===== verification/Prelude.thy ===== *)
theory Prelude
  imports Main "HOL-Library.Word" "HOL-Library.Monad_Syntax"
begin

text \<open>
  Shared vocabulary of the DualBoy development.

  \<^item> Types: machine integers are words of their C width, byte buffers are lists of bytes,
    \<open>size_t\<close> values are natural numbers (the checks against \<open>SIZE_MAX\<close> are written out
    where the code makes them), a C string is the list of the characters before its NUL.
  \<^item> Memory: reading or copying outside a buffer is undefined behaviour in C. The accessors
    \<open>rd\<close>, \<open>slice\<close>, \<open>memcmp_eq\<close> and \<open>blit\<close> return \<open>None\<close> there, and the
    components are written in the option monad over them, so a proof that a component does
    not return \<open>None\<close> is a proof of memory safety.
  \<^item> The locale \<open>byte_digest\<close> is the interface of every running checksum of the program
    (cartridge header checksums, CRC-16, CRC-32, FNV-1a): it proves once that such a digest
    tells apart any two buffers that differ in exactly one byte.
\<close>

unbundle bit_operations_syntax

type_synonym u8 = "8 word"
type_synonym u16 = "16 word"
type_synonym u32 = "32 word"
type_synonym u64 = "64 word"
type_synonym bytes = "8 word list"
type_synonym size_t = nat

definition SIZE_MAX :: nat where
  "SIZE_MAX = 2 ^ 64 - 1"

definition DUALBOY_MACHINE_COUNT :: nat where
  "DUALBOY_MACHINE_COUNT = 2"

lemma machine_count_2 [simp]: "DUALBOY_MACHINE_COUNT = 2"
  by (simp add: DUALBOY_MACHINE_COUNT_def)

lemma less_2_cases_nat: "(m::nat) < 2 \<Longrightarrow> (m = 0 \<Longrightarrow> P) \<Longrightarrow> (m = 1 \<Longrightarrow> P) \<Longrightarrow> P"
  by (cases m) (auto simp: less_Suc_eq)

named_theorems mem_simps "characterisations of in-bounds memory accesses"

section \<open>Checked memory accesses\<close>

definition rd :: "'a list \<Rightarrow> nat \<Rightarrow> 'a option" where
  "rd xs i = (if i < length xs then Some (xs ! i) else None)"

definition slice :: "'a list \<Rightarrow> nat \<Rightarrow> nat \<Rightarrow> 'a list option" where
  "slice xs off n = (if off + n \<le> length xs then Some (take n (drop off xs)) else None)"

definition memcmp_eq :: "'a list \<Rightarrow> nat \<Rightarrow> 'a list \<Rightarrow> bool option" where
  "memcmp_eq xs off ref = map_option (\<lambda>s. s = ref) (slice xs off (length ref))"

definition blit :: "'a list \<Rightarrow> nat \<Rightarrow> 'a list \<Rightarrow> 'a list option" where
  "blit xs off src =
     (if off + length src \<le> length xs
      then Some (take off xs @ src @ drop (off + length src) xs) else None)"

fun fold_rd :: "('s \<Rightarrow> 'a \<Rightarrow> 's) \<Rightarrow> 'a list \<Rightarrow> nat list \<Rightarrow> 's \<Rightarrow> 's option" where
  "fold_rd f xs [] acc = Some acc"
| "fold_rd f xs (i # is) acc = do { b \<leftarrow> rd xs i; fold_rd f xs is (f acc b) }"

text \<open>The loop \<open>for (i = a; i < b; ++i) acc = f(acc, xs[i])\<close>.\<close>

definition fold_range :: "('s \<Rightarrow> 'a \<Rightarrow> 's) \<Rightarrow> 'a list \<Rightarrow> nat \<Rightarrow> nat \<Rightarrow> 's \<Rightarrow> 's option" where
  "fold_range f xs a b acc = fold_rd f xs [a..<b] acc"

text \<open>A loop over a list of loop values whose body may fail.\<close>

fun fold_opt :: "('a \<Rightarrow> 's \<Rightarrow> 's option) \<Rightarrow> 'a list \<Rightarrow> 's \<Rightarrow> 's option" where
  "fold_opt f [] s = Some s"
| "fold_opt f (x # xs) s = do { s' \<leftarrow> f x s; fold_opt f xs s' }"

lemma fold_opt_Nil_fun [simp]: "fold_opt f [] = Some"
  by (rule ext) simp

lemma fold_opt_append [simp]:
  "fold_opt f (xs @ ys) s = do { s' \<leftarrow> fold_opt f xs s; fold_opt f ys s' }"
  by (induction xs arbitrary: s) (auto split: Option.bind_splits)

lemma fold_opt_map: "fold_opt f (map g xs) s = fold_opt (f \<circ> g) xs s"
  by (induction xs arbitrary: s) (auto split: Option.bind_splits)

lemma fold_opt_concat_map:
  "fold_opt f (concat (map g xs)) s = fold_opt (\<lambda>x. fold_opt f (g x)) xs s"
  by (induction xs arbitrary: s) auto

lemma fold_opt_cong:
  assumes "\<And>x s. x \<in> set xs \<Longrightarrow> P s \<Longrightarrow> f x s = g x s"
    and "\<And>x s s'. x \<in> set xs \<Longrightarrow> P s \<Longrightarrow> g x s = Some s' \<Longrightarrow> P s'" and "P s"
  shows "fold_opt f xs s = fold_opt g xs s"
  using assms
proof (induction xs arbitrary: s)
  case (Cons x xs)
  show ?case
  proof (cases "g x s")
    case None
    with Cons.prems show ?thesis by simp
  next
    case (Some s')
    with Cons.prems have "P s'" by (meson list.set_intros(1))
    then have "fold_opt f xs s' = fold_opt g xs s'"
      using Cons.prems(1,2) by (intro Cons.IH) (auto, blast)
    with Some Cons.prems show ?thesis by simp
  qed
qed simp

lemma rd_inside [mem_simps]: "i < length xs \<Longrightarrow> rd xs i = Some (xs ! i)"
  by (simp add: rd_def)

lemma slice_inside [mem_simps]:
  "off + n \<le> length xs \<Longrightarrow> slice xs off n = Some (take n (drop off xs))"
  by (simp add: slice_def)

lemma slice_Some_length: "slice xs off n = Some ys \<Longrightarrow> length ys = n"
  by (auto simp: slice_def split: if_splits)

lemma memcmp_eq_inside [mem_simps]:
  "off + length ref \<le> length xs \<Longrightarrow>
   memcmp_eq xs off ref = Some (take (length ref) (drop off xs) = ref)"
  by (simp add: memcmp_eq_def mem_simps)

lemma blit_inside [mem_simps]:
  "off + length src \<le> length xs \<Longrightarrow>
   blit xs off src = Some (take off xs @ src @ drop (off + length src) xs)"
  by (simp add: blit_def)

lemma blit_length: "blit xs off src = Some ys \<Longrightarrow> length ys = length xs"
  by (auto simp: blit_def split: if_splits)

lemma blit_nth:
  assumes "blit xs off src = Some ys" and "i < length xs"
  shows "ys ! i = (if off \<le> i \<and> i < off + length src then src ! (i - off) else xs ! i)"
proof -
  from assms(1) have ys: "ys = take off xs @ src @ drop (off + length src) xs"
    and le: "off + length src \<le> length xs"
    by (auto simp: blit_def split: if_splits)
  show ?thesis
    using le assms(2) by (auto simp: ys nth_append)
qed

lemma fold_rd_upt:
  "b \<le> length xs \<Longrightarrow>
   fold_rd f xs [a..<b] acc = Some (foldl f acc (take (b - a) (drop a xs)))"
proof (induction "b - a" arbitrary: a acc)
  case 0
  then show ?case by simp
next
  case (Suc n)
  then have ab: "a < b" by simp
  with Suc have IH: "fold_rd f xs [Suc a..<b] (f acc (xs ! a)) =
      Some (foldl f (f acc (xs ! a)) (take (b - Suc a) (drop (Suc a) xs)))"
    by simp
  have "take (b - a) (drop a xs) = xs ! a # take (b - Suc a) (drop (Suc a) xs)"
    using ab Suc.prems by (simp add: Cons_nth_drop_Suc [symmetric] Suc_diff_Suc [symmetric])
  with IH ab Suc.prems show ?case
    by (simp add: upt_conv_Cons mem_simps)
qed

lemma fold_range_inside [mem_simps]:
  "b \<le> length xs \<Longrightarrow>
   fold_range f xs a b acc = Some (foldl f acc (take (b - a) (drop a xs)))"
  by (simp add: fold_range_def fold_rd_upt)

text \<open>
  A sequence of copies into one buffer. When every copied segment agrees with one function
  \<open>F\<close> from buffer positions to values, the copies may overlap and come in any order: the
  result holds \<open>F\<close> on the union of the segments and the old contents elsewhere.
\<close>

definition blits :: "(nat \<times> 'a list) list \<Rightarrow> 'a list \<Rightarrow> 'a list option" where
  "blits = fold_opt (\<lambda>(off, src) out. blit out off src)"

definition covered :: "(nat \<times> 'a list) list \<Rightarrow> nat \<Rightarrow> bool" where
  "covered segs i \<longleftrightarrow> (\<exists>(off, src) \<in> set segs. off \<le> i \<and> i < off + length src)"

lemma blits_agree:
  assumes "\<forall>(off, src) \<in> set segs. off + length src \<le> length out \<and>
             (\<forall>k < length src. src ! k = F (off + k))"
  shows "\<exists>out'. blits segs out = Some out' \<and> length out' = length out \<and>
    (\<forall>i < length out. out' ! i = (if covered segs i then F i else out ! i))"
  using assms
proof (induction segs arbitrary: out)
  case Nil
  then show ?case by (simp add: blits_def covered_def)
next
  case (Cons s segs)
  obtain off src where s: "s = (off, src)" by (cases s)
  with Cons.prems obtain out1 where out1: "blit out off src = Some out1"
    by (auto simp: mem_simps)
  then have len: "length out1 = length out" by (rule blit_length)
  have "\<exists>out'. blits segs out1 = Some out' \<and> length out' = length out1 \<and>
    (\<forall>i < length out1. out' ! i = (if covered segs i then F i else out1 ! i))"
    using Cons.prems len by (intro Cons.IH) auto
  then obtain out' where rec: "blits segs out1 = Some out'" and len': "length out' = length out1"
    and val: "\<And>i. i < length out1 \<Longrightarrow> out' ! i = (if covered segs i then F i else out1 ! i)"
    by blast
  have "out' ! i = (if covered (s # segs) i then F i else out ! i)" if i: "i < length out" for i
  proof -
    have "out1 ! i = (if off \<le> i \<and> i < off + length src then F i else out ! i)"
      using blit_nth [OF out1 i] Cons.prems s by (auto simp: le_add_diff_inverse)
    then show ?thesis using val [of i] i len by (auto simp: covered_def s)
  qed
  moreover have "blits (s # segs) out = Some out'"
    using out1 rec by (simp add: blits_def s)
  ultimately show ?case using len len' by auto
qed

lemma take_drop_update_inside [mem_simps]:
  "a \<le> i \<Longrightarrow> i < a + n \<Longrightarrow> i < length xs \<Longrightarrow>
   take n (drop a (xs[i := v])) = (take n (drop a xs))[i - a := v]"
  by (simp add: drop_update_swap take_update_swap)

lemma take_drop_update_outside [mem_simps]:
  "i < a \<or> a + n \<le> i \<Longrightarrow> take n (drop a (xs[i := v])) = take n (drop a xs)"
  by (auto simp: list_eq_iff_nth_eq nth_list_update)

section \<open>Running digests\<close>

text \<open>
  A digest consumes a buffer byte by byte. If the step is injective in the register for each
  byte, and injective in the byte for each register, then corrupting one byte of a buffer
  always changes the digest.
\<close>

locale byte_digest =
  fixes step :: "'s \<Rightarrow> u8 \<Rightarrow> 's"
  assumes step_inj_state: "step c b = step c' b \<Longrightarrow> c = c'"
    and step_inj_byte: "step c b = step c b' \<Longrightarrow> b = b'"
begin

lemma foldl_inj_state: "foldl step c bs = foldl step c' bs \<Longrightarrow> c = c'"
  by (induction bs arbitrary: c c') (auto dest: step_inj_state)

lemma single_byte_detected:
  assumes "i < length bs" and "v \<noteq> bs ! i"
  shows "foldl step c (bs[i := v]) \<noteq> foldl step c bs"
proof
  assume eq: "foldl step c (bs[i := v]) = foldl step c bs"
  let ?r = "foldl step c (take i bs)"
  have new: "bs[i := v] = take i bs @ v # drop (Suc i) bs"
    using assms(1) by (rule upd_conv_take_nth_drop)
  have old: "bs = take i bs @ bs ! i # drop (Suc i) bs"
    using assms(1) by (rule id_take_nth_drop)
  have "foldl step (step ?r v) (drop (Suc i) bs) = foldl step c (bs[i := v])"
    by (simp add: new)
  also have "\<dots> = foldl step (step ?r (bs ! i)) (drop (Suc i) bs)"
    unfolding eq by (subst old) simp
  finally have "foldl step (step ?r v) (drop (Suc i) bs) =
      foldl step (step ?r (bs ! i)) (drop (Suc i) bs)" .
  then have "step ?r v = step ?r (bs ! i)"
    by (rule foldl_inj_state)
  then have "v = bs ! i"
    by (rule step_inj_byte)
  with assms(2) show False by simp
qed

end

text \<open>
  The byte-wise reflected CRC registers of the program shift right one bit and xor the
  polynomial when the bit shifted out was set. The step is invertible because every reflected
  polynomial has its top bit set, so the top bit of the result tells which case applied.
\<close>

definition crc_bit :: "'w::len word \<Rightarrow> 'w word \<Rightarrow> 'w word" where
  "crc_bit poly c = (if c AND 1 \<noteq> 0 then drop_bit 1 c XOR poly else drop_bit 1 c)"

definition crc_byte :: "'w::len word \<Rightarrow> 'w word \<Rightarrow> u8 \<Rightarrow> 'w word" where
  "crc_byte poly c b = (crc_bit poly ^^ 8) (c XOR ucast b)"

lemma crc_byte_unroll:
  "crc_byte poly c b =
     crc_bit poly (crc_bit poly (crc_bit poly (crc_bit poly
       (crc_bit poly (crc_bit poly (crc_bit poly (crc_bit poly (c XOR ucast b))))))))"
  by (simp add: crc_byte_def numeral_eq_Suc)

lemma and_1_nonzero: "(c AND 1 \<noteq> 0) = bit (c :: 'w::len word) 0"
  by (simp add: and_one_eq bit_0 odd_iff_mod_2_eq_one)

lemma xor_right_cancel: "a XOR c = b XOR c \<Longrightarrow> a = (b :: 'w::len word)"
  by (auto simp: bit_eq_iff bit_simps)

lemma xor_left_cancel: "c XOR a = c XOR b \<Longrightarrow> a = (b :: 'w::len word)"
  by (auto simp: bit_eq_iff bit_simps)

lemma crc_bit_inj:
  assumes "bit (poly :: 'w::len word) (LENGTH('w) - 1)" and "crc_bit poly c = crc_bit poly d"
  shows "c = d"
proof -
  let ?top = "LENGTH('w) - 1"
  have top: "bit (crc_bit poly x) ?top = bit x 0" for x :: "'w word"
    using assms(1)
    by (auto simp: crc_bit_def and_1_nonzero bit_simps dest: bit_imp_le_length)
  have low: "bit c 0 = bit d 0"
    using top [of c] top [of d] assms(2) by simp
  then have "drop_bit 1 c = drop_bit 1 d"
    using assms(2) by (auto simp: crc_bit_def and_1_nonzero dest: xor_right_cancel split: if_splits)
  then have high: "bit c (Suc n) = bit d (Suc n)" for n
    by (metis bit_drop_bit_eq comp_apply plus_1_eq_Suc)
  show ?thesis
    by (rule bit_eqI) (metis low high not0_implies_Suc)
qed

lemma funpow_cancel:
  fixes f :: "'a \<Rightarrow> 'a"
  assumes "(f ^^ n) c = (f ^^ n) d" and "\<And>c d. f c = f d \<Longrightarrow> c = d"
  shows "c = d"
  using assms(1)
proof (induction n)
  case (Suc n)
  then have "f ((f ^^ n) c) = f ((f ^^ n) d)" by simp
  then show ?case by (rule assms(2) [THEN Suc.IH])
qed simp

lemma crc_byte_inj_state:
  assumes "bit (poly :: 'w::len word) (LENGTH('w) - 1)" and "crc_byte poly c b = crc_byte poly d b"
  shows "c = d"
proof -
  have "c XOR ucast b = d XOR ucast b"
    using assms(2) unfolding crc_byte_def
    by (rule funpow_cancel) (rule crc_bit_inj [OF assms(1)])
  then show ?thesis
    by (rule xor_right_cancel)
qed

lemma crc_byte_inj_byte:
  assumes "bit (poly :: 'w::len word) (LENGTH('w) - 1)" and "8 \<le> LENGTH('w)"
    and "crc_byte poly c b = crc_byte poly c b'"
  shows "b = b'"
proof -
  have "c XOR ucast b = c XOR ucast b'"
    using assms(3) unfolding crc_byte_def
    by (rule funpow_cancel) (rule crc_bit_inj [OF assms(1)])
  then have "(ucast b :: 'w word) = ucast b'"
    by (rule xor_left_cancel)
  then show ?thesis
    using assms(2) by (auto simp: bit_eq_iff bit_simps)
qed

section \<open>FNV-1a\<close>

text \<open>
  The 64-bit FNV-1a hash is written twice in the sources, as the content identity of a
  pathless cartridge and as the change detector of the save manager.
\<close>

definition fnv_offset :: u64 where
  "fnv_offset = 14695981039346656037"

definition fnv_step :: "u64 \<Rightarrow> u8 \<Rightarrow> u64" where
  "fnv_step h b = (h XOR ucast b) * 1099511628211"

lemma fnv_prime_cancel:
  assumes "x * 1099511628211 = y * (1099511628211 :: u64)"
  shows "x = y"
proof -
  have "(1099511628211 :: u64) * 14886173955864302971 = 1" by simp
  then have inv: "(z * 1099511628211) * 14886173955864302971 = z" for z :: u64
    by (simp only: mult.assoc mult_1_right)
  have "x = (x * 1099511628211) * 14886173955864302971" by (rule inv [symmetric])
  also have "\<dots> = y" unfolding assms by (rule inv)
  finally show ?thesis .
qed

interpretation fnv: byte_digest fnv_step
proof unfold_locales
  show "c = c'" if "fnv_step c b = fnv_step c' b" for c c' b
    using that [unfolded fnv_step_def, THEN fnv_prime_cancel] by (rule xor_right_cancel)
  show "b = b'" if "fnv_step c b = fnv_step c b'" for c and b b' :: u8
  proof -
    have "(ucast b :: u64) = ucast b'"
      using that [unfolded fnv_step_def, THEN fnv_prime_cancel] by (rule xor_left_cancel)
    then show ?thesis by (auto simp: bit_eq_iff bit_simps)
  qed
qed

lemma unat_of_nat_below: "k \<le> unat (n :: 'w::len word) \<Longrightarrow> unat (of_nat k :: 'w word) = k"
proof -
  assume "k \<le> unat n"
  also have "unat n < 2 ^ LENGTH('w)" by (rule unsigned_less)
  finally show ?thesis by (simp add: unat_of_nat take_bit_nat_eq_self)
qed

section \<open>Little-endian fields\<close>

lemma le16_split:
  "(ucast (ucast (c :: u16) :: u8) OR push_bit 8 (ucast (ucast (drop_bit 8 c) :: u8))) = c"
  by (rule bit_word_eqI) (auto simp: bit_simps)

lemma le32_split:
  "(ucast (ucast (c :: u32) :: u8) OR push_bit 8 (ucast (ucast (drop_bit 8 c) :: u8)) OR
    push_bit 16 (ucast (ucast (drop_bit 16 c) :: u8)) OR
    push_bit 24 (ucast (ucast (drop_bit 24 c) :: u8))) = c" (is "?l = c")
proof (rule bit_word_eqI)
  fix n
  assume "n < LENGTH(32)"
  then consider "n < 8" | "8 \<le> n" "n < 16" | "16 \<le> n" "n < 24" | "24 \<le> n" "n < 32"
    by fastforce
  then show "bit ?l n = bit c n"
    by cases (auto simp: bit_simps)
qed

lemma nth_take_drop_two:
  assumes "take 2 (drop i xs) = [a, b]"
  shows "xs ! (i + 1) = b"
proof -
  have "i < length xs" using assms by (cases "i < length xs") auto
  then have "xs ! (i + 1) = take 2 (drop i xs) ! 1" by simp
  then show ?thesis using assms by simp
qed

end
