(* ===== verification/Engine.thy ===== *)
theory Engine
  imports Prelude
begin

text \<open>
  The vocabulary of \<open>src/frontend/engine.h\<close>: platforms, engine families, renderers, memory
  kinds, the per-machine input value and the native video frame. A C \<open>enum\<close> becomes a
  datatype with the source's constructors; where the code stores an enumerator as a number
  its value is given by a function.
\<close>

datatype dualboy_platform =
    DUALBOY_PLATFORM_INVALID
  | DUALBOY_PLATFORM_GB
  | DUALBOY_PLATFORM_GBC
  | DUALBOY_PLATFORM_GBA
  | DUALBOY_PLATFORM_NDS

fun platform_code :: "dualboy_platform \<Rightarrow> u32" where
  "platform_code DUALBOY_PLATFORM_INVALID = 0"
| "platform_code DUALBOY_PLATFORM_GB = 1"
| "platform_code DUALBOY_PLATFORM_GBC = 2"
| "platform_code DUALBOY_PLATFORM_GBA = 3"
| "platform_code DUALBOY_PLATFORM_NDS = 4"

datatype dualboy_engine_family =
    DUALBOY_ENGINE_NONE
  | DUALBOY_ENGINE_SAMEBOY
  | DUALBOY_ENGINE_MGBA
  | DUALBOY_ENGINE_MELONDS

fun family_code :: "dualboy_engine_family \<Rightarrow> u32" where
  "family_code DUALBOY_ENGINE_NONE = 0"
| "family_code DUALBOY_ENGINE_SAMEBOY = 1"
| "family_code DUALBOY_ENGINE_MGBA = 2"
| "family_code DUALBOY_ENGINE_MELONDS = 3"

datatype dualboy_video_renderer =
    DUALBOY_VIDEO_RENDERER_SOFTWARE
  | DUALBOY_VIDEO_RENDERER_OPENGL

datatype dualboy_memory_kind =
    DUALBOY_MEMORY_SAVE_RAM
  | DUALBOY_MEMORY_RTC
  | DUALBOY_MEMORY_FIRMWARE

fun memory_kind_code :: "dualboy_memory_kind \<Rightarrow> nat" where
  "memory_kind_code DUALBOY_MEMORY_SAVE_RAM = 0"
| "memory_kind_code DUALBOY_MEMORY_RTC = 1"
| "memory_kind_code DUALBOY_MEMORY_FIRMWARE = 2"

definition memory_kinds :: "dualboy_memory_kind list" where
  "memory_kinds =
     [DUALBOY_MEMORY_SAVE_RAM, DUALBOY_MEMORY_RTC, DUALBOY_MEMORY_FIRMWARE]"

record dualboy_machine_input =
  buttons :: u16
  touch_active :: bool
  touch_x :: u16
  touch_y :: u16

text \<open>
  A video frame: its pixel memory (\<open>None\<close> is the null pointer), its dimensions, and the
  distance in bytes between the starts of two rows.
\<close>

record dualboy_video_frame =
  pixels :: "bytes option"
  width :: u32
  height :: u32
  pitch :: size_t

lemma platform_code_inj: "platform_code p = platform_code q \<Longrightarrow> p = q"
  by (cases p; cases q) simp_all

lemma family_code_inj: "family_code p = family_code q \<Longrightarrow> p = q"
  by (cases p; cases q) simp_all

text \<open>Memory kinds are ordered by their enumerator, the order in which the code visits them.\<close>

instantiation dualboy_memory_kind :: linorder
begin

definition less_eq_dualboy_memory_kind :: "dualboy_memory_kind \<Rightarrow> dualboy_memory_kind \<Rightarrow> bool" where
  "less_eq_dualboy_memory_kind a b = (memory_kind_code a \<le> memory_kind_code b)"

definition less_dualboy_memory_kind :: "dualboy_memory_kind \<Rightarrow> dualboy_memory_kind \<Rightarrow> bool" where
  "less_dualboy_memory_kind a b = (memory_kind_code a < memory_kind_code b)"

instance
proof
  fix x y z :: dualboy_memory_kind
  show "x < y \<longleftrightarrow> x \<le> y \<and> \<not> y \<le> x"
    by (auto simp: less_dualboy_memory_kind_def less_eq_dualboy_memory_kind_def)
  show "x \<le> x" by (simp add: less_eq_dualboy_memory_kind_def)
  show "x \<le> y \<Longrightarrow> y \<le> z \<Longrightarrow> x \<le> z" by (simp add: less_eq_dualboy_memory_kind_def)
  show "x \<le> y \<Longrightarrow> y \<le> x \<Longrightarrow> x = y"
    by (cases x; cases y) (simp_all add: less_eq_dualboy_memory_kind_def)
  show "x \<le> y \<or> y \<le> x" by (auto simp: less_eq_dualboy_memory_kind_def)
qed

end

lemma memory_kinds_sorted: "sorted memory_kinds \<and> distinct memory_kinds \<and> set memory_kinds = UNIV"
  by (auto simp: memory_kinds_def less_eq_dualboy_memory_kind_def intro: dualboy_memory_kind.exhaust)

end
