(* ===== verification/Content.thy ===== *)
theory Content
  imports Engine
begin

text \<open>
  Cartridge detection, \<open>src/frontend/content.c\<close>. The header validators read the content
  through the checked accessors of the prelude, in the order in which the code reads it, so
  that an out-of-range read would be the value \<open>None\<close>; the first property says that
  detection never makes one, for content of any length.
\<close>

section \<open>Definitions\<close>

datatype dualboy_detection_error =
    DUALBOY_DETECT_OK
  | DUALBOY_DETECT_EMPTY
  | DUALBOY_DETECT_TOO_SMALL
  | DUALBOY_DETECT_UNKNOWN_HEADER

record dualboy_detection =
  platform :: dualboy_platform
  error :: dualboy_detection_error
  message :: string

definition GB_HEADER_END :: nat where "GB_HEADER_END = 0x150"
definition GBA_HEADER_END :: nat where "GBA_HEADER_END = 0xC0"
definition NDS_HEADER_END :: nat where "NDS_HEADER_END = 0x1000"
definition NDS_UNIT_CODE_OFFSET :: nat where "NDS_UNIT_CODE_OFFSET = 0x12"

definition gb_logo :: bytes where
  "gb_logo =
    [0xCE, 0xED, 0x66, 0x66, 0xCC, 0x0D, 0x00, 0x0B,
     0x03, 0x73, 0x00, 0x83, 0x00, 0x0C, 0x00, 0x0D,
     0x00, 0x08, 0x11, 0x1F, 0x88, 0x89, 0x00, 0x0E,
     0xDC, 0xCC, 0x6E, 0xE6, 0xDD, 0xDD, 0xD9, 0x99,
     0xBB, 0xBB, 0x67, 0x63, 0x6E, 0x0E, 0xEC, 0xCC,
     0xDD, 0xDC, 0x99, 0x9F, 0xBB, 0xB9, 0x33, 0x3E]"

definition gba_logo :: bytes where
  "gba_logo =
    [0x24, 0xFF, 0xAE, 0x51, 0x69, 0x9A, 0xA2, 0x21,
     0x3D, 0x84, 0x82, 0x0A, 0x84, 0xE4, 0x09, 0xAD,
     0x11, 0x24, 0x8B, 0x98, 0xC0, 0x81, 0x7F, 0x21,
     0xA3, 0x52, 0xBE, 0x19, 0x93, 0x09, 0xCE, 0x20,
     0x10, 0x46, 0x4A, 0x4A, 0xF8, 0x27, 0x31, 0xEC,
     0x58, 0xC7, 0xE8, 0x33, 0x82, 0xE3, 0xCE, 0xBF,
     0x85, 0xF4, 0xDF, 0x94, 0xCE, 0x4B, 0x09, 0xC1,
     0x94, 0x56, 0x8A, 0xC0, 0x13, 0x72, 0xA7, 0xFC,
     0x9F, 0x84, 0x4D, 0x73, 0xA3, 0xCA, 0x9A, 0x61,
     0x58, 0x97, 0xA3, 0x27, 0xFC, 0x03, 0x98, 0x76,
     0x23, 0x1D, 0xC7, 0x61, 0x03, 0x04, 0xAE, 0x56,
     0xBF, 0x38, 0x84, 0x00, 0x40, 0xA7, 0x0E, 0xFD,
     0xFF, 0x52, 0xFE, 0x03, 0x6F, 0x95, 0x30, 0xF1,
     0x97, 0xFB, 0xC0, 0x85, 0x60, 0xD6, 0x80, 0x25,
     0xA9, 0x63, 0xBE, 0x03, 0x01, 0x4E, 0x38, 0xE2,
     0xF9, 0xA2, 0x34, 0xFF, 0xBB, 0x3E, 0x03, 0x44,
     0x78, 0x00, 0x90, 0xCB, 0x88, 0x11, 0x3A, 0x94,
     0x65, 0xC0, 0x7C, 0x63, 0x87, 0xF0, 0x3C, 0xAF,
     0xD6, 0x25, 0xE4, 0x8B, 0x38, 0x0A, 0xAC, 0x72,
     0x21, 0xD4, 0xF8, 0x07]"

definition gb_checksum_step :: "u8 \<Rightarrow> u8 \<Rightarrow> u8" where
  "gb_checksum_step checksum b = checksum - b - 1"

definition has_valid_gb_header :: "bytes \<Rightarrow> bool option" where
  "has_valid_gb_header data =
     (if length data < GB_HEADER_END then Some False
      else do {
        logo \<leftarrow> memcmp_eq data 0x104 gb_logo;
        if \<not> logo then Some False
        else do {
          checksum \<leftarrow> fold_range gb_checksum_step data 0x134 0x14D 0;
          expected \<leftarrow> rd data 0x14D;
          Some (checksum = expected)
        }
      })"

definition gba_checksum_step :: "u8 \<Rightarrow> u8 \<Rightarrow> u8" where
  "gba_checksum_step checksum b = checksum - b"

definition has_valid_gba_header :: "bytes \<Rightarrow> bool option" where
  "has_valid_gba_header data =
     (if length data < GBA_HEADER_END then Some False
      else do {
        fixed \<leftarrow> rd data 0xB2;
        if fixed \<noteq> 0x96 then Some False
        else do {
          logo \<leftarrow> memcmp_eq data 0x04 gba_logo;
          if \<not> logo then Some False
          else do {
            checksum \<leftarrow> fold_range gba_checksum_step data 0xA0 0xBD 0;
            expected \<leftarrow> rd data 0xBD;
            Some (checksum - 0x19 = expected)
          }
        }
      })"

definition get_u16_le :: "bytes \<Rightarrow> nat \<Rightarrow> u16 option" where
  "get_u16_le data off = do {
     b0 \<leftarrow> rd data off;
     b1 \<leftarrow> rd data (off + 1);
     Some (ucast b0 OR push_bit 8 (ucast b1))
   }"

definition get_u32_le :: "bytes \<Rightarrow> nat \<Rightarrow> u32 option" where
  "get_u32_le data off = do {
     b0 \<leftarrow> rd data off;
     b1 \<leftarrow> rd data (off + 1);
     b2 \<leftarrow> rd data (off + 2);
     b3 \<leftarrow> rd data (off + 3);
     Some (ucast b0 OR push_bit 8 (ucast b1) OR push_bit 16 (ucast b2) OR push_bit 24 (ucast b3))
   }"

definition nds_crc16 :: "bytes \<Rightarrow> nat \<Rightarrow> nat \<Rightarrow> u16 option" where
  "nds_crc16 data off n = fold_range (crc_byte 0xa001) data off (off + n) 0xffff"

definition nds_section_is_valid :: "nat \<Rightarrow> u32 \<Rightarrow> u32 \<Rightarrow> bool" where
  "nds_section_is_valid rom_size offset section_size \<longleftrightarrow>
     offset \<ge> 0x200 \<and> section_size \<noteq> 0 \<and> unat offset \<le> rom_size \<and>
     unat section_size \<le> rom_size - unat offset"

definition has_valid_nds_header :: "bytes \<Rightarrow> bool option" where
  "has_valid_nds_header data = do {
     arm9_offset \<leftarrow> get_u32_le data 0x20;
     arm9_size \<leftarrow> get_u32_le data 0x2c;
     arm7_offset \<leftarrow> get_u32_le data 0x30;
     arm7_size \<leftarrow> get_u32_le data 0x3c;
     if length data < NDS_HEADER_END then Some False
     else do {
       unit_code \<leftarrow> rd data NDS_UNIT_CODE_OFFSET;
       if unit_code \<noteq> 0x00 \<and> unit_code \<noteq> 0x02 then Some False
       else do {
         logo \<leftarrow> memcmp_eq data 0xc0 gba_logo;
         if \<not> logo then Some False
         else do {
           logo_crc \<leftarrow> get_u16_le data 0x15c;
           logo_crc' \<leftarrow> nds_crc16 data 0xc0 (length gba_logo);
           if logo_crc \<noteq> logo_crc' then Some False
           else do {
             header_crc \<leftarrow> get_u16_le data 0x15e;
             header_crc' \<leftarrow> nds_crc16 data 0 0x15e;
             Some (header_crc = header_crc' \<and>
                   nds_section_is_valid (length data) arm9_offset arm9_size \<and>
                   nds_section_is_valid (length data) arm7_offset arm7_size)
           }
         }
       }
     }
   }"

definition unknown_header :: dualboy_detection where
  "unknown_header =
     \<lparr>platform = DUALBOY_PLATFORM_INVALID, error = DUALBOY_DETECT_UNKNOWN_HEADER,
      message = ''content does not contain a valid GB/GBC, GBA, or NDS cartridge header''\<rparr>"

definition dualboy_detect_content :: "bytes option \<Rightarrow> dualboy_detection option" where
  "dualboy_detect_content content =
     (case content of
        None \<Rightarrow> Some (unknown_header\<lparr>error := DUALBOY_DETECT_EMPTY, message := ''content is empty''\<rparr>)
      | Some data \<Rightarrow>
        if length data = 0
        then Some (unknown_header\<lparr>error := DUALBOY_DETECT_EMPTY, message := ''content is empty''\<rparr>)
        else if length data < GBA_HEADER_END
        then Some (unknown_header\<lparr>error := DUALBOY_DETECT_TOO_SMALL,
               message := ''content is too small to contain a supported cartridge header''\<rparr>)
        else do {
          gba \<leftarrow> has_valid_gba_header data;
          if gba then Some \<lparr>platform = DUALBOY_PLATFORM_GBA, error = DUALBOY_DETECT_OK,
                            message = ''Game Boy Advance''\<rparr>
          else do {
            nds \<leftarrow> has_valid_nds_header data;
            if nds then Some \<lparr>platform = DUALBOY_PLATFORM_NDS, error = DUALBOY_DETECT_OK,
                              message = ''Nintendo DS''\<rparr>
            else do {
              gb \<leftarrow> has_valid_gb_header data;
              if gb then do {
                cgb_flag \<leftarrow> rd data 0x143;
                Some (if cgb_flag = 0x80 \<or> cgb_flag = 0xC0
                      then \<lparr>platform = DUALBOY_PLATFORM_GBC, error = DUALBOY_DETECT_OK,
                            message = ''Game Boy Color''\<rparr>
                      else \<lparr>platform = DUALBOY_PLATFORM_GB, error = DUALBOY_DETECT_OK,
                            message = ''Game Boy''\<rparr>)
              }
              else Some unknown_header
            }
          }
        })"

fun dualboy_engine_family_for_platform :: "dualboy_platform \<Rightarrow> dualboy_engine_family" where
  "dualboy_engine_family_for_platform DUALBOY_PLATFORM_GB = DUALBOY_ENGINE_SAMEBOY"
| "dualboy_engine_family_for_platform DUALBOY_PLATFORM_GBC = DUALBOY_ENGINE_SAMEBOY"
| "dualboy_engine_family_for_platform DUALBOY_PLATFORM_GBA = DUALBOY_ENGINE_MGBA"
| "dualboy_engine_family_for_platform DUALBOY_PLATFORM_NDS = DUALBOY_ENGINE_MELONDS"
| "dualboy_engine_family_for_platform DUALBOY_PLATFORM_INVALID = DUALBOY_ENGINE_NONE"

definition dualboy_platforms_compatible :: "dualboy_platform \<Rightarrow> dualboy_platform \<Rightarrow> bool" where
  "dualboy_platforms_compatible first second \<longleftrightarrow>
     dualboy_engine_family_for_platform first \<noteq> DUALBOY_ENGINE_NONE \<and>
     dualboy_engine_family_for_platform first = dualboy_engine_family_for_platform second"

fun dualboy_platform_name :: "dualboy_platform \<Rightarrow> string" where
  "dualboy_platform_name DUALBOY_PLATFORM_GB = ''GB''"
| "dualboy_platform_name DUALBOY_PLATFORM_GBC = ''GBC''"
| "dualboy_platform_name DUALBOY_PLATFORM_GBA = ''GBA''"
| "dualboy_platform_name DUALBOY_PLATFORM_NDS = ''NDS''"
| "dualboy_platform_name DUALBOY_PLATFORM_INVALID = ''invalid''"

section \<open>The validators in closed form\<close>

interpretation gb_sum: byte_digest gb_checksum_step
  by unfold_locales (auto simp: gb_checksum_step_def)

interpretation gba_sum: byte_digest gba_checksum_step
  by unfold_locales (auto simp: gba_checksum_step_def)

lemma crc16_top: "bit (0xa001 :: u16) (LENGTH(16) - 1)"
  by simp

interpretation crc16: byte_digest "crc_byte (0xa001 :: u16)"
  by unfold_locales
    (simp_all add: crc_byte_inj_state [OF crc16_top] crc_byte_inj_byte [OF crc16_top])

lemma gb_logo_length [simp]: "length gb_logo = 48"
  by (simp add: gb_logo_def)

lemma gba_logo_length [simp]: "length gba_logo = 156"
  by (simp add: gba_logo_def)

lemma nds_logo_crc: "foldl (crc_byte 0xa001) 0xffff gba_logo = (0xCF56 :: u16)"
  by (simp add: gba_logo_def crc_byte_unroll crc_bit_def)

definition gb_header_ok :: "bytes \<Rightarrow> bool" where
  "gb_header_ok data \<longleftrightarrow> 0x150 \<le> length data \<and> take 48 (drop 0x104 data) = gb_logo \<and>
     foldl gb_checksum_step 0 (take 25 (drop 0x134 data)) = data ! 0x14D"

definition gba_header_ok :: "bytes \<Rightarrow> bool" where
  "gba_header_ok data \<longleftrightarrow> 0xC0 \<le> length data \<and> data ! 0xB2 = 0x96 \<and>
     take 156 (drop 4 data) = gba_logo \<and>
     foldl gba_checksum_step 0 (take 29 (drop 0xA0 data)) - 0x19 = data ! 0xBD"

definition le16_at :: "bytes \<Rightarrow> nat \<Rightarrow> u16" where
  "le16_at data i = ucast (data ! i) OR push_bit 8 (ucast (data ! (i + 1)))"

definition le32_at :: "bytes \<Rightarrow> nat \<Rightarrow> u32" where
  "le32_at data i = ucast (data ! i) OR push_bit 8 (ucast (data ! (i + 1))) OR
     push_bit 16 (ucast (data ! (i + 2))) OR push_bit 24 (ucast (data ! (i + 3)))"

definition nds_header_ok :: "bytes \<Rightarrow> bool" where
  "nds_header_ok data \<longleftrightarrow> 0x1000 \<le> length data \<and>
     (data ! 0x12 = 0 \<or> data ! 0x12 = 2) \<and> take 156 (drop 0xc0 data) = gba_logo \<and>
     le16_at data 0x15c = foldl (crc_byte 0xa001) 0xffff (take 156 (drop 0xc0 data)) \<and>
     le16_at data 0x15e = foldl (crc_byte 0xa001) 0xffff (take 0x15e data) \<and>
     nds_section_is_valid (length data) (le32_at data 0x20) (le32_at data 0x2c) \<and>
     nds_section_is_valid (length data) (le32_at data 0x30) (le32_at data 0x3c)"

lemma get_u16_le_inside [mem_simps]:
  "off + 1 < length data \<Longrightarrow> get_u16_le data off = Some (le16_at data off)"
  by (simp add: get_u16_le_def le16_at_def mem_simps)

lemma get_u32_le_inside [mem_simps]:
  "off + 3 < length data \<Longrightarrow> get_u32_le data off = Some (le32_at data off)"
  by (simp add: get_u32_le_def le32_at_def mem_simps)

lemma nds_crc16_inside [mem_simps]:
  "off + n \<le> length data \<Longrightarrow>
   nds_crc16 data off n = Some (foldl (crc_byte 0xa001) 0xffff (take n (drop off data)))"
  by (simp add: nds_crc16_def mem_simps)

lemma has_valid_gb_header_eq: "has_valid_gb_header data = Some (gb_header_ok data)"
  by (auto simp: has_valid_gb_header_def gb_header_ok_def GB_HEADER_END_def mem_simps)

lemma has_valid_gba_header_eq: "has_valid_gba_header data = Some (gba_header_ok data)"
  by (auto simp: has_valid_gba_header_def gba_header_ok_def GBA_HEADER_END_def mem_simps)

lemma has_valid_nds_header_eq:
  "0x40 \<le> length data \<Longrightarrow> has_valid_nds_header data = Some (nds_header_ok data)"
  by (auto simp: has_valid_nds_header_def nds_header_ok_def NDS_HEADER_END_def
      NDS_UNIT_CODE_OFFSET_def mem_simps)

lemma detect_content_closed:
  assumes "0xC0 \<le> length data"
  shows "dualboy_detect_content (Some data) =
    Some (if gba_header_ok data
          then \<lparr>platform = DUALBOY_PLATFORM_GBA, error = DUALBOY_DETECT_OK,
                message = ''Game Boy Advance''\<rparr>
          else if nds_header_ok data
          then \<lparr>platform = DUALBOY_PLATFORM_NDS, error = DUALBOY_DETECT_OK,
                message = ''Nintendo DS''\<rparr>
          else if gb_header_ok data
          then if data ! 0x143 = 0x80 \<or> data ! 0x143 = 0xC0
               then \<lparr>platform = DUALBOY_PLATFORM_GBC, error = DUALBOY_DETECT_OK,
                     message = ''Game Boy Color''\<rparr>
               else \<lparr>platform = DUALBOY_PLATFORM_GB, error = DUALBOY_DETECT_OK,
                     message = ''Game Boy''\<rparr>
          else unknown_header)"
proof -
  have gb: "gb_header_ok data \<Longrightarrow> rd data 0x143 = Some (data ! 0x143)"
    by (simp add: gb_header_ok_def mem_simps)
  have nds: "has_valid_nds_header data = Some (nds_header_ok data)"
    using assms by (simp add: has_valid_nds_header_eq)
  have "length data \<noteq> 0" and "\<not> length data < GBA_HEADER_END"
    using assms by (auto simp: GBA_HEADER_END_def)
  then show ?thesis
    using gb by (simp add: dualboy_detect_content_def nds
        has_valid_gba_header_eq has_valid_gb_header_eq)
qed

section \<open>Properties\<close>

text \<open>
  C1. Detection is memory safe and total, and reports exactly what is wrong. For a null pointer and
  for content of every length the header validators read only inside the content (also the four
  section fields the NDS validator reads before it has checked the NDS header size). A missing or
  empty content is reported as empty, a content shorter than the smallest header as too small, and
  a longer one as unknown exactly when none of the three validators accepts it; in all other cases,
  and only then, there is no error and a platform is named.
\<close>

theorem detect_content_safe:
  "\<exists>d. dualboy_detect_content content = Some d \<and>
     (error d = DUALBOY_DETECT_EMPTY \<longleftrightarrow> content = None \<or> content = Some []) \<and>
     (error d = DUALBOY_DETECT_TOO_SMALL \<longleftrightarrow>
        (\<exists>data. content = Some data \<and> 0 < length data \<and> length data < 0xC0)) \<and>
     (error d = DUALBOY_DETECT_UNKNOWN_HEADER \<longleftrightarrow>
        (\<exists>data. content = Some data \<and> 0xC0 \<le> length data \<and> has_valid_gba_header data = Some False \<and>
           has_valid_nds_header data = Some False \<and> has_valid_gb_header data = Some False)) \<and>
     (error d = DUALBOY_DETECT_OK \<longleftrightarrow> platform d \<noteq> DUALBOY_PLATFORM_INVALID)"
proof (cases "\<exists>data. content = Some data \<and> 0xC0 \<le> length data")
  case True
  then show ?thesis
    by (auto simp: detect_content_closed unknown_header_def has_valid_gba_header_eq has_valid_nds_header_eq
        has_valid_gb_header_eq)
next
  case False
  then show ?thesis
    by (auto simp: dualboy_detect_content_def unknown_header_def GBA_HEADER_END_def not_le
        split: option.splits)
qed

text \<open>
  C4. An image detected as a Nintendo DS cartridge can be handed to the engine: it is not a GBA
  image, its header is complete and carries the logo and UnitCode 0 or 2 (never the DSi-exclusive
  3); the stored logo checksum is the CRC of the logo, the well-known constant 0xCF56, and the
  stored header checksum is the CRC of the first 0x15E bytes; and the ARM9 and ARM7 sections are
  non-empty, start at or after 0x200 and lie inside the image.
\<close>

theorem detect_nds_sound:
  assumes "dualboy_detect_content (Some data) = Some d" and "platform d = DUALBOY_PLATFORM_NDS"
  shows "\<not> gba_header_ok data \<and> 0x1000 \<le> length data \<and> data ! 0x12 \<in> {0, 2} \<and>
    take 156 (drop 0xc0 data) = gba_logo \<and> le16_at data 0x15c = 0xCF56 \<and>
    nds_crc16 data 0xc0 156 = Some (le16_at data 0x15c) \<and>
    nds_crc16 data 0 0x15e = Some (le16_at data 0x15e) \<and>
    (\<forall>(off, n) \<in> {(0x20, 0x2c), (0x30, 0x3c)}.
       0x200 \<le> unat (le32_at data off) \<and> 0 < unat (le32_at data n) \<and>
       unat (le32_at data off) + unat (le32_at data n) \<le> length data)"
proof -
  have "0xC0 \<le> length data"
    using assms by (auto simp: dualboy_detect_content_def unknown_header_def GBA_HEADER_END_def
        split: if_splits)
  then have ok: "nds_header_ok data" and gba: "\<not> gba_header_ok data"
    using assms by (auto simp: detect_content_closed unknown_header_def split: if_splits)
  have len: "0x1000 \<le> length data" using ok by (simp add: nds_header_ok_def)
  note crc = nds_logo_crc
  have sec: "0x200 \<le> unat off \<and> 0 < unat n \<and> unat off + unat n \<le> length data"
    if "nds_section_is_valid (length data) off n" for off n
    using that unfolding nds_section_is_valid_def
    by (auto simp: word_le_nat_alt unat_gt_0)
  have "nds_crc16 data 0xc0 156 = Some (le16_at data 0x15c)" "nds_crc16 data 0 0x15e = Some (le16_at data 0x15e)"
    using ok len by (simp_all add: nds_crc16_inside nds_header_ok_def)
  then show ?thesis
    using ok gba crc sec unfolding nds_header_ok_def by auto
qed

text \<open>
  A minimal image for each validator. The stored checksums are the digests of the header
  itself, so the images are valid without evaluating a CRC.
\<close>

definition sample_gb_rom :: bytes where
  "sample_gb_rom = replicate 0x104 0 @ gb_logo @ replicate 25 0 @ [0xE7, 0, 0]"

definition sample_nds_header :: bytes where
  "sample_nds_header =
     replicate 0x20 0 @ [0, 2, 0, 0] @ replicate 8 0 @ [16, 0, 0, 0] @
     [0, 2, 0, 0] @ replicate 8 0 @ [16, 0, 0, 0] @
     replicate 0x80 0 @ gba_logo @ [0x56, 0xCF]"

definition sample_nds_rom :: bytes where
  "sample_nds_rom =
     (let crc = foldl (crc_byte 0xa001) (0xffff :: u16) sample_nds_header
      in sample_nds_header @ [ucast crc, ucast (drop_bit 8 crc)] @ replicate 0xEA0 0)"

lemma gb_checksum_zeros: "foldl gb_checksum_step c (replicate n 0) = c - of_nat n"
  by (induction n arbitrary: c) (simp_all add: gb_checksum_step_def)

lemma sample_gb_rom_ok: "gb_header_ok sample_gb_rom"
  by (simp add: gb_header_ok_def sample_gb_rom_def gb_checksum_zeros nth_append)

lemma sample_nds_header_length: "length sample_nds_header = 0x15e"
  by (simp add: sample_nds_header_def)

lemma sample_nds_rom_ok: "nds_header_ok sample_nds_rom"
proof -
  let ?crc = "foldl (crc_byte 0xa001) (0xffff :: u16) sample_nds_header"
  have rom: "sample_nds_rom =
      sample_nds_header @ [ucast ?crc, ucast (drop_bit 8 ?crc)] @ replicate 0xEA0 0"
    by (simp add: sample_nds_rom_def Let_def)
  have crc: "le16_at sample_nds_rom 0x15e = ?crc"
    by (simp add: le16_at_def rom nth_append sample_nds_header_length le16_split)
  have hdr: "sample_nds_rom ! i = sample_nds_header ! i" if "i < 0x15e" for i
    using that by (simp add: rom nth_append sample_nds_header_length)
  have logo: "take 156 (drop 0xc0 sample_nds_rom) = gba_logo"
    by (simp add: rom sample_nds_header_def)
  show ?thesis
    by (simp add: nds_header_ok_def crc logo nds_logo_crc)
      (simp add: rom sample_nds_header_length le16_at_def le32_at_def hdr nth_append
        sample_nds_header_def nds_section_is_valid_def)
qed

theorem detect_nds_sound_witness:
  "\<exists>d. dualboy_detect_content (Some sample_nds_rom) = Some d \<and>
       platform d = DUALBOY_PLATFORM_NDS \<and> le16_at sample_nds_rom 0x15c = 0xCF56 \<and>
       nds_crc16 sample_nds_rom 0 0x15e = Some (le16_at sample_nds_rom 0x15e)"
proof -
  have "0xC0 \<le> length sample_nds_rom" and "sample_nds_rom ! 0xB2 = 0"
    using sample_nds_rom_ok
    by (simp_all add: nds_header_ok_def sample_nds_rom_def Let_def sample_nds_header_def nth_append)
  then have d: "dualboy_detect_content (Some sample_nds_rom) =
      Some \<lparr>platform = DUALBOY_PLATFORM_NDS, error = DUALBOY_DETECT_OK, message = ''Nintendo DS''\<rparr>"
    using sample_nds_rom_ok by (simp add: detect_content_closed gba_header_ok_def)
  show ?thesis
    using detect_nds_sound [OF d] d by simp
qed

text \<open>
  A Game Boy image is neither of the others: its logo lies where a DS image has other bytes of its
  own logo, and no byte the GBA validator reads is in the checksummed region.
\<close>

lemma gb_logo_not_nds:
  assumes "take 48 (drop 0x104 data) = gb_logo" and "0x150 \<le> length data"
  shows "\<not> nds_header_ok data"
proof
  assume "nds_header_ok data"
  then have len: "0x1000 \<le> length data" and "take 156 (drop 0xc0 data) = gba_logo"
    by (simp_all add: nds_header_ok_def)
  then have "take 156 (drop 0xc0 data) ! 69 = gba_logo ! 69" by simp
  moreover have "take 48 (drop 0x104 data) ! 1 = gb_logo ! 1" using assms(1) by simp
  ultimately show False using len by (simp add: gba_logo_def gb_logo_def)
qed

lemma gba_header_prefix:
  assumes "0xC0 \<le> i"
  shows "gba_header_ok (data[i := v]) = gba_header_ok data"
proof -
  have "take 156 (drop 4 (data[i := v])) = take 156 (drop 4 data)"
    "take 29 (drop 0xA0 (data[i := v])) = take 29 (drop 0xA0 data)"
    using assms by (simp_all add: drop_update_swap)
  then show ?thesis using assms by (simp add: gba_header_ok_def)
qed

lemma gb_header_corrupted:
  assumes "gb_header_ok data" and "0x134 \<le> i" and "i \<le> 0x14C" and "v \<noteq> data ! i"
  shows "\<not> gb_header_ok (data[i := v])"
proof -
  from assms(1) have len: "0x150 \<le> length data"
    and sum: "foldl gb_checksum_step 0 (take 25 (drop 0x134 data)) = data ! 0x14D"
    by (simp_all add: gb_header_ok_def)
  let ?hdr = "take 25 (drop 0x134 data)"
  have "foldl gb_checksum_step 0 (?hdr[i - 0x134 := v]) \<noteq> foldl gb_checksum_step 0 ?hdr"
    using assms len by (intro gb_sum.single_byte_detected) simp_all
  moreover have "take 25 (drop 0x134 (data[i := v])) = ?hdr[i - 0x134 := v]"
    using assms len by (simp add: mem_simps)
  ultimately show ?thesis
    using sum assms by (simp add: gb_header_ok_def)
qed

text \<open>
  C5. The header checksum protects a Game Boy image: when an image is detected as a GB or GBC
  cartridge and any one byte of its checksummed region, 0x134 to 0x14C, is replaced by a different
  value, detection rejects it with an unknown header; it does not pass as any other platform either.
\<close>

theorem gb_header_corruption_rejected:
  assumes "dualboy_detect_content (Some data) = Some d"
    and "platform d = DUALBOY_PLATFORM_GB \<or> platform d = DUALBOY_PLATFORM_GBC"
    and "0x134 \<le> i" and "i \<le> 0x14C" and "v \<noteq> data ! i"
  shows "\<exists>d'. dualboy_detect_content (Some (data[i := v])) = Some d' \<and>
    platform d' = DUALBOY_PLATFORM_INVALID \<and> error d' = DUALBOY_DETECT_UNKNOWN_HEADER"
proof -
  have size: "0xC0 \<le> length data"
    using assms(1,2) by (auto simp: dualboy_detect_content_def unknown_header_def GBA_HEADER_END_def
        split: if_splits)
  then have gb: "gb_header_ok data" and gba: "\<not> gba_header_ok data"
    using assms(1,2) by (auto simp: detect_content_closed unknown_header_def split: if_splits)
  have len: "0x150 \<le> length data" and logo: "take 48 (drop 0x104 data) = gb_logo"
    using gb by (simp_all add: gb_header_ok_def)
  have "take 48 (drop 0x104 (data[i := v])) = gb_logo"
    using logo assms(3) by (simp add: drop_update_swap)
  then have "\<not> nds_header_ok (data[i := v])" by (rule gb_logo_not_nds) (simp add: len)
  moreover have "\<not> gba_header_ok (data[i := v])" using gba assms(3) by (simp add: gba_header_prefix)
  moreover have "\<not> gb_header_ok (data[i := v])" by (rule gb_header_corrupted [OF gb assms(3-5)])
  ultimately show ?thesis using size by (simp add: detect_content_closed unknown_header_def)
qed

theorem gb_header_corruption_rejected_witness:
  "(\<exists>d. dualboy_detect_content (Some sample_gb_rom) = Some d \<and> platform d = DUALBOY_PLATFORM_GB) \<and>
   (\<exists>d. dualboy_detect_content (Some (sample_gb_rom[0x143 := 0x80])) = Some d \<and>
      error d = DUALBOY_DETECT_UNKNOWN_HEADER)"
proof -
  have len: "length sample_gb_rom = 0x150" by (simp add: sample_gb_rom_def)
  have bytes: "sample_gb_rom ! 0x143 = 0" "sample_gb_rom ! 0xB2 = 0"
    by (simp_all add: sample_gb_rom_def nth_append)
  then have "\<not> gba_header_ok sample_gb_rom" "\<not> nds_header_ok sample_gb_rom"
    by (simp_all add: gba_header_ok_def nds_header_ok_def len)
  then have d: "dualboy_detect_content (Some sample_gb_rom) =
      Some \<lparr>platform = DUALBOY_PLATFORM_GB, error = DUALBOY_DETECT_OK, message = ''Game Boy''\<rparr>"
    by (simp add: detect_content_closed len bytes sample_gb_rom_ok)
  show ?thesis
    using gb_header_corruption_rejected [OF d, of "0x143" "0x80"] d by (auto simp: bytes)
qed

text \<open>
  C6. The header CRC of a Nintendo DS image protects its first 0x15E bytes: replacing any one
  of them by a different value makes the NDS validator reject the image.
\<close>

theorem nds_header_corruption_rejected:
  assumes "has_valid_nds_header data = Some True" and "0x1000 \<le> length data"
    and "i < 0x15E" and "v \<noteq> data ! i"
  shows "has_valid_nds_header (data[i := v]) = Some False"
proof -
  have ok: "nds_header_ok data"
    using assms(1,2) by (simp add: has_valid_nds_header_eq)
  let ?crc = "foldl (crc_byte (0xa001 :: u16)) 0xffff"
  have "?crc ((take 0x15e data)[i := v]) \<noteq> ?crc (take 0x15e data)"
    using assms by (intro crc16.single_byte_detected) simp_all
  moreover have "take 0x15e (data[i := v]) = (take 0x15e data)[i := v]"
    using assms by (simp add: take_update_swap)
  moreover have "le16_at (data[i := v]) 0x15e = ?crc (take 0x15e data)"
    using ok assms by (simp add: nds_header_ok_def le16_at_def)
  ultimately have "\<not> nds_header_ok (data[i := v])"
    by (simp add: nds_header_ok_def)
  then show ?thesis
    using assms(2) by (simp add: has_valid_nds_header_eq)
qed

theorem nds_header_corruption_rejected_witness:
  "has_valid_nds_header sample_nds_rom = Some True \<and>
   has_valid_nds_header (sample_nds_rom[0x12 := 3]) = Some False"
proof -
  have len: "0x1000 \<le> length sample_nds_rom"
    using sample_nds_rom_ok by (simp add: nds_header_ok_def)
  then have ok: "has_valid_nds_header sample_nds_rom = Some True"
    using sample_nds_rom_ok by (simp add: has_valid_nds_header_eq)
  have "(3 :: u8) \<noteq> sample_nds_rom ! 0x12"
    by (simp add: sample_nds_rom_def Let_def sample_nds_header_def nth_append)
  then show ?thesis
    using nds_header_corruption_rejected [OF ok len, of "0x12" 3] ok by simp
qed

text \<open>
  Compatibility of two cartridges is an equivalence on the supported platforms, every
  detected cartridge is compatible with itself, and it holds exactly for the pairs with the
  same engine family: GB and GBC pair with each other, GBA and NDS only with themselves.
\<close>

theorem platforms_compatible_iff:
  "dualboy_platforms_compatible p q \<longleftrightarrow>
     (p = q \<and> p \<noteq> DUALBOY_PLATFORM_INVALID) \<or>
     {p, q} = {DUALBOY_PLATFORM_GB, DUALBOY_PLATFORM_GBC}"
  by (cases p; cases q) (auto simp: dualboy_platforms_compatible_def)

end
