(* ===== verification/Touch_Cursor.thy ===== *)
theory Touch_Cursor
  imports Prelude
begin

text \<open>
  The analog-stick aiming cursor, \<open>src/frontend/touch_cursor.c\<close>. Coordinates are 16-bit,
  times 64-bit microseconds and the inactive-frame counter a 32-bit \<open>unsigned\<close>, all with
  their wrap-around. A null cursor is \<open>None\<close>.
\<close>

section \<open>Definitions\<close>

definition DUALBOY_TOUCH_CURSOR_TIMEOUT_USEC :: u64 where
  "DUALBOY_TOUCH_CURSOR_TIMEOUT_USEC = 3000000"

definition DUALBOY_TOUCH_CURSOR_FALLBACK_FRAMES :: u32 where
  "DUALBOY_TOUCH_CURSOR_FALLBACK_FRAMES = 180"

definition DUALBOY_TOUCH_CURSOR_MOTION_PIXELS :: u32 where
  "DUALBOY_TOUCH_CURSOR_MOTION_PIXELS = 2"

lemmas cursor_constants =
  DUALBOY_TOUCH_CURSOR_TIMEOUT_USEC_def DUALBOY_TOUCH_CURSOR_FALLBACK_FRAMES_def
  DUALBOY_TOUCH_CURSOR_MOTION_PIXELS_def

record dualboy_touch_cursor =
  cx :: u16
  cy :: u16
  activity_x :: u16
  activity_y :: u16
  last_activity_usec :: u64
  inactive_frames :: u32
  sampled :: bool
  pressed :: bool
  visible :: bool
  using_clock :: bool

definition coordinate_distance :: "u16 \<Rightarrow> u16 \<Rightarrow> u32" where
  "coordinate_distance first second =
     (if first \<ge> second then ucast (first - second) else ucast (second - first))"

definition zero_cursor :: dualboy_touch_cursor where
  "zero_cursor =
     \<lparr>cx = 0, cy = 0, activity_x = 0, activity_y = 0, last_activity_usec = 0,
      inactive_frames = 0, sampled = False, pressed = False, visible = False,
      using_clock = False\<rparr>"

definition dualboy_touch_cursor_reset ::
  "dualboy_touch_cursor option \<Rightarrow> dualboy_touch_cursor option" where
  "dualboy_touch_cursor_reset cursor = map_option (\<lambda>_. zero_cursor) cursor"

text \<open>The two halves of the update: taking the sample, and ageing a visible cursor.\<close>

definition sample_cursor ::
  "dualboy_touch_cursor \<Rightarrow> u16 \<Rightarrow> u16 \<Rightarrow> bool \<Rightarrow> bool \<Rightarrow> dualboy_touch_cursor \<times> bool" where
  "sample_cursor cursor x y initially_deflected press =
     (if \<not> sampled cursor
      then (cursor\<lparr>sampled := True, cx := x, cy := y, activity_x := x, activity_y := y\<rparr>,
            initially_deflected \<or> press)
      else (cursor\<lparr>cx := x, cy := y\<rparr>,
            coordinate_distance x (activity_x cursor) \<ge> DUALBOY_TOUCH_CURSOR_MOTION_PIXELS \<or>
            coordinate_distance y (activity_y cursor) \<ge> DUALBOY_TOUCH_CURSOR_MOTION_PIXELS \<or>
            press \<and> \<not> pressed cursor))"

definition age_cursor ::
  "dualboy_touch_cursor \<Rightarrow> bool \<Rightarrow> u64 \<Rightarrow> dualboy_touch_cursor" where
  "age_cursor cursor time_available now_usec =
     (if time_available
      then if \<not> using_clock cursor \<or> now_usec < last_activity_usec cursor
           then cursor\<lparr>last_activity_usec := now_usec, inactive_frames := 0, using_clock := True\<rparr>
           else if now_usec - last_activity_usec cursor \<ge> DUALBOY_TOUCH_CURSOR_TIMEOUT_USEC
           then cursor\<lparr>visible := False\<rparr>
           else cursor
      else if using_clock cursor
           then cursor\<lparr>inactive_frames := 0, using_clock := False\<rparr>
           else let frames = inactive_frames cursor + 1;
                    counted = cursor\<lparr>inactive_frames := frames\<rparr>
                in if frames \<ge> DUALBOY_TOUCH_CURSOR_FALLBACK_FRAMES
                   then counted\<lparr>visible := False\<rparr> else counted)"

definition update_cursor ::
  "dualboy_touch_cursor \<Rightarrow> u16 \<Rightarrow> u16 \<Rightarrow> bool \<Rightarrow> bool \<Rightarrow> bool \<Rightarrow> u64 \<Rightarrow> dualboy_touch_cursor" where
  "update_cursor cursor x y initially_deflected press time_available now_usec =
     (let (c, activity) = sample_cursor cursor x y initially_deflected press;
          c = c\<lparr>pressed := press\<rparr>
      in if activity
         then c\<lparr>activity_x := x, activity_y := y, last_activity_usec := now_usec,
                inactive_frames := 0, using_clock := time_available, visible := True\<rparr>
         else if \<not> visible c then c
         else age_cursor c time_available now_usec)"

definition dualboy_touch_cursor_update ::
  "dualboy_touch_cursor option \<Rightarrow> u16 \<Rightarrow> u16 \<Rightarrow> bool \<Rightarrow> bool \<Rightarrow> bool \<Rightarrow> u64
   \<Rightarrow> dualboy_touch_cursor option" where
  "dualboy_touch_cursor_update cursor x y initially_deflected press time_available now_usec =
     map_option (\<lambda>c. update_cursor c x y initially_deflected press time_available now_usec) cursor"

definition dualboy_touch_cursor_visible :: "dualboy_touch_cursor option \<Rightarrow> bool" where
  "dualboy_touch_cursor_visible cursor = (case cursor of None \<Rightarrow> False | Some c \<Rightarrow> visible c)"

section \<open>Reachable cursors\<close>

text \<open>The states a cursor goes through between a reset and the next one.\<close>

inductive cursor_reachable :: "dualboy_touch_cursor \<Rightarrow> bool" where
  reset: "cursor_reachable zero_cursor"
| update: "cursor_reachable c \<Longrightarrow> cursor_reachable (update_cursor c x y d p t now)"

definition cursor_inv :: "dualboy_touch_cursor \<Rightarrow> bool" where
  "cursor_inv c \<longleftrightarrow>
     (visible c \<longrightarrow> sampled c \<and> inactive_frames c < DUALBOY_TOUCH_CURSOR_FALLBACK_FRAMES) \<and>
     coordinate_distance (cx c) (activity_x c) < DUALBOY_TOUCH_CURSOR_MOTION_PIXELS \<and>
     coordinate_distance (cy c) (activity_y c) < DUALBOY_TOUCH_CURSOR_MOTION_PIXELS"

lemma coordinate_distance_self [simp]: "coordinate_distance x x = 0"
  by (simp add: coordinate_distance_def)

lemmas update_cursor_defs = update_cursor_def sample_cursor_def age_cursor_def Let_def

lemma update_cursor_inv:
  assumes "cursor_inv c"
  shows "cursor_inv (update_cursor c x y d p t now)"
  using assms
  by (auto simp: cursor_inv_def update_cursor_defs cursor_constants not_le)

lemma cursor_reachable_inv: "cursor_reachable c \<Longrightarrow> cursor_inv c"
proof (induction rule: cursor_reachable.induct)
  case reset
  show ?case by (simp add: cursor_inv_def zero_cursor_def cursor_constants)
next
  case (update c x y d p t now)
  then show ?case by (simp add: update_cursor_inv)
qed

section \<open>Idle runs\<close>

text \<open>
  A sample is idle when it is not activity: it stays within the motion threshold of the last
  activity point and does not start a press. A run is idle when each sample is, in the state
  it is applied to.
\<close>

definition idle_sample :: "dualboy_touch_cursor \<Rightarrow> u16 \<Rightarrow> u16 \<Rightarrow> bool \<Rightarrow> bool" where
  "idle_sample c x y p \<longleftrightarrow> sampled c \<and> \<not> snd (sample_cursor c x y False p)"

fun idle_run ::
  "dualboy_touch_cursor \<Rightarrow> (u16 \<times> u16 \<times> bool \<times> bool \<times> u64) list \<Rightarrow> bool" where
  "idle_run c [] = True"
| "idle_run c ((x, y, p, t, now) # ss) =
     (idle_sample c x y p \<and> idle_run (update_cursor c x y False p t now) ss)"

fun cursor_run ::
  "dualboy_touch_cursor \<Rightarrow> (u16 \<times> u16 \<times> bool \<times> bool \<times> u64) list \<Rightarrow> dualboy_touch_cursor" where
  "cursor_run c [] = c"
| "cursor_run c ((x, y, p, t, now) # ss) = cursor_run (update_cursor c x y False p t now) ss"

lemma update_idle:
  assumes "idle_sample c x y p"
  shows "update_cursor c x y False p t now =
    (let c' = c\<lparr>cx := x, cy := y, pressed := p\<rparr>
     in if visible c then age_cursor c' t now else c')"
  using assms by (auto simp: idle_sample_def update_cursor_def sample_cursor_def Let_def)

lemma idle_hidden_stays:
  "\<not> visible c \<Longrightarrow> idle_run c ss \<Longrightarrow> \<not> visible (cursor_run c ss)"
proof (induction c ss rule: idle_run.induct)
  case (2 c x y p t now ss)
  then have "\<not> visible (update_cursor c x y False p t now)"
    by (simp add: update_idle Let_def)
  with 2 show ?case by simp
qed simp

lemma idle_frames_count:
  assumes "visible c" and "\<not> using_clock c" and "inactive_frames c = of_nat k" and "k < 180"
    and "idle_run c ss" and "\<forall>(x, y, p, t, now) \<in> set ss. \<not> t"
  shows "visible (cursor_run c ss) \<longleftrightarrow> k + length ss < 180"
  using assms
proof (induction ss arbitrary: c k)
  case Nil
  then show ?case by simp
next
  case (Cons s ss)
  obtain x y p t now where s: "s = (x, y, p, t, now)" by (cases s)
  let ?c = "update_cursor c x y False p t now"
  have frames: "(180 :: u32) \<le> of_nat (Suc k) \<longleftrightarrow> \<not> Suc k < 180"
  proof -
    have "unat (of_nat (Suc k) :: u32) = Suc k"
      using Cons.prems(4) by (simp only: unat_of_nat) (simp add: take_bit_nat_eq_self)
    moreover have "unat (180 :: u32) = 180" by simp
    ultimately show ?thesis by (simp only: word_le_nat_alt not_less)
  qed
  have next_c: "?c = (let c' = c\<lparr>cx := x, cy := y, pressed := p, inactive_frames := of_nat (Suc k)\<rparr>
      in if Suc k < 180 then c' else c'\<lparr>visible := False\<rparr>)"
    using Cons.prems unfolding s
    using frames by (auto simp: update_idle age_cursor_def Let_def cursor_constants add.commute)
  have run: "idle_run ?c ss" using Cons.prems(5) s by simp
  show ?case
  proof (cases "Suc k < 180")
    case True
    then have "visible (cursor_run ?c ss) \<longleftrightarrow> Suc k + length ss < 180"
      using Cons.prems run by (intro Cons.IH) (simp_all add: next_c Let_def)
    then show ?thesis by (simp add: s)
  next
    case False
    then have "\<not> visible (cursor_run ?c ss)"
      using run by (intro idle_hidden_stays) (simp_all add: next_c Let_def)
    then show ?thesis using False by (simp add: s)
  qed
qed

text \<open>A run under a clock that does not go backwards past the last activity.\<close>

lemma idle_clock_times:
  assumes "visible c" and "using_clock c" and "idle_run c ss"
    and "\<forall>(x, y, p, t, now) \<in> set ss. t \<and> last_activity_usec c \<le> now"
  shows "visible (cursor_run c ss) \<longleftrightarrow>
    (\<forall>(x, y, p, t, now) \<in> set ss. now - last_activity_usec c < DUALBOY_TOUCH_CURSOR_TIMEOUT_USEC)"
  using assms
proof (induction ss arbitrary: c)
  case Nil
  then show ?case by simp
next
  case (Cons s ss)
  obtain x y p t now where s: "s = (x, y, p, t, now)" by (cases s)
  let ?c = "update_cursor c x y False p t now"
  let ?late = "DUALBOY_TOUCH_CURSOR_TIMEOUT_USEC \<le> now - last_activity_usec c"
  have next_c: "?c = (let c' = c\<lparr>cx := x, cy := y, pressed := p\<rparr>
      in if ?late then c'\<lparr>visible := False\<rparr> else c')"
    using Cons.prems unfolding s by (auto simp: update_idle age_cursor_def Let_def)
  have run: "idle_run ?c ss" using Cons.prems(3) s by simp
  show ?case
  proof (cases ?late)
    case True
    then have "\<not> visible (cursor_run ?c ss)"
      using run by (intro idle_hidden_stays) (simp_all add: next_c Let_def)
    then show ?thesis using True by (auto simp: s not_less)
  next
    case False
    then have "visible (cursor_run ?c ss) \<longleftrightarrow> (\<forall>(x, y, p, t, now) \<in> set ss.
        now - last_activity_usec ?c < DUALBOY_TOUCH_CURSOR_TIMEOUT_USEC)"
      using Cons.prems run by (intro Cons.IH) (auto simp: next_c Let_def)
    moreover have "last_activity_usec ?c = last_activity_usec c"
      by (simp add: next_c Let_def)
    ultimately show ?thesis using False by (simp add: s not_le)
  qed
qed

section \<open>Properties\<close>

text \<open>
  C12. In every reachable state the drawn aim point is within the two-pixel motion threshold
  of the last activity point in both coordinates, and a visible cursor has been sampled and has
  fewer than 180 inactive frames, so its frame counter never wraps.
\<close>

theorem touch_cursor_invariant:
  assumes "cursor_reachable c"
  shows "(visible c \<longrightarrow> sampled c \<and> unat (inactive_frames c) < 180) \<and>
    coordinate_distance (cx c) (activity_x c) < 2 \<and> coordinate_distance (cy c) (activity_y c) < 2"
  using cursor_reachable_inv [OF assms]
  by (auto simp: cursor_inv_def cursor_constants word_less_nat_alt)

theorem touch_cursor_invariant_witness:
  "cursor_reachable (update_cursor zero_cursor 10 20 True False False 0) \<and>
   visible (update_cursor zero_cursor 10 20 True False False 0) \<and>
   unat (inactive_frames (update_cursor zero_cursor 10 20 True False False 0)) < 180"
proof -
  have reach: "cursor_reachable (update_cursor zero_cursor 10 20 True False False 0)"
    by (intro cursor_reachable.intros)
  moreover have "visible (update_cursor zero_cursor 10 20 True False False 0)"
    by (simp add: update_cursor_defs zero_cursor_def)
  ultimately show ?thesis
    using touch_cursor_invariant [OF reach] by simp
qed

text \<open>
  Without a clock, a cursor that has just been active stays visible for exactly 179 idle
  frames and is hidden by the 180th: after any run of idle samples it is visible exactly when
  the run is shorter than \<open>DUALBOY_TOUCH_CURSOR_FALLBACK_FRAMES\<close>.
\<close>

theorem touch_cursor_frame_timeout:
  assumes "visible c" and "\<not> using_clock c" and "inactive_frames c = 0"
    and "idle_run c ss" and "\<forall>(x, y, p, t, now) \<in> set ss. \<not> t"
  shows "dualboy_touch_cursor_visible (Some (cursor_run c ss)) \<longleftrightarrow> length ss < 180"
  using idle_frames_count [of c 0 ss] assms by (simp add: dualboy_touch_cursor_visible_def)

theorem touch_cursor_frame_timeout_witness:
  "let c = update_cursor zero_cursor 10 20 True False False 0
   in idle_run c [(11, 20, False, False, 0)] \<and>
      dualboy_touch_cursor_visible (Some (cursor_run c [(11, 20, False, False, 0)]))"
proof -
  let ?c = "update_cursor zero_cursor 10 20 True False False 0"
  have c: "visible ?c" "\<not> using_clock ?c" "inactive_frames ?c = 0"
    by (simp_all add: update_cursor_defs zero_cursor_def)
  have idle: "idle_run ?c [(11, 20, False, False, 0)]"
    by (simp add: idle_sample_def update_cursor_defs zero_cursor_def coordinate_distance_def
        cursor_constants word_le_nat_alt)
  show ?thesis
    using touch_cursor_frame_timeout [OF c idle] idle by (simp add: Let_def)
qed

text \<open>
  C13. With a clock that never reads earlier than the last activity, idle samples keep the
  cursor visible exactly as long as every one of them comes less than three seconds after it;
  once hidden it stays hidden.
\<close>

theorem touch_cursor_clock_timeout:
  assumes "visible c" and "using_clock c" and "idle_run c ss"
    and "\<forall>(x, y, p, t, now) \<in> set ss. t \<and> last_activity_usec c \<le> now"
  shows "dualboy_touch_cursor_visible (Some (cursor_run c ss)) \<longleftrightarrow>
    (\<forall>(x, y, p, t, now) \<in> set ss. unat now < unat (last_activity_usec c) + 3000000)"
proof -
  have "unat (now - last_activity_usec c) = unat now - unat (last_activity_usec c)"
    and "unat (last_activity_usec c) \<le> unat now"
    if "last_activity_usec c \<le> now" for now
    using that by (simp_all add: unat_sub word_le_nat_alt)
  then have "now - last_activity_usec c < DUALBOY_TOUCH_CURSOR_TIMEOUT_USEC \<longleftrightarrow>
      unat now < unat (last_activity_usec c) + 3000000"
    if "last_activity_usec c \<le> now" for now
    using that by (auto simp: word_less_nat_alt cursor_constants)
  then show ?thesis
    using idle_clock_times [OF assms] assms(4)
    by (fastforce simp: dualboy_touch_cursor_visible_def)
qed

theorem touch_cursor_clock_timeout_witness:
  "let c = update_cursor zero_cursor 10 20 True False True 1000
   in idle_run c [(10, 20, False, True, 3001000)] \<and>
      \<not> dualboy_touch_cursor_visible (Some (cursor_run c [(10, 20, False, True, 3001000)]))"
proof -
  let ?c = "update_cursor zero_cursor 10 20 True False True 1000"
  have c: "visible ?c" "using_clock ?c" "last_activity_usec ?c = 1000"
    by (simp_all add: update_cursor_defs zero_cursor_def)
  have idle: "idle_run ?c [(10, 20, False, True, 3001000)]"
    by (simp add: idle_sample_def update_cursor_defs zero_cursor_def cursor_constants)
  show ?thesis
    using touch_cursor_clock_timeout [OF c(1,2) idle] idle by (simp add: Let_def c(3))
qed

end
