(* ===== verification/Compositor.thy ===== *)
theory Compositor
  imports Engine
begin

text \<open>
  The compositor, \<open>src/frontend/compositor.c\<close>: output geometry, the two coordinate
  mappings between the composed image and the machines, frame composition and the aiming
  reticle. Dimensions and coordinates are 32-bit \<open>unsigned\<close> values with their wrap-around;
  pixel memory is a byte buffer and rows are copied byte for byte through the checked
  accessors of the prelude, so a copy outside a buffer is \<open>None\<close>.

  Pointers to structures are modelled by the structures, so the guards against a null
  \<open>frames\<close>, \<open>config\<close> or output pointer have no counterpart. The aspect ratio is a function
  of the two dimensions and is not stored.
\<close>

section \<open>Definitions\<close>

datatype dualboy_display_mode =
    DUALBOY_MODE_DUAL
  | DUALBOY_MODE_PLAYER1
  | DUALBOY_MODE_PLAYER2

datatype dualboy_layout =
    DUALBOY_LAYOUT_SIDE_BY_SIDE
  | DUALBOY_LAYOUT_TOP_BOTTOM

record dualboy_compositor_config =
  mode :: dualboy_display_mode
  layout :: dualboy_layout
  swap_screens :: bool

record dualboy_geometry =
  gwidth :: u32
  gheight :: u32

text \<open>The array \<open>frames[2]\<close>.\<close>

type_synonym frames = "dualboy_video_frame \<times> dualboy_video_frame"

definition frame_at :: "frames \<Rightarrow> nat \<Rightarrow> dualboy_video_frame" where
  "frame_at frames m = (if m = 0 then fst frames else snd frames)"

definition dualboy_machine_for_screen :: "nat \<Rightarrow> bool \<Rightarrow> nat" where
  "dualboy_machine_for_screen screen swap =
     (if screen \<ge> DUALBOY_MACHINE_COUNT then DUALBOY_MACHINE_COUNT
      else if swap then DUALBOY_MACHINE_COUNT - 1 - screen else screen)"

definition valid_frame :: "dualboy_video_frame \<Rightarrow> bool" where
  "valid_frame frame \<longleftrightarrow>
     pixels frame \<noteq> None \<and> width frame > 0 \<and> height frame > 0 \<and>
     pitch frame \<ge> unat (width frame) * 4"

definition selected_machine :: "dualboy_compositor_config \<Rightarrow> nat" where
  "selected_machine config = (if mode config = DUALBOY_MODE_PLAYER2 then 1 else 0)"

definition screen_for_machine :: "nat \<Rightarrow> bool \<Rightarrow> nat" where
  "screen_for_machine machine swap =
     (if machine \<ge> DUALBOY_MACHINE_COUNT then DUALBOY_MACHINE_COUNT
      else if swap then DUALBOY_MACHINE_COUNT - 1 - machine else machine)"

definition dualboy_compositor_geometry ::
  "frames \<Rightarrow> dualboy_compositor_config \<Rightarrow> dualboy_geometry option" where
  "dualboy_compositor_geometry frames config =
     (if \<not> valid_frame (frame_at frames 0) \<or> \<not> valid_frame (frame_at frames 1) then None
      else if mode config \<noteq> DUALBOY_MODE_DUAL
      then let first = frame_at frames (selected_machine config)
           in Some \<lparr>gwidth = width first, gheight = height first\<rparr>
      else let first = frame_at frames (dualboy_machine_for_screen 0 (swap_screens config));
               second = frame_at frames (dualboy_machine_for_screen 1 (swap_screens config))
           in if width first \<noteq> width second \<or> height first \<noteq> height second then None
              else if layout config = DUALBOY_LAYOUT_TOP_BOTTOM
              then Some \<lparr>gwidth = width first, gheight = height first + height second\<rparr>
              else Some \<lparr>gwidth = width first + width second, gheight = height first\<rparr>)"

definition dualboy_compositor_map_point ::
  "frames \<Rightarrow> dualboy_compositor_config \<Rightarrow> u32 \<Rightarrow> u32 \<Rightarrow> (nat \<times> u32 \<times> u32) option" where
  "dualboy_compositor_map_point frames config composite_x composite_y =
     (case dualboy_compositor_geometry frames config of
        None \<Rightarrow> None
      | Some geometry \<Rightarrow>
        if composite_x \<ge> gwidth geometry \<or> composite_y \<ge> gheight geometry then None
        else let first = dualboy_machine_for_screen 0 (swap_screens config);
                 (machine, local_x, local_y) =
                   (if mode config = DUALBOY_MODE_PLAYER1 then (0, composite_x, composite_y)
                    else if mode config = DUALBOY_MODE_PLAYER2 then (1, composite_x, composite_y)
                    else if layout config = DUALBOY_LAYOUT_TOP_BOTTOM
                    then if composite_y \<ge> height (frame_at frames first)
                         then (dualboy_machine_for_screen 1 (swap_screens config), composite_x,
                               composite_y - height (frame_at frames first))
                         else (dualboy_machine_for_screen 0 (swap_screens config),
                               composite_x, composite_y)
                    else if composite_x \<ge> width (frame_at frames first)
                         then (dualboy_machine_for_screen 1 (swap_screens config),
                               composite_x - width (frame_at frames first), composite_y)
                         else (dualboy_machine_for_screen 0 (swap_screens config),
                               composite_x, composite_y))
             in if machine \<ge> DUALBOY_MACHINE_COUNT \<or>
                   local_x \<ge> width (frame_at frames machine) \<or>
                   local_y \<ge> height (frame_at frames machine)
                then None
                else Some (machine, local_x, local_y))"

definition dualboy_compositor_project_point ::
  "frames \<Rightarrow> dualboy_compositor_config \<Rightarrow> nat \<Rightarrow> u32 \<Rightarrow> u32 \<Rightarrow> (u32 \<times> u32) option" where
  "dualboy_compositor_project_point frames config machine machine_x machine_y =
     (if machine \<ge> DUALBOY_MACHINE_COUNT then None
      else case dualboy_compositor_geometry frames config of
        None \<Rightarrow> None
      | Some geometry \<Rightarrow>
        if mode config = DUALBOY_MODE_PLAYER1 \<and> machine \<noteq> 0 \<or>
           mode config = DUALBOY_MODE_PLAYER2 \<and> machine \<noteq> 1 then None
        else if machine_x \<ge> width (frame_at frames machine) \<or>
                machine_y \<ge> height (frame_at frames machine) then None
        else let screen = screen_for_machine machine (swap_screens config);
                 first = frame_at frames (dualboy_machine_for_screen 0 (swap_screens config));
                 (x, y) =
                   (if mode config = DUALBOY_MODE_DUAL \<and> screen = 1
                    then if layout config = DUALBOY_LAYOUT_TOP_BOTTOM
                         then (machine_x, machine_y + height first)
                         else (machine_x + width first, machine_y)
                    else (machine_x, machine_y))
             in if x \<ge> gwidth geometry \<or> y \<ge> gheight geometry then None else Some (x, y))"

text \<open>
  \<open>copy_row\<close> copies row \<open>row\<close> of the source frame to byte offset \<open>dst\<close> of the output.
\<close>

definition copy_row :: "bytes \<Rightarrow> nat \<Rightarrow> dualboy_video_frame \<Rightarrow> u32 \<Rightarrow> bytes option" where
  "copy_row output dst source row = do {
     source_bytes \<leftarrow> pixels source;
     row_bytes \<leftarrow> slice source_bytes (unat row * pitch source) (unat (width source) * 4);
     blit output dst row_bytes
   }"

definition rows_below :: "u32 \<Rightarrow> u32 list" where
  "rows_below n = map of_nat [0..<unat n]"

text \<open>
  The outer option is the memory access check; the returned frame is \<open>None\<close> where the code
  returns false (the output is then untouched).
\<close>

definition dualboy_compose_frame ::
  "bytes \<Rightarrow> nat \<Rightarrow> frames \<Rightarrow> dualboy_compositor_config
   \<Rightarrow> (bytes \<times> dualboy_video_frame option) option" where
  "dualboy_compose_frame output output_pixels frames config =
     (case dualboy_compositor_geometry frames config of
        None \<Rightarrow> Some (output, None)
      | Some geometry \<Rightarrow>
        if output_pixels < unat (gwidth geometry) * unat (gheight geometry)
        then Some (output, None)
        else do {
          output' \<leftarrow>
            (if mode config \<noteq> DUALBOY_MODE_DUAL
             then let first = frame_at frames (selected_machine config)
                  in fold_opt (\<lambda>row out. copy_row out (4 * (unat row * unat (gwidth geometry))) first row)
                       (rows_below (height first)) output
             else let first = frame_at frames (dualboy_machine_for_screen 0 (swap_screens config));
                      second = frame_at frames (dualboy_machine_for_screen 1 (swap_screens config))
                  in if layout config = DUALBOY_LAYOUT_TOP_BOTTOM
                     then do {
                       out1 \<leftarrow> fold_opt (\<lambda>row out.
                           copy_row out (4 * (unat row * unat (gwidth geometry))) first row)
                         (rows_below (height first)) output;
                       fold_opt (\<lambda>row out.
                           copy_row out (4 * (unat (row + height first) * unat (gwidth geometry)))
                             second row)
                         (rows_below (height second)) out1
                     }
                     else fold_opt (\<lambda>row out. do {
                         out1 \<leftarrow> copy_row out (4 * (unat row * unat (gwidth geometry))) first row;
                         copy_row out1
                           (4 * (unat row * unat (gwidth geometry) + unat (width first))) second row
                       }) (rows_below (gheight geometry)) output);
          Some (output', Some \<lparr>pixels = Some output', width = gwidth geometry,
                               height = gheight geometry, pitch = unat (gwidth geometry) * 4\<rparr>)
        })"

text \<open>
  The reticle: the colour the code chooses for one offset from the centre, \<open>None\<close> where it
  draws nothing. Later conditions overwrite the colour of earlier ones.
\<close>

definition cursor_color :: "u32 \<Rightarrow> int \<Rightarrow> int \<Rightarrow> u32 option" where
  "cursor_color accent offset_x offset_y =
     (let absolute_x = (if offset_x < 0 then - offset_x else offset_x);
          absolute_y = (if offset_y < 0 then - offset_y else offset_y);
          distance_squared = offset_x * offset_x + offset_y * offset_y;
          ring =
            (if distance_squared \<ge> 46 \<and> distance_squared \<le> 68 then Some 0
             else if distance_squared \<ge> 30 \<and> distance_squared \<le> 45 then Some 0x00ffffff
             else None);
          ticks =
            (if absolute_x \<le> 1 \<and> absolute_y \<le> 8 \<or> absolute_y \<le> 1 \<and> absolute_x \<le> 8
             then if (offset_x = 0 \<or> offset_y = 0) \<and> (absolute_x \<ge> 3 \<or> absolute_y \<ge> 3)
                  then Some 0x00ffffff else Some 0
             else ring)
      in if absolute_x \<le> 2 \<and> absolute_y \<le> 2
         then if absolute_x \<le> 1 \<and> absolute_y \<le> 1 then Some (accent AND 0x00ffffff) else Some 0
         else ticks)"

text \<open>The bytes of a pixel in memory on the (little-endian) reference target.\<close>

definition pixel_bytes :: "u32 \<Rightarrow> bytes" where
  "pixel_bytes c = [ucast c, ucast (drop_bit 8 c), ucast (drop_bit 16 c), ucast (drop_bit 24 c)]"

definition draw_cursor_pixel ::
  "u32 \<Rightarrow> u32 \<Rightarrow> size_t \<Rightarrow> u32 \<Rightarrow> u32 \<Rightarrow> u32 \<Rightarrow> int \<Rightarrow> int \<Rightarrow> bytes \<Rightarrow> bytes option" where
  "draw_cursor_pixel w h stride center_x center_y accent offset_y offset_x out =
     (let pixel_y = int (unat center_y) + offset_y;
          pixel_x = int (unat center_x) + offset_x
      in if pixel_y < 0 \<or> pixel_y \<ge> int (unat h) then Some out
         else if pixel_x < 0 \<or> pixel_x \<ge> int (unat w) then Some out
         else case cursor_color accent offset_x offset_y of
                None \<Rightarrow> Some out
              | Some color \<Rightarrow> blit out (nat pixel_y * stride + nat pixel_x * 4) (pixel_bytes color))"

definition dualboy_compositor_draw_cursor ::
  "bytes option \<Rightarrow> u32 \<Rightarrow> u32 \<Rightarrow> size_t \<Rightarrow> u32 \<Rightarrow> u32 \<Rightarrow> u32 \<Rightarrow> (bool \<times> bytes option) option" where
  "dualboy_compositor_draw_cursor output w h stride center_x center_y accent =
     (case output of
        None \<Rightarrow> Some (False, None)
      | Some out \<Rightarrow>
        if w = 0 \<or> h = 0 then Some (False, Some out)
        else let row_bytes = unat w * 4
             in if row_bytes div 4 \<noteq> unat w \<or> stride < row_bytes \<or>
                   center_x \<ge> w \<or> center_y \<ge> h
                then Some (False, Some out)
                else do {
                  out' \<leftarrow> fold_opt (\<lambda>offset_y.
                      fold_opt (draw_cursor_pixel w h stride center_x center_y accent offset_y)
                        [-8..8])
                    [-8..8] out;
                  Some (True, Some out')
                })"

section \<open>Coordinate mappings\<close>

text \<open>Frames whose doubled dimensions fit a 32-bit \<open>unsigned\<close>.\<close>

definition frames_fit :: "frames \<Rightarrow> bool" where
  "frames_fit frames \<longleftrightarrow>
     (\<forall>m < 2. unat (width (frame_at frames m)) < 2 ^ 31 \<and>
             unat (height (frame_at frames m)) < 2 ^ 31)"

lemma machine_for_screen_simps [simp]:
  "dualboy_machine_for_screen 0 s = (if s then 1 else 0)"
  "dualboy_machine_for_screen (Suc 0) s = (if s then 0 else 1)"
  by (simp_all add: dualboy_machine_for_screen_def)

lemma screen_machine_inverse:
  "m < 2 \<Longrightarrow> screen_for_machine (dualboy_machine_for_screen m s) s = m"
  by (erule less_2_cases_nat) (auto simp: screen_for_machine_def)

lemma unat_double:
  assumes "unat (w :: u32) < 2 ^ 31"
  shows "unat (2 * w) = 2 * unat w"
proof -
  have "unat (w + w) = unat w + unat w"
    using assms by (subst unat_add_lem [THEN iffD1]) simp_all
  then show ?thesis by (simp only: mult_2)
qed

lemma double_split:
  fixes w x :: u32
  assumes "unat w < 2 ^ 31"
  shows "x < w \<Longrightarrow> x < 2 * w" and "x < w \<Longrightarrow> x + w < 2 * w" and "x < w \<Longrightarrow> w \<le> x + w"
    and "x < 2 * w \<Longrightarrow> w \<le> x \<Longrightarrow> x - w < w"
proof -
  note dbl = unat_double [OF assms]
  have add: "unat (x + w) = unat x + unat w" if "x < w"
    using that assms by (subst unat_add_lem [THEN iffD1]) (simp_all add: word_less_nat_alt)
  show "x < w \<Longrightarrow> x < 2 * w" by (simp add: word_less_nat_alt dbl)
  show "x < w \<Longrightarrow> x + w < 2 * w" using add by (simp add: word_less_nat_alt dbl)
  show "x < w \<Longrightarrow> w \<le> x + w" using add by (simp add: word_le_nat_alt)
  show "x < 2 * w \<Longrightarrow> w \<le> x \<Longrightarrow> x - w < w"
    by (simp add: word_less_nat_alt word_le_nat_alt unat_sub dbl)
qed

text \<open>
  The geometry succeeds in three shapes: one selected machine, or two machines of equal
  dimensions stacked in one of the two layouts.
\<close>

definition dual_dims :: "frames \<Rightarrow> u32 \<Rightarrow> u32 \<Rightarrow> bool" where
  "dual_dims frames w h \<longleftrightarrow> valid_frame (fst frames) \<and> valid_frame (snd frames) \<and>
     width (fst frames) = w \<and> width (snd frames) = w \<and>
     height (fst frames) = h \<and> height (snd frames) = h"

lemma frame_at_simps [simp]: "frame_at frames 0 = fst frames" "frame_at frames (Suc n) = snd frames"
  by (simp_all add: frame_at_def)

lemma frame_at_if [simp]: "frame_at frames (if b then m else n) = (if b then frame_at frames m else frame_at frames n)"
  by simp

lemma geometry_single:
  assumes "mode config \<noteq> DUALBOY_MODE_DUAL"
  shows "dualboy_compositor_geometry frames config =
    (if valid_frame (fst frames) \<and> valid_frame (snd frames)
     then Some \<lparr>gwidth = width (frame_at frames (selected_machine config)),
                gheight = height (frame_at frames (selected_machine config))\<rparr>
     else None)"
  using assms by (simp add: dualboy_compositor_geometry_def Let_def)

lemma geometry_dual:
  assumes "mode config = DUALBOY_MODE_DUAL" and "dual_dims frames w h"
  shows "dualboy_compositor_geometry frames config =
    Some (if layout config = DUALBOY_LAYOUT_TOP_BOTTOM then \<lparr>gwidth = w, gheight = 2 * h\<rparr>
          else \<lparr>gwidth = 2 * w, gheight = h\<rparr>)"
  using assms by (simp add: dualboy_compositor_geometry_def dual_dims_def Let_def)

lemma geometry_dual_Some:
  assumes "dualboy_compositor_geometry frames config = Some g" and "mode config = DUALBOY_MODE_DUAL"
  shows "dual_dims frames (width (fst frames)) (height (fst frames))"
  using assms by (auto simp: dualboy_compositor_geometry_def dual_dims_def Let_def split: if_splits)

lemma double_shift:
  fixes w x :: u32
  assumes "unat w < 2 ^ 31"
  shows "x < 2 * w \<and> w \<le> x \<and> x - w = mx \<longleftrightarrow> mx < w \<and> x = mx + w"
    and "x < 2 * w \<and> \<not> w \<le> x \<longleftrightarrow> x < w"
  using double_split [OF assms] by (auto simp: not_le)

text \<open>In dual mode, screen \<open>k\<close> shows machine \<open>machine_for_screen k\<close>, one after the other.\<close>

lemma map_point_dual:
  assumes "mode config = DUALBOY_MODE_DUAL" and "dual_dims frames w h"
    and "unat w < 2 ^ 31" and "unat h < 2 ^ 31"
  shows "dualboy_compositor_map_point frames config x y =
    (if layout config = DUALBOY_LAYOUT_TOP_BOTTOM
     then if x < w \<and> y < 2 * h
          then if h \<le> y then Some (dualboy_machine_for_screen 1 (swap_screens config), x, y - h)
               else Some (dualboy_machine_for_screen 0 (swap_screens config), x, y)
          else None
     else if x < 2 * w \<and> y < h
          then if w \<le> x then Some (dualboy_machine_for_screen 1 (swap_screens config), x - w, y)
               else Some (dualboy_machine_for_screen 0 (swap_screens config), x, y)
          else None)"
proof -
  have dims: "width (frame_at frames k) = w" "height (frame_at frames k) = h" for k
    using assms(2) by (auto simp: dual_dims_def frame_at_def)
  have machine: "\<not> 2 \<le> dualboy_machine_for_screen 0 s" "\<not> 2 \<le> dualboy_machine_for_screen 1 s" for s
    by (simp_all add: dualboy_machine_for_screen_def)
  have split: "y < 2 * h \<Longrightarrow> h \<le> y \<Longrightarrow> \<not> h \<le> y - h" "x < 2 * w \<Longrightarrow> w \<le> x \<Longrightarrow> \<not> w \<le> x - w"
    using double_split(4) [OF assms(3), of x] double_split(4) [OF assms(4), of y]
    by (simp_all add: not_le)
  show ?thesis
    unfolding dualboy_compositor_map_point_def geometry_dual [OF assms(1,2)] assms(1) dims Let_def
    using split machine
    by (cases "layout config"; cases "h \<le> y"; cases "w \<le> x"; cases "x < 2 * w"; cases "y < 2 * h")
      (simp_all add: not_less [symmetric] del: machine_for_screen_simps One_nat_def)
qed

lemma project_point_dual:
  assumes "mode config = DUALBOY_MODE_DUAL" and "dual_dims frames w h"
    and "unat w < 2 ^ 31" and "unat h < 2 ^ 31" and "k < 2"
  shows "dualboy_compositor_project_point frames config
      (dualboy_machine_for_screen k (swap_screens config)) mx my =
    (if mx < w \<and> my < h
     then Some (if k = 1
                then if layout config = DUALBOY_LAYOUT_TOP_BOTTOM then (mx, my + h) else (mx + w, my)
                else (mx, my))
     else None)"
proof -
  have dims: "width (frame_at frames k) = w" "height (frame_at frames k) = h" for k
    using assms(2) by (auto simp: dual_dims_def frame_at_def)
  have machine: "\<not> 2 \<le> dualboy_machine_for_screen k (swap_screens config)"
    using assms(5) by (auto simp: dualboy_machine_for_screen_def)
  note screen = screen_machine_inverse [OF assms(5)]
  have split: "mx < w \<Longrightarrow> mx < 2 * w" "mx < w \<Longrightarrow> mx + w < 2 * w"
    "my < h \<Longrightarrow> my < 2 * h" "my < h \<Longrightarrow> my + h < 2 * h"
    using double_split [OF assms(3), of mx] double_split [OF assms(4), of my] by simp_all
  show ?thesis
    unfolding dualboy_compositor_project_point_def geometry_dual [OF assms(1,2)] assms(1) dims
      Let_def screen
    using split machine
    by (cases "layout config"; cases "mx < w"; cases "my < h"; cases "k = 1")
      (simp_all add: not_less [symmetric] del: machine_for_screen_simps One_nat_def)
qed

lemma frame_dims_fit:
  assumes "frames_fit frames"
  shows "unat (width (fst frames)) < 2 ^ 31" and "unat (height (fst frames)) < 2 ^ 31"
  using assms by (auto simp: frames_fit_def dest: spec [of _ 0])

lemma map_point_machine: "dualboy_compositor_map_point frames config x y = Some (m, mx, my) \<Longrightarrow> m < 2"
  by (auto simp: dualboy_compositor_map_point_def Let_def split: option.splits if_splits)

lemma project_point_machine:
  "dualboy_compositor_project_point frames config m mx my = Some p \<Longrightarrow> m < 2"
  by (auto simp: dualboy_compositor_project_point_def split: if_splits)

lemma machine_for_screen_eq_iff [simp]:
  "j < 2 \<Longrightarrow> k < 2 \<Longrightarrow> dualboy_machine_for_screen j s = dualboy_machine_for_screen k s \<longleftrightarrow> j = k"
  by (auto simp: dualboy_machine_for_screen_def)

lemma map_point_iff_project_point_dual:
  assumes "mode config = DUALBOY_MODE_DUAL" and "dual_dims frames w h"
    and "unat w < 2 ^ 31" and "unat h < 2 ^ 31" and "k < 2"
    and m: "m = dualboy_machine_for_screen k (swap_screens config)"
  shows "dualboy_compositor_map_point frames config x y = Some (m, mx, my) \<longleftrightarrow>
         dualboy_compositor_project_point frames config m mx my = Some (x, y)"
proof -
  have eq: "dualboy_machine_for_screen j s = dualboy_machine_for_screen k s \<longleftrightarrow> j = k"
    if "j < 2" for j s
    using that assms(5) by simp
  have k: "k = 0 \<or> k = 1" using assms(5) by auto
  show ?thesis
    unfolding m map_point_dual [OF assms(1-4)] project_point_dual [OF assms(1-5)]
    using k double_shift(1) [OF assms(3), of x mx] double_shift(2) [OF assms(3), of x]
      double_shift(1) [OF assms(4), of y my] double_shift(2) [OF assms(4), of y]
    by (cases "layout config"; cases "h \<le> y"; cases "w \<le> x")
      (auto simp: eq simp del: machine_for_screen_simps One_nat_def)
qed

section \<open>Composition as a set of copied rows\<close>

text \<open>
  The memory an engine promises for a frame: the last row starts inside it and is complete.
\<close>

definition frame_memory :: "dualboy_video_frame \<Rightarrow> bool" where
  "frame_memory f \<longleftrightarrow> (case pixels f of None \<Rightarrow> False
     | Some px \<Rightarrow> (unat (height f) - 1) * pitch f + unat (width f) * 4 \<le> length px)"

definition pixel_byte :: "dualboy_video_frame \<Rightarrow> nat \<Rightarrow> nat \<Rightarrow> nat \<Rightarrow> u8" where
  "pixel_byte f x y k = the (pixels f) ! (y * pitch f + 4 * x + k)"

definition frame_row :: "dualboy_video_frame \<Rightarrow> nat \<Rightarrow> bytes" where
  "frame_row f row = take (unat (width f) * 4) (drop (row * pitch f) (the (pixels f)))"

lemma frame_row_inside:
  assumes "frame_memory f" and "row < unat (height f)"
  shows "row * pitch f + unat (width f) * 4 \<le> length (the (pixels f))"
proof -
  from assms(1) obtain px where px: "pixels f = Some px"
    and len: "(unat (height f) - 1) * pitch f + unat (width f) * 4 \<le> length px"
    by (auto simp: frame_memory_def split: option.splits)
  have "row * pitch f \<le> (unat (height f) - 1) * pitch f"
    using assms(2) by (intro mult_le_mono1) simp
  then have "row * pitch f + unat (width f) * 4 \<le> length px"
    using len by (rule add_right_mono [THEN order_trans])
  with px show ?thesis by simp
qed

lemma frame_row_length:
  "frame_memory f \<Longrightarrow> row < unat (height f) \<Longrightarrow> length (frame_row f row) = unat (width f) * 4"
  using frame_row_inside [of f row] by (simp add: frame_row_def)

lemma frame_row_nth:
  assumes "frame_memory f" and "row < unat (height f)" and "k < unat (width f) * 4"
  shows "frame_row f row ! k = pixel_byte f (k div 4) row (k mod 4)"
  using frame_row_inside [OF assms(1,2)] assms(3)
  by (simp add: frame_row_def pixel_byte_def mult.commute add.assoc)

lemma copy_row_blit:
  assumes "frame_memory f" and "unat row < unat (height f)"
  shows "copy_row out dst f row = blit out dst (frame_row f (unat row))"
proof -
  from assms(1) obtain px where "pixels f = Some px"
    by (auto simp: frame_memory_def split: option.splits)
  with frame_row_inside [OF assms] show ?thesis
    by (simp add: copy_row_def frame_row_def mem_simps)
qed

text \<open>The rows of one machine, placed with their top left corner at column \<open>x0\<close>, row \<open>y0\<close>.\<close>

definition strip :: "nat \<Rightarrow> dualboy_video_frame \<Rightarrow> nat \<Rightarrow> nat \<Rightarrow> (nat \<times> bytes) list" where
  "strip gw f x0 y0 =
     map (\<lambda>row. (4 * ((y0 + row) * gw + x0), frame_row f row)) [0..<unat (height f)]"

text \<open>The byte the mapping asks for at position \<open>i\<close> of an image of width \<open>gw\<close>.\<close>

definition composed_byte :: "frames \<Rightarrow> dualboy_compositor_config \<Rightarrow> nat \<Rightarrow> nat \<Rightarrow> u8" where
  "composed_byte frames config gw i =
     (case dualboy_compositor_map_point frames config
             (of_nat (i div 4 mod gw)) (of_nat (i div 4 div gw)) of
        Some (m, mx, my) \<Rightarrow> pixel_byte (frame_at frames m) (unat mx) (unat my) (i mod 4)
      | None \<Rightarrow> 0)"

definition placed_strip ::
  "frames \<Rightarrow> dualboy_compositor_config \<Rightarrow> nat \<Rightarrow> nat \<Rightarrow> nat \<Rightarrow> nat \<Rightarrow> nat \<Rightarrow> bool" where
  "placed_strip frames config gw gh m x0 y0 \<longleftrightarrow> (let f = frame_at frames m in
     frame_memory f \<and> x0 + unat (width f) \<le> gw \<and> y0 + unat (height f) \<le> gh \<and>
     (\<forall>x < unat (width f). \<forall>y < unat (height f).
        dualboy_compositor_map_point frames config (of_nat (x0 + x)) (of_nat (y0 + y)) =
        Some (m, of_nat x, of_nat y)))"

lemma strip_row_agrees:
  assumes "placed_strip frames config gw gh m x0 y0"
    and "row < unat (height (frame_at frames m))" and "k < unat (width (frame_at frames m)) * 4"
  shows "frame_row (frame_at frames m) row ! k =
    composed_byte frames config gw (4 * ((y0 + row) * gw + x0) + k)"
proof -
  let ?f = "frame_at frames m" and ?i = "4 * ((y0 + row) * gw + x0) + k"
  have mem: "frame_memory ?f" and room: "x0 + unat (width ?f) \<le> gw"
    and mapped: "dualboy_compositor_map_point frames config (of_nat (x0 + k div 4))
      (of_nat (y0 + row)) = Some (m, of_nat (k div 4), of_nat row)"
    using assms by (auto simp: placed_strip_def Let_def less_mult_imp_div_less)
  have x: "x0 + k div 4 < gw" using assms(3) room by simp
  have "?i div 4 = (y0 + row) * gw + (x0 + k div 4)" by simp
  then have "?i div 4 mod gw = x0 + k div 4" and "?i div 4 div gw = y0 + row"
    using x by (simp_all only:) simp_all
  moreover have "?i mod 4 = k mod 4" by presburger
  ultimately have "composed_byte frames config gw ?i =
      pixel_byte ?f (unat (of_nat (k div 4) :: u32)) (unat (of_nat row :: u32)) (k mod 4)"
    using mapped by (simp add: composed_byte_def)
  also have "\<dots> = pixel_byte ?f (k div 4) row (k mod 4)"
    using assms(2,3) by (simp add: unat_of_nat_below [of _ "width ?f"]
        unat_of_nat_below [of _ "height ?f"] less_mult_imp_div_less less_imp_le)
  finally show ?thesis
    using assms(2,3) by (simp add: frame_row_nth [OF mem])
qed

lemma strip_segments_agree:
  assumes "placed_strip frames config gw gh m x0 y0"
  shows "\<forall>(off, src) \<in> set (strip gw (frame_at frames m) x0 y0). off + length src \<le> 4 * (gw * gh) \<and>
     (\<forall>k < length src. src ! k = composed_byte frames config gw (off + k))"
proof -
  let ?f = "frame_at frames m"
  have mem: "frame_memory ?f" and room: "x0 + unat (width ?f) \<le> gw" "y0 + unat (height ?f) \<le> gh"
    using assms by (auto simp: placed_strip_def Let_def)
  have "4 * ((y0 + row) * gw + x0) + unat (width ?f) * 4 \<le> 4 * (gw * gh)"
    if "row < unat (height ?f)" for row
  proof -
    have "(y0 + row) * gw + (x0 + unat (width ?f)) \<le> Suc (y0 + row) * gw"
      using room(1) by simp
    also have "\<dots> \<le> gh * gw"
      using room(2) that by (intro mult_le_mono1) simp
    finally have le: "(y0 + row) * gw + (x0 + unat (width ?f)) \<le> gw * gh" by (simp only: mult.commute)
    have "4 * (a + x) + c * 4 \<le> 4 * b" if "a + (x + c) \<le> b" for a b c x :: nat
      using that by presburger
    from this [OF le] show ?thesis .
  qed
  then show ?thesis
    using strip_row_agrees [OF assms] by (auto simp: strip_def frame_row_length [OF mem])
qed

lemma strip_segments_cover:
  assumes "placed_strip frames config gw gh m x0 y0"
    and "x0 \<le> i div 4 mod gw" and "i div 4 mod gw < x0 + unat (width (frame_at frames m))"
    and "y0 \<le> i div 4 div gw" and "i div 4 div gw < y0 + unat (height (frame_at frames m))"
  shows "covered (strip gw (frame_at frames m) x0 y0) i"
proof -
  let ?f = "frame_at frames m" and ?row = "i div 4 div gw - y0" and ?x = "i div 4 mod gw - x0"
  have mem: "frame_memory ?f" using assms(1) by (simp add: placed_strip_def Let_def)
  have row: "?row < unat (height ?f)" using assms(4,5) by simp
  define a where "a = (y0 + ?row) * gw"
  have "i div 4 = (i div 4 div gw) * gw + i div 4 mod gw" by simp
  also have "\<dots> = a + (x0 + ?x)" using assms(2,4) by (simp add: a_def)
  finally have quot: "i div 4 = a + (x0 + ?x)" .
  have "?x < unat (width ?f)" using assms(2,3) by simp
  moreover have "4 * (a + x0) \<le> i \<and> i < 4 * (a + x0) + w * 4"
    if "i div 4 = a + (x0 + x)" and "x < w" for x w
    using that by presburger
  ultimately have "4 * (a + x0) \<le> i \<and> i < 4 * (a + x0) + unat (width ?f) * 4"
    using quot by blast
  then have "4 * ((y0 + ?row) * gw + x0) \<le> i \<and>
      i < 4 * ((y0 + ?row) * gw + x0) + length (frame_row ?f ?row)"
    by (simp only: frame_row_length [OF mem row] a_def)
  then show ?thesis
    using row unfolding covered_def strip_def
    by (intro bexI [of _ "(4 * ((y0 + ?row) * gw + x0), frame_row ?f ?row)"]) auto
qed

lemma blits_compose:
  assumes "\<forall>(off, src) \<in> set segs. off + length src \<le> n \<and> (\<forall>k < length src. src ! k = F (off + k))"
    and "\<And>i. i < n \<Longrightarrow> covered segs i" and "n \<le> length out"
  shows "\<exists>out'. blits segs out = Some out' \<and> length out' = length out \<and>
    (\<forall>i < n. out' ! i = F i) \<and> (\<forall>i. n \<le> i \<and> i < length out \<longrightarrow> out' ! i = out ! i)"
proof -
  have "\<exists>out'. blits segs out = Some out' \<and> length out' = length out \<and>
    (\<forall>i < length out. out' ! i = (if covered segs i then F i else out ! i))"
    using assms(1,3) by (intro blits_agree) fastforce
  moreover have "\<not> covered segs i" if "n \<le> i" for i
    using that assms(1) by (fastforce simp: covered_def)
  ultimately show ?thesis
    using assms(2,3) by (metis order_less_le_trans)
qed

lemma rows_below_fold:
  assumes "\<And>r out. r < unat n \<Longrightarrow> f (of_nat r) out = g r out"
  shows "fold_opt f (rows_below n) out = fold_opt g [0..<unat n] out"
  unfolding rows_below_def fold_opt_map
  by (rule fold_opt_cong [where P = "\<lambda>_. True"]) (use assms in auto)

lemma copy_rows_blits:
  assumes "frame_memory f"
    and "\<And>r. r < unat (height f) \<Longrightarrow> dst (of_nat r) = 4 * ((y0 + r) * gw + x0)"
  shows "fold_opt (\<lambda>row out. copy_row out (dst row) f row) (rows_below (height f)) out =
    blits (strip gw f x0 y0) out"
proof -
  have "copy_row out (dst (of_nat r)) f (of_nat r) =
      blit out (4 * ((y0 + r) * gw + x0)) (frame_row f r)" if "r < unat (height f)" for r out
    using that assms(2) [OF that] unat_of_nat_below [OF less_imp_le [OF that]]
    by (simp add: copy_row_blit [OF assms(1)])
  then show ?thesis
    unfolding blits_def strip_def fold_opt_map by (intro rows_below_fold) auto
qed

definition side_by_side_segments ::
  "nat \<Rightarrow> dualboy_video_frame \<Rightarrow> dualboy_video_frame \<Rightarrow> (nat \<times> bytes) list" where
  "side_by_side_segments gw first second =
     concat (map (\<lambda>r. [(4 * (r * gw), frame_row first r),
                       (4 * (r * gw + unat (width first)), frame_row second r)])
       [0..<unat (height first)])"

lemma side_by_side_blits:
  assumes "frame_memory first" and "frame_memory second" and "height first = height second"
  shows "fold_opt (\<lambda>row out. do {
        out1 \<leftarrow> copy_row out (4 * (unat row * gw)) first row;
        copy_row out1 (4 * (unat row * gw + unat (width first))) second row
      }) (rows_below (height first)) out = blits (side_by_side_segments gw first second) out"
  unfolding blits_def side_by_side_segments_def fold_opt_concat_map
proof (intro rows_below_fold)
  fix r out
  assume r: "r < unat (height first)"
  then have "unat (of_nat r :: u32) = r" by (simp add: unat_of_nat_below [OF less_imp_le])
  then show "(do {
        out1 \<leftarrow> copy_row out (4 * (unat (of_nat r :: u32) * gw)) first (of_nat r);
        copy_row out1 (4 * (unat (of_nat r :: u32) * gw + unat (width first))) second (of_nat r)
      }) = fold_opt (\<lambda>(off, src) out. blit out off src)
        [(4 * (r * gw), frame_row first r),
         (4 * (r * gw + unat (width first)), frame_row second r)] out"
    using assms r by (cases "blit out (4 * (r * gw)) (frame_row first r)")
      (simp_all add: copy_row_blit)
qed

lemma side_by_side_set:
  assumes "height first = height second"
  shows "set (side_by_side_segments gw first second) =
    set (strip gw first 0 0) \<union> set (strip gw second (unat (width first)) 0)"
  using assms by (auto simp: side_by_side_segments_def strip_def)

lemma of_nat_less_word: "k < unat (n :: 'w::len word) \<Longrightarrow> (of_nat k :: 'w word) < n"
  by (simp add: word_less_nat_alt unat_of_nat_below [OF less_imp_le])

lemma placed_single:
  assumes "mode config \<noteq> DUALBOY_MODE_DUAL" and "dualboy_compositor_geometry frames config = Some g"
    and "frame_memory (frame_at frames (selected_machine config))"
  shows "placed_strip frames config (unat (gwidth g)) (unat (gheight g)) (selected_machine config) 0 0"
proof -
  let ?f = "frame_at frames (selected_machine config)"
  have g: "g = \<lparr>gwidth = width ?f, gheight = height ?f\<rparr>"
    using assms by (simp add: geometry_single split: if_splits)
  have "dualboy_compositor_map_point frames config (of_nat x) (of_nat y) =
      Some (selected_machine config, of_nat x, of_nat y)"
    if "x < unat (width ?f)" and "y < unat (height ?f)" for x y
    using of_nat_less_word [OF that(1)] of_nat_less_word [OF that(2)] assms(1,2) g
    by (cases "mode config") (simp_all add: dualboy_compositor_map_point_def selected_machine_def
        Let_def not_le)
  then show ?thesis
    using assms(3) by (simp add: placed_strip_def Let_def g)
qed

lemma unat_of_nat_u32: "k < 2 ^ 32 \<Longrightarrow> unat (of_nat k :: u32) = k"
  by (simp add: unat_of_nat take_bit_nat_eq_self)

lemma placed_dual:
  assumes "mode config = DUALBOY_MODE_DUAL" and "dual_dims frames w h"
    and "unat w < 2 ^ 31" and "unat h < 2 ^ 31"
    and "\<And>m. frame_memory (frame_at frames m)" and "k < 2"
  shows "layout config = DUALBOY_LAYOUT_TOP_BOTTOM \<Longrightarrow>
      placed_strip frames config (unat w) (2 * unat h)
        (dualboy_machine_for_screen k (swap_screens config)) 0 (k * unat h)"
    and "layout config \<noteq> DUALBOY_LAYOUT_TOP_BOTTOM \<Longrightarrow>
      placed_strip frames config (2 * unat w) (unat h)
        (dualboy_machine_for_screen k (swap_screens config)) (k * unat w) 0"
proof -
  let ?m = "dualboy_machine_for_screen k (swap_screens config)"
  have dims: "width (frame_at frames j) = w" "height (frame_at frames j) = h" for j
    using assms(2) by (auto simp: dual_dims_def frame_at_def)
  have k: "k = 0 \<or> k = 1" using assms(6) by auto
  have shift: "k * unat n + x < 2 ^ 32 \<and> of_nat (k * unat n + x) < 2 * n \<and>
      (n \<le> of_nat (k * unat n + x) \<longleftrightarrow> k = 1) \<and>
      of_nat (k * unat n + x) - (if k = 1 then n else 0) = of_nat x"
    if "unat n < 2 ^ 31" and "x < unat n" for n :: u32 and x
  proof -
    have "k * unat n + x < 2 ^ 32" and bound: "k * unat n + x < 2 * unat n"
      using k that by auto
    then have u: "unat (of_nat (k * unat n + x) :: u32) = k * unat n + x"
      by (intro unat_of_nat_u32)
    then show ?thesis
      using k that bound unat_double [OF that(1)]
      by (auto simp: word_less_nat_alt word_le_nat_alt)
  qed
  have mapped: "dualboy_compositor_map_point frames config
      (of_nat (if tb then x else k * unat w + x)) (of_nat (if tb then k * unat h + y else y)) =
      Some (?m, of_nat x, of_nat y)"
    if "x < unat w" and "y < unat h" and tb: "tb \<longleftrightarrow> layout config = DUALBOY_LAYOUT_TOP_BOTTOM"
    for x y tb
    using k shift [OF assms(3) that(1)] shift [OF assms(4) that(2)]
      of_nat_less_word [OF that(1)] of_nat_less_word [OF that(2)] tb
    unfolding map_point_dual [OF assms(1-4)]
    by (auto simp del: machine_for_screen_simps One_nat_def)
  show "layout config = DUALBOY_LAYOUT_TOP_BOTTOM \<Longrightarrow>
      placed_strip frames config (unat w) (2 * unat h) ?m 0 (k * unat h)"
    using mapped [of _ _ True] assms(5) k by (auto simp: placed_strip_def Let_def dims)
  show "layout config \<noteq> DUALBOY_LAYOUT_TOP_BOTTOM \<Longrightarrow>
      placed_strip frames config (2 * unat w) (unat h) ?m (k * unat w) 0"
    using mapped [of _ _ False] assms(5) k by (auto simp: placed_strip_def Let_def dims)
qed

lemma in_image:
  fixes i gw gh :: nat
  assumes "i < 4 * (gw * gh)"
  shows "i div 4 div gw < gh" and "i div 4 mod gw < gw"
proof -
  have q: "i div 4 < gw * gh" using assms by presburger
  then show "i div 4 div gw < gh" by (simp add: less_mult_imp_div_less mult.commute)
  from q have "gw \<noteq> 0" by (cases gw) auto
  then show "i div 4 mod gw < gw" by simp
qed

text \<open>The rows the composition copies, in each of its three shapes.\<close>

definition composed_segments ::
  "frames \<Rightarrow> dualboy_compositor_config \<Rightarrow> nat \<Rightarrow> (nat \<times> bytes) list" where
  "composed_segments frames config gw =
     (let first = frame_at frames (dualboy_machine_for_screen 0 (swap_screens config));
          second = frame_at frames (dualboy_machine_for_screen 1 (swap_screens config))
      in if mode config \<noteq> DUALBOY_MODE_DUAL
         then strip gw (frame_at frames (selected_machine config)) 0 0
         else if layout config = DUALBOY_LAYOUT_TOP_BOTTOM
         then strip gw first 0 0 @ strip gw second 0 (unat (height first))
         else side_by_side_segments gw first second)"

lemma compose_frame_blits:
  assumes g: "dualboy_compositor_geometry frames config = Some g" and fit: "frames_fit frames"
    and mem: "\<And>m. frame_memory (frame_at frames m)"
    and room: "unat (gwidth g) * unat (gheight g) \<le> output_pixels"
  shows "dualboy_compose_frame output output_pixels frames config = do {
      output' \<leftarrow> blits (composed_segments frames config (unat (gwidth g))) output;
      Some (output', Some \<lparr>pixels = Some output', width = gwidth g, height = gheight g,
                           pitch = unat (gwidth g) * 4\<rparr>) }"
proof (cases "mode config = DUALBOY_MODE_DUAL")
  case False
  let ?f = "frame_at frames (selected_machine config)"
  have "fold_opt (\<lambda>row out. copy_row out (4 * (unat row * gw)) ?f row)
      (rows_below (height ?f)) out = blits (strip gw ?f 0 0) out" for gw out
    by (intro copy_rows_blits mem) (simp add: unat_of_nat_below [OF less_imp_le])
  with False show ?thesis
    using g room by (simp add: dualboy_compose_frame_def composed_segments_def Let_def)
next
  case True
  let ?first = "frame_at frames (dualboy_machine_for_screen 0 (swap_screens config))"
    and ?second = "frame_at frames (dualboy_machine_for_screen 1 (swap_screens config))"
  note dims = geometry_dual_Some [OF g True]
  have w: "width ?second = width ?first" and h: "height ?second = height ?first"
    using dims by (auto simp: dual_dims_def frame_at_def)
  have gh: "gheight g = height ?first" if "layout config \<noteq> DUALBOY_LAYOUT_TOP_BOTTOM"
    using that g dims by (auto simp: geometry_dual [OF True dims] dual_dims_def frame_at_def)
  have fit_h: "unat (height ?first) < 2 ^ 31"
    using frame_dims_fit(2) [OF fit] dims by (auto simp: dual_dims_def frame_at_def)
  have lower: "unat (of_nat r + height ?first) = unat (height ?first) + r"
    if "r < unat (height ?first)" for r
  proof -
    have "unat (of_nat r + height ?first) = unat (of_nat r :: u32) + unat (height ?first)"
      using that fit_h unat_of_nat_below [OF less_imp_le [OF that]]
      by (subst unat_add_lem [THEN iffD1]) simp_all
    then show ?thesis using unat_of_nat_below [OF less_imp_le [OF that]] by simp
  qed
  have top: "fold_opt (\<lambda>row out. copy_row out (4 * (unat row * gw)) ?first row)
      (rows_below (height ?first)) out = blits (strip gw ?first 0 0) out" for gw out
    by (intro copy_rows_blits mem) (simp add: unat_of_nat_below [OF less_imp_le])
  have bottom: "fold_opt (\<lambda>row out. copy_row out (4 * (unat (row + height ?first) * gw)) ?second row)
      (rows_below (height ?second)) out = blits (strip gw ?second 0 (unat (height ?first))) out"
    for gw out
  proof (intro copy_rows_blits mem)
    fix r
    assume "r < unat (height ?second)"
    then have "r < unat (height ?first)" by (simp only: h)
    then show "4 * (unat (of_nat r + height ?first) * gw) =
        4 * ((unat (height ?first) + r) * gw + 0)"
      by (simp only: lower add_0_right)
  qed
  note both = side_by_side_blits [OF mem mem h [symmetric]]
  show ?thesis
    unfolding dualboy_compose_frame_def composed_segments_def Let_def
    using g room True
    by (simp add: top bottom both gh blits_def [symmetric]
        del: machine_for_screen_simps One_nat_def distrib_left_numeral)
      (simp add: blits_def)
qed

lemma one_below_2: "(1::nat) < 2"
  by simp

lemma covered_Un:
  "set segs = set segs1 \<union> set segs2 \<Longrightarrow> covered segs i \<longleftrightarrow> covered segs1 i \<or> covered segs2 i"
  by (auto simp: covered_def)

lemma composed_segments_image:
  assumes g: "dualboy_compositor_geometry frames config = Some g" and fit: "frames_fit frames"
    and mem: "\<And>m. frame_memory (frame_at frames m)"
  defines "segs \<equiv> composed_segments frames config (unat (gwidth g))"
    and "n \<equiv> 4 * (unat (gwidth g) * unat (gheight g))"
  shows "\<forall>(off, src) \<in> set segs. off + length src \<le> n \<and>
      (\<forall>k < length src. src ! k = composed_byte frames config (unat (gwidth g)) (off + k))"
    and "i < n \<Longrightarrow> covered segs i"
proof -
  consider (single) "mode config \<noteq> DUALBOY_MODE_DUAL"
    | (stacked) "mode config = DUALBOY_MODE_DUAL" "layout config = DUALBOY_LAYOUT_TOP_BOTTOM"
    | (beside) "mode config = DUALBOY_MODE_DUAL" "layout config \<noteq> DUALBOY_LAYOUT_TOP_BOTTOM"
    by blast
  then have "(\<forall>(off, src) \<in> set segs. off + length src \<le> n \<and>
      (\<forall>k < length src. src ! k = composed_byte frames config (unat (gwidth g)) (off + k))) \<and>
      (i < n \<longrightarrow> covered segs i)"
  proof cases
    case single
    let ?m = "selected_machine config"
    note strip = placed_single [OF single g mem]
    have dims: "width (frame_at frames ?m) = gwidth g" "height (frame_at frames ?m) = gheight g"
      using g by (auto simp: geometry_single [OF single] split: if_splits)
    have "segs = strip (unat (gwidth g)) (frame_at frames ?m) 0 0"
      using single by (simp add: segs_def composed_segments_def)
    then show ?thesis
      using strip_segments_agree [OF strip] strip_segments_cover [OF strip, of i]
        in_image [of i "unat (gwidth g)" "unat (gheight g)"]
      by (simp add: dims n_def)
  next
    case stacked
    let ?w = "width (fst frames)" and ?h = "height (fst frames)"
    let ?m = "\<lambda>k. dualboy_machine_for_screen k (swap_screens config)"
    note dims = geometry_dual_Some [OF g stacked(1)]
    note strip = placed_dual(1) [OF stacked(1) dims frame_dims_fit [OF fit] mem _ stacked(2)]
    have wh: "width (frame_at frames j) = ?w" "height (frame_at frames j) = ?h" for j
      using dims by (auto simp: dual_dims_def frame_at_def)
    have gwh: "gwidth g = ?w" "unat (gheight g) = 2 * unat ?h"
      using g stacked unat_double [OF frame_dims_fit(2) [OF fit]]
      by (auto simp: geometry_dual [OF stacked(1) dims])
    have segs: "set segs = set (strip (unat ?w) (frame_at frames (?m 0)) 0 0) \<union>
        set (strip (unat ?w) (frame_at frames (?m 1)) 0 (unat ?h))"
      using stacked by (simp add: segs_def composed_segments_def gwh Let_def wh
          del: machine_for_screen_simps One_nat_def)
    have p0: "placed_strip frames config (unat ?w) (2 * unat ?h) (?m 0) 0 0"
      using strip [of 0] by (simp only: mult_0 zero_less_numeral)
    have p1: "placed_strip frames config (unat ?w) (2 * unat ?h) (?m 1) 0 (unat ?h)"
      using strip [OF one_below_2] by (simp only: mult_1)
    have "covered segs i" if "i < n"
      using in_image [OF that [unfolded n_def gwh]]
        strip_segments_cover [OF p0, of i] strip_segments_cover [OF p1, of i]
      unfolding covered_Un [OF segs] wh by linarith
    moreover have "\<forall>(off, src) \<in> set segs. off + length src \<le> n \<and>
        (\<forall>k < length src. src ! k = composed_byte frames config (unat (gwidth g)) (off + k))"
      unfolding segs n_def gwh ball_Un using strip_segments_agree [OF p0] strip_segments_agree [OF p1]
      by (rule conjI)
    ultimately show ?thesis by blast
  next
    case beside
    let ?w = "width (fst frames)" and ?h = "height (fst frames)"
    let ?m = "\<lambda>k. dualboy_machine_for_screen k (swap_screens config)"
    note dims = geometry_dual_Some [OF g beside(1)]
    note strip = placed_dual(2) [OF beside(1) dims frame_dims_fit [OF fit] mem _ beside(2)]
    have wh: "width (frame_at frames j) = ?w" "height (frame_at frames j) = ?h" for j
      using dims by (auto simp: dual_dims_def frame_at_def)
    have gwh: "gheight g = ?h" "unat (gwidth g) = 2 * unat ?w"
      using g beside unat_double [OF frame_dims_fit(1) [OF fit]]
      by (auto simp: geometry_dual [OF beside(1) dims])
    have segs: "set segs = set (strip (2 * unat ?w) (frame_at frames (?m 0)) 0 0) \<union>
        set (strip (2 * unat ?w) (frame_at frames (?m 1)) (unat ?w) 0)"
      using beside by (simp add: segs_def composed_segments_def gwh Let_def wh side_by_side_set
          del: machine_for_screen_simps One_nat_def)
    have p0: "placed_strip frames config (2 * unat ?w) (unat ?h) (?m 0) 0 0"
      using strip [of 0] by (simp only: mult_0 zero_less_numeral)
    have p1: "placed_strip frames config (2 * unat ?w) (unat ?h) (?m 1) (unat ?w) 0"
      using strip [OF one_below_2] by (simp only: mult_1)
    have "covered segs i" if "i < n"
      using in_image [OF that [unfolded n_def gwh]]
        strip_segments_cover [OF p0, of i] strip_segments_cover [OF p1, of i]
      unfolding covered_Un [OF segs] wh by linarith
    moreover have "\<forall>(off, src) \<in> set segs. off + length src \<le> n \<and>
        (\<forall>k < length src. src ! k = composed_byte frames config (unat (gwidth g)) (off + k))"
      unfolding segs n_def gwh ball_Un using strip_segments_agree [OF p0] strip_segments_agree [OF p1]
      by (rule conjI)
    ultimately show ?thesis by blast
  qed
  then show "\<forall>(off, src) \<in> set segs. off + length src \<le> n \<and>
      (\<forall>k < length src. src ! k = composed_byte frames config (unat (gwidth g)) (off + k))"
    and "i < n \<Longrightarrow> covered segs i"
    by blast+
qed

lemma map_point_total:
  assumes g: "dualboy_compositor_geometry frames config = Some g" and fit: "frames_fit frames"
    and "x < gwidth g" and "y < gheight g"
  shows "\<exists>m mx my. dualboy_compositor_map_point frames config x y = Some (m, mx, my)"
proof (cases "mode config = DUALBOY_MODE_DUAL")
  case True
  note dims = geometry_dual_Some [OF g True]
  show ?thesis
    using g assms(3,4) unfolding map_point_dual [OF True dims frame_dims_fit [OF fit]]
    by (auto simp: geometry_dual [OF True dims] split: if_splits)
next
  case False
  then show ?thesis
    using g assms(3,4)
    by (cases "mode config") (auto simp: dualboy_compositor_map_point_def geometry_single
        selected_machine_def Let_def not_le split: if_splits)
qed

text \<open>What a composed image of dimensions \<open>g\<close> holds: every pixel is the one the mapping names.\<close>

definition composed_image :: "frames \<Rightarrow> dualboy_compositor_config \<Rightarrow> dualboy_geometry \<Rightarrow> bytes \<Rightarrow> bool" where
  "composed_image frames config g out \<longleftrightarrow>
     (\<forall>x < gwidth g. \<forall>y < gheight g. \<exists>m mx my.
        dualboy_compositor_map_point frames config x y = Some (m, mx, my) \<and>
        (\<forall>k < 4. out ! (4 * (unat y * unat (gwidth g) + unat x) + k) =
                 pixel_byte (frame_at frames m) (unat mx) (unat my) k))"

lemma composed_image_bytes:
  assumes g: "dualboy_compositor_geometry frames config = Some g" and fit: "frames_fit frames"
    and out: "\<forall>i < 4 * (unat (gwidth g) * unat (gheight g)).
      out ! i = composed_byte frames config (unat (gwidth g)) i"
  shows "composed_image frames config g out"
  unfolding composed_image_def
proof (intro allI impI)
  fix x y
  assume x: "x < gwidth g" and y: "y < gheight g"
  let ?w = "unat (gwidth g)" and ?h = "unat (gheight g)"
  obtain m mx my where m: "dualboy_compositor_map_point frames config x y = Some (m, mx, my)"
    using map_point_total [OF g fit x y] by blast
  have "out ! (4 * (unat y * ?w + unat x) + k) = pixel_byte (frame_at frames m) (unat mx) (unat my) k"
    if k: "k < 4" for k
  proof -
    let ?i = "4 * (unat y * ?w + unat x) + k"
    have "unat y * ?w + unat x < Suc (unat y) * ?w" using x by (simp add: word_less_nat_alt)
    also have "\<dots> \<le> ?h * ?w" using y by (intro mult_le_mono1) (simp add: word_less_nat_alt)
    finally have lt: "unat y * ?w + unat x < ?w * ?h" by (simp only: mult.commute)
    have "4 * a + k < 4 * b" if "a < b" for a b :: nat using that k by presburger
    from this [OF lt] have "?i < 4 * (?w * ?h)" .
    moreover have "(4 * a + k) div 4 = a" and "(4 * a + k) mod 4 = k" for a using k by simp_all
    moreover have "(unat y * ?w + unat x) mod ?w = unat x" "(unat y * ?w + unat x) div ?w = unat y"
      using x by (simp_all add: word_less_nat_alt)
    ultimately show ?thesis
      using out m by (simp only: composed_byte_def) simp
  qed
  with m show "\<exists>m mx my. dualboy_compositor_map_point frames config x y = Some (m, mx, my) \<and>
        (\<forall>k < 4. out ! (4 * (unat y * ?w + unat x) + k) =
                 pixel_byte (frame_at frames m) (unat mx) (unat my) k)"
    by blast
qed

section \<open>The reticle as a set of pixels\<close>

text \<open>The colour of the reticle at byte \<open>i\<close> of an image with the given stride, if it is painted.\<close>

definition cursor_at :: "nat \<Rightarrow> nat \<Rightarrow> size_t \<Rightarrow> nat \<Rightarrow> nat \<Rightarrow> u32 \<Rightarrow> nat \<Rightarrow> u32 option" where
  "cursor_at w h stride center_x center_y accent i =
     (let y = i div stride; x = i mod stride div 4;
          dx = int x - int center_x; dy = int y - int center_y
      in if y < h \<and> x < w \<and> \<bar>dx\<bar> \<le> 8 \<and> \<bar>dy\<bar> \<le> 8
         then cursor_color accent dx dy else None)"

definition cursor_segment ::
  "nat \<Rightarrow> nat \<Rightarrow> size_t \<Rightarrow> nat \<Rightarrow> nat \<Rightarrow> u32 \<Rightarrow> int \<Rightarrow> int \<Rightarrow> (nat \<times> bytes) list" where
  "cursor_segment w h stride center_x center_y accent dy dx =
     (let y = int center_y + dy; x = int center_x + dx
      in if 0 \<le> y \<and> y < int h \<and> 0 \<le> x \<and> x < int w
         then case cursor_color accent dx dy of None \<Rightarrow> []
              | Some c \<Rightarrow> [(nat y * stride + nat x * 4, pixel_bytes c)]
         else [])"

definition cursor_segments ::
  "nat \<Rightarrow> nat \<Rightarrow> size_t \<Rightarrow> nat \<Rightarrow> nat \<Rightarrow> u32 \<Rightarrow> (nat \<times> bytes) list" where
  "cursor_segments w h stride center_x center_y accent =
     concat (map (\<lambda>dy. concat (map (cursor_segment w h stride center_x center_y accent dy) [-8..8]))
       [-8..8])"

lemma length_pixel_bytes [simp]: "length (pixel_bytes c) = 4"
  by (simp add: pixel_bytes_def)

lemma draw_cursor_pixel_blits:
  "draw_cursor_pixel w h stride cx cy accent dy dx out =
     blits (cursor_segment (unat w) (unat h) stride (unat cx) (unat cy) accent dy dx) out"
  by (cases "cursor_color accent dx dy")
    (auto simp: draw_cursor_pixel_def cursor_segment_def blits_def Let_def)

lemma draw_cursor_row_blits:
  "fold_opt (draw_cursor_pixel w h stride cx cy accent dy) dxs out =
     blits (concat (map (cursor_segment (unat w) (unat h) stride (unat cx) (unat cy) accent dy) dxs)) out"
  by (induction dxs arbitrary: out)
    (simp_all add: draw_cursor_pixel_blits blits_def split: Option.bind_splits)

lemma draw_cursor_rows_blits:
  "fold_opt (\<lambda>dy. fold_opt (draw_cursor_pixel w h stride cx cy accent dy) dxs) dys out =
     blits (concat (map (\<lambda>dy. concat (map
       (cursor_segment (unat w) (unat h) stride (unat cx) (unat cy) accent dy) dxs)) dys)) out"
  by (induction dys arbitrary: out)
    (simp_all add: draw_cursor_row_blits blits_def split: Option.bind_splits)

lemma draw_cursor_blits:
  "fold_opt (\<lambda>dy. fold_opt (draw_cursor_pixel w h stride cx cy accent dy) [-8..8]) [-8..8] out =
     blits (cursor_segments (unat w) (unat h) stride (unat cx) (unat cy) accent) out"
  unfolding cursor_segments_def by (rule draw_cursor_rows_blits)

lemma in_guarded_segment:
  "(off, src) \<in> set (if b then case m of None \<Rightarrow> [] | Some c \<Rightarrow> [(a, f c)] else []) \<longleftrightarrow>
     b \<and> (\<exists>c. m = Some c \<and> src = f c \<and> off = a)"
  by (cases b; cases m) auto

lemma in_cursor_segment:
  "(off, src) \<in> set (cursor_segment w h stride cx cy accent dy dx) \<longleftrightarrow>
     0 \<le> int cy + dy \<and> int cy + dy < int h \<and>
     0 \<le> int cx + dx \<and> int cx + dx < int w \<and>
     (\<exists>c. cursor_color accent dx dy = Some c \<and> src = pixel_bytes c \<and>
        off = nat (int cy + dy) * stride + nat (int cx + dx) * 4)"
  by (simp only: cursor_segment_def Let_def in_guarded_segment conj_assoc)

lemma in_cursor_segments_offsets:
  "p \<in> set (cursor_segments w h stride cx cy accent) \<longleftrightarrow>
     (\<exists>dy \<in> {-8..8}. \<exists>dx \<in> {-8..8}. p \<in> set (cursor_segment w h stride cx cy accent dy dx))"
  unfolding cursor_segments_def set_concat set_map set_upto by (simp del: upto_rec_numeral)

lemma in_cursor_segments:
  "(off, src) \<in> set (cursor_segments w h stride cx cy accent) \<longleftrightarrow>
     (\<exists>x y c. x < w \<and> y < h \<and>
        \<bar>int x - int cx\<bar> \<le> 8 \<and> \<bar>int y - int cy\<bar> \<le> 8 \<and>
        cursor_color accent (int x - int cx) (int y - int cy) = Some c \<and>
        off = y * stride + 4 * x \<and> src = pixel_bytes c)" (is "?lhs \<longleftrightarrow> ?rhs")
proof
  assume ?lhs
  then obtain dx dy c where d: "-8 \<le> dx" "dx \<le> 8" "-8 \<le> dy" "dy \<le> 8"
    and y: "0 \<le> int cy + dy" "int cy + dy < int h"
    and x: "0 \<le> int cx + dx" "int cx + dx < int w"
    and c: "cursor_color accent dx dy = Some c" and src: "src = pixel_bytes c"
    and off: "off = nat (int cy + dy) * stride + nat (int cx + dx) * 4"
    unfolding in_cursor_segments_offsets in_cursor_segment by (meson atLeastAtMost_iff)
  define X Y where "X = nat (int cx + dx)" and "Y = nat (int cy + dy)"
  then have "int X - int cx = dx" and "int Y - int cy = dy" using x y by simp_all
  moreover have "X < w" and "Y < h" and "off = Y * stride + 4 * X"
    using x y off by (simp_all add: X_def Y_def mult.commute)
  ultimately have "X < w \<and> Y < h \<and> \<bar>int X - int cx\<bar> \<le> 8 \<and> \<bar>int Y - int cy\<bar> \<le> 8 \<and>
      cursor_color accent (int X - int cx) (int Y - int cy) = Some c \<and>
      off = Y * stride + 4 * X \<and> src = pixel_bytes c"
    using d c src by auto
  then show ?rhs by blast
next
  assume ?rhs
  then obtain x y c where "x < w" "y < h"
    and d: "\<bar>int x - int cx\<bar> \<le> 8" "\<bar>int y - int cy\<bar> \<le> 8"
    and "cursor_color accent (int x - int cx) (int y - int cy) = Some c"
    and "off = y * stride + 4 * x" and "src = pixel_bytes c"
    by blast
  then have "(off, src) \<in> set (cursor_segment w h stride cx cy accent
      (int y - int cy) (int x - int cx))"
    by (simp add: cursor_segment_def mult.commute)
  moreover have "int y - int cy \<in> {-8..8}" and "int x - int cx \<in> {-8..8}"
    using d by auto
  ultimately show ?lhs unfolding in_cursor_segments_offsets by blast
qed

lemma pixel_position:
  fixes stride x y k w :: nat
  assumes "x < w" and "w * 4 \<le> stride" and "k < 4"
  shows "(y * stride + 4 * x + k) div stride = y" and "(y * stride + 4 * x + k) mod stride = 4 * x + k"
    and "(4 * x + k) div 4 = x" and "(4 * x + k) mod 4 = k"
proof -
  have "4 * x + k < stride" using assms by linarith
  then have "(y * stride + (4 * x + k)) div stride = y"
    and "(y * stride + (4 * x + k)) mod stride = 4 * x + k" by simp_all
  then show "(y * stride + 4 * x + k) div stride = y"
    and "(y * stride + 4 * x + k) mod stride = 4 * x + k" by (simp_all only: add.assoc)
  show "(4 * x + k) div 4 = x" and "(4 * x + k) mod 4 = k" using assms(3) by simp_all
qed

lemma cursor_at_segments:
  assumes "w * 4 \<le> stride"
  shows "covered (cursor_segments w h stride cx cy accent) i \<longleftrightarrow>
      cursor_at w h stride cx cy accent i \<noteq> None" (is "?lhs \<longleftrightarrow> ?rhs")
    and "(off, src) \<in> set (cursor_segments w h stride cx cy accent) \<Longrightarrow> k < 4 \<Longrightarrow>
      \<exists>c. cursor_at w h stride cx cy accent (off + k) = Some c \<and> src ! k = pixel_bytes c ! ((off + k) mod stride mod 4)"
proof -
  show at: "\<exists>c. cursor_at w h stride cx cy accent (off + k) = Some c \<and> src ! k = pixel_bytes c ! ((off + k) mod stride mod 4)"
    if "(off, src) \<in> set (cursor_segments w h stride cx cy accent)" and k: "k < 4" for off src k
    using that(1) pixel_position [OF _ assms k] k
    by (auto simp: in_cursor_segments cursor_at_def Let_def)
  show "?lhs \<longleftrightarrow> ?rhs"
  proof
    assume ?lhs
    then obtain off src where seg: "(off, src) \<in> set (cursor_segments w h stride cx cy accent)"
      and le: "off \<le> i" and lt: "i < off + length src"
      by (auto simp: covered_def)
    from seg have "length src = 4" by (auto simp: in_cursor_segments)
    with le lt have "i - off < 4" by linarith
    from at [OF seg this] le show ?rhs by auto
  next
    assume ?rhs
    then obtain c where c: "cursor_at w h stride cx cy accent i = Some c" by auto
    define x y where "x = i mod stride div 4" and "y = i div stride"
    have i: "i = y * stride + (4 * x + i mod stride mod 4)"
      by (simp add: x_def y_def)
    have "i mod stride mod 4 < 4" by simp
    with i have bounds: "y * stride + 4 * x \<le> i" "i < y * stride + 4 * x + 4" by linarith+
    have "x < w \<and> y < h \<and> \<bar>int x - int cx\<bar> \<le> 8 \<and> \<bar>int y - int cy\<bar> \<le> 8 \<and>
        cursor_color accent (int x - int cx) (int y - int cy) = Some c"
      using c unfolding cursor_at_def Let_def x_def y_def by (simp split: if_splits)
    then have "(y * stride + 4 * x, pixel_bytes c) \<in> set (cursor_segments w h stride cx cy accent)"
      unfolding in_cursor_segments by blast
    with bounds show ?lhs unfolding covered_def by (intro bexI) auto
  qed
qed

lemma cursor_segments_inside:
  assumes "(off, src) \<in> set (cursor_segments w h stride cx cy accent)"
    and "(h - 1) * stride + w * 4 \<le> n"
  shows "off + length src \<le> n"
proof -
  from assms(1) obtain x y where x: "x < w" and y: "y < h"
    and off: "off = y * stride + 4 * x" and len: "length src = 4"
    by (auto simp: in_cursor_segments)
  have "y * stride \<le> (h - 1) * stride" using y by (intro mult_le_mono1) simp
  with x off len assms(2) show ?thesis by linarith
qed

lemma compose_frame_composed:
  assumes "dualboy_compositor_geometry frames config = Some g" and "frames_fit frames"
    and "frame_memory (fst frames)" and "frame_memory (snd frames)"
    and "unat (gwidth g) * unat (gheight g) \<le> output_pixels" and "4 * output_pixels \<le> length output"
  shows "\<exists>out. dualboy_compose_frame output output_pixels frames config =
      Some (out, Some \<lparr>pixels = Some out, width = gwidth g, height = gheight g,
                       pitch = unat (gwidth g) * 4\<rparr>) \<and>
    length out = length output \<and> composed_image frames config g out \<and>
    (\<forall>i. 4 * (unat (gwidth g) * unat (gheight g)) \<le> i \<and> i < length output \<longrightarrow> out ! i = output ! i)"
proof -
  have mem: "frame_memory (frame_at frames m)" for m
    using assms(3,4) by (simp add: frame_at_def)
  have "4 * (unat (gwidth g) * unat (gheight g)) \<le> length output"
    using assms(5,6) by linarith
  then show ?thesis
    using blits_compose [OF composed_segments_image [OF assms(1,2) mem]]
      composed_image_bytes [OF assms(1,2)]
    unfolding compose_frame_blits [OF assms(1,2) mem assms(5)] by fastforce
qed

lemma compose_frame_total:
  assumes "frames_fit frames" and "frame_memory (fst frames)" and "frame_memory (snd frames)"
    and "4 * output_pixels \<le> length output"
  shows "\<exists>out result. dualboy_compose_frame output output_pixels frames config = Some (out, result) \<and>
    length out = length output \<and>
    (case result of
       None \<Rightarrow> out = output
     | Some f \<Rightarrow> \<exists>g. dualboy_compositor_geometry frames config = Some g \<and> composed_image frames config g out \<and>
         f = \<lparr>pixels = Some out, width = gwidth g, height = gheight g, pitch = unat (gwidth g) * 4\<rparr>)"
proof (cases "dualboy_compositor_geometry frames config")
  case None
  then show ?thesis by (simp add: dualboy_compose_frame_def)
next
  case (Some g)
  show ?thesis
  proof (cases "unat (gwidth g) * unat (gheight g) \<le> output_pixels")
    case True
    from compose_frame_composed [OF Some assms(1-3) True assms(4)] obtain out where
      "dualboy_compose_frame output output_pixels frames config =
        Some (out, Some \<lparr>pixels = Some out, width = gwidth g, height = gheight g, pitch = unat (gwidth g) * 4\<rparr>)"
      "length out = length output" "composed_image frames config g out"
      by blast
    with Some show ?thesis by simp
  next
    case False
    with Some show ?thesis by (simp add: dualboy_compose_frame_def)
  qed
qed

section \<open>Properties\<close>

text \<open>
  C3. The two coordinate mappings are inverse to each other: a composite pixel maps to a
  machine-local pixel exactly when that machine-local pixel projects to it. Pointer touches and
  the drawn reticle therefore agree in every mode, layout and screen order.
\<close>

theorem map_point_iff_project_point:
  assumes "frames_fit frames"
  shows "dualboy_compositor_map_point frames config x y = Some (m, mx, my) \<longleftrightarrow>
         dualboy_compositor_project_point frames config m mx my = Some (x, y)"
proof (cases "m < 2 \<and> dualboy_compositor_geometry frames config \<noteq> None")
  case False
  then show ?thesis
  proof (cases "m < 2")
    case True
    with False show ?thesis
      by (simp add: dualboy_compositor_map_point_def dualboy_compositor_project_point_def)
  next
    case m: False
    show ?thesis
      using m map_point_machine [of frames config x y m mx my]
        project_point_machine [of frames config m mx my "(x, y)"] by blast
  qed
next
  case True
  show ?thesis
  proof (cases "mode config = DUALBOY_MODE_DUAL")
    case dual: True
    with True obtain g where g: "dualboy_compositor_geometry frames config = Some g" by auto
    obtain k where "k < 2" and "m = dualboy_machine_for_screen k (swap_screens config)"
      using True by (intro that [of "screen_for_machine m (swap_screens config)"])
        (auto simp: screen_for_machine_def dualboy_machine_for_screen_def)
    then show ?thesis
      by (intro map_point_iff_project_point_dual [OF dual geometry_dual_Some [OF g dual]]
          frame_dims_fit [OF assms])
  next
    case False
    with True have "m = 0 \<or> m = 1" and "valid_frame (fst frames)" and "valid_frame (snd frames)"
      by (auto simp: geometry_single split: if_splits)
    with False show ?thesis
      by (cases "mode config"; elim disjE)
        (simp_all add: dualboy_compositor_map_point_def dualboy_compositor_project_point_def
          geometry_single selected_machine_def Let_def, auto simp: not_le)
  qed
qed

text \<open>
  C2. Composition draws exactly the image the coordinate mapping describes: given frames with the
  memory their pitch promises and an output with room for the composite, it succeeds, stays inside
  every buffer, gives each output pixel the bytes of the machine pixel that the mapping names, and
  leaves the output beyond the image alone.
\<close>

theorem compose_frame_correct:
  assumes "dualboy_compositor_geometry frames config = Some g" and "frames_fit frames"
    and "frame_memory (fst frames)" and "frame_memory (snd frames)"
    and "unat (gwidth g) * unat (gheight g) \<le> output_pixels" and "4 * output_pixels \<le> length output"
  shows "\<exists>out. dualboy_compose_frame output output_pixels frames config =
      Some (out, Some \<lparr>pixels = Some out, width = gwidth g, height = gheight g,
                       pitch = unat (gwidth g) * 4\<rparr>) \<and>
    length out = length output \<and> composed_image frames config g out \<and>
    (\<forall>i. 4 * (unat (gwidth g) * unat (gheight g)) \<le> i \<and> i < length output \<longrightarrow> out ! i = output ! i)"
  by (rule compose_frame_composed [OF assms])

text \<open>
  C11. Drawing the reticle is confined to the reticle: with a pixel memory of \<open>h\<close> rows of the given
  stride and a centre inside the image it succeeds, every access is inside the buffer, a byte
  belonging to a visible pixel of the 17 by 17 pattern gets that pattern's colour and every other
  byte, row padding included, keeps its value.
\<close>

theorem draw_cursor_correct:
  assumes "w > 0" and "h > 0" and "unat w * 4 \<le> stride" and "center_x < w" and "center_y < h"
    and "(unat h - 1) * stride + unat w * 4 \<le> length out"
  shows "\<exists>out'. dualboy_compositor_draw_cursor (Some out) w h stride center_x center_y accent =
      Some (True, Some out') \<and> length out' = length out \<and>
    (\<forall>i < length out. out' ! i =
       (case cursor_at (unat w) (unat h) stride (unat center_x) (unat center_y) accent i of
          Some c \<Rightarrow> pixel_bytes c ! (i mod stride mod 4)
        | None \<Rightarrow> out ! i))"
proof -
  let ?segs = "cursor_segments (unat w) (unat h) stride (unat center_x) (unat center_y) accent"
    and ?at = "cursor_at (unat w) (unat h) stride (unat center_x) (unat center_y) accent"
  have "length src = 4" if "(off, src) \<in> set ?segs" for off src
    using that by (auto simp: in_cursor_segments)
  then have "\<exists>out'. blits ?segs out = Some out' \<and> length out' = length out \<and>
      (\<forall>i < length out. out' ! i =
        (if covered ?segs i then pixel_bytes (the (?at i)) ! (i mod stride mod 4) else out ! i))"
    using cursor_segments_inside [OF _ assms(6)] cursor_at_segments(2) [OF assms(3)]
    by (intro blits_agree) fastforce
  then obtain out' where out': "blits ?segs out = Some out'" "length out' = length out"
    and val: "\<forall>i < length out. out' ! i =
        (if ?at i \<noteq> None then pixel_bytes (the (?at i)) ! (i mod stride mod 4) else out ! i)"
    unfolding cursor_at_segments(1) [OF assms(3)] by blast
  have "dualboy_compositor_draw_cursor (Some out) w h stride center_x center_y accent =
      Some (True, Some out')"
    using assms(1-5) out'(1) unfolding dualboy_compositor_draw_cursor_def draw_cursor_blits
    by (simp add: not_le not_less word_neq_0_conv)
  moreover have "out' ! i = (case ?at i of Some c \<Rightarrow> pixel_bytes c ! (i mod stride mod 4)
      | None \<Rightarrow> out ! i)" if "i < length out" for i
    using val that by (cases "?at i") auto
  ultimately show ?thesis using out'(2) by blast
qed

text \<open>
  The smallest pair of frames, one pixel each, on which the witnesses below run the mapping, the
  composition and the reticle.
\<close>

definition sample_frames :: frames where
  "sample_frames =
     (\<lparr>pixels = Some [1, 2, 3, 4], width = 1, height = 1, pitch = 4\<rparr>,
      \<lparr>pixels = Some [5, 6, 7, 8], width = 1, height = 1, pitch = 4\<rparr>)"

definition sample_config :: dualboy_compositor_config where
  "sample_config = \<lparr>mode = DUALBOY_MODE_DUAL, layout = DUALBOY_LAYOUT_TOP_BOTTOM, swap_screens = True\<rparr>"

lemma sample_fit: "frames_fit sample_frames"
  by (auto simp: frames_fit_def sample_frames_def frame_at_def)

lemma sample_geometry:
  "dualboy_compositor_geometry sample_frames sample_config = Some \<lparr>gwidth = 1, gheight = 2\<rparr>"
  by (simp add: dualboy_compositor_geometry_def valid_frame_def sample_frames_def sample_config_def)

theorem map_point_iff_project_point_witness:
  "dualboy_compositor_map_point sample_frames sample_config 0 1 = Some (0, 0, 0) \<and>
   dualboy_compositor_project_point sample_frames sample_config 0 0 0 = Some (0, 1)"
  using map_point_iff_project_point [OF sample_fit, of sample_config 0 1 0 0 0]
  unfolding dualboy_compositor_map_point_def sample_geometry
  by (simp add: sample_frames_def sample_config_def Let_def word_le_nat_alt)

theorem compose_frame_correct_witness:
  "\<exists>out. dualboy_compose_frame (replicate 9 0) 2 sample_frames sample_config =
      Some (out, Some \<lparr>pixels = Some out, width = 1, height = 2, pitch = 4\<rparr>) \<and>
    length out = 9 \<and> composed_image sample_frames sample_config \<lparr>gwidth = 1, gheight = 2\<rparr> out \<and>
    out ! 8 = 0"
  using compose_frame_correct [OF sample_geometry sample_fit, of 2 "replicate 9 0"]
  by (auto simp: frame_memory_def sample_frames_def)

theorem draw_cursor_correct_witness:
  "\<exists>out'. dualboy_compositor_draw_cursor (Some (replicate 4 0)) 1 1 4 0 0 0x123456 =
      Some (True, Some out') \<and> length out' = 4 \<and> out' ! 0 = 0x56 \<and> out' ! 2 = 0x12"
  using draw_cursor_correct [of 1 1 4 0 0 "replicate 4 0" "0x123456"]
  by (auto simp: cursor_at_def cursor_color_def pixel_bytes_def dest: spec [of _ 0] spec [of _ 2])

text \<open>
  C33. Without the bound on the dimensions the mode's arithmetic wraps: two frames of width
  \<open>2 ^ 31\<close> beside each other give a composite of width zero, which every output buffer has
  room for, so the size check of the composition does not protect the copies.
\<close>

theorem geometry_wraps:
  assumes "mode config = DUALBOY_MODE_DUAL" and "layout config = DUALBOY_LAYOUT_SIDE_BY_SIDE"
    and "dual_dims frames (2 ^ 31) h" and "frame_memory (fst frames)" and "frame_memory (snd frames)"
  shows "dualboy_compositor_geometry frames config = Some \<lparr>gwidth = 0, gheight = h\<rparr> \<and>
    dualboy_compose_frame [] 0 frames config = None"
proof -
  let ?first = "frame_at frames (dualboy_machine_for_screen 0 (swap_screens config))"
  have g: "dualboy_compositor_geometry frames config = Some \<lparr>gwidth = 0, gheight = h\<rparr>"
    using assms(2) by (simp add: geometry_dual [OF assms(1,3)])
  have first: "frame_memory ?first" "width ?first = 2 ^ 31" "height ?first = h" "0 < h"
    using assms(3-5) by (auto simp: dual_dims_def valid_frame_def frame_at_def)
  have pos: "0 < unat (height ?first)"
    using first(3,4) by (simp only: word_less_nat_alt unat_0)
  have "length (frame_row ?first 0) = 2 ^ 31 * 4"
    using frame_row_length [OF first(1) pos] unfolding first(2) by simp
  then have "copy_row [] 0 ?first 0 = None"
    using copy_row_blit [OF first(1), of 0 "[]" 0] pos by (simp add: blit_def)
  moreover have "rows_below h = 0 # map of_nat [1..<unat h]"
    using pos unfolding first(3) by (simp add: rows_below_def upt_conv_Cons)
  ultimately show ?thesis
    using g assms(1,2) by (simp add: dualboy_compose_frame_def Let_def
        del: machine_for_screen_simps frame_at_simps frame_at_if)
qed

theorem geometry_wraps_witness:
  "\<exists>frames. dualboy_compositor_geometry frames (sample_config \<lparr>layout := DUALBOY_LAYOUT_SIDE_BY_SIDE\<rparr>) =
      Some \<lparr>gwidth = 0, gheight = 1\<rparr> \<and>
    dualboy_compose_frame [] 0 frames (sample_config \<lparr>layout := DUALBOY_LAYOUT_SIDE_BY_SIDE\<rparr>) = None"
proof -
  define n :: nat where "n = 2 ^ 31 * 4"
  define f where "f = \<lparr>pixels = Some (replicate n (0 :: u8)), width = 2 ^ 31, height = 1, pitch = n\<rparr>"
  have "dual_dims (f, f) (2 ^ 31) 1" and "frame_memory (fst (f, f))" and "frame_memory (snd (f, f))"
    by (simp_all add: f_def dual_dims_def valid_frame_def frame_memory_def n_def)
  from geometry_wraps [OF _ _ this, of "sample_config \<lparr>layout := DUALBOY_LAYOUT_SIDE_BY_SIDE\<rparr>"]
  show ?thesis by (intro exI [of _ "(f, f)"]) (simp add: sample_config_def)
qed

end
