(* ===== verification/Persistence.thy ===== *)
theory Persistence
  imports Prelude
begin

text \<open>
  Save file naming and file access, \<open>src/frontend/persistence.c\<close>. C strings are HOL strings
  without their terminator, a pointer that may be null is an option, and the output buffers of
  the naming functions are returned as \<open>Inr\<close> values; an error code is an \<open>Inl\<close> value.

  The operating system is a parameter: a record of the results its calls return, one list
  element per call of \<open>read\<close>, \<open>write\<close> and \<open>fsync\<close>, interruptions included. A loop that
  outlives its list has not returned yet and has the value \<open>None\<close>.
\<close>

section \<open>Names\<close>

datatype dualboy_persistence_result =
    DUALBOY_PERSISTENCE_OK
  | DUALBOY_PERSISTENCE_INVALID_ARGUMENT
  | DUALBOY_PERSISTENCE_PATH_TOO_LONG
  | DUALBOY_PERSISTENCE_NOT_FOUND
  | DUALBOY_PERSISTENCE_TOO_LARGE
  | DUALBOY_PERSISTENCE_IO_ERROR

definition DUALBOY_PATH_CAPACITY :: nat where
  "DUALBOY_PATH_CAPACITY = 4096"

definition is_separator :: "char \<Rightarrow> bool" where
  "is_separator character \<longleftrightarrow> character = CHR ''/'' \<or> character = CHR 0x5C"

definition is_safe_component :: "string \<Rightarrow> bool" where
  "is_safe_component component \<longleftrightarrow>
     component \<noteq> '''' \<and> component \<noteq> ''.'' \<and> component \<noteq> ''..'' \<and>
     list_all (\<lambda>c. \<not> is_separator c) component"

text \<open>\<open>copy_string\<close> copies the first \<open>n\<close> characters when they and the terminator fit.\<close>

definition copy_string :: "nat \<Rightarrow> string \<Rightarrow> nat \<Rightarrow> string option" where
  "copy_string capacity source n =
     (if capacity = 0 \<or> n \<ge> capacity then None else Some (take n source))"

text \<open>The two cursor loops: the text after the last separator, the position of the last dot.\<close>

fun basename_loop :: "string \<Rightarrow> string \<Rightarrow> string" where
  "basename_loop basename [] = basename"
| "basename_loop basename (c # cursor) =
     basename_loop (if is_separator c then cursor else basename) cursor"

fun last_dot_loop :: "nat option \<Rightarrow> nat \<Rightarrow> string \<Rightarrow> nat option" where
  "last_dot_loop last_dot i [] = last_dot"
| "last_dot_loop last_dot i (c # cursor) =
     last_dot_loop (if c = CHR ''.'' then Some i else last_dot) (Suc i) cursor"

definition dualboy_content_stem ::
  "string option \<Rightarrow> nat \<Rightarrow> dualboy_persistence_result + string" where
  "dualboy_content_stem content_path capacity =
     (case content_path of
        None \<Rightarrow> Inl DUALBOY_PERSISTENCE_INVALID_ARGUMENT
      | Some path \<Rightarrow>
        if capacity = 0 \<or> path = [] then Inl DUALBOY_PERSISTENCE_INVALID_ARGUMENT
        else let basename = basename_loop path path
             in if \<not> is_safe_component basename then Inl DUALBOY_PERSISTENCE_INVALID_ARGUMENT
                else let stem_length =
                           (case last_dot_loop None 1 (tl basename) of
                              Some last_dot \<Rightarrow> last_dot
                            | None \<Rightarrow> length basename)
                     in if stem_length = 0 then Inl DUALBOY_PERSISTENCE_PATH_TOO_LONG
                        else case copy_string capacity basename stem_length of
                               None \<Rightarrow> Inl DUALBOY_PERSISTENCE_PATH_TOO_LONG
                             | Some output \<Rightarrow>
                               if \<not> is_safe_component output
                               then Inl DUALBOY_PERSISTENCE_INVALID_ARGUMENT
                               else Inr output)"

text \<open>The loop that drops trailing separators but keeps a first character.\<close>

fun trim_separators :: "string \<Rightarrow> nat \<Rightarrow> nat" where
  "trim_separators directory n =
     (if n > 1 \<and> is_separator (directory ! (n - 1)) then trim_separators directory (n - 1) else n)"

declare trim_separators.simps [simp del]

definition dualboy_join_save_path ::
  "string option \<Rightarrow> string \<Rightarrow> string \<Rightarrow> nat \<Rightarrow> dualboy_persistence_result + string" where
  "dualboy_join_save_path save_directory stem suffix capacity =
     (case save_directory of
        None \<Rightarrow> Inl DUALBOY_PERSISTENCE_INVALID_ARGUMENT
      | Some directory \<Rightarrow>
        if directory = [] \<or> \<not> is_safe_component stem \<or> \<not> is_safe_component suffix \<or>
           suffix ! 0 \<noteq> CHR ''.'' \<or> capacity = 0
        then Inl DUALBOY_PERSISTENCE_INVALID_ARGUMENT
        else let directory_length = trim_separators directory (length directory);
                 needs_separator = (\<not> is_separator (directory ! (directory_length - 1)));
                 stem_length = length stem;
                 suffix_length = length suffix;
                 required = directory_length + (if needs_separator then 1 else 0) +
                   stem_length + suffix_length + 1
             in if directory_length > SIZE_MAX - stem_length \<or>
                   directory_length + stem_length > SIZE_MAX - suffix_length - 2
                then Inl DUALBOY_PERSISTENCE_PATH_TOO_LONG
                else if required > capacity \<or> required > DUALBOY_PATH_CAPACITY
                then Inl DUALBOY_PERSISTENCE_PATH_TOO_LONG
                else Inr (take directory_length directory @
                          (if needs_separator then ''/'' else '''') @ stem @ suffix))"

record dualboy_save_paths =
  sram :: "string \<times> string"
  rtc :: "string \<times> string"
  firmware :: "string \<times> string"
  second_uses_collision_suffix :: bool

definition build_one_set ::
  "string option \<Rightarrow> string \<Rightarrow> string \<Rightarrow> string \<Rightarrow> string \<Rightarrow> bool
   \<Rightarrow> dualboy_persistence_result + string \<times> string \<times> string" where
  "build_one_set save_directory stem sram_suffix rtc_suffix firmware_suffix include_firmware =
     (case dualboy_join_save_path save_directory stem sram_suffix DUALBOY_PATH_CAPACITY of
        Inl e \<Rightarrow> Inl e
      | Inr srm \<Rightarrow>
        (case dualboy_join_save_path save_directory stem rtc_suffix DUALBOY_PATH_CAPACITY of
           Inl e \<Rightarrow> Inl e
         | Inr clock \<Rightarrow>
           if \<not> include_firmware then Inr (srm, clock, '''')
           else case dualboy_join_save_path save_directory stem firmware_suffix
                       DUALBOY_PATH_CAPACITY of
                  Inl e \<Rightarrow> Inl e
                | Inr firm \<Rightarrow> Inr (srm, clock, firm)))"

definition dualboy_build_save_paths ::
  "string option \<Rightarrow> string option \<Rightarrow> string option \<Rightarrow> bool
   \<Rightarrow> dualboy_persistence_result + dualboy_save_paths" where
  "dualboy_build_save_paths save_directory first_content_path second_content_path include_firmware =
     (case dualboy_content_stem first_content_path DUALBOY_PATH_CAPACITY of
        Inl e \<Rightarrow> Inl e
      | Inr stem0 \<Rightarrow>
        (case dualboy_content_stem second_content_path DUALBOY_PATH_CAPACITY of
           Inl e \<Rightarrow> Inl e
         | Inr stem1 \<Rightarrow>
           (case build_one_set save_directory stem0 ''.srm'' ''.rtc'' ''.firmware.bin''
                   include_firmware of
              Inl e \<Rightarrow> Inl e
            | Inr (sram0, rtc0, firmware0) \<Rightarrow>
              (case dualboy_join_save_path save_directory stem1 ''.srm'' DUALBOY_PATH_CAPACITY of
                 Inl e \<Rightarrow> Inl e
               | Inr second_unsuffixed \<Rightarrow>
                 let collision = (sram0 = second_unsuffixed)
                 in case build_one_set save_directory stem1
                           (if collision then ''.srm.2'' else ''.srm'')
                           (if collision then ''.rtc.2'' else ''.rtc'')
                           (if collision then ''.firmware.bin.2'' else ''.firmware.bin'')
                           include_firmware of
                      Inl e \<Rightarrow> Inl e
                    | Inr (sram1, rtc1, firmware1) \<Rightarrow>
                      Inr \<lparr>sram = (sram0, sram1), rtc = (rtc0, rtc1),
                           firmware = (firmware0, firmware1),
                           second_uses_collision_suffix = collision\<rparr>))))"

definition has_suffix :: "string \<Rightarrow> string \<Rightarrow> bool" where
  "has_suffix value suffix \<longleftrightarrow>
     length value \<ge> length suffix \<and> drop (length value - length suffix) value = suffix"

definition dualboy_legacy_sav_path ::
  "string option \<Rightarrow> nat \<Rightarrow> dualboy_persistence_result + string" where
  "dualboy_legacy_sav_path canonical_srm capacity =
     (case canonical_srm of
        None \<Rightarrow> Inl DUALBOY_PERSISTENCE_INVALID_ARGUMENT
      | Some canonical \<Rightarrow>
        if canonical = [] \<or> capacity = 0 then Inl DUALBOY_PERSISTENCE_INVALID_ARGUMENT
        else let replace = (\<lambda>old_suffix new_suffix.
                   let prefix_length = length canonical - length old_suffix
                   in if prefix_length > SIZE_MAX - length new_suffix \<or>
                         prefix_length + length new_suffix + 1 > capacity \<or>
                         prefix_length + length new_suffix + 1 > DUALBOY_PATH_CAPACITY
                      then Inl DUALBOY_PERSISTENCE_PATH_TOO_LONG
                      else Inr (take prefix_length canonical @ new_suffix))
             in if has_suffix canonical ''.srm.2'' then replace ''.srm.2'' ''.sav.2''
                else if has_suffix canonical ''.srm'' then replace ''.srm'' ''.sav''
                else Inl DUALBOY_PERSISTENCE_INVALID_ARGUMENT)"

section \<open>Files\<close>

datatype errno = ENOENT | ENOTDIR | EINTR | E_OTHER

datatype stat_result =
    STAT_REGULAR
  | STAT_NOT_REGULAR
  | STAT_FAILED errno

definition regular_file_state :: "(string \<Rightarrow> stat_result) \<Rightarrow> string \<Rightarrow> int" where
  "regular_file_state stat path =
     (case stat path of
        STAT_REGULAR \<Rightarrow> 1
      | STAT_NOT_REGULAR \<Rightarrow> -1
      | STAT_FAILED errno \<Rightarrow> if errno = ENOENT \<or> errno = ENOTDIR then 0 else -1)"

datatype dualboy_sav_import_choice =
    DUALBOY_SAV_IMPORT_NO_SOURCE
  | DUALBOY_SAV_IMPORT_KEEP_CANONICAL
  | DUALBOY_SAV_IMPORT_COPY_LEGACY

definition dualboy_choose_sav_import ::
  "(string \<Rightarrow> stat_result) \<Rightarrow> string option \<Rightarrow> string option
   \<Rightarrow> dualboy_persistence_result + dualboy_sav_import_choice" where
  "dualboy_choose_sav_import stat canonical_srm legacy_sav =
     (case (canonical_srm, legacy_sav) of
        (Some canonical, Some legacy) \<Rightarrow>
          if canonical = [] \<or> legacy = [] then Inl DUALBOY_PERSISTENCE_INVALID_ARGUMENT
          else if length canonical \<ge> DUALBOY_PATH_CAPACITY \<or>
                  length legacy \<ge> DUALBOY_PATH_CAPACITY
          then Inl DUALBOY_PERSISTENCE_PATH_TOO_LONG
          else let canonical_state = regular_file_state stat canonical
               in if canonical_state < 0 then Inl DUALBOY_PERSISTENCE_IO_ERROR
                  else if canonical_state > 0 then Inr DUALBOY_SAV_IMPORT_KEEP_CANONICAL
                  else let legacy_state = regular_file_state stat legacy
                       in if legacy_state < 0 then Inl DUALBOY_PERSISTENCE_IO_ERROR
                          else if legacy_state > 0 then Inr DUALBOY_SAV_IMPORT_COPY_LEGACY
                          else Inr DUALBOY_SAV_IMPORT_NO_SOURCE
      | _ \<Rightarrow> Inl DUALBOY_PERSISTENCE_INVALID_ARGUMENT)"

definition SSIZE_MAX :: nat where
  "SSIZE_MAX = 2 ^ 63 - 1"

datatype read_result =
    READ_BYTES bytes
  | READ_ERR errno

text \<open>What the operating system answers to one \<open>dualboy_read_file_filled\<close>.\<close>

record read_calls =
  open_error :: "errno option"
  fstat :: "(bool \<times> int) option"
  malloc_succeeds :: bool
  reads :: "read_result list"
  close_succeeds :: bool

definition fill_buffer :: "bytes \<Rightarrow> u8 \<Rightarrow> bytes" where
  "fill_buffer buffer fill = replicate (length buffer) fill"

text \<open>
  The read loop: \<open>acc\<close> is what the temporary buffer holds so far, its length the offset. A read
  that returns more than was asked for would overrun the buffer and has no result.
\<close>

fun read_loop :: "nat \<Rightarrow> read_result list \<Rightarrow> bytes \<Rightarrow> (bytes option \<times> read_result list) option" where
  "read_loop expected_size calls acc =
     (if length acc \<ge> expected_size then Some (Some acc, calls)
      else case calls of
             [] \<Rightarrow> None
           | READ_ERR errno # rest \<Rightarrow>
             if errno = EINTR then read_loop expected_size rest acc else Some (None, rest)
           | READ_BYTES chunk # rest \<Rightarrow>
             if chunk = [] then Some (None, rest)
             else if length chunk > min (expected_size - length acc) SSIZE_MAX then None
             else read_loop expected_size rest (acc @ chunk))"

fun probe_loop :: "read_result list \<Rightarrow> read_result option" where
  "probe_loop [] = None"
| "probe_loop (READ_ERR EINTR # rest) = probe_loop rest"
| "probe_loop (r # rest) = Some r"

text \<open>
  The path is \<open>None\<close> for a null pointer, the buffer and the size pointer are there; the value is
  result, buffer and reported size.
\<close>

definition dualboy_read_file_filled ::
  "read_calls \<Rightarrow> string option \<Rightarrow> bytes \<Rightarrow> u8
   \<Rightarrow> (dualboy_persistence_result \<times> bytes \<times> nat) option" where
  "dualboy_read_file_filled os path buffer fill =
     (case path of
        None \<Rightarrow> Some (DUALBOY_PERSISTENCE_INVALID_ARGUMENT, buffer, 0)
      | Some p \<Rightarrow>
        if p = [] then Some (DUALBOY_PERSISTENCE_INVALID_ARGUMENT, buffer, 0)
        else let filled = fill_buffer buffer fill
             in if length p \<ge> DUALBOY_PATH_CAPACITY
                then Some (DUALBOY_PERSISTENCE_PATH_TOO_LONG, filled, 0)
                else case open_error os of
                  Some errno \<Rightarrow>
                    Some (if errno = ENOENT \<or> errno = ENOTDIR then DUALBOY_PERSISTENCE_NOT_FOUND
                          else DUALBOY_PERSISTENCE_IO_ERROR, filled, 0)
                | None \<Rightarrow>
                  (case fstat os of
                     None \<Rightarrow> Some (DUALBOY_PERSISTENCE_IO_ERROR, filled, 0)
                   | Some (is_regular, st_size) \<Rightarrow>
                     if \<not> is_regular \<or> st_size < 0
                     then Some (DUALBOY_PERSISTENCE_IO_ERROR, filled, 0)
                     else if nat st_size > length buffer
                     then Some (DUALBOY_PERSISTENCE_TOO_LARGE, filled, 0)
                     else if \<not> malloc_succeeds os
                     then Some (DUALBOY_PERSISTENCE_IO_ERROR, filled, 0)
                     else do {
                       (temporary, rest) \<leftarrow> read_loop (nat st_size) (reads os) [];
                       case temporary of
                         None \<Rightarrow> Some (DUALBOY_PERSISTENCE_IO_ERROR, filled, 0)
                       | Some content \<Rightarrow> do {
                           probe \<leftarrow> probe_loop rest;
                           case probe of
                             READ_ERR _ \<Rightarrow> Some (DUALBOY_PERSISTENCE_IO_ERROR, filled, 0)
                           | READ_BYTES extra \<Rightarrow>
                             if extra \<noteq> [] then Some (DUALBOY_PERSISTENCE_TOO_LARGE, filled, 0)
                             else if \<not> close_succeeds os
                             then Some (DUALBOY_PERSISTENCE_IO_ERROR, filled, 0)
                             else do {
                               output \<leftarrow> blit filled 0 content;
                               Some (DUALBOY_PERSISTENCE_OK, output, nat st_size)
                             }
                         }
                     }))"

text \<open>\<open>strrchr(path, '/')\<close> as an offset.\<close>

definition last_slash :: "string \<Rightarrow> nat option" where
  "last_slash path =
     (let tail = takeWhile (\<lambda>c. c \<noteq> CHR ''/'') (rev path)
      in if length tail = length path then None else Some (length path - length tail - 1))"

definition valid_target_path :: "string \<Rightarrow> bool" where
  "valid_target_path path \<longleftrightarrow>
     path ! (length path - 1) \<noteq> CHR ''/'' \<and>
     (let basename = (case last_slash path of None \<Rightarrow> path | Some slash \<Rightarrow> drop (slash + 1) path)
      in basename \<noteq> [] \<and> basename \<noteq> ''.'' \<and> basename \<noteq> ''..'')"

fun sync_descriptor :: "errno option list \<Rightarrow> bool option" where
  "sync_descriptor [] = None"
| "sync_descriptor (None # rest) = Some True"
| "sync_descriptor (Some errno # rest) =
     (if errno = EINTR then sync_descriptor rest else Some False)"

text \<open>The directory that is opened and synced after the rename.\<close>

definition sync_parent_directory_best_effort :: "string \<Rightarrow> string option" where
  "sync_parent_directory_best_effort path =
     (case last_slash path of
        None \<Rightarrow> Some ''.''
      | Some slash \<Rightarrow>
        copy_string DUALBOY_PATH_CAPACITY path (if slash = 0 then 1 else slash))"

datatype write_result =
    WROTE nat
  | WRITE_ERR errno

text \<open>
  What the operating system answers to one \<open>dualboy_write_file_atomic\<close>; \<open>mkstemp\<close> returns the
  characters that replace the template's \<open>XXXXXX\<close>.
\<close>

record write_calls =
  path_malloc_succeeds :: bool
  mkstemp :: "string option"
  writes :: "write_result list"
  fsyncs :: "errno option list"
  close_written_succeeds :: bool
  rename_succeeds :: bool
  unlink_succeeds :: bool

text \<open>The write loop; it reports whether it finished and the offset after every write.\<close>

fun write_loop :: "write_result list \<Rightarrow> nat \<Rightarrow> nat \<Rightarrow> (bool \<times> nat list) option" where
  "write_loop calls count offset =
     (if offset \<ge> count then Some (True, [])
      else case calls of
             [] \<Rightarrow> None
           | WRITE_ERR errno # rest \<Rightarrow>
             if errno = EINTR then write_loop rest count offset else Some (False, [])
           | WROTE amount # rest \<Rightarrow>
             if amount = 0 then Some (False, [])
             else if amount > min (count - offset) SSIZE_MAX then None
             else do {
               (finished, offsets) \<leftarrow> write_loop rest count (offset + amount);
               Some (finished, (offset + amount) # offsets)
             })"

declare read_loop.simps [simp del] write_loop.simps [simp del]

type_synonym file_system = "string \<Rightarrow> bytes option"

definition temporary_prefix :: "string \<Rightarrow> string" where
  "temporary_prefix path =
     (case last_slash path of None \<Rightarrow> [] | Some slash \<Rightarrow> take (slash + 1) path) @ ''.dualboy-save-''"

text \<open>
  The write returns its result and the file system after each call that changes it, in order:
  creation of the temporary file, every write, and the rename or the removal.
\<close>

definition dualboy_write_file_atomic ::
  "write_calls \<Rightarrow> file_system \<Rightarrow> string option \<Rightarrow> bytes
   \<Rightarrow> (dualboy_persistence_result \<times> file_system list) option" where
  "dualboy_write_file_atomic os fs path data =
     (case path of
        None \<Rightarrow> Some (DUALBOY_PERSISTENCE_INVALID_ARGUMENT, [])
      | Some p \<Rightarrow>
        if p = [] then Some (DUALBOY_PERSISTENCE_INVALID_ARGUMENT, [])
        else if length p \<ge> DUALBOY_PATH_CAPACITY then Some (DUALBOY_PERSISTENCE_PATH_TOO_LONG, [])
        else if \<not> valid_target_path p then Some (DUALBOY_PERSISTENCE_INVALID_ARGUMENT, [])
        else let directory_length = (case last_slash p of None \<Rightarrow> 0 | Some slash \<Rightarrow> slash + 1)
             in if directory_length > SIZE_MAX - 21 \<or> directory_length + 21 > DUALBOY_PATH_CAPACITY
                then Some (DUALBOY_PERSISTENCE_PATH_TOO_LONG, [])
                else if \<not> path_malloc_succeeds os then Some (DUALBOY_PERSISTENCE_IO_ERROR, [])
                else case mkstemp os of
                  None \<Rightarrow> Some (DUALBOY_PERSISTENCE_IO_ERROR, [])
                | Some chosen \<Rightarrow>
                  let temporary_path = temporary_prefix p @ chosen;
                      created = fs(temporary_path \<mapsto> [])
                  in do {
                    (written, offsets) \<leftarrow> write_loop (writes os) (length data) 0;
                    synced \<leftarrow> (if written then sync_descriptor (fsyncs os) else Some False);
                    let steps = created # map (\<lambda>n. fs(temporary_path \<mapsto> take n data)) offsets;
                        content = last steps;
                        failed = (DUALBOY_PERSISTENCE_IO_ERROR,
                          steps @ (if unlink_succeeds os then [content(temporary_path := None)] else []))
                    in if synced \<and> close_written_succeeds os \<and> rename_succeeds os
                       then Some (DUALBOY_PERSISTENCE_OK,
                         steps @ [(content(temporary_path := None))(p := content temporary_path)])
                       else Some failed
                  })"

fun dualboy_persistence_result_message :: "dualboy_persistence_result \<Rightarrow> string" where
  "dualboy_persistence_result_message DUALBOY_PERSISTENCE_OK = ''success''"
| "dualboy_persistence_result_message DUALBOY_PERSISTENCE_INVALID_ARGUMENT =
     ''invalid persistence path or argument''"
| "dualboy_persistence_result_message DUALBOY_PERSISTENCE_PATH_TOO_LONG =
     ''persistence path exceeds DualBoy''@ [CHR 0x27] @ ''s path limit''"
| "dualboy_persistence_result_message DUALBOY_PERSISTENCE_NOT_FOUND =
     ''persistence file does not exist''"
| "dualboy_persistence_result_message DUALBOY_PERSISTENCE_TOO_LARGE =
     ''persistence file is larger than its destination memory''"
| "dualboy_persistence_result_message DUALBOY_PERSISTENCE_IO_ERROR = ''persistence file I/O failed''"

section \<open>Names: lemmas\<close>

lemma basename_loop_plain: "list_all (\<lambda>c. \<not> is_separator c) xs \<Longrightarrow> basename_loop b xs = b"
  by (induction xs arbitrary: b) auto

lemma basename_loop_separator:
  "\<not> list_all (\<lambda>c. \<not> is_separator c) xs \<Longrightarrow> basename_loop b xs = basename_loop b' xs"
proof (induction xs arbitrary: b b')
  case (Cons x xs)
  then show ?case using Cons.IH [of b b'] by (cases "is_separator x") auto
qed simp

lemma basename_loop_suffix:
  "\<exists>directory. path = directory @ basename_loop path path \<and>
     list_all (\<lambda>c. \<not> is_separator c) (basename_loop path path) \<and>
     (directory = [] \<or> is_separator (last directory))"
proof (induction path)
  case Nil
  then show ?case by simp
next
  case (Cons c path)
  then obtain directory where rec: "path = directory @ basename_loop path path"
    "list_all (\<lambda>c. \<not> is_separator c) (basename_loop path path)"
    "directory = [] \<or> is_separator (last directory)" by blast
  show ?case
  proof (cases "list_all (\<lambda>c. \<not> is_separator c) path \<and> \<not> is_separator c")
    case True
    then have "basename_loop (c # path) (c # path) = c # path"
      by (simp add: basename_loop_plain)
    with True show ?thesis by (intro exI [of _ "[]"]) simp
  next
    case False
    then have "basename_loop (c # path) (c # path) = basename_loop path path"
      using basename_loop_separator [of path "c # path" path]
      by (cases "list_all (\<lambda>c. \<not> is_separator c) path") (simp_all add: basename_loop_plain)
    moreover have "is_separator (last (c # directory))"
    proof (cases "directory = []")
      case True
      then have "list_all (\<lambda>c. \<not> is_separator c) path" using rec(1,2) by simp
      with False True show ?thesis by simp
    next
      case False
      with rec(3) show ?thesis by simp
    qed
    ultimately show ?thesis using rec by (intro exI [of _ "c # directory"]) simp
  qed
qed

lemma last_dot_loop_None: "CHR ''.'' \<notin> set xs \<Longrightarrow> last_dot_loop d i xs = d"
  by (induction xs arbitrary: d i) auto

lemma last_dot_loop_append:
  "last_dot_loop d i (xs @ ys) = last_dot_loop (last_dot_loop d i xs) (i + length xs) ys"
  by (induction xs arbitrary: d i) auto

lemma last_dot_loop_split:
  assumes "CHR ''.'' \<in> set xs"
  shows "\<exists>ys zs. xs = ys @ CHR ''.'' # zs \<and> CHR ''.'' \<notin> set zs \<and>
    last_dot_loop d i xs = Some (i + length ys)"
proof -
  from assms obtain ys zs where "xs = ys @ CHR ''.'' # zs" and "CHR ''.'' \<notin> set zs"
    by (meson split_list_last)
  then have "xs = ys @ CHR ''.'' # zs \<and> CHR ''.'' \<notin> set zs \<and>
      last_dot_loop d i xs = Some (i + length ys)"
    by (simp add: last_dot_loop_append last_dot_loop_None)
  then show ?thesis by blast
qed

lemma safe_component_append:
  assumes "is_safe_component stem" and "is_safe_component suffix"
  shows "is_safe_component (stem @ suffix)"
  using assms by (auto simp: is_safe_component_def append_eq_Cons_conv)

text \<open>The part of a file name that becomes the stem, and what remains is an extension.\<close>

lemma stem_split:
  assumes "base \<noteq> []"
  defines "n \<equiv> (case last_dot_loop None 1 (tl base) of Some d \<Rightarrow> d | None \<Rightarrow> length base)"
  shows "n \<le> length base \<and>
    (drop n base = [] \<or> (\<exists>e. drop n base = CHR ''.'' # e \<and> CHR ''.'' \<notin> set e))"
proof -
  obtain c rest where base: "base = c # rest" using assms(1) by (cases base) auto
  show ?thesis
  proof (cases "CHR ''.'' \<in> set rest")
    case True
    with last_dot_loop_split [OF True, of None 1] obtain ys zs where
      "rest = ys @ CHR ''.'' # zs" "CHR ''.'' \<notin> set zs" "n = 1 + length ys"
      by (auto simp: n_def base)
    then show ?thesis by (simp add: base)
  next
    case False
    then show ?thesis by (simp add: n_def base last_dot_loop_None)
  qed
qed

lemma content_stem_Inr:
  assumes "dualboy_content_stem (Some path) capacity = Inr stem"
  defines "base \<equiv> basename_loop path path"
  defines "n \<equiv> (case last_dot_loop None 1 (tl base) of Some d \<Rightarrow> d | None \<Rightarrow> length base)"
  shows "is_safe_component stem" and "base \<noteq> []" and "n < capacity" and "stem = take n base"
  using assms(1) unfolding n_def base_def
  by (auto simp: dualboy_content_stem_def copy_string_def is_safe_component_def Let_def
      split: option.splits if_splits)

text \<open>The directory part of every save path: the directory without surplus separators, then one.\<close>

definition directory_prefix :: "string \<Rightarrow> string" where
  "directory_prefix directory =
     (let n = trim_separators directory (length directory)
      in take n directory @ (if is_separator (directory ! (n - 1)) then '''' else ''/''))"

lemma trim_separators_bounds: "0 < n \<Longrightarrow> 0 < trim_separators d n \<and> trim_separators d n \<le> n"
proof (induction d n rule: trim_separators.induct)
  case (1 d n)
  then show ?case
    by (subst (1 2) trim_separators.simps) (auto intro: le_trans [OF _ diff_le_self])
qed

lemma directory_prefix_separator:
  assumes "directory \<noteq> []"
  shows "is_separator (last (directory_prefix directory))"
proof -
  define n where "n = trim_separators directory (length directory)"
  have n: "0 < n" "n \<le> length directory"
    using trim_separators_bounds [of "length directory" directory] assms by (auto simp: n_def)
  then have "last (take n directory) = directory ! (n - 1)" and "take n directory \<noteq> []"
    by (cases n; force simp: take_Suc_conv_app_nth)+
  then show ?thesis
    by (simp add: directory_prefix_def Let_def n_def [symmetric]) (simp add: is_separator_def)
qed

lemma join_save_path_Inr:
  assumes "dualboy_join_save_path (Some directory) stem suffix capacity = Inr path"
  shows "path = directory_prefix directory @ stem @ suffix" and "directory \<noteq> []"
    and "length path < DUALBOY_PATH_CAPACITY" and "is_safe_component (stem @ suffix)"
proof -
  define n where "n = trim_separators directory (length directory)"
  show dir: "directory \<noteq> []"
    using assms by (auto simp: dualboy_join_save_path_def split: if_splits)
  then have n: "n \<le> length directory"
    using trim_separators_bounds [of "length directory" directory] by (simp add: n_def)
  from assms show "path = directory_prefix directory @ stem @ suffix"
    and "length path < DUALBOY_PATH_CAPACITY" and "is_safe_component (stem @ suffix)"
    using n unfolding n_def
    by (auto simp: dualboy_join_save_path_def directory_prefix_def Let_def intro: safe_component_append
        split: if_splits)
qed

lemma last_differs:
  "last t \<noteq> last t' \<Longrightarrow> t \<noteq> [] \<Longrightarrow> t' \<noteq> [] \<Longrightarrow> s @ t \<noteq> s' @ t'"
  by (metis last_appendR)

lemma build_one_set_Inr:
  assumes "build_one_set (Some directory) stem s r f fw = Inr (srm, clock, firm)"
  shows "dualboy_join_save_path (Some directory) stem s DUALBOY_PATH_CAPACITY = Inr srm"
    and "dualboy_join_save_path (Some directory) stem r DUALBOY_PATH_CAPACITY = Inr clock"
    and "fw \<Longrightarrow> dualboy_join_save_path (Some directory) stem f DUALBOY_PATH_CAPACITY = Inr firm"
  using assms by (auto simp: build_one_set_def split: sum.splits if_splits)

text \<open>The file names of one machine; the second takes the suffix \<open>2\<close> when the stems agree.\<close>

definition machine_suffixes :: "bool \<Rightarrow> bool \<Rightarrow> string list" where
  "machine_suffixes numbered include_firmware =
     map (\<lambda>suffix. suffix @ (if numbered then ''.2'' else ''''))
       ([''.srm'', ''.rtc''] @ (if include_firmware then [''.firmware.bin''] else []))"

definition save_path_list :: "bool \<Rightarrow> dualboy_save_paths \<Rightarrow> string list" where
  "save_path_list include_firmware paths =
     [fst (sram paths), fst (rtc paths)] @ (if include_firmware then [fst (firmware paths)] else []) @
     [snd (sram paths), snd (rtc paths)] @ (if include_firmware then [snd (firmware paths)] else [])"

lemma build_save_paths_Inr:
  assumes "dualboy_build_save_paths (Some directory) first second fw = Inr paths"
  obtains stem0 stem1 where
    "save_path_list fw paths =
       map (\<lambda>suffix. directory_prefix directory @ stem0 @ suffix) (machine_suffixes False fw) @
       map (\<lambda>suffix. directory_prefix directory @ stem1 @ suffix) (machine_suffixes (stem0 = stem1) fw)"
    and "\<And>p. p \<in> set (save_path_list fw paths) \<Longrightarrow>
       length p < DUALBOY_PATH_CAPACITY \<and>
       (\<exists>c. p = directory_prefix directory @ c \<and> is_safe_component c)"
    and "directory \<noteq> []" and "second_uses_collision_suffix paths \<longleftrightarrow> stem0 = stem1"
    and "dualboy_content_stem first DUALBOY_PATH_CAPACITY = Inr stem0"
    and "dualboy_content_stem second DUALBOY_PATH_CAPACITY = Inr stem1"
proof -
  from assms obtain stem0 stem1 sram0 rtc0 firm0 sram1 rtc1 firm1 plain where
    stems: "dualboy_content_stem first DUALBOY_PATH_CAPACITY = Inr stem0"
      "dualboy_content_stem second DUALBOY_PATH_CAPACITY = Inr stem1"
    and set0: "build_one_set (Some directory) stem0 ''.srm'' ''.rtc'' ''.firmware.bin'' fw =
      Inr (sram0, rtc0, firm0)"
    and plain: "dualboy_join_save_path (Some directory) stem1 ''.srm'' DUALBOY_PATH_CAPACITY = Inr plain"
    and set1: "build_one_set (Some directory) stem1
      (if sram0 = plain then ''.srm.2'' else ''.srm'') (if sram0 = plain then ''.rtc.2'' else ''.rtc'')
      (if sram0 = plain then ''.firmware.bin.2'' else ''.firmware.bin'') fw = Inr (sram1, rtc1, firm1)"
    and paths: "paths = \<lparr>sram = (sram0, sram1), rtc = (rtc0, rtc1), firmware = (firm0, firm1),
      second_uses_collision_suffix = (sram0 = plain)\<rparr>"
    unfolding dualboy_build_save_paths_def Let_def by (auto split: sum.splits)
  note j0 = build_one_set_Inr [OF set0] and j1 = build_one_set_Inr [OF set1]
  have same: "sram0 = plain \<longleftrightarrow> stem0 = stem1"
    using join_save_path_Inr(1) [OF j0(1)] join_save_path_Inr(1) [OF plain] by simp
  show thesis
  proof (rule that [of stem0 stem1])
    show "save_path_list fw paths =
       map (\<lambda>suffix. directory_prefix directory @ stem0 @ suffix) (machine_suffixes False fw) @
       map (\<lambda>suffix. directory_prefix directory @ stem1 @ suffix) (machine_suffixes (stem0 = stem1) fw)"
      using j0 j1 by (auto simp: save_path_list_def machine_suffixes_def paths same
          dest!: join_save_path_Inr(1))
    show "length p < DUALBOY_PATH_CAPACITY \<and> (\<exists>c. p = directory_prefix directory @ c \<and> is_safe_component c)"
      if "p \<in> set (save_path_list fw paths)" for p
    proof -
      from that obtain stem suffix where
        "dualboy_join_save_path (Some directory) stem suffix DUALBOY_PATH_CAPACITY = Inr p"
        using j0 j1 by (auto simp: save_path_list_def paths split: if_splits)
      from join_save_path_Inr [OF this] show ?thesis by blast
    qed
    show "directory \<noteq> []" by (rule join_save_path_Inr(2) [OF plain])
    show "second_uses_collision_suffix paths \<longleftrightarrow> stem0 = stem1" by (simp add: paths same)
  qed (rule stems)+
qed

text \<open>The same directory and stem with two different suffixes, or two stems, never clash.\<close>

lemma machine_suffixes_last:
  "s \<in> set (machine_suffixes False fw) \<Longrightarrow> t \<in> set (machine_suffixes False fw) \<Longrightarrow>
   a @ s = b @ t \<Longrightarrow> a = b \<and> s = t"
  by (auto simp: machine_suffixes_def split: if_splits)

lemma machine_suffixes_distinct:
  "distinct (machine_suffixes False fw @ machine_suffixes True fw)"
  by (simp add: machine_suffixes_def)

lemma distinct_suffixed_paths:
  "distinct (map (\<lambda>suffix. d @ stem0 @ suffix) (machine_suffixes False fw) @
     map (\<lambda>suffix. d @ stem1 @ suffix) (machine_suffixes (stem0 = stem1) fw))"
proof -
  have inj: "inj_on (\<lambda>suffix. d @ s @ suffix) A" for s A
    by (simp add: inj_on_def)
  show ?thesis
  proof (cases "stem0 = stem1")
    case True
    have "distinct (map (\<lambda>suffix. d @ stem0 @ suffix) (machine_suffixes False fw @ machine_suffixes True fw))"
      unfolding distinct_map by (intro conjI machine_suffixes_distinct inj)
    with True show ?thesis by simp
  next
    case False
    have "distinct (machine_suffixes False fw)"
      using machine_suffixes_distinct [of fw] by simp
    moreover have "d @ stem0 @ s \<noteq> d @ stem1 @ t"
      if "s \<in> set (machine_suffixes False fw)" and "t \<in> set (machine_suffixes False fw)" for s t
      using machine_suffixes_last [OF that, of stem0 stem1] False by auto
    ultimately show ?thesis
      using False inj by (auto simp: distinct_map)
  qed
qed

lemma legacy_sav_path_suffix:
  assumes "length (x @ ''.srm'' @ n) < DUALBOY_PATH_CAPACITY" and "n = '''' \<or> n = ''.2''"
  shows "dualboy_legacy_sav_path (Some (x @ ''.srm'' @ n)) DUALBOY_PATH_CAPACITY = Inr (x @ ''.sav'' @ n)"
proof -
  have "\<not> has_suffix (x @ ''.srm'') ''.srm.2''"
    by (auto simp: has_suffix_def dest: arg_cong [where f = last])
  moreover have "has_suffix (x @ t) t" for t by (simp add: has_suffix_def)
  ultimately show ?thesis
    using assms by (auto simp: dualboy_legacy_sav_path_def Let_def DUALBOY_PATH_CAPACITY_def SIZE_MAX_def)
qed

section \<open>Names: properties\<close>

text \<open>
  The stem of a content path is safe to use as a file name: it is not empty, not a directory
  reference, holds no separator, and is what remains of the last component of the path
  after removing at most one extension.
\<close>

theorem content_stem_correct:
  assumes "dualboy_content_stem (Some path) capacity = Inr stem"
  shows "is_safe_component stem \<and> length stem < capacity \<and>
    (\<exists>directory extension. path = directory @ stem @ extension \<and>
       (directory = [] \<or> is_separator (last directory)) \<and>
       (extension = [] \<or> (\<exists>e. extension = CHR ''.'' # e \<and> CHR ''.'' \<notin> set e \<and>
          list_all (\<lambda>c. \<not> is_separator c) e)))"
proof -
  define base where "base = basename_loop path path"
  define n where "n = (case last_dot_loop None 1 (tl base) of Some d \<Rightarrow> d | None \<Rightarrow> length base)"
  note stem = content_stem_Inr [OF assms, folded base_def, folded n_def]
  obtain directory where dir: "path = directory @ base" "list_all (\<lambda>c. \<not> is_separator c) base"
    "directory = [] \<or> is_separator (last directory)"
    using basename_loop_suffix [of path] unfolding base_def by blast
  have base: "base = stem @ drop n base" using stem(4) by simp
  have "list_all (\<lambda>c. \<not> is_separator c) (drop n base)"
    using dir(2) by (subst (asm) base) simp
  then have "drop n base = [] \<or> (\<exists>e. drop n base = CHR ''.'' # e \<and> CHR ''.'' \<notin> set e \<and>
      list_all (\<lambda>c. \<not> is_separator c) e)"
    using stem_split [OF stem(2), folded n_def] by auto
  moreover have "path = directory @ stem @ drop n base" using dir(1) base by simp
  moreover have "length stem < capacity" using stem(3,4) by simp
  ultimately show ?thesis using stem(1) dir(3) by blast
qed

theorem content_stem_correct_witness:
  "dualboy_content_stem (Some ''/roms/a.b.gba'') 4096 = Inr ''a.b'' \<and> is_safe_component ''a.b''"
proof -
  have "dualboy_content_stem (Some ''/roms/a.b.gba'') 4096 = Inr ''a.b''"
    by (simp add: dualboy_content_stem_def is_safe_component_def is_separator_def copy_string_def)
  with content_stem_correct [OF this] show ?thesis by blast
qed

text \<open>
  C29. Save files never share a path: the two SRAM files, the two clock files and, for a platform
  with firmware, the two firmware files of a session are pairwise different, whatever the two
  content paths are. Each of them lies directly inside the save directory and fits the path
  buffer with its terminator.
\<close>

theorem save_paths_distinct:
  assumes "dualboy_build_save_paths (Some directory) first second include_firmware = Inr paths"
  shows "distinct (save_path_list include_firmware paths) \<and>
    is_separator (last (directory_prefix directory)) \<and>
    (\<forall>p \<in> set (save_path_list include_firmware paths). length p < DUALBOY_PATH_CAPACITY \<and>
       (\<exists>c. p = directory_prefix directory @ c \<and> is_safe_component c))"
proof -
  from build_save_paths_Inr [OF assms] obtain stem0 stem1 where
    list: "save_path_list include_firmware paths =
       map (\<lambda>suffix. directory_prefix directory @ stem0 @ suffix) (machine_suffixes False include_firmware) @
       map (\<lambda>suffix. directory_prefix directory @ stem1 @ suffix)
         (machine_suffixes (stem0 = stem1) include_firmware)"
    and inside: "\<And>p. p \<in> set (save_path_list include_firmware paths) \<Longrightarrow>
       length p < DUALBOY_PATH_CAPACITY \<and>
       (\<exists>c. p = directory_prefix directory @ c \<and> is_safe_component c)"
    and dir: "directory \<noteq> []"
    by blast
  have "distinct (save_path_list include_firmware paths)"
    unfolding list by (rule distinct_suffixed_paths)
  with inside directory_prefix_separator [OF dir] show ?thesis by blast
qed

theorem save_paths_distinct_witness:
  "\<exists>paths. dualboy_build_save_paths (Some ''/saves/'') (Some ''/a/game.gb'') (Some ''/b/game.gb'') False =
     Inr paths \<and> fst (sram paths) = ''/saves/game.srm'' \<and> snd (sram paths) = ''/saves/game.srm.2'' \<and>
     distinct (save_path_list False paths)"
proof -
  obtain paths where "dualboy_build_save_paths (Some ''/saves/'') (Some ''/a/game.gb'')
      (Some ''/b/game.gb'') False = Inr paths"
    and "fst (sram paths) = ''/saves/game.srm''" and "snd (sram paths) = ''/saves/game.srm.2''"
    by (simp add: dualboy_build_save_paths_def build_one_set_def dualboy_join_save_path_def
        dualboy_content_stem_def is_safe_component_def is_separator_def copy_string_def Let_def
        trim_separators.simps DUALBOY_PATH_CAPACITY_def SIZE_MAX_def)
  with save_paths_distinct [OF this(1)] show ?thesis by blast
qed

text \<open>
  The optional import source of a save file is never one of the session's own save files: for
  each canonical SRAM path the legacy name exists, has the same length and directory, and differs
  from every path the session writes.
\<close>

theorem legacy_sav_path_disjoint:
  assumes "dualboy_build_save_paths (Some directory) first second include_firmware = Inr paths"
    and "canonical = fst (sram paths) \<or> canonical = snd (sram paths)"
  shows "\<exists>legacy. dualboy_legacy_sav_path (Some canonical) DUALBOY_PATH_CAPACITY = Inr legacy \<and>
    length legacy = length canonical \<and> legacy \<notin> set (save_path_list include_firmware paths)"
proof -
  from build_save_paths_Inr [OF assms(1)] obtain stem0 stem1 where
    list: "save_path_list include_firmware paths =
       map (\<lambda>suffix. directory_prefix directory @ stem0 @ suffix) (machine_suffixes False include_firmware) @
       map (\<lambda>suffix. directory_prefix directory @ stem1 @ suffix)
         (machine_suffixes (stem0 = stem1) include_firmware)"
    and inside: "\<And>p. p \<in> set (save_path_list include_firmware paths) \<Longrightarrow>
       length p < DUALBOY_PATH_CAPACITY \<and>
       (\<exists>c. p = directory_prefix directory @ c \<and> is_safe_component c)"
    by blast
  have canonical: "canonical \<in> set (save_path_list include_firmware paths)"
    using assms(2) by (auto simp: save_path_list_def)
  have "fst (sram paths) = hd (save_path_list include_firmware paths)"
    and "snd (sram paths) = save_path_list include_firmware paths ! (if include_firmware then 3 else 2)"
    by (simp_all add: save_path_list_def)
  then have sram: "fst (sram paths) = (directory_prefix directory @ stem0) @ ''.srm'' @ ''''"
    "snd (sram paths) = (directory_prefix directory @ stem1) @ ''.srm'' @ (if stem0 = stem1 then ''.2'' else '''')"
    unfolding list by (simp_all add: machine_suffixes_def)
  define stem where "stem = (if canonical = fst (sram paths) then stem0 else stem1)"
  define n where "n = (if canonical = fst (sram paths) \<or> stem0 \<noteq> stem1 then '''' else ''.2'')"
  have path: "canonical = (directory_prefix directory @ stem) @ ''.srm'' @ n"
    using assms(2) sram by (auto simp: stem_def n_def)
  have n: "n = '''' \<or> n = ''.2'' \<and> stem0 = stem \<and> stem1 = stem"
    by (auto simp: stem_def n_def)
  have "(directory_prefix directory @ stem) @ ''.sav'' @ n \<notin> set (save_path_list include_firmware paths)"
    using n unfolding list
    by (cases include_firmware; cases "stem0 = stem1") (auto simp: machine_suffixes_def)
  moreover have "dualboy_legacy_sav_path (Some canonical) DUALBOY_PATH_CAPACITY =
      Inr ((directory_prefix directory @ stem) @ ''.sav'' @ n)"
    using inside [OF canonical] n unfolding path by (intro legacy_sav_path_suffix) auto
  ultimately show ?thesis by (auto simp: path)
qed

theorem legacy_sav_path_disjoint_witness:
  "\<exists>paths. dualboy_build_save_paths (Some ''/s'') (Some ''a.gb'') (Some ''a.gb'') False = Inr paths \<and>
     (\<exists>legacy. dualboy_legacy_sav_path (Some (snd (sram paths))) DUALBOY_PATH_CAPACITY = Inr legacy \<and>
       legacy \<notin> set (save_path_list False paths))"
proof -
  obtain paths where paths: "dualboy_build_save_paths (Some ''/s'') (Some ''a.gb'') (Some ''a.gb'') False = Inr paths"
    by (simp add: dualboy_build_save_paths_def build_one_set_def dualboy_join_save_path_def
        dualboy_content_stem_def is_safe_component_def is_separator_def copy_string_def Let_def
        trim_separators.simps DUALBOY_PATH_CAPACITY_def SIZE_MAX_def)
  with legacy_sav_path_disjoint [OF paths, of "snd (sram paths)"] show ?thesis by blast
qed

section \<open>Files: lemmas\<close>

lemma read_loop_unfold:
  "n \<le> length acc \<Longrightarrow> read_loop n calls acc = Some (Some acc, calls)"
  "\<not> n \<le> length acc \<Longrightarrow> read_loop n [] acc = None"
  "\<not> n \<le> length acc \<Longrightarrow> read_loop n (READ_ERR errno # rest) acc =
     (if errno = EINTR then read_loop n rest acc else Some (None, rest))"
  "\<not> n \<le> length acc \<Longrightarrow> read_loop n (READ_BYTES chunk # rest) acc =
     (if chunk = [] then Some (None, rest)
      else if length chunk > min (n - length acc) SSIZE_MAX then None
      else read_loop n rest (acc @ chunk))"
  by (subst read_loop.simps, simp)+

text \<open>
  The reads that deliver a file of the given content: non-empty chunks in order, with
  interruptions anywhere, and then the end of the file.
\<close>

fun reads_of :: "bytes \<Rightarrow> read_result list \<Rightarrow> bool" where
  "reads_of content [] = False"
| "reads_of content (READ_ERR errno # calls) \<longleftrightarrow> errno = EINTR \<and> reads_of content calls"
| "reads_of content (READ_BYTES chunk # calls) \<longleftrightarrow>
     (if content = [] then chunk = []
      else chunk \<noteq> [] \<and> length chunk \<le> length content \<and>
           take (length chunk) content = chunk \<and> reads_of (drop (length chunk) content) calls)"

lemma read_loop_reads_of:
  assumes "reads_of content calls" and "length (acc @ content) \<le> SSIZE_MAX"
  shows "\<exists>rest. read_loop (length acc + length content) calls acc = Some (Some (acc @ content), rest) \<and>
    probe_loop rest = Some (READ_BYTES [])"
  using assms
proof (induction content calls arbitrary: acc rule: reads_of.induct)
  case (1 content)
  then show ?case by simp
next
  case (2 content errno calls)
  then show ?case
    by (cases "content = []") (auto simp: read_loop_unfold)
next
  case (3 content chunk calls)
  show ?case
  proof (cases "content = []")
    case True
    with 3 show ?thesis by (simp add: read_loop_unfold)
  next
    case False
    with 3(2) have chunk: "chunk \<noteq> []" "length chunk \<le> length content"
      and content: "content = chunk @ drop (length chunk) content"
      and rec: "reads_of (drop (length chunk) content) calls"
      by (auto, metis append_take_drop_id)
    have "length ((acc @ chunk) @ drop (length chunk) content) \<le> SSIZE_MAX"
      using 3(3) chunk(2) by simp
    from 3(1) [OF False rec this] obtain rest where
      "read_loop (length acc + length content) calls (acc @ chunk) = Some (Some (acc @ content), rest)"
      "probe_loop rest = Some (READ_BYTES [])"
      using chunk(2) content by auto
    then show ?thesis
      using chunk False 3(3) by (simp add: read_loop_unfold)
  qed
qed

lemma probe_loop_end: "probe_loop calls = Some (READ_BYTES []) \<Longrightarrow> reads_of [] calls"
  by (induction calls rule: probe_loop.induct) auto

lemma read_loop_end:
  assumes "read_loop n calls acc = Some (Some content, rest)" and "length acc \<le> n"
    and "probe_loop rest = Some (READ_BYTES [])"
  shows "\<exists>c. content = acc @ c \<and> length content = n \<and> reads_of c calls"
  using assms(1,2)
proof (induction n calls acc rule: read_loop.induct)
  case (1 n calls acc)
  show ?case
  proof (cases "length acc \<ge> n")
    case True
    with 1(3,4) probe_loop_end [OF assms(3)] show ?thesis by (auto simp: read_loop_unfold)
  next
    case False
    with 1(3) obtain r rest' where calls: "calls = r # rest'"
      by (cases calls) (auto simp: read_loop_unfold)
    show ?thesis
    proof (cases r)
      case (READ_BYTES chunk)
      with 1(3) False have chunk: "chunk \<noteq> []" "\<not> length chunk > min (n - length acc) SSIZE_MAX"
        and "read_loop n rest' (acc @ chunk) = Some (Some content, rest)"
        by (auto simp: read_loop_unfold calls split: if_splits)
      moreover from chunk(2) False have "length (acc @ chunk) \<le> n" by simp
      ultimately obtain c where "content = (acc @ chunk) @ c" "length content = n" "reads_of c rest'"
        using 1(1) [OF False calls READ_BYTES] by blast
      with chunk(1) show ?thesis
        by (intro exI [of _ "chunk @ c"]) (simp add: calls READ_BYTES)
    next
      case (READ_ERR errno)
      with 1(3) False have "errno = EINTR" and "read_loop n rest' acc = Some (Some content, rest)"
        by (auto simp: read_loop_unfold calls split: if_splits)
      with 1(2) [OF False calls READ_ERR] 1(4) obtain c where
        "content = acc @ c" "length content = n" "reads_of c rest'" by auto
      with \<open>errno = EINTR\<close> show ?thesis
        by (intro exI [of _ c]) (simp add: calls READ_ERR)
    qed
  qed
qed

text \<open>The file system after each step of a write, on the temporary file only until the rename.\<close>

lemma write_loop_unfold:
  "n \<le> off \<Longrightarrow> write_loop calls n off = Some (True, [])"
  "\<not> n \<le> off \<Longrightarrow> write_loop [] n off = None"
  "\<not> n \<le> off \<Longrightarrow> write_loop (WRITE_ERR errno # rest) n off =
     (if errno = EINTR then write_loop rest n off else Some (False, []))"
  "\<not> n \<le> off \<Longrightarrow> write_loop (WROTE amount # rest) n off =
     (if amount = 0 then Some (False, [])
      else if amount > min (n - off) SSIZE_MAX then None
      else do { (finished, offsets) \<leftarrow> write_loop rest n (off + amount);
                Some (finished, (off + amount) # offsets) })"
  by (subst write_loop.simps, simp)+

lemma write_loop_finished:
  "write_loop calls n off = Some (True, offsets) \<Longrightarrow> off \<le> n \<Longrightarrow> last (off # offsets) = n"
proof (induction calls arbitrary: off offsets)
  case Nil
  then show ?case by (cases "n \<le> off") (auto simp: write_loop_unfold)
next
  case (Cons r calls)
  show ?case
  proof (cases "n \<le> off")
    case True
    with Cons.prems show ?thesis by (auto simp: write_loop_unfold)
  next
    case off: False
    show ?thesis
    proof (cases r)
      case (WROTE amount)
      with off Cons.prems obtain offsets' where "write_loop calls n (off + amount) = Some (True, offsets')"
        and "offsets = (off + amount) # offsets'" and "amount \<le> n - off"
        by (auto simp: write_loop_unfold split: if_splits Option.bind_splits)
      with off Cons.IH [of "off + amount" offsets'] show ?thesis by simp
    next
      case (WRITE_ERR errno)
      with off Cons.prems Cons.IH [of off offsets] show ?thesis
        by (simp add: write_loop_unfold split: if_splits)
    qed
  qed
qed

text \<open>Writes that deliver everything: positive amounts with interruptions in between.\<close>

fun writes_all :: "nat \<Rightarrow> write_result list \<Rightarrow> bool" where
  "writes_all n [] \<longleftrightarrow> n = 0"
| "writes_all n (WRITE_ERR errno # calls) \<longleftrightarrow> n = 0 \<or> errno = EINTR \<and> writes_all n calls"
| "writes_all n (WROTE amount # calls) \<longleftrightarrow>
     n = 0 \<or> 0 < amount \<and> amount \<le> min n SSIZE_MAX \<and> writes_all (n - amount) calls"

lemma write_loop_writes_all:
  "writes_all (n - off) calls \<Longrightarrow> \<exists>offsets. write_loop calls n off = Some (True, offsets)"
proof (induction "n - off" calls arbitrary: off rule: writes_all.induct)
  case 1
  then show ?case by (simp add: write_loop_unfold)
next
  case (2 errno calls)
  then show ?case by (cases "n \<le> off") (auto simp: write_loop_unfold)
next
  case (3 amount calls)
  show ?case
  proof (cases "n \<le> off")
    case True
    then show ?thesis by (simp add: write_loop_unfold)
  next
    case False
    with 3(2) have "0 < amount" "amount \<le> min (n - off) SSIZE_MAX" "writes_all (n - (off + amount)) calls"
      by auto
    with 3(1) [of "off + amount"] False show ?thesis by (auto simp: write_loop_unfold)
  qed
qed

lemma sync_descriptor_settles: "(\<forall>e \<in> set es. e = Some EINTR) \<Longrightarrow> sync_descriptor (es @ None # rest) = Some True"
  by (induction es) auto

lemma write_file_atomic_steps:
  assumes "dualboy_write_file_atomic os fs (Some p) data = Some (result, steps)" and "steps \<noteq> []"
  obtains chosen offsets written where "mkstemp os = Some chosen"
    and "write_loop (writes os) (length data) 0 = Some (written, offsets)"
    and "steps = (let t = temporary_prefix p @ chosen;
                      during = map (\<lambda>n. fs(t \<mapsto> take n data)) (0 # offsets)
                  in during @ (if result = DUALBOY_PERSISTENCE_OK
                               then [((last during)(t := None))(p := last during t)]
                               else if unlink_succeeds os then [(last during)(t := None)] else []))"
    and "result = DUALBOY_PERSISTENCE_OK \<Longrightarrow> written"
    and "result = DUALBOY_PERSISTENCE_OK \<or> result = DUALBOY_PERSISTENCE_IO_ERROR"
  using assms
  by (auto simp: dualboy_write_file_atomic_def Let_def split: if_splits option.splits Option.bind_splits)

text \<open>The names the temporary files of a target can have.\<close>

definition reserved_name :: "string \<Rightarrow> string \<Rightarrow> bool" where
  "reserved_name p q \<longleftrightarrow> take (length (temporary_prefix p)) q = temporary_prefix p"

text \<open>The file system a write leaves behind, outside the reserved temporary names.\<close>

lemma write_file_atomic_last:
  assumes "dualboy_write_file_atomic os fs (Some p) data = Some (result, steps)" and "\<not> reserved_name p p"
  shows "last (fs # steps) p = (if result = DUALBOY_PERSISTENCE_OK then Some data else fs p)"
    and "q \<noteq> p \<Longrightarrow> \<not> reserved_name p q \<Longrightarrow> last (fs # steps) q = fs q"
proof -
  have "last (fs # steps) p = (if result = DUALBOY_PERSISTENCE_OK then Some data else fs p) \<and>
    (\<forall>q. q \<noteq> p \<and> \<not> reserved_name p q \<longrightarrow> last (fs # steps) q = fs q)"
  proof (cases "steps = []")
    case True
    with assms(1) have "result \<noteq> DUALBOY_PERSISTENCE_OK"
      by (auto simp: dualboy_write_file_atomic_def Let_def split: if_splits option.splits Option.bind_splits)
    with True show ?thesis by simp
  next
    case False
    obtain chosen offsets written where loop: "write_loop (writes os) (length data) 0 = Some (written, offsets)"
      and steps: "steps = (let t = temporary_prefix p @ chosen;
                        during = map (\<lambda>n. fs(t \<mapsto> take n data)) (0 # offsets)
                    in during @ (if result = DUALBOY_PERSISTENCE_OK
                                 then [((last during)(t := None))(p := last during t)]
                                 else if unlink_succeeds os then [(last during)(t := None)] else []))"
      and written: "result = DUALBOY_PERSISTENCE_OK \<Longrightarrow> written"
      using write_file_atomic_steps [OF assms(1) False] by blast
    define t where "t = temporary_prefix p @ chosen"
    define n where "n = last (0 # offsets)"
    have "reserved_name p t" by (simp add: t_def reserved_name_def)
    then have t: "t \<noteq> p" "reserved_name p t" using assms(2) by auto
    have during: "last (map (\<lambda>n. fs(t \<mapsto> take n data)) (0 # offsets)) = fs(t \<mapsto> take n data)"
      unfolding n_def by (rule last_map) simp
    have whole: "take n data = data" if "result = DUALBOY_PERSISTENCE_OK"
      using write_loop_finished [of "writes os" "length data" 0 offsets] loop written [OF that]
      by (simp add: n_def)
    have "last (fs # steps) = (if result = DUALBOY_PERSISTENCE_OK then (fs(t := None))(p \<mapsto> data)
        else if unlink_succeeds os then fs(t := None) else fs(t \<mapsto> take n data))"
      using t(1) whole False unfolding steps Let_def t_def [symmetric] during
      by (auto simp del: list.map simp: during last_map n_def)
    with t show ?thesis by auto
  qed
  then show "last (fs # steps) p = (if result = DUALBOY_PERSISTENCE_OK then Some data else fs p)"
    and "q \<noteq> p \<Longrightarrow> \<not> reserved_name p q \<Longrightarrow> last (fs # steps) q = fs q" by blast+
qed

lemma read_file_filled_size:
  assumes "dualboy_read_file_filled os path buffer fill = Some (DUALBOY_PERSISTENCE_OK, content, file_size)"
  shows "file_size \<le> length buffer" and "length content = length buffer"
  using assms
  by (auto simp: dualboy_read_file_filled_def Let_def fill_buffer_def blit_def
      split: if_splits option.splits Option.bind_splits prod.splits read_result.splits)

section \<open>Files: properties\<close>

text \<open>
  C30. What a read leaves in the destination. Success means the whole file: its content, delivered
  by the system up to the end of the file in whatever pieces, of exactly the size the file
  reported, stands in the buffer, followed by the fill byte up to the capacity. A rejected argument
  (a missing or empty path) leaves the buffer as it was; every other failure, whichever call failed
  and however much had been read, leaves the fill byte everywhere. Every failure reports size
  zero, and a file is reported missing only when opening it said so.
\<close>

theorem read_file_filled_result:
  assumes "dualboy_read_file_filled os path buffer fill = Some (result, output, file_size)"
  shows "length output = length buffer \<and>
    (if result = DUALBOY_PERSISTENCE_OK
     then \<exists>content. reads_of content (reads os) \<and> fstat os = Some (True, int (length content)) \<and>
            file_size = length content \<and> file_size \<le> length buffer \<and>
            output = content @ replicate (length buffer - file_size) fill
     else file_size = 0 \<and>
          output = (if path = None \<or> path = Some [] then buffer else replicate (length buffer) fill)) \<and>
    (result = DUALBOY_PERSISTENCE_INVALID_ARGUMENT \<longleftrightarrow> path = None \<or> path = Some []) \<and>
    (result = DUALBOY_PERSISTENCE_NOT_FOUND \<longrightarrow> open_error os \<in> {Some ENOENT, Some ENOTDIR})"
proof (cases "result = DUALBOY_PERSISTENCE_OK")
  case False
  with assms show ?thesis
    by (auto simp: dualboy_read_file_filled_def fill_buffer_def Let_def
        split: option.splits if_splits Option.bind_splits read_result.splits)
next
  case True
  with assms obtain p content rest where path: "path = Some p" "p \<noteq> []" and size: "file_size \<le> length buffer"
    and stat: "fstat os = Some (True, int file_size)"
    and read: "read_loop file_size (reads os) [] = Some (Some content, rest)"
    and probe: "probe_loop rest = Some (READ_BYTES [])"
    and out: "blit (replicate (length buffer) fill) 0 content = Some output"
    by (auto simp: dualboy_read_file_filled_def fill_buffer_def Let_def
        split: option.splits if_splits Option.bind_splits read_result.splits)
  from read_loop_end [OF read _ probe] have "length content = file_size" "reads_of content (reads os)" by auto
  with True path stat size out show ?thesis by (auto simp: mem_simps)
qed

definition sample_read :: read_calls where
  "sample_read = \<lparr>open_error = None, fstat = Some (True, 3), malloc_succeeds = True,
     reads = [READ_BYTES [1], READ_ERR EINTR, READ_BYTES [2, 3], READ_BYTES []],
     close_succeeds = True\<rparr>"

theorem read_file_filled_result_witness:
  "dualboy_read_file_filled sample_read (Some ''a.srm'') [0, 0, 0, 0] 0xFF =
     Some (DUALBOY_PERSISTENCE_OK, [1, 2, 3, 0xFF], 3) \<and>
   (\<exists>content. reads_of content (reads sample_read) \<and> length content = 3)"
proof -
  have "dualboy_read_file_filled sample_read (Some ''a.srm'') [0, 0, 0, 0] 0xFF =
     Some (DUALBOY_PERSISTENCE_OK, [1, 2, 3, 0xFF], 3)"
    by (simp add: dualboy_read_file_filled_def sample_read_def fill_buffer_def read_loop_unfold
        DUALBOY_PATH_CAPACITY_def SSIZE_MAX_def mem_simps)
  from this read_file_filled_result [OF this] show ?thesis by auto
qed

text \<open>
  A readable file that fits is read completely: however the system splits the content into
  chunks and however often it interrupts the calls, the read returns, reports success and stores
  the whole content.
\<close>

theorem read_file_filled_complete:
  assumes "path \<noteq> []" and "length path < DUALBOY_PATH_CAPACITY" and "open_error os = None"
    and "fstat os = Some (True, int (length content))" and "malloc_succeeds os" and "close_succeeds os"
    and "reads_of content (reads os)" and "length content \<le> length buffer"
    and "length content \<le> SSIZE_MAX"
  shows "dualboy_read_file_filled os (Some path) buffer fill =
    Some (DUALBOY_PERSISTENCE_OK, content @ replicate (length buffer - length content) fill, length content)"
proof -
  obtain rest where "read_loop (length content) (reads os) [] = Some (Some content, rest)"
    and "probe_loop rest = Some (READ_BYTES [])"
    using read_loop_reads_of [OF assms(7), of "[]"] assms(9) by auto
  with assms show ?thesis
    by (simp add: dualboy_read_file_filled_def fill_buffer_def mem_simps not_le)
qed

theorem read_file_filled_complete_witness:
  "dualboy_read_file_filled sample_read (Some ''a.srm'') [0, 0, 0, 0] 0xFF =
     Some (DUALBOY_PERSISTENCE_OK, [1, 2, 3, 0xFF], 3)"
  using read_file_filled_complete [where path = "''a.srm''" and os = sample_read and
      content = "[1, 2, 3]" and buffer = "[0, 0, 0, 0]" and fill = "0xFF"]
  by (simp add: sample_read_def DUALBOY_PATH_CAPACITY_def SSIZE_MAX_def)

text \<open>
  C31. Writing a save file is atomic. After every system call of a write, whatever fails and
  whenever the process is stopped, the target holds either its old content or all of the new data
  and no other file outside the reserved temporary names has changed. Success means the target
  holds the data and the temporary file is gone; failure means the target was never touched.
\<close>

theorem write_file_atomic_correct:
  assumes "dualboy_write_file_atomic os fs (Some p) data = Some (result, steps)"
    and "\<And>chosen. mkstemp os = Some chosen \<Longrightarrow> fs (temporary_prefix p @ chosen) = None"
    and "\<not> reserved_name p p"
  shows "(\<forall>fs' \<in> set steps. fs' p = fs p \<or> result = DUALBOY_PERSISTENCE_OK \<and> fs' p = Some data) \<and>
    (\<forall>fs' \<in> set steps. \<forall>q. q \<noteq> p \<and> \<not> reserved_name p q \<longrightarrow> fs' q = fs q) \<and>
    (result = DUALBOY_PERSISTENCE_OK \<longrightarrow> steps \<noteq> [] \<and> last steps = fs(p \<mapsto> data)) \<and>
    (result \<noteq> DUALBOY_PERSISTENCE_OK \<and> unlink_succeeds os \<longrightarrow> last (fs # steps) = fs)"
proof (cases "steps = []")
  case True
  with assms(1) have "result \<noteq> DUALBOY_PERSISTENCE_OK"
    by (auto simp: dualboy_write_file_atomic_def Let_def split: if_splits option.splits Option.bind_splits)
  with True show ?thesis by simp
next
  case False
  obtain chosen offsets written where "mkstemp os = Some chosen"
    and loop: "write_loop (writes os) (length data) 0 = Some (written, offsets)"
    and steps: "steps = (let t = temporary_prefix p @ chosen;
                      during = map (\<lambda>n. fs(t \<mapsto> take n data)) (0 # offsets)
                  in during @ (if result = DUALBOY_PERSISTENCE_OK
                               then [((last during)(t := None))(p := last during t)]
                               else if unlink_succeeds os then [(last during)(t := None)] else []))"
    and written: "result = DUALBOY_PERSISTENCE_OK \<Longrightarrow> written"
    using write_file_atomic_steps [OF assms(1) False] by blast
  define t where "t = temporary_prefix p @ chosen"
  have "fs t = None" "reserved_name p t"
    using assms(2) [OF \<open>mkstemp os = Some chosen\<close>] by (auto simp: t_def reserved_name_def)
  with assms(3) have t: "t \<noteq> p" "fs t = None" "reserved_name p t" by auto
  define n where "n = last (0 # offsets)"
  have during: "last (map (\<lambda>n. fs(t \<mapsto> take n data)) (0 # offsets)) = fs(t \<mapsto> take n data)"
    unfolding n_def by (rule last_map) simp
  have steps': "steps = map (\<lambda>n. fs(t \<mapsto> take n data)) (0 # offsets) @
      (if result = DUALBOY_PERSISTENCE_OK then [fs(p \<mapsto> take n data)]
       else if unlink_succeeds os then [fs] else [])"
    unfolding steps Let_def t_def [symmetric] during using t(1,2) by (auto simp: fun_eq_iff)
  have whole: "take n data = data" if "result = DUALBOY_PERSISTENCE_OK"
    using write_loop_finished [of "writes os" "length data" 0 offsets] loop written [OF that]
    by (simp add: n_def)
  have mid: "fs' p = fs p \<and> (\<forall>q. \<not> reserved_name p q \<longrightarrow> fs' q = fs q)"
    if "fs' \<in> set (map (\<lambda>n. fs(t \<mapsto> take n data)) (0 # offsets))" for fs'
    using that t by auto
  show ?thesis
    using t mid whole unfolding steps' by (cases "result = DUALBOY_PERSISTENCE_OK") (auto simp: n_def)
qed

definition sample_write :: write_calls where
  "sample_write = \<lparr>path_malloc_succeeds = True, mkstemp = Some ''aB3dE6'',
     writes = [WROTE 1, WRITE_ERR EINTR, WROTE 2], fsyncs = [Some EINTR, None],
     close_written_succeeds = True, rename_succeeds = True, unlink_succeeds = True\<rparr>"

theorem write_file_atomic_correct_witness:
  "\<exists>steps. dualboy_write_file_atomic sample_write (\<lambda>_. None) (Some ''/s/a.srm'') [1, 2, 3] =
     Some (DUALBOY_PERSISTENCE_OK, steps) \<and> length steps = 4 \<and> last steps ''/s/a.srm'' = Some [1, 2, 3]"
proof -
  obtain steps where steps: "dualboy_write_file_atomic sample_write (\<lambda>_. None) (Some ''/s/a.srm'') [1, 2, 3] =
     Some (DUALBOY_PERSISTENCE_OK, steps)" and "length steps = 4"
    by (simp add: dualboy_write_file_atomic_def sample_write_def DUALBOY_PATH_CAPACITY_def SIZE_MAX_def
        SSIZE_MAX_def valid_target_path_def last_slash_def write_loop_unfold Let_def)
  moreover have "\<not> reserved_name ''/s/a.srm'' ''/s/a.srm''"
    by (simp add: reserved_name_def temporary_prefix_def last_slash_def)
  ultimately show ?thesis using write_file_atomic_correct [OF steps] by auto
qed

text \<open>
  C32. A write succeeds when the system lets it: for an acceptable target path, with an allocated
  name and a temporary file, writes that make progress until all bytes are out, a sync that
  settles and a successful close and rename, the call returns and reports success, interruptions
  notwithstanding.
\<close>

theorem write_file_atomic_succeeds:
  assumes "p \<noteq> []" and "length p + 21 < DUALBOY_PATH_CAPACITY" and "valid_target_path p"
    and "path_malloc_succeeds os" and "mkstemp os = Some chosen"
    and "writes_all (length data) (writes os)"
    and "fsyncs os = interrupted @ None # rest" and "\<forall>e \<in> set interrupted. e = Some EINTR"
    and "close_written_succeeds os" and "rename_succeeds os"
  shows "\<exists>steps. dualboy_write_file_atomic os fs (Some p) data = Some (DUALBOY_PERSISTENCE_OK, steps)"
proof -
  obtain offsets where "write_loop (writes os) (length data) 0 = Some (True, offsets)"
    using write_loop_writes_all [of "length data" 0] assms(6) by auto
  moreover have "sync_descriptor (fsyncs os) = Some True"
    unfolding assms(7) by (rule sync_descriptor_settles [OF assms(8)])
  moreover have "(case last_slash p of None \<Rightarrow> 0 | Some slash \<Rightarrow> slash + 1) \<le> length p"
  proof -
    have "0 < length p" using assms(1) by simp
    then have "length p - k - 1 + 1 \<le> length p" for k by linarith
    then show ?thesis by (simp add: last_slash_def Let_def split: option.splits)
  qed
  ultimately show ?thesis
    using assms(1-5,9,10)
    by (simp add: dualboy_write_file_atomic_def DUALBOY_PATH_CAPACITY_def SIZE_MAX_def Let_def)
qed

theorem write_file_atomic_succeeds_witness:
  "\<exists>steps. dualboy_write_file_atomic sample_write (\<lambda>_. None) (Some ''/s/a.srm'') [1, 2, 3] =
     Some (DUALBOY_PERSISTENCE_OK, steps)"
  using write_file_atomic_succeeds [where p = "''/s/a.srm''" and os = sample_write and
      data = "[1, 2, 3]" and interrupted = "[Some EINTR]" and rest = "[]"]
  by (simp add: sample_write_def DUALBOY_PATH_CAPACITY_def SSIZE_MAX_def valid_target_path_def
      last_slash_def)

end
