(* ===== verification/Engine_Ops.thy ===== *)
theory Engine_Ops
  imports Engine
begin

text \<open>
  The operations an emulation engine provides, \<open>struct dualboy_engine_ops\<close> of
  \<open>src/frontend/engine.h\<close>, with the ROM image passed to it. The engines themselves are not
  modelled: their operations are the members of a record, and what the session and the savestate
  code rely on are stated as hypotheses there.
\<close>

text \<open>
  ROM images. A data pointer is an address with the bytes found there; comparing pointers
  compares addresses.
\<close>

type_synonym rom_pointer = "nat \<times> bytes"

record dualboy_rom =
  rom_platform :: dualboy_platform
  rom_data :: "rom_pointer option"
  rom_size :: size_t
  rom_path :: "string option"

record dualboy_engine_config =
  system_directory :: "string option"
  config_sample_rate :: nat

text \<open>
  The operations of an engine, over the engine's own pair state \<open>'p\<close>. A member is \<open>None\<close> when
  its function pointer is null; an operation on a non-constant pair returns the new pair state.
  \<open>memory_info\<close> returns whether the pointer is non-null and the bytes of the region, and
  \<open>memory_store\<close> is the effect of storing through that pointer. The serializers return success,
  the bytes they write to the start of their buffer and the length they report. \<open>read_audio\<close>
  returns the number of stereo frames it reports and the frames it writes to the start of its
  buffer. \<open>frame_rate\<close>, a floating-point number, is left out.
\<close>

record 'p dualboy_engine_ops =
  engine_name :: "string option"
  family :: dualboy_engine_family
  create_pair :: "(dualboy_engine_config \<Rightarrow> bool \<times> 'p option) option"
  load_rom :: "('p \<Rightarrow> nat \<Rightarrow> dualboy_rom \<Rightarrow> bool \<times> 'p) option"
  set_link :: "('p \<Rightarrow> bool \<Rightarrow> bool \<times> 'p) option"
  engine_reset :: "('p \<Rightarrow> 'p) option"
  set_input :: "('p \<Rightarrow> nat \<Rightarrow> u16 \<Rightarrow> 'p) option"
  set_machine_input :: "('p \<Rightarrow> nat \<Rightarrow> dualboy_machine_input \<Rightarrow> 'p) option"
  run_frame :: "('p \<Rightarrow> bool \<times> 'p) option"
  video_frame :: "('p \<Rightarrow> nat \<Rightarrow> dualboy_video_frame option \<times> 'p) option"
  audio_sample_rate :: "('p \<Rightarrow> u32) option"
  read_audio :: "('p \<Rightarrow> nat \<Rightarrow> (nat \<times> (u16 \<times> u16) list) \<times> 'p) option"
  memory_info :: "('p \<Rightarrow> nat \<Rightarrow> dualboy_memory_kind \<Rightarrow> (bool \<times> bytes) option) option"
  memory_store :: "'p \<Rightarrow> nat \<Rightarrow> dualboy_memory_kind \<Rightarrow> bytes \<Rightarrow> 'p"
  persistent_memory_extent :: "('p \<Rightarrow> nat \<Rightarrow> dualboy_memory_kind \<Rightarrow> (bool \<times> nat) option) option"
  validate_persistent_memory :: "('p \<Rightarrow> nat \<Rightarrow> dualboy_memory_kind \<Rightarrow> bytes \<Rightarrow> bool) option"
  memory_dirty :: "('p \<Rightarrow> nat \<Rightarrow> bool) option"
  clear_memory_dirty :: "('p \<Rightarrow> nat \<Rightarrow> 'p) option"
  machine_state_size :: "('p \<Rightarrow> nat \<Rightarrow> nat) option"
  serialize_machine :: "('p \<Rightarrow> nat \<Rightarrow> nat \<Rightarrow> (bool \<times> bytes \<times> nat) \<times> 'p) option"
  unserialize_machine :: "('p \<Rightarrow> nat \<Rightarrow> bytes \<Rightarrow> bool \<times> 'p) option"
  link_state_size :: "('p \<Rightarrow> nat) option"
  serialize_link :: "('p \<Rightarrow> nat \<Rightarrow> bool \<times> bytes \<times> nat) option"
  unserialize_link :: "('p \<Rightarrow> bytes \<Rightarrow> bool \<times> 'p) option"
  link_transport_active :: "('p \<Rightarrow> bool) option"
  set_video_renderer :: "('p \<Rightarrow> dualboy_video_renderer \<Rightarrow> bool \<times> 'p) option"
  video_renderer :: "('p \<Rightarrow> dualboy_video_renderer) option"
  destroy_pair :: "('p \<Rightarrow> unit) option"
  persistent_memory_loaded :: "('p \<Rightarrow> 'p) option"

end
