(* ===== verification/Heap.thy ===== *)
theory Heap
  imports Prelude
begin

text \<open>
  The C heap as far as the program relies on it: which addresses are live. An allocation can fail,
  freeing an address that is not live has no result, and \<open>owns_beside\<close> says that a list of pointers
  owns exactly what is live beside the memory of the rest of the program.
\<close>

section \<open>Heap\<close>

text \<open>The \<open>n\<close>-th allocation succeeds when \<open>alloc_ok n\<close>; addresses are never reused.\<close>

record heap =
  alloc_ok :: "nat \<Rightarrow> bool"
  next_address :: nat
  live :: "nat set"

definition malloc :: "heap \<Rightarrow> nat option \<times> heap" where
  "malloc h =
     (if alloc_ok h (next_address h)
      then (Some (next_address h),
            h\<lparr>next_address := Suc (next_address h), live := insert (next_address h) (live h)\<rparr>)
      else (None, h\<lparr>next_address := Suc (next_address h)\<rparr>))"

definition free :: "nat option \<Rightarrow> heap \<Rightarrow> heap option" where
  "free pointer h =
     (case pointer of
        None \<Rightarrow> Some h
      | Some a \<Rightarrow> if a \<in> live h then Some (h\<lparr>live := live h - {a}\<rparr>) else None)"

section \<open>Ownership\<close>

fun somes :: "'a option list \<Rightarrow> 'a list" where
  "somes [] = []"
| "somes (None # ps) = somes ps"
| "somes (Some a # ps) = a # somes ps"

lemma somes_append [simp]: "somes (ps @ qs) = somes ps @ somes qs"
  by (induction ps rule: somes.induct) auto

definition heap_ok :: "heap \<Rightarrow> bool" where
  "heap_ok h \<longleftrightarrow> (\<forall>a \<in> live h. a < next_address h)"

text \<open>
  A heap is split between what a session owns, every address once, and a \<open>base\<close> that belongs to
  the rest of the program. A pair is only ever held with the engine that can destroy it.
\<close>

definition owns_beside :: "nat set \<Rightarrow> nat option list \<Rightarrow> heap \<Rightarrow> bool" where
  "owns_beside base ps h \<longleftrightarrow> heap_ok h \<and> distinct (somes ps) \<and>
     set (somes ps) \<inter> base = {} \<and> live h = base \<union> set (somes ps)"

lemma free_owned:
  assumes "owns_beside base (p # ps) h"
  shows "\<exists>h'. free p h = Some h' \<and> owns_beside base ps h'"
  using assms by (cases p) (auto simp: free_def owns_beside_def heap_ok_def)

lemma malloc_owned:
  assumes "owns_beside base ps h" and "malloc h = (p, h')"
  shows "owns_beside base (p # ps) h'"
proof -
  have "next_address h \<notin> live h" using assms(1) by (auto simp: owns_beside_def heap_ok_def)
  then show ?thesis
    using assms by (auto simp: malloc_def owns_beside_def heap_ok_def less_Suc_eq split: if_splits)
qed

lemma owns_beside_swap: "owns_beside base (ps @ qs @ rs) h = owns_beside base (qs @ ps @ rs) h"
  by (auto simp: owns_beside_def)

lemma owns_beside_None [simp]: "owns_beside base (None # ps) h = owns_beside base ps h"
  by (simp add: owns_beside_def)

definition demo_heap :: heap where
  "demo_heap = \<lparr>alloc_ok = (\<lambda>_. True), next_address = 1, live = {0}\<rparr>"

end
