(* ===== verification/Session.thy ===== *)
theory Session
  imports Compositor Engine_Ops Heap
begin

text \<open>
  The session, \<open>src/frontend/session.c\<close>: ownership of the two cartridges, of the engine pair and
  of the composite framebuffer, and the frame step. Heap addresses are natural numbers; a heap
  records which are live, allocation can fail, and freeing an address that is not live has no
  result. The outer option of an operation is \<open>None\<close> for such a memory error, for an access
  outside a buffer and for a call through a null function pointer. Engine pairs live in the same
  address space: creating one allocates it, \<open>destroy_pair\<close> frees it.
\<close>

section \<open>Session\<close>

definition DUALBOY_MAX_COMPOSITE_PIXELS :: nat where
  "DUALBOY_MAX_COMPOSITE_PIXELS = 512 * 768"

datatype dualboy_load_kind =
    DUALBOY_LOAD_NORMAL
  | DUALBOY_LOAD_SUBSYSTEM
  | DUALBOY_LOAD_PLAYLIST

record dualboy_owned_rom =
  orom :: dualboy_rom
  owned_data :: "nat option"
  owned_path :: "nat option"

record 'p dualboy_session =
  engine :: "'p dualboy_engine_ops option"
  pair :: "(nat \<times> 'p) option"
  roms :: "dualboy_owned_rom \<times> dualboy_owned_rom"
  composite_pixels :: "(nat \<times> bytes) option"
  composite :: "dualboy_video_frame option"
  display :: dualboy_compositor_config
  machine_state_capacity :: "nat \<times> nat"
  link_state_capacity :: nat
  load_kind :: dualboy_load_kind
  content_path_missing :: "bool \<times> bool"
  link_enabled :: bool
  loaded :: bool

datatype session_error =
    INVALID_LOAD_ARGUMENTS
  | FRAMEBUFFER_ALLOCATION
  | EMPTY_CARTRIDGE
  | PATH_ALLOCATION
  | CARTRIDGE_ALLOCATION
  | PAIR_CREATION
  | ROM_REJECTED nat
  | LINK_REJECTED
  | NO_STATE_CAPACITY nat
  | INCOMPLETE_SESSION
  | FRAME_FAILED
  | NO_VIDEO_FRAMES
  | COMPOSITION_FAILED

definition zero_rom :: dualboy_owned_rom where
  "zero_rom = \<lparr>orom = \<lparr>rom_platform = DUALBOY_PLATFORM_INVALID, rom_data = None, rom_size = 0,
                       rom_path = None\<rparr>,
               owned_data = None, owned_path = None\<rparr>"

text \<open>\<open>duplicate_string\<close> allocates a copy; the copy of a null string is null.\<close>

definition duplicate_string :: "string option \<Rightarrow> heap \<Rightarrow> nat option \<times> heap" where
  "duplicate_string value h = (case value of None \<Rightarrow> (None, h) | Some _ \<Rightarrow> malloc h)"

text \<open>
  A ROM is copied into memory of its own unless it may share the data of another owned ROM that
  has the same pointer, size and platform.
\<close>

definition own_rom ::
  "dualboy_owned_rom \<Rightarrow> dualboy_rom \<Rightarrow> dualboy_owned_rom option \<Rightarrow> heap
   \<Rightarrow> (session_error option \<times> dualboy_owned_rom \<times> heap) option" where
  "own_rom destination source share_with h =
     (case rom_data source of
        None \<Rightarrow> Some (Some EMPTY_CARTRIDGE, destination, h)
      | Some (address, rom_image) \<Rightarrow>
        if rom_size source = 0 then Some (Some EMPTY_CARTRIDGE, destination, h)
        else let base = zero_rom\<lparr>orom := (orom zero_rom)\<lparr>rom_platform := rom_platform source,
                                                        rom_size := rom_size source\<rparr>\<rparr>;
                 (path, h1) = duplicate_string (rom_path source) h
             in if rom_path source \<noteq> None \<and> path = None
                then Some (Some PATH_ALLOCATION, base, h1)
                else let named = base\<lparr>owned_path := path,
                                      orom := (orom base)\<lparr>rom_path := rom_path source\<rparr>\<rparr>
                     in if (case share_with of
                              None \<Rightarrow> False
                            | Some other \<Rightarrow>
                              rom_size (orom other) = rom_size source \<and>
                              rom_platform (orom other) = rom_platform source \<and>
                              (case rom_data (orom other) of
                                 None \<Rightarrow> False
                               | Some (shared, _) \<Rightarrow> address = shared))
                        then Some (None,
                               named\<lparr>orom := (orom named)\<lparr>rom_data := rom_data (orom (the share_with))\<rparr>\<rparr>,
                               h1)
                        else case malloc h1 of
                               (None, h2) \<Rightarrow> do {
                                 h3 \<leftarrow> free path h2;
                                 Some (Some CARTRIDGE_ALLOCATION, zero_rom, h3)
                               }
                             | (Some copy, h2) \<Rightarrow> do {
                                 content \<leftarrow> slice rom_image 0 (rom_size source);
                                 Some (None,
                                   named\<lparr>owned_data := Some copy,
                                         orom := (orom named)\<lparr>rom_data := Some (copy, content)\<rparr>\<rparr>,
                                   h2)
                               })"

definition cache_state_capacities ::
  "'p dualboy_session \<Rightarrow> (session_error option \<times> 'p dualboy_session) option" where
  "cache_state_capacities session = do {
     ops \<leftarrow> engine session;
     (_, p) \<leftarrow> pair session;
     let cleared = session\<lparr>machine_state_capacity := (0, 0), content_path_missing := (False, False),
                           link_state_capacity := 0\<rparr>
     in if machine_state_size ops = None \<or> serialize_machine ops = None \<or>
           unserialize_machine ops = None \<or> link_state_size ops = None \<or>
           serialize_link ops = None \<or> unserialize_link ops = None
        then Some (None, cleared)
        else let size0 = the (machine_state_size ops) p 0;
                 size1 = the (machine_state_size ops) p 1
             in if size0 = 0 then Some (Some (NO_STATE_CAPACITY 1), cleared)
                else if size1 = 0
                then Some (Some (NO_STATE_CAPACITY 2), cleared\<lparr>machine_state_capacity := (size0, 0)\<rparr>)
                else Some (None, cleared\<lparr>machine_state_capacity := (size0, size1),
                                         link_state_capacity := the (link_state_size ops) p\<rparr>)
   }"

definition dualboy_session_init :: "'p dualboy_session" where
  "dualboy_session_init =
     \<lparr>engine = None, pair = None, roms = (zero_rom, zero_rom), composite_pixels = None,
      composite = None,
      display = \<lparr>mode = DUALBOY_MODE_DUAL, layout = DUALBOY_LAYOUT_SIDE_BY_SIDE, swap_screens = False\<rparr>,
      machine_state_capacity = (0, 0), link_state_capacity = 0, load_kind = DUALBOY_LOAD_NORMAL,
      content_path_missing = (False, False), link_enabled = False, loaded = False\<rparr>"

definition free_rom :: "dualboy_owned_rom \<Rightarrow> heap \<Rightarrow> heap option" where
  "free_rom rom h = do { h1 \<leftarrow> free (owned_data rom) h; free (owned_path rom) h1 }"

definition dualboy_session_unload :: "'p dualboy_session \<Rightarrow> heap \<Rightarrow> ('p dualboy_session \<times> heap) option" where
  "dualboy_session_unload session h = do {
     h1 \<leftarrow> (case (engine session, pair session) of
              (Some ops, Some (address, p)) \<Rightarrow>
                if destroy_pair ops \<noteq> None then free (Some address) h else Some h
            | _ \<Rightarrow> Some h);
     h2 \<leftarrow> free_rom (fst (roms session)) h1;
     h3 \<leftarrow> free_rom (snd (roms session)) h2;
     h4 \<leftarrow> free (map_option fst (composite_pixels session)) h3;
     Some (session\<lparr>pair := None, engine := None, roms := (zero_rom, zero_rom),
                   composite_pixels := None, composite := None, machine_state_capacity := (0, 0),
                   link_state_capacity := 0, loaded := False, link_enabled := False,
                   load_kind := DUALBOY_LOAD_NORMAL\<rparr>, h4)
   }"

text \<open>
  The body of the load after the previous session is gone, up to the \<open>failure\<close> label: the error
  if there is one, and the session as far as it got.
\<close>

definition own_roms ::
  "dualboy_rom \<Rightarrow> dualboy_rom \<Rightarrow> 'p dualboy_session \<Rightarrow> heap
   \<Rightarrow> (session_error option \<times> 'p dualboy_session \<times> heap) option" where
  "own_roms rom0 rom1 session h = do {
     (error0, owned0, h1) \<leftarrow> own_rom (fst (roms session)) rom0 None h;
     let session1 = session\<lparr>roms := (owned0, snd (roms session))\<rparr>
     in if error0 \<noteq> None then Some (error0, session1, h1)
        else do {
          (error1, owned1, h2) \<leftarrow>
            (if map_option fst (rom_data rom1) = map_option fst (rom_data rom0) \<and>
                rom_size rom1 = rom_size rom0 \<and> rom_platform rom1 = rom_platform rom0
             then own_rom (snd (roms session)) (rom1\<lparr>rom_data := rom_data (orom owned0)\<rparr>)
                    (Some owned0) h1
             else own_rom (snd (roms session)) rom1 None h1);
          Some (error1, session1\<lparr>roms := (owned0, owned1)\<rparr>, h2)
        }
   }"

definition start_engine ::
  "'p dualboy_engine_ops \<Rightarrow> dualboy_engine_config \<Rightarrow> bool \<Rightarrow> 'p dualboy_session \<Rightarrow> heap
   \<Rightarrow> (session_error option \<times> 'p dualboy_session \<times> heap) option" where
  "start_engine ops config link session h = do {
     create \<leftarrow> create_pair ops;
     load \<leftarrow> load_rom ops;
     case create config of
       (_, None) \<Rightarrow> Some (Some PAIR_CREATION, session, h)
     | (created, Some p0) \<Rightarrow>
       let address = next_address h;
           h1 = h\<lparr>next_address := Suc address, live := insert address (live h)\<rparr>;
           with_pair = (\<lambda>p. session\<lparr>pair := Some (address, p)\<rparr>)
       in if \<not> created then Some (Some PAIR_CREATION, with_pair p0, h1)
          else let (ok0, p1) = load p0 0 (orom (fst (roms session)))
          in if \<not> ok0 then Some (Some (ROM_REJECTED 0), with_pair p1, h1)
          else let (ok1, p2) = load p1 1 (orom (snd (roms session)))
          in if \<not> ok1 then Some (Some (ROM_REJECTED 1), with_pair p2, h1)
          else let (linked, p3) = (case set_link ops of None \<Rightarrow> (True, p2) | Some f \<Rightarrow> f p2 link)
          in if \<not> linked then Some (Some LINK_REJECTED, with_pair p3, h1)
          else do {
            (error, session1) \<leftarrow> cache_state_capacities (with_pair p3);
            Some (error, session1, h1)
          }
   }"

definition dualboy_session_load ::
  "'p dualboy_session \<Rightarrow> 'p dualboy_engine_ops option \<Rightarrow> dualboy_engine_config \<Rightarrow>
   dualboy_rom \<times> dualboy_rom \<Rightarrow> dualboy_load_kind \<Rightarrow> bool \<Rightarrow> heap
   \<Rightarrow> (session_error option \<times> 'p dualboy_session \<times> heap) option" where
  "dualboy_session_load session engine_ops config sources kind link h =
     (case engine_ops of
        None \<Rightarrow> Some (Some INVALID_LOAD_ARGUMENTS, session, h)
      | Some ops \<Rightarrow>
        if create_pair ops = None \<or> load_rom ops = None \<or> destroy_pair ops = None
        then Some (Some INVALID_LOAD_ARGUMENTS, session, h)
        else do {
          (session1, h1) \<leftarrow> dualboy_session_unload session h;
          let session2 = session1\<lparr>engine := Some ops, load_kind := kind\<rparr>;
              (framebuffer, h2) = malloc h1;
              failure = (\<lambda>error s h'. do {
                (s', h'') \<leftarrow> dualboy_session_unload s h';
                Some (Some error, s', h'')
              })
          in case framebuffer of
               None \<Rightarrow> failure FRAMEBUFFER_ALLOCATION session2 h2
             | Some address \<Rightarrow> do {
                 let session3 = session2\<lparr>composite_pixels :=
                       Some (address, replicate (4 * DUALBOY_MAX_COMPOSITE_PIXELS) 0)\<rparr>
                 in do {
                   (rom_error, session4, h3) \<leftarrow> own_roms (fst sources) (snd sources) session3 h2;
                   case rom_error of
                     Some e \<Rightarrow> failure e session4 h3
                   | None \<Rightarrow> do {
                       (engine_error, session5, h4) \<leftarrow> start_engine ops config link session4 h3;
                       case engine_error of
                         Some e \<Rightarrow> failure e session5 h4
                       | None \<Rightarrow> Some (None, session5\<lparr>link_enabled := link, loaded := True\<rparr>, h4)
                     }
                 }
               }
        })"

definition dualboy_session_reset :: "'p dualboy_session \<Rightarrow> 'p dualboy_session option" where
  "dualboy_session_reset session =
     (if \<not> loaded session then Some session
      else do {
        ops \<leftarrow> engine session;
        case engine_reset ops of
          None \<Rightarrow> Some session
        | Some f \<Rightarrow> do {
            (address, p) \<leftarrow> pair session;
            Some (session\<lparr>pair := Some (address, f p)\<rparr>)
          }
      })"

definition dualboy_session_set_link :: "'p dualboy_session \<Rightarrow> bool \<Rightarrow> (bool \<times> 'p dualboy_session) option" where
  "dualboy_session_set_link session enabled =
     (case (loaded session, engine session) of
        (True, Some ops) \<Rightarrow>
          (case set_link ops of
             None \<Rightarrow> Some (False, session)
           | Some f \<Rightarrow> do {
               (address, p) \<leftarrow> pair session;
               let (ok, p') = f p enabled;
                   session1 = session\<lparr>pair := Some (address, p')\<rparr>
               in if \<not> ok then Some (False, session1)
                  else Some (True, session1\<lparr>link_enabled := enabled\<rparr>)
             })
      | _ \<Rightarrow> Some (False, session))"

definition set_port_input ::
  "'p dualboy_engine_ops \<Rightarrow> nat \<Rightarrow> dualboy_machine_input \<Rightarrow> 'p \<Rightarrow> 'p option" where
  "set_port_input ops machine input p =
     (case set_machine_input ops of
        Some f \<Rightarrow> Some (f p machine input)
      | None \<Rightarrow> (case set_input ops of
                   Some f \<Rightarrow> Some (f p machine (buttons input))
                 | None \<Rightarrow> None))"

definition read_frames ::
  "'p dualboy_engine_ops \<Rightarrow> 'p \<Rightarrow> (frames option \<times> 'p) option" where
  "read_frames ops p0 = do {
     video \<leftarrow> video_frame ops;
     case video p0 0 of
       (None, p1) \<Rightarrow> Some (None, p1)
     | (Some frame0, p1) \<Rightarrow>
       (case video p1 1 of
          (None, p2) \<Rightarrow> Some (None, p2)
        | (Some frame1, p2) \<Rightarrow> Some (Some (frame0, frame1), p2))
   }"

definition dualboy_session_run ::
  "'p dualboy_session \<Rightarrow> dualboy_machine_input \<times> dualboy_machine_input \<Rightarrow> dualboy_compositor_config
   \<Rightarrow> (session_error option \<times> 'p dualboy_session) option" where
  "dualboy_session_run session port_inputs config =
     (case (loaded session, engine session) of
        (True, Some ops) \<Rightarrow>
          (if set_machine_input ops = None \<and> set_input ops = None \<or>
              run_frame ops = None \<or> video_frame ops = None
           then Some (Some INCOMPLETE_SESSION, session)
           else do {
             (address, p0) \<leftarrow> pair session;
             p1 \<leftarrow> set_port_input ops 0 (fst port_inputs) p0;
             p2 \<leftarrow> set_port_input ops 1 (snd port_inputs) p1;
             let (ran, p3) = the (run_frame ops) p2
             in if \<not> ran then Some (Some FRAME_FAILED, session\<lparr>pair := Some (address, p3)\<rparr>)
                else do {
                  (frames, p4) \<leftarrow> read_frames ops p3;
                  let session1 = session\<lparr>pair := Some (address, p4)\<rparr>
                  in case frames of
                       None \<Rightarrow> Some (Some NO_VIDEO_FRAMES, session1)
                     | Some both \<Rightarrow>
                       (case composite_pixels session of
                          None \<Rightarrow> Some (Some COMPOSITION_FAILED, session1)
                        | Some (buffer, output) \<Rightarrow> do {
                            (output', composed) \<leftarrow>
                              dualboy_compose_frame output DUALBOY_MAX_COMPOSITE_PIXELS both config;
                            let session2 = session1\<lparr>composite_pixels := Some (buffer, output')\<rparr>
                            in case composed of
                                 None \<Rightarrow> Some (Some COMPOSITION_FAILED, session2)
                               | Some frame \<Rightarrow>
                                 Some (None, session2\<lparr>composite := Some frame, display := config\<rparr>)
                          })
                }
           })
      | _ \<Rightarrow> Some (Some INCOMPLETE_SESSION, session))"

definition dualboy_session_geometry ::
  "'p dualboy_session \<Rightarrow> dualboy_compositor_config
   \<Rightarrow> (dualboy_geometry option \<times> 'p dualboy_session) option" where
  "dualboy_session_geometry session config =
     (if \<not> loaded session then Some (None, session)
      else do {
        ops \<leftarrow> engine session;
        (address, p) \<leftarrow> pair session;
        (frames, p') \<leftarrow> read_frames ops p;
        let session' = session\<lparr>pair := Some (address, p')\<rparr>
        in case frames of
             None \<Rightarrow> Some (None, session')
           | Some both \<Rightarrow> Some (dualboy_compositor_geometry both config, session')
      })"

section \<open>Ownership\<close>

definition rom_pointers :: "dualboy_owned_rom \<Rightarrow> nat option list" where
  "rom_pointers rom = [owned_data rom, owned_path rom]"

definition session_pointers :: "'p dualboy_session \<Rightarrow> nat option list" where
  "session_pointers session =
     [map_option fst (pair session)] @ rom_pointers (fst (roms session)) @
     rom_pointers (snd (roms session)) @ [map_option fst (composite_pixels session)]"

definition session_owns :: "nat set \<Rightarrow> 'p dualboy_session \<Rightarrow> heap \<Rightarrow> bool" where
  "session_owns base session h \<longleftrightarrow> owns_beside base (session_pointers session) h \<and>
     (pair session \<noteq> None \<longrightarrow> (\<exists>ops. engine session = Some ops \<and> destroy_pair ops \<noteq> None))"

definition session_unloaded :: "'p dualboy_session \<Rightarrow> bool" where
  "session_unloaded session \<longleftrightarrow> \<not> loaded session \<and> engine session = None \<and> pair session = None \<and>
     roms session = (zero_rom, zero_rom) \<and> composite_pixels session = None"

lemma zero_rom_pointers [simp]: "owned_data zero_rom = None" "owned_path zero_rom = None"
  by (simp_all add: zero_rom_def)

lemma unload_owned:
  assumes "session_owns base session h"
  shows "\<exists>session' h'. dualboy_session_unload session h = Some (session', h') \<and>
    session_unloaded session' \<and> session_owns base session' h'"
proof -
  let ?r0 = "fst (roms session)" and ?r1 = "snd (roms session)"
  have own: "owns_beside base ([map_option fst (pair session)] @ rom_pointers ?r0 @
      rom_pointers ?r1 @ [map_option fst (composite_pixels session)]) h"
    and destroy: "pair session \<noteq> None \<longrightarrow> (\<exists>ops. engine session = Some ops \<and> destroy_pair ops \<noteq> None)"
    using assms by (auto simp: session_owns_def session_pointers_def)
  obtain h1 where h1: "free (map_option fst (pair session)) h = Some h1"
    and own1: "owns_beside base (rom_pointers ?r0 @ rom_pointers ?r1 @ [map_option fst (composite_pixels session)]) h1"
    using free_owned own by fastforce
  have pair: "(case (engine session, pair session) of
        (Some ops, Some (address, p)) \<Rightarrow> if destroy_pair ops \<noteq> None then free (Some address) h else Some h
      | _ \<Rightarrow> Some h) = Some h1"
    using h1 destroy by (auto simp: free_def split: option.splits)
  have rom: "\<exists>h''. free_rom r h' = Some h'' \<and> owns_beside base ps h''"
    if own': "owns_beside base (rom_pointers r @ ps) h'" for r ps h'
  proof -
    from own' have "owns_beside base (owned_data r # owned_path r # ps) h'"
      by (simp add: rom_pointers_def)
    from free_owned [OF this] obtain h2 where
      "free (owned_data r) h' = Some h2" "owns_beside base (owned_path r # ps) h2" by blast
    with free_owned [OF this(2)] show ?thesis by (auto simp: free_rom_def)
  qed
  from rom [OF own1] obtain h2 where h2: "free_rom ?r0 h1 = Some h2"
    and own2: "owns_beside base (rom_pointers ?r1 @ [map_option fst (composite_pixels session)]) h2" by blast
  from rom [OF own2] obtain h3 where h3: "free_rom ?r1 h2 = Some h3"
    and own3: "owns_beside base [map_option fst (composite_pixels session)] h3" by blast
  from free_owned [OF own3] obtain h4 where h4: "free (map_option fst (composite_pixels session)) h3 = Some h4"
    and own4: "owns_beside base [] h4" by blast
  show ?thesis
    unfolding dualboy_session_unload_def pair
    using h2 h3 h4 own4
    by (simp add: session_unloaded_def session_owns_def session_pointers_def rom_pointers_def owns_beside_def)
qed

text \<open>A readable ROM image: the size claimed for it is there.\<close>

definition rom_readable :: "dualboy_rom \<Rightarrow> bool" where
  "rom_readable rom \<longleftrightarrow> (case rom_data rom of None \<Rightarrow> True | Some (_, rom_image) \<Rightarrow> rom_size rom \<le> length rom_image)"

lemma own_rom_owned:
  assumes "owns_beside base ps h" and "rom_readable source"
    and "owned_data destination = None" and "owned_path destination = None"
  shows "\<exists>error rom h'. own_rom destination source share_with h = Some (error, rom, h') \<and>
    owns_beside base (rom_pointers rom @ ps) h'"
proof (cases "rom_data source = None \<or> rom_size source = 0")
  case True
  then show ?thesis
    using assms by (auto simp: own_rom_def rom_pointers_def owns_beside_def split: option.splits)
next
  case False
  then obtain address rom_image where data: "rom_data source = Some (address, rom_image)"
    and size: "rom_size source \<noteq> 0" by auto
  then have slice: "slice rom_image 0 (rom_size source) = Some (take (rom_size source) rom_image)"
    using assms(2) by (simp add: rom_readable_def mem_simps)
  obtain path h1 where dup: "duplicate_string (rom_path source) h = (path, h1)" by fastforce
  then have own1: "owns_beside base (path # ps) h1"
  proof (cases "rom_path source")
    case None
    with dup assms(1) show ?thesis by (auto simp: duplicate_string_def owns_beside_def)
  next
    case (Some name)
    with dup have "malloc h = (path, h1)" by (simp add: duplicate_string_def)
    with assms(1) show ?thesis by (rule malloc_owned)
  qed
  obtain copy h2 where copy: "malloc h1 = (copy, h2)" by fastforce
  note own2 = malloc_owned [OF own1 copy]
  have fresh: "rom_pointers zero_rom = [None, None]" by (simp add: rom_pointers_def)
  have skip: "owns_beside base (None # qs) h' = owns_beside base qs h'" for qs h'
    by (simp add: owns_beside_def)
  show ?thesis
  proof (cases "rom_path source \<noteq> None \<and> path = None")
    case True
    then show ?thesis
      using own1 by (simp add: own_rom_def data size dup rom_pointers_def skip)
  next
    case path: False
    show ?thesis
    proof (cases "case share_with of None \<Rightarrow> False
        | Some other \<Rightarrow> rom_size (orom other) = rom_size source \<and>
            rom_platform (orom other) = rom_platform source \<and>
            (case rom_data (orom other) of None \<Rightarrow> False | Some (shared, _) \<Rightarrow> address = shared)")
      case True
      then show ?thesis
        using own1 path unfolding own_rom_def data option.case prod.case dup Let_def
        by (simp only: if_not_P [OF path] if_P [OF True] if_not_P [OF size])
          (simp add: rom_pointers_def skip)
    next
      case False
      show ?thesis
      proof (cases copy)
        case None
        from free_owned [OF own2 [unfolded None skip]] obtain h3 where
          "free path h2 = Some h3" and "owns_beside base ps h3" by blast
        with None show ?thesis
          unfolding own_rom_def data option.case prod.case dup Let_def
          by (simp only: if_not_P [OF path] if_not_P [OF False] if_not_P [OF size] copy prod.case option.case)
            (simp add: fresh skip)
      next
        case (Some a)
        then show ?thesis
          using own2 slice unfolding own_rom_def data option.case prod.case dup Let_def
          by (simp only: if_not_P [OF path] if_not_P [OF False] if_not_P [OF size] copy prod.case option.case)
            (simp add: rom_pointers_def)
      qed
    qed
  qed
qed

lemma owns_beside_skip: "owns_beside base (ps @ rom_pointers zero_rom @ qs) h = owns_beside base (ps @ qs) h"
  by (simp add: owns_beside_def rom_pointers_def)

lemma own_rom_copied:
  assumes "own_rom destination source None h = Some (None, rom, h')"
  shows "\<exists>address rom_image copy. rom_data source = Some (address, rom_image) \<and>
    rom_size source \<le> length rom_image \<and> owned_data rom = Some copy \<and>
    orom rom = source\<lparr>rom_data := Some (copy, take (rom_size source) rom_image)\<rparr>"
  using assms
  by (cases source; cases "rom_data source")
    (auto simp: own_rom_def Let_def zero_rom_def slice_def split: if_splits option.splits prod.splits
      Option.bind_splits)

lemma own_rom_shared:
  assumes "own_rom destination source (Some other) h = Some (None, rom, h')"
    and "rom_data source = rom_data (orom other)" and "rom_size source = rom_size (orom other)"
    and "rom_platform source = rom_platform (orom other)"
  shows "owned_data rom = None \<and> orom rom = source"
  using assms
  by (cases source; cases "rom_data source")
    (auto simp: own_rom_def Let_def zero_rom_def split: if_splits option.splits prod.splits)

text \<open>What the load knows between its steps: nothing is owned that is not in the session.\<close>

definition loading :: "nat set \<Rightarrow> 'p dualboy_engine_ops \<Rightarrow> 'p dualboy_session \<Rightarrow> heap \<Rightarrow> bool" where
  "loading base ops session h \<longleftrightarrow>
     owns_beside base (session_pointers session) h \<and> engine session = Some ops"

lemma own_roms_owned:
  assumes "loading base ops session h" and "pair session = None"
    and "roms session = (zero_rom, zero_rom)" and "rom_readable rom0" and "rom_readable rom1"
  shows "\<exists>error session' h'. own_roms rom0 rom1 session h = Some (error, session', h') \<and>
    loading base ops session' h' \<and> pair session' = None \<and>
    composite_pixels session' = composite_pixels session"
proof -
  let ?fb = "[map_option fst (composite_pixels session)]"
  have own: "owns_beside base ?fb h" and ops: "engine session = Some ops"
    using assms(1-3) by (simp_all add: loading_def session_pointers_def rom_pointers_def)
  from own_rom_owned [OF own assms(4), of zero_rom None] obtain error0 owned0 h1 where
    rom0: "own_rom zero_rom rom0 None h = Some (error0, owned0, h1)"
    and own1: "owns_beside base (rom_pointers owned0 @ ?fb) h1" by auto
  show ?thesis
  proof (cases error0)
    case (Some e)
    then show ?thesis
      using own1 assms(2,3) ops
      by (simp add: own_roms_def rom0 loading_def session_pointers_def)
        (simp add: owns_beside_skip)
  next
    case None
    define shared where "shared \<longleftrightarrow> map_option fst (rom_data rom1) = map_option fst (rom_data rom0) \<and>
      rom_size rom1 = rom_size rom0 \<and> rom_platform rom1 = rom_platform rom0"
    define source where "source = (if shared then rom1\<lparr>rom_data := rom_data (orom owned0)\<rparr> else rom1)"
    have "rom_readable source"
      using own_rom_copied [OF rom0 [unfolded None]] assms(5)
      by (auto simp: source_def shared_def rom_readable_def)
    from own_rom_owned [OF own1 this, of zero_rom "if shared then Some owned0 else None"]
    obtain error1 owned1 h2 where
      rom1: "own_rom zero_rom source (if shared then Some owned0 else None) h1 = Some (error1, owned1, h2)"
      and own2: "owns_beside base (rom_pointers owned1 @ rom_pointers owned0 @ ?fb) h2" by auto
    have "(if shared then own_rom zero_rom (rom1\<lparr>rom_data := rom_data (orom owned0)\<rparr>) (Some owned0) h1
        else own_rom zero_rom rom1 None h1) = Some (error1, owned1, h2)"
      using rom1 by (cases shared) (simp_all add: source_def)
    then show ?thesis
      using None own2 assms(2,3) ops unfolding own_roms_def shared_def [symmetric]
      by (cases shared)
        (simp_all add: rom0 loading_def session_pointers_def owns_beside_swap [of base "rom_pointers owned1"])
  qed
qed

lemma start_engine_owned:
  assumes "loading base ops session h" and "pair session = None"
    and "create_pair ops \<noteq> None" and "load_rom ops \<noteq> None"
  shows "\<exists>error session' h'. start_engine ops config link session h = Some (error, session', h') \<and>
    loading base ops session' h'"
proof -
  have fresh: "next_address h \<notin> live h"
    using assms(1) by (auto simp: loading_def owns_beside_def heap_ok_def)
  have own: "owns_beside base (session_pointers (session\<lparr>pair := Some (next_address h, p)\<rparr>))
      (h\<lparr>next_address := Suc (next_address h), live := insert (next_address h) (live h)\<rparr>)" for p
    using assms(1,2) fresh
    by (auto simp: loading_def session_pointers_def owns_beside_def heap_ok_def less_Suc_eq)
  have cache: "\<exists>error s'. cache_state_capacities s = Some (error, s') \<and>
      session_pointers s' = session_pointers s \<and> engine s' = Some ops"
    if "engine s = Some ops" and "pair s = Some x" for s x
    using that by (cases x) (simp add: cache_state_capacities_def Let_def session_pointers_def)
  obtain create load where ops: "create_pair ops = Some create" "load_rom ops = Some load"
    using assms(3,4) by auto
  have engine: "engine session = Some ops" using assms(1) by (simp add: loading_def)
  obtain created pair0 where create: "create config = (created, pair0)" by fastforce
  show ?thesis
  proof (cases pair0)
    case None
    then show ?thesis using assms(1) by (simp add: start_engine_def ops create)
  next
    case (Some p0)
    obtain ok0 p1 where p1: "load p0 0 (orom (fst (roms session))) = (ok0, p1)" by fastforce
    obtain ok1 p2 where p2: "load p1 1 (orom (snd (roms session))) = (ok1, p2)" by fastforce
    obtain ok2 p3 where p3: "(case set_link ops of None \<Rightarrow> (True, p2) | Some f \<Rightarrow> f p2 link) = (ok2, p3)"
      by fastforce
    from cache [of "session\<lparr>pair := Some (next_address h, p3)\<rparr>"] engine obtain error s' where
      "cache_state_capacities (session\<lparr>pair := Some (next_address h, p3)\<rparr>) = Some (error, s')"
      "session_pointers s' = session_pointers (session\<lparr>pair := Some (next_address h, p3)\<rparr>)"
      "engine s' = Some ops"
      by auto
    then show ?thesis
      using own engine p2 by (simp add: start_engine_def ops create Some p1 p3 Let_def loading_def)
  qed
qed

lemma loading_owns:
  "loading base ops session h \<Longrightarrow> destroy_pair ops \<noteq> None \<Longrightarrow> session_owns base session h"
  by (simp add: loading_def session_owns_def)

lemma unload_loading:
  assumes "loading base ops session h" and "destroy_pair ops \<noteq> None"
  shows "\<exists>session' h'. dualboy_session_unload session h = Some (session', h') \<and>
    session_unloaded session' \<and> session_owns base session' h'"
  using unload_owned [OF loading_owns [OF assms]] .

lemma unloaded_live: "session_unloaded session \<Longrightarrow> session_owns base session h \<Longrightarrow> live h = base"
  by (simp add: session_unloaded_def session_owns_def session_pointers_def rom_pointers_def owns_beside_def)

lemma cache_state_capacities_keeps:
  "cache_state_capacities session = Some (error, session') \<Longrightarrow>
   roms session' = roms session \<and> engine session' = engine session \<and> load_kind session' = load_kind session \<and>
   pair session' = pair session \<and> composite_pixels session' = composite_pixels session"
  by (auto simp: cache_state_capacities_def Let_def split: Option.bind_splits if_splits)

lemma start_engine_keeps:
  "start_engine ops config link session h = Some (error, session', h') \<Longrightarrow>
   roms session' = roms session \<and> engine session' = engine session \<and> load_kind session' = load_kind session \<and>
   composite_pixels session' = composite_pixels session"
  by (auto simp: start_engine_def Let_def split: Option.bind_splits option.splits prod.splits if_splits
      dest!: cache_state_capacities_keeps)

lemma own_roms_keeps:
  "own_roms rom0 rom1 session h = Some (error, session', h') \<Longrightarrow>
   engine session' = engine session \<and> load_kind session' = load_kind session \<and>
   composite_pixels session' = composite_pixels session"
  by (auto simp: own_roms_def Let_def split: Option.bind_splits if_splits)

text \<open>The steps of a load that succeeds.\<close>

lemma session_load_Some_None:
  assumes "dualboy_session_load session (Some ops) config sources kind link h = Some (None, session', h')"
  obtains session1 h1 address h2 session2 h3 session3 where
    "dualboy_session_unload session h = Some (session1, h1)" and "malloc h1 = (Some address, h2)"
    and "own_roms (fst sources) (snd sources)
      (session1\<lparr>engine := Some ops, load_kind := kind, composite_pixels :=
        Some (address, replicate (4 * DUALBOY_MAX_COMPOSITE_PIXELS) 0)\<rparr>) h2 = Some (None, session2, h3)"
    and "start_engine ops config link session2 h3 = Some (None, session3, h')"
    and "session' = session3\<lparr>link_enabled := link, loaded := True\<rparr>"
  using assms
  by (auto simp: dualboy_session_load_def Let_def
      split: if_splits Option.bind_splits option.splits prod.splits)

lemma session_unload_owned_keeps:
  "dualboy_session_unload session h = Some (session', h') \<Longrightarrow>
   session' = session\<lparr>pair := None, engine := None, roms := (zero_rom, zero_rom),
     composite_pixels := None, composite := None, machine_state_capacity := (0, 0),
     link_state_capacity := 0, loaded := False, link_enabled := False, load_kind := DUALBOY_LOAD_NORMAL\<rparr>"
  by (auto simp: dualboy_session_unload_def split: Option.bind_splits)

text \<open>A running session: everything the frame step touches is there.\<close>

definition session_running :: "'p dualboy_session \<Rightarrow> bool" where
  "session_running session \<longleftrightarrow> loaded session \<and> engine session \<noteq> None \<and> pair session \<noteq> None \<and>
     (\<exists>address output. composite_pixels session = Some (address, output) \<and>
        length output = 4 * DUALBOY_MAX_COMPOSITE_PIXELS)"

text \<open>
  What the session relies on for the video frames of an engine: the pixel memory covers the rows
  the frame claims to have, and the dimensions stay below \<open>2 ^ 31\<close>.
\<close>

definition video_contract :: "'p dualboy_engine_ops \<Rightarrow> bool" where
  "video_contract ops \<longleftrightarrow>
     (\<forall>f p m frame p'. video_frame ops = Some f \<and> f p m = (Some frame, p') \<longrightarrow>
        frame_memory frame \<and> unat (width frame) < 2 ^ 31 \<and> unat (height frame) < 2 ^ 31)"

lemma read_frames_total:
  assumes "video_frame ops \<noteq> None" and "video_contract ops"
  shows "\<exists>frames p'. read_frames ops p = Some (frames, p') \<and>
    (\<forall>both. frames = Some both \<longrightarrow> frame_memory (fst both) \<and> frame_memory (snd both) \<and> frames_fit both)"
proof -
  from assms(1) obtain f where f: "video_frame ops = Some f" by auto
  obtain frame0 p1 where f0: "f p 0 = (frame0, p1)" by fastforce
  obtain frame1 p2 where f1: "f p1 1 = (frame1, p2)" by fastforce
  show ?thesis
    using assms(2) f f0 f1
    by (auto simp: read_frames_def video_contract_def frames_fit_def frame_at_def split: option.splits)
qed

lemma set_port_input_total:
  "\<not> (set_machine_input ops = None \<and> set_input ops = None) \<Longrightarrow> \<exists>p'. set_port_input ops m i p = Some p'"
  by (cases "set_machine_input ops"; cases "set_input ops") (simp_all add: set_port_input_def)

section \<open>A small engine\<close>

text \<open>
  A concrete engine on which the witnesses run: each machine is one register and one byte of
  battery RAM, its picture is one pixel, and the link is a flag.
\<close>

record demo_pair =
  register0 :: u8
  register1 :: u8
  ram0 :: u8
  ram1 :: u8
  cable :: bool

definition demo_machine :: "demo_pair \<Rightarrow> nat \<Rightarrow> bytes" where
  "demo_machine p m = (if m = 0 then [register0 p, ram0 p] else [register1 p, ram1 p])"

definition demo_set_machine :: "demo_pair \<Rightarrow> nat \<Rightarrow> bytes \<Rightarrow> bool \<times> demo_pair" where
  "demo_set_machine p m data =
     (case data of
        [r, b] \<Rightarrow>
          if m = 0 then (True, p\<lparr>register0 := r, ram0 := b\<rparr>)
          else if m = 1 then (True, p\<lparr>register1 := r, ram1 := b\<rparr>)
          else (False, p)
      | _ \<Rightarrow> (False, p))"

definition demo_frame :: dualboy_video_frame where
  "demo_frame = \<lparr>pixels = Some [1, 2, 3, 4], width = 1, height = 1, pitch = 4\<rparr>"

definition demo_engine :: "demo_pair dualboy_engine_ops" where
  "demo_engine =
     \<lparr>engine_name = Some ''demo'', family = DUALBOY_ENGINE_SAMEBOY,
      create_pair = Some (\<lambda>_. (True, Some \<lparr>register0 = 0, register1 = 0, ram0 = 0, ram1 = 0, cable = False\<rparr>)),
      load_rom = Some (\<lambda>p m rom. (True, p)),
      set_link = Some (\<lambda>p enabled. (True, p\<lparr>cable := enabled\<rparr>)),
      engine_reset = Some (\<lambda>p. p\<lparr>register0 := 0, register1 := 0\<rparr>),
      set_input = None,
      set_machine_input = Some (\<lambda>p m input. p),
      run_frame = Some (\<lambda>p. (True, p\<lparr>register0 := register0 p + 1\<rparr>)),
      video_frame = Some (\<lambda>p m. (Some demo_frame, p)),
      audio_sample_rate = None, read_audio = None,
      memory_info = Some (\<lambda>p m kind. if kind = DUALBOY_MEMORY_SAVE_RAM \<and> m < 2
        then Some (True, [if m = 0 then ram0 p else ram1 p]) else None),
      memory_store = (\<lambda>p m kind data. if kind = DUALBOY_MEMORY_SAVE_RAM \<and> m < 2
        then if m = 0 then p\<lparr>ram0 := data ! 0\<rparr> else p\<lparr>ram1 := data ! 0\<rparr> else p),
      persistent_memory_extent = None,
      validate_persistent_memory = None,
      memory_dirty = None,
      clear_memory_dirty = None,
      machine_state_size = Some (\<lambda>p m. 2),
      serialize_machine = Some (\<lambda>p m capacity.
        (if capacity < 2 \<or> 2 \<le> m then (False, [], 0) else (True, demo_machine p m, 2), p)),
      unserialize_machine = Some demo_set_machine,
      link_state_size = Some (\<lambda>p. 1),
      serialize_link = Some (\<lambda>p capacity.
        if capacity < 1 then (False, [], 0) else (True, [if cable p then 1 else 0], 1)),
      unserialize_link = Some (\<lambda>p data. (data \<noteq> [], p\<lparr>cable := data \<noteq> [] \<and> data ! 0 \<noteq> 0\<rparr>)),
      link_transport_active = Some cable, set_video_renderer = None, video_renderer = None,
      destroy_pair = Some (\<lambda>_. ()),
      persistent_memory_loaded = None\<rparr>"

definition demo_rom :: dualboy_rom where
  "demo_rom = \<lparr>rom_platform = DUALBOY_PLATFORM_GB, rom_data = Some (77, [1, 2, 3]), rom_size = 3,
               rom_path = Some ''a.gb''\<rparr>"

definition demo_config :: dualboy_engine_config where
  "demo_config = \<lparr>system_directory = None, config_sample_rate = 48000\<rparr>"

lemma demo_init_owns: "session_owns {0} dualboy_session_init demo_heap"
  by (simp add: session_owns_def session_pointers_def rom_pointers_def owns_beside_def heap_ok_def
      dualboy_session_init_def demo_heap_def)

lemma demo_rom_readable: "rom_readable demo_rom"
  by (simp add: rom_readable_def demo_rom_def)

lemma demo_video_contract: "video_contract demo_engine"
  by (auto simp: video_contract_def demo_engine_def demo_frame_def frame_memory_def)

lemma demo_load:
  "\<exists>session h. dualboy_session_load dualboy_session_init (Some demo_engine) demo_config (demo_rom, demo_rom)
      DUALBOY_LOAD_NORMAL True demo_heap = Some (None, session, h) \<and>
    session_running session \<and> engine session = Some demo_engine \<and> session_owns {0} session h"
  by (simp add: dualboy_session_load_def dualboy_session_unload_def dualboy_session_init_def
      demo_heap_def free_rom_def free_def malloc_def own_roms_def own_rom_def duplicate_string_def demo_rom_def
      zero_rom_def slice_def start_engine_def cache_state_capacities_def Let_def session_running_def demo_engine_def
      session_owns_def session_pointers_def rom_pointers_def owns_beside_def heap_ok_def)
    auto

section \<open>Properties\<close>

text \<open>Every way a load can end, with what the session owns then.\<close>

lemma session_load_owned:
  assumes "session_owns base session h" and "rom_readable rom0" and "rom_readable rom1"
  shows "\<exists>error session' h'. dualboy_session_load session engine_ops config (rom0, rom1) kind link h =
      Some (error, session', h') \<and> session_owns base session' h' \<and>
    (error = None \<longrightarrow> loaded session') \<and>
    (error \<noteq> None \<longrightarrow> session_unloaded session' \<and> live h' = base \<or>
       error = Some INVALID_LOAD_ARGUMENTS \<and> session' = session \<and> h' = h)"
proof (cases "\<exists>ops. engine_ops = Some ops \<and> create_pair ops \<noteq> None \<and> load_rom ops \<noteq> None \<and> destroy_pair ops \<noteq> None")
  case False
  then show ?thesis
    using assms(1) by (cases engine_ops) (auto simp: dualboy_session_load_def)
next
  case True
  then obtain ops where ops: "engine_ops = Some ops" "create_pair ops \<noteq> None" "load_rom ops \<noteq> None"
    and destroy: "destroy_pair ops \<noteq> None" by blast
  from unload_owned [OF assms(1)] obtain session1 h1 where
    unload: "dualboy_session_unload session h = Some (session1, h1)"
    and gone: "session_unloaded session1" "session_owns base session1 h1" by blast
  define session2 where "session2 = session1\<lparr>engine := Some ops, load_kind := kind\<rparr>"
  obtain framebuffer h2 where alloc: "malloc h1 = (framebuffer, h2)" by fastforce
  have "owns_beside base [] h1"
    using gone by (simp add: session_unloaded_def session_owns_def session_pointers_def rom_pointers_def)
  from malloc_owned [OF this alloc] have own2: "owns_beside base [framebuffer] h2" .
  have failure: "\<exists>s' h''. dualboy_session_unload s h' = Some (s', h'') \<and> session_owns base s' h'' \<and>
      session_unloaded s' \<and> live h'' = base" if "loading base ops s h'" for s h'
    using unload_loading [OF that destroy] unloaded_live by blast
  show ?thesis
  proof (cases framebuffer)
    case None
    then have "loading base ops session2 h2"
      using own2 gone(1) by (simp add: loading_def session2_def session_unloaded_def session_pointers_def rom_pointers_def)
    from failure [OF this] None show ?thesis
      by (auto simp: dualboy_session_load_def ops destroy unload alloc session2_def)
  next
    case (Some address)
    define session3 where "session3 = session2\<lparr>composite_pixels :=
      Some (address, replicate (4 * DUALBOY_MAX_COMPOSITE_PIXELS) 0)\<rparr>"
    have "loading base ops session3 h2" and "pair session3 = None" and "roms session3 = (zero_rom, zero_rom)"
      using own2 gone(1) Some by (simp_all add: loading_def session3_def session2_def session_unloaded_def
          session_pointers_def rom_pointers_def)
    from own_roms_owned [OF this assms(2,3)] obtain rom_error session4 h3 where
      roms: "own_roms rom0 rom1 session3 h2 = Some (rom_error, session4, h3)"
      and load4: "loading base ops session4 h3" "pair session4 = None" by blast
    show ?thesis
    proof (cases rom_error)
      case (Some e)
      from failure [OF load4(1)] Some \<open>framebuffer = Some address\<close> roms show ?thesis
        by (auto simp: dualboy_session_load_def ops destroy unload alloc session2_def session3_def)
    next
      case None
      from start_engine_owned [OF load4 ops(2,3), of config link] obtain error session5 h4 where
        start: "start_engine ops config link session4 h3 = Some (error, session5, h4)"
        and load5: "loading base ops session5 h4" by blast
      have "session_owns base (session5\<lparr>link_enabled := link, loaded := True\<rparr>) h4"
        using loading_owns [OF load5 destroy] by (simp add: session_owns_def session_pointers_def)
      with failure [OF load5] None \<open>framebuffer = Some address\<close> roms start show ?thesis
        by (cases error) (auto simp: dualboy_session_load_def ops destroy unload alloc session2_def session3_def)
    qed
  qed
qed

lemma session_load_running:
  assumes "dualboy_session_load session (Some ops) config sources kind link h = Some (None, session', h')"
  shows "engine session' = Some ops" and "loaded session'" and "\<exists>address p. pair session' = Some (address, p)"
    and "link_enabled session' = link"
proof -
  from assms obtain session1 address session2 h2 session3 h3 where
    "own_roms (fst sources) (snd sources) (session1\<lparr>engine := Some ops, load_kind := kind, composite_pixels :=
        Some (address, replicate (4 * DUALBOY_MAX_COMPOSITE_PIXELS) 0)\<rparr>) h2 = Some (None, session2, h3)"
    and start: "start_engine ops config link session2 h3 = Some (None, session3, h')"
    and session': "session' = session3\<lparr>link_enabled := link, loaded := True\<rparr>"
    by (rule session_load_Some_None)
  then have "engine session2 = Some ops" by (auto dest: own_roms_keeps)
  then show "engine session' = Some ops" using start_engine_keeps [OF start] session' by simp
  show "loaded session'" "link_enabled session' = link" using session' by simp_all
  from start show "\<exists>address p. pair session' = Some (address, p)"
    by (auto simp: session' start_engine_def Let_def split: Option.bind_splits option.splits prod.splits if_splits
        dest!: cache_state_capacities_keeps)
qed

text \<open>
  C14. Loading never leaks and never frees twice. From a session that owns its part of the heap,
  every load returns without a memory error, whichever allocation fails and whatever the engine
  answers, and the session again owns exactly its part; the memory of the rest of the program is
  untouched. After any failure past the argument check the session is unloaded and everything it
  held, the previous game included, has been released.
\<close>

theorem session_load_ownership:
  assumes "session_owns base session h" and "rom_readable rom0" and "rom_readable rom1"
  shows "\<exists>error session' h'. dualboy_session_load session engine_ops config (rom0, rom1) kind link h =
      Some (error, session', h') \<and> session_owns base session' h' \<and>
    (error = None \<longrightarrow> loaded session') \<and>
    (error \<noteq> None \<and> error \<noteq> Some INVALID_LOAD_ARGUMENTS \<longrightarrow> session_unloaded session' \<and> live h' = base)"
  using session_load_owned [OF assms] by fastforce

theorem session_load_ownership_witness:
  "\<exists>session' h'. dualboy_session_load dualboy_session_init (Some demo_engine) demo_config (demo_rom, demo_rom)
      DUALBOY_LOAD_NORMAL True (demo_heap\<lparr>alloc_ok := (\<lambda>n. n < 3)\<rparr>) =
      Some (Some CARTRIDGE_ALLOCATION, session', h') \<and> live h' = {0}"
proof -
  let ?h = "demo_heap\<lparr>alloc_ok := (\<lambda>n. n < 3)\<rparr>"
  have "session_owns {0} (dualboy_session_init :: demo_pair dualboy_session) ?h"
    using demo_init_owns by (simp add: session_owns_def owns_beside_def heap_ok_def)
  from session_load_ownership [OF this demo_rom_readable demo_rom_readable,
      of "Some demo_engine" demo_config DUALBOY_LOAD_NORMAL True]
  obtain error session' h' where load: "dualboy_session_load dualboy_session_init (Some demo_engine) demo_config
      (demo_rom, demo_rom) DUALBOY_LOAD_NORMAL True ?h = Some (error, session', h')"
    and live: "error \<noteq> None \<and> error \<noteq> Some INVALID_LOAD_ARGUMENTS \<longrightarrow> live h' = {0}" by blast
  have "error = Some CARTRIDGE_ALLOCATION"
    using load
    by (simp add: dualboy_session_load_def dualboy_session_unload_def dualboy_session_init_def demo_engine_def
        demo_heap_def free_rom_def free_def malloc_def own_roms_def own_rom_def duplicate_string_def demo_rom_def
        zero_rom_def)
  with load live show ?thesis by blast
qed

text \<open>
  C15. A successful load hands the engine private copies: each machine's ROM has the platform, size
  and path of its source and the first \<open>size\<close> bytes of its data, at an address of its own, except
  that a second machine given the same image shares the first copy instead of duplicating it.
  The session then reports itself loaded with the requested engine, kind and link.
\<close>

theorem session_load_copies:
  assumes "dualboy_session_load session (Some ops) config (rom0, rom1) kind link h = Some (None, session', h')"
    and "rom_data rom0 = Some (address0, image0)" and "rom_data rom1 = Some (address1, image1)"
  shows "loaded session' \<and> engine session' = Some ops \<and> load_kind session' = kind \<and> link_enabled session' = link \<and>
    (\<exists>copy0. owned_data (fst (roms session')) = Some copy0 \<and>
       orom (fst (roms session')) = rom0\<lparr>rom_data := Some (copy0, take (rom_size rom0) image0)\<rparr> \<and>
       (if address1 = address0 \<and> rom_size rom1 = rom_size rom0 \<and> rom_platform rom1 = rom_platform rom0
        then owned_data (snd (roms session')) = None \<and>
             orom (snd (roms session')) = rom1\<lparr>rom_data := Some (copy0, take (rom_size rom0) image0)\<rparr>
        else \<exists>copy1. owned_data (snd (roms session')) = Some copy1 \<and>
             orom (snd (roms session')) = rom1\<lparr>rom_data := Some (copy1, take (rom_size rom1) image1)\<rparr>))"
proof -
  from session_load_Some_None [OF assms(1)] obtain session1 h1 address h2 session2 h3 session3 where
    unload: "dualboy_session_unload session h = Some (session1, h1)"
    and own: "own_roms rom0 rom1 (session1\<lparr>engine := Some ops, load_kind := kind, composite_pixels :=
        Some (address, replicate (4 * DUALBOY_MAX_COMPOSITE_PIXELS) 0)\<rparr>) h2 = Some (None, session2, h3)"
    and start: "start_engine ops config link session2 h3 = Some (None, session3, h')"
    and session': "session' = session3\<lparr>link_enabled := link, loaded := True\<rparr>"
    unfolding fst_conv snd_conv by metis
  have "roms session1 = (zero_rom, zero_rom)"
    using session_unload_owned_keeps [OF unload] by simp
  with own obtain owned0 owned1 h4 where
    rom0: "own_rom zero_rom rom0 None h2 = Some (None, owned0, h4)"
    and rom1: "(if map_option fst (rom_data rom1) = map_option fst (rom_data rom0) \<and>
        rom_size rom1 = rom_size rom0 \<and> rom_platform rom1 = rom_platform rom0
      then own_rom zero_rom (rom1\<lparr>rom_data := rom_data (orom owned0)\<rparr>) (Some owned0) h4
      else own_rom zero_rom rom1 None h4) = Some (None, owned1, h3)"
    and "roms session2 = (owned0, owned1)"
    by (auto simp: own_roms_def Let_def split: Option.bind_splits if_splits)
  moreover from own_rom_copied [OF rom0] assms(2) obtain copy0 where
    copy0: "owned_data owned0 = Some copy0" "orom owned0 = rom0\<lparr>rom_data := Some (copy0, take (rom_size rom0) image0)\<rparr>"
    by auto
  moreover note start_engine_keeps [OF start] own_roms_keeps [OF own]
  ultimately show ?thesis
    using own_rom_shared [of zero_rom "rom1\<lparr>rom_data := rom_data (orom owned0)\<rparr>" owned0 h4 owned1 h3]
      own_rom_copied [of zero_rom rom1 h4 owned1 h3] assms(2,3)
    by (auto simp: session' split: if_splits)
qed

theorem session_load_copies_witness:
  "\<exists>session' h' copy. dualboy_session_load dualboy_session_init (Some demo_engine) demo_config (demo_rom, demo_rom)
      DUALBOY_LOAD_NORMAL True demo_heap = Some (None, session', h') \<and>
    owned_data (fst (roms session')) = Some copy \<and> owned_data (snd (roms session')) = None \<and>
    rom_data (orom (snd (roms session'))) = Some (copy, [1, 2, 3])"
proof -
  obtain session' h' where load: "dualboy_session_load dualboy_session_init (Some demo_engine) demo_config
      (demo_rom, demo_rom) DUALBOY_LOAD_NORMAL True demo_heap = Some (None, session', h')"
    using demo_load by blast
  from session_load_copies [OF load, of 77 "[1, 2, 3]" 77 "[1, 2, 3]"] obtain copy where
    "owned_data (fst (roms session')) = Some copy" "owned_data (snd (roms session')) = None"
    "rom_data (orom (snd (roms session'))) = Some (copy, [1, 2, 3])"
    by (auto simp: demo_rom_def)
  with load show ?thesis by blast
qed

text \<open>
  What the engine is told and what it answers in one frame: each port's input goes to the machine
  of the same number, whole or, for an engine with button input only, its buttons; then the frame
  runs, and machine 0 and then machine 1 is asked for its picture.
\<close>

definition deliver_input :: "'p dualboy_engine_ops \<Rightarrow> nat \<Rightarrow> dualboy_machine_input \<Rightarrow> 'p \<Rightarrow> 'p" where
  "deliver_input ops m input p =
     (case (set_machine_input ops, set_input ops) of
        (Some f, _) \<Rightarrow> f p m input
      | (None, Some f) \<Rightarrow> f p m (buttons input)
      | (None, None) \<Rightarrow> p)"

definition frame_of_engine :: "'p dualboy_engine_ops \<Rightarrow> dualboy_machine_input \<times> dualboy_machine_input \<Rightarrow> 'p
   \<Rightarrow> dualboy_video_frame \<Rightarrow> dualboy_video_frame \<Rightarrow> 'p \<Rightarrow> bool" where
  "frame_of_engine ops inputs p frame0 frame1 p' \<longleftrightarrow>
     (\<exists>run video ran shown0. run_frame ops = Some run \<and> video_frame ops = Some video \<and>
        run (deliver_input ops 1 (snd inputs) (deliver_input ops 0 (fst inputs) p)) = (True, ran) \<and>
        video ran 0 = (Some frame0, shown0) \<and> video shown0 1 = (Some frame1, p'))"

lemma set_port_input_delivers: "set_port_input ops m i p = Some p' \<Longrightarrow> p' = deliver_input ops m i p"
  by (auto simp: set_port_input_def deliver_input_def split: option.splits)

lemma read_frames_asked:
  assumes "read_frames ops p = Some (Some both, p')"
  shows "\<exists>video shown0. video_frame ops = Some video \<and> video p 0 = (Some (fst both), shown0) \<and>
    video shown0 1 = (Some (snd both), p')"
  using assms by (auto simp: read_frames_def split: Option.bind_splits prod.splits option.splits)

text \<open>
  C16. Running a frame is safe and transactional for the display. For an engine that keeps the
  video contract every frame returns without a memory error, the session stays runnable and owns
  what it owned. When it reports no error, each port's input went to its machine before the engine
  ran the frame, and the framebuffer of the session shows exactly the composition, as the coordinate
  mapping describes it, of the picture machine 0 and the picture machine 1 answered afterwards, with
  the display configuration taken over; a frame with an error leaves the published frame and
  the configuration as they were.
\<close>

theorem session_run_correct:
  assumes "session_running session" and "engine session = Some ops" and "video_contract ops"
    and "session_owns base session h" and "pair session = Some (address, p)"
  shows "\<exists>error session'. dualboy_session_run session inputs config = Some (error, session') \<and>
    session_running session' \<and> session_owns base session' h \<and>
    (if error = None
     then display session' = config \<and>
          (\<exists>frame0 frame1 p' g out buffer. frame_of_engine ops inputs p frame0 frame1 p' \<and>
             pair session' = Some (address, p') \<and>
             dualboy_compositor_geometry (frame0, frame1) config = Some g \<and>
             composed_image (frame0, frame1) config g out \<and>
             composite_pixels session' = Some (buffer, out) \<and>
             composite session' = Some \<lparr>pixels = Some out, width = gwidth g, height = gheight g,
               pitch = unat (gwidth g) * 4\<rparr>)
     else display session' = display session \<and> composite session' = composite session)"
proof -
  note pair = assms(5)
  obtain buffer fb where loaded: "loaded session"
    and pixels: "composite_pixels session = Some (buffer, fb)"
    and len: "length fb = 4 * DUALBOY_MAX_COMPOSITE_PIXELS"
    using assms(1) by (auto simp: session_running_def)
  have same: "session_running s \<and> session_owns base s h"
    if "length out = length fb" and
      "s = session\<lparr>pair := Some (address, p), composite_pixels := Some (buffer, out), composite := c, display := d\<rparr>"
    for p out c d s
    using that assms(1,2,4) pair pixels
    by (auto simp: session_running_def session_owns_def session_pointers_def)
  note same = same [OF _ refl]
  have same_pair: "session_running (session\<lparr>pair := Some (address, p)\<rparr>) \<and>
      session_owns base (session\<lparr>pair := Some (address, p)\<rparr>) h" for p
    using assms(1,2,4) pair pixels
    by (auto simp: session_running_def session_owns_def session_pointers_def)
  show ?thesis
  proof (cases "set_machine_input ops = None \<and> set_input ops = None \<or> run_frame ops = None \<or> video_frame ops = None")
    case True
    then show ?thesis using assms(1,2,4) loaded by (simp add: dualboy_session_run_def)
  next
    case False
    then obtain p1 where p1: "set_port_input ops 0 (fst inputs) p = Some p1"
      using set_port_input_total [of ops 0 "fst inputs" p] by auto
    from False obtain p2 where p2: "set_port_input ops (Suc 0) (snd inputs) p1 = Some p2"
      using set_port_input_total [of ops "Suc 0" "snd inputs" p1] by auto
    obtain ran p3 where p3: "the (run_frame ops) p2 = (ran, p3)" by fastforce
    from False read_frames_total [OF _ assms(3), of p3] obtain frames p4 where
      frames: "read_frames ops p3 = Some (frames, p4)"
      "\<forall>both. frames = Some both \<longrightarrow> frame_memory (fst both) \<and> frame_memory (snd both) \<and> frames_fit both"
      by blast
    note step = dualboy_session_run_def [of session inputs config] loaded assms(2) False pair p1 p2 p3
      frames(1) pixels
    consider (stopped) "\<not> ran" | (blank) "ran" "frames = None" | (both) both where "ran" "frames = Some both"
      by (cases frames) auto
    then show ?thesis
    proof cases
      case stopped
      then have "dualboy_session_run session inputs config =
          Some (Some FRAME_FAILED, session\<lparr>pair := Some (address, p3)\<rparr>)"
        by (simp add: step)
      then show ?thesis using same_pair [of p3] by simp
    next
      case blank
      then have "dualboy_session_run session inputs config =
          Some (Some NO_VIDEO_FRAMES, session\<lparr>pair := Some (address, p4)\<rparr>)"
        by (simp add: step)
      then show ?thesis using same_pair [of p4] by simp
    next
      case both
      then have "frames_fit both" "frame_memory (fst both)" "frame_memory (snd both)"
        using frames(2) by auto
      from compose_frame_total [OF this, of DUALBOY_MAX_COMPOSITE_PIXELS fb config] len obtain out result where
        compose: "dualboy_compose_frame fb DUALBOY_MAX_COMPOSITE_PIXELS both config = Some (out, result)"
          "length out = length fb"
        and result: "case result of None \<Rightarrow> out = fb
          | Some f \<Rightarrow> \<exists>g. dualboy_compositor_geometry both config = Some g \<and> composed_image both config g out \<and>
             f = \<lparr>pixels = Some out, width = gwidth g, height = gheight g, pitch = unat (gwidth g) * 4\<rparr>"
        by auto
      show ?thesis
      proof (cases result)
        case None
        then have "dualboy_session_run session inputs config = Some (Some COMPOSITION_FAILED,
            session\<lparr>pair := Some (address, p4), composite_pixels := Some (buffer, out)\<rparr>)"
          using both compose by (simp add: step)
        then show ?thesis
          using same [OF compose(2), where p = p4 and c = "composite session" and d = "display session"] by simp
      next
        case (Some f)
        then have run: "dualboy_session_run session inputs config = Some (None,
            session\<lparr>pair := Some (address, p4), composite_pixels := Some (buffer, out),
                    composite := Some f, display := config\<rparr>)"
          using both compose by (simp add: step)
        from Some result obtain g where "dualboy_compositor_geometry both config = Some g"
          "composed_image both config g out"
          "f = \<lparr>pixels = Some out, width = gwidth g, height = gheight g, pitch = unat (gwidth g) * 4\<rparr>"
          by auto
        moreover have "frame_of_engine ops inputs p (fst both) (snd both) p4"
        proof -
          have "run_frame ops \<noteq> None" using False by simp
          then obtain run where run: "run_frame ops = Some run" by auto
          from this p3 both(1) set_port_input_delivers [OF p1] set_port_input_delivers [OF p2]
          have ran: "run (deliver_input ops 1 (snd inputs) (deliver_input ops 0 (fst inputs) p)) = (True, p3)" by simp
          have "read_frames ops p3 = Some (Some both, p4)" using frames(1) both(2) by simp
          from read_frames_asked [OF this] obtain video shown0 where "video_frame ops = Some video"
            "video p3 0 = (Some (fst both), shown0)" "video shown0 1 = (Some (snd both), p4)" by (elim exE conjE)
          with run ran show ?thesis unfolding frame_of_engine_def by (intro exI conjI)
        qed
        ultimately have "\<exists>frame0 frame1 p' g out' b. frame_of_engine ops inputs p frame0 frame1 p' \<and>
            Some (address, p4) = Some (address, p') \<and>
            dualboy_compositor_geometry (frame0, frame1) config = Some g \<and>
            composed_image (frame0, frame1) config g out' \<and> Some (buffer, out) = Some (b, out') \<and>
            Some f = Some \<lparr>pixels = Some out', width = gwidth g, height = gheight g, pitch = unat (gwidth g) * 4\<rparr>"
          by (intro exI [of _ "fst both"] exI [of _ "snd both"] exI [of _ p4] exI [of _ g] exI [of _ out] exI [of _ buffer])
            simp
        with run same [OF compose(2), where p = p4 and c = "Some f" and d = config] show ?thesis by simp
      qed
    qed
  qed
qed

definition no_input :: dualboy_machine_input where
  "no_input = \<lparr>buttons = 0, touch_active = False, touch_x = 0, touch_y = 0\<rparr>"

definition side_by_side :: dualboy_compositor_config where
  "side_by_side = \<lparr>mode = DUALBOY_MODE_DUAL, layout = DUALBOY_LAYOUT_SIDE_BY_SIDE, swap_screens = False\<rparr>"

theorem session_run_correct_witness:
  "\<exists>session error session'. engine session = Some demo_engine \<and>
    dualboy_session_run session (no_input, no_input) side_by_side = Some (error, session') \<and> session_running session'"
proof -
  obtain session h where run: "session_running session" "engine session = Some demo_engine"
    "session_owns {0} session (h :: heap)"
    using demo_load by blast
  then obtain address p where "pair session = Some (address, p)"
    by (auto simp: session_running_def)
  from session_run_correct [OF run(1,2) demo_video_contract run(3) this, of "(no_input, no_input)" side_by_side]
  obtain error session' where "dualboy_session_run session (no_input, no_input) side_by_side = Some (error, session')"
    and "session_running session'"
    by (elim exE conjE)
  with run(2) show ?thesis by (intro exI conjI)
qed

end
