(* ===== verification/State.thy ===== *)
theory State
  imports Session
begin

text \<open>
  Savestates, \<open>src/frontend/state.c\<close>: the container format with its header, checksums and three
  payloads, and the transactional restore with snapshot, battery protection and rollback. Buffers
  are byte lists, header fields are written and read at their offsets through checked accesses,
  and the temporary buffers of a restore live on the heap of the session theory, so a leak, a
  double release, an access outside a buffer, a read of memory that no engine wrote and a call
  through a null function pointer are all visible (the last four as \<open>None\<close>).
\<close>

unbundle bit_operations_syntax

section \<open>Encoding\<close>

definition DUALBOY_STATE_HEADER_SIZE :: nat where
  "DUALBOY_STATE_HEADER_SIZE = 112"

definition DUALBOY_STATE_VERSION :: u32 where
  "DUALBOY_STATE_VERSION = 1"

definition DUALBOY_STATE_FLAG_LINK_ENABLED :: u32 where
  "DUALBOY_STATE_FLAG_LINK_ENABLED = 1"

definition state_magic :: bytes where
  "state_magic = [0x44, 0x55, 0x41, 0x4C, 0x42, 0x53, 0x54, 0]"

definition u32_bytes :: "u32 \<Rightarrow> bytes" where
  "u32_bytes v = [ucast v, ucast (drop_bit 8 v), ucast (drop_bit 16 v), ucast (drop_bit 24 v)]"

definition put_u32 :: "bytes \<Rightarrow> nat \<Rightarrow> u32 \<Rightarrow> bytes option" where
  "put_u32 destination off v = blit destination off (u32_bytes v)"

definition u64_bytes :: "u64 \<Rightarrow> bytes" where
  "u64_bytes v = map (\<lambda>i. ucast (drop_bit (i * 8) v)) [0..<8]"

definition put_u64 :: "bytes \<Rightarrow> nat \<Rightarrow> u64 \<Rightarrow> bytes option" where
  "put_u64 destination off v = blit destination off (u64_bytes v)"

definition get_u32 :: "bytes \<Rightarrow> nat \<Rightarrow> u32 option" where
  "get_u32 source off = do {
     b0 \<leftarrow> rd source off;
     b1 \<leftarrow> rd source (off + 1);
     b2 \<leftarrow> rd source (off + 2);
     b3 \<leftarrow> rd source (off + 3);
     Some (ucast b0 OR push_bit 8 (ucast b1) OR push_bit 16 (ucast b2) OR push_bit 24 (ucast b3))
   }"

definition get_u64 :: "bytes \<Rightarrow> nat \<Rightarrow> u64 option" where
  "get_u64 source off =
     fold_opt (\<lambda>i v. do {
         b \<leftarrow> rd source (off + i);
         Some (v OR push_bit (i * 8) (ucast b))
       }) [0..<8] 0"

text \<open>One bit of the CRC: the mask is all ones when the bit shifted out is set.\<close>

definition crc32_bit :: "u32 \<Rightarrow> u32" where
  "crc32_bit crc = (let mask = - (crc AND 1) in drop_bit 1 crc XOR (0xEDB88320 AND mask))"

definition crc32_step :: "u32 \<Rightarrow> u8 \<Rightarrow> u32" where
  "crc32_step crc b = (crc32_bit ^^ 8) (crc XOR ucast b)"

definition crc32_bytes :: "bytes \<Rightarrow> nat \<Rightarrow> nat \<Rightarrow> u32 option" where
  "crc32_bytes data off n = map_option (\<lambda>crc. NOT crc) (fold_range crc32_step data off (off + n) 0xFFFFFFFF)"

definition checked_add :: "nat \<Rightarrow> nat \<Rightarrow> nat option" where
  "checked_add first second = (if first > SIZE_MAX - second then None else Some (first + second))"

section \<open>Serialization\<close>

definition state_ops_valid :: "'p dualboy_session \<Rightarrow> bool" where
  "state_ops_valid session \<longleftrightarrow> loaded session \<and> pair session \<noteq> None \<and>
     (case engine session of
        None \<Rightarrow> False
      | Some ops \<Rightarrow>
        machine_state_size ops \<noteq> None \<and> serialize_machine ops \<noteq> None \<and>
        unserialize_machine ops \<noteq> None \<and> link_state_size ops \<noteq> None \<and>
        serialize_link ops \<noteq> None \<and> unserialize_link ops \<noteq> None \<and>
        fst (machine_state_capacity session) > 0 \<and> snd (machine_state_capacity session) > 0)"

definition dualboy_state_size :: "'p dualboy_session \<Rightarrow> nat" where
  "dualboy_state_size session =
     (if \<not> state_ops_valid session then 0
      else case do {
        total0 \<leftarrow> (if fst (machine_state_capacity session) = 0 then None
                   else checked_add DUALBOY_STATE_HEADER_SIZE (fst (machine_state_capacity session)));
        total1 \<leftarrow> (if snd (machine_state_capacity session) = 0 then None
                   else checked_add total0 (snd (machine_state_capacity session)));
        checked_add total1 (link_state_capacity session)
      } of None \<Rightarrow> 0 | Some state_total \<Rightarrow> state_total)"

definition rom_crc :: "dualboy_owned_rom \<Rightarrow> u32 option" where
  "rom_crc rom = do {
     (_, rom_image) \<leftarrow> rom_data (orom rom);
     crc32_bytes rom_image 0 (rom_size (orom rom))
   }"

definition write_header ::
  "'p dualboy_engine_ops \<Rightarrow> 'p dualboy_session \<Rightarrow> nat \<Rightarrow> nat \<Rightarrow> nat \<Rightarrow> nat \<Rightarrow> bytes \<Rightarrow> bytes option" where
  "write_header ops session used0 used1 link_used total_used bytes = do {
     b1 \<leftarrow> blit bytes 0 state_magic;
     b2 \<leftarrow> put_u32 b1 8 DUALBOY_STATE_VERSION;
     b3 \<leftarrow> put_u32 b2 12 (of_nat DUALBOY_STATE_HEADER_SIZE);
     b4 \<leftarrow> put_u64 b3 16 (of_nat total_used);
     b5 \<leftarrow> put_u32 b4 24 (family_code (family ops));
     b6 \<leftarrow> put_u32 b5 28 (platform_code (rom_platform (orom (fst (roms session)))));
     b7 \<leftarrow> put_u32 b6 32 (platform_code (rom_platform (orom (snd (roms session)))));
     b8 \<leftarrow> put_u32 b7 36 (if link_enabled session then DUALBOY_STATE_FLAG_LINK_ENABLED else 0);
     b9 \<leftarrow> put_u64 b8 40 (of_nat (rom_size (orom (fst (roms session)))));
     b10 \<leftarrow> put_u64 b9 48 (of_nat (rom_size (orom (snd (roms session)))));
     crc0 \<leftarrow> rom_crc (fst (roms session));
     b11 \<leftarrow> put_u32 b10 56 crc0;
     crc1 \<leftarrow> rom_crc (snd (roms session));
     b12 \<leftarrow> put_u32 b11 60 crc1;
     b13 \<leftarrow> put_u64 b12 64 (of_nat used0);
     b14 \<leftarrow> put_u64 b13 72 (of_nat used1);
     b15 \<leftarrow> put_u64 b14 80 (of_nat link_used);
     payload0 \<leftarrow> crc32_bytes b15 DUALBOY_STATE_HEADER_SIZE used0;
     b16 \<leftarrow> put_u32 b15 88 payload0;
     payload1 \<leftarrow> crc32_bytes b16 (DUALBOY_STATE_HEADER_SIZE + used0) used1;
     b17 \<leftarrow> put_u32 b16 92 payload1;
     payload2 \<leftarrow> crc32_bytes b17 (DUALBOY_STATE_HEADER_SIZE + used0 + used1) link_used;
     b18 \<leftarrow> put_u32 b17 96 payload2;
     header \<leftarrow> crc32_bytes b18 0 108;
     put_u32 b18 108 header
   }"

text \<open>The result flag, the buffer and the session; the buffer is \<open>None\<close> for a null pointer.\<close>

definition dualboy_state_serialize ::
  "'p dualboy_session \<Rightarrow> bytes option \<Rightarrow> (bool \<times> bytes option \<times> 'p dualboy_session) option" where
  "dualboy_state_serialize session data =
     (if \<not> state_ops_valid session then Some (False, data, session)
      else case data of
        None \<Rightarrow> Some (False, data, session)
      | Some buffer \<Rightarrow>
        if length buffer < dualboy_state_size session then Some (False, data, session)
        else do {
          ops \<leftarrow> engine session;
          (address, p0) \<leftarrow> pair session;
          serialize \<leftarrow> serialize_machine ops;
          serialize_l \<leftarrow> serialize_link ops;
          let cleared = replicate (length buffer) 0;
              (cap0, cap1) = machine_state_capacity session;
              with_pair = (\<lambda>p. session\<lparr>pair := Some (address, p)\<rparr>);
              ((ok0, written0, used0), p1) = serialize p0 0 cap0
          in do {
            bytes0 \<leftarrow> blit cleared DUALBOY_STATE_HEADER_SIZE written0;
            if \<not> ok0 \<or> used0 > cap0 then Some (False, Some bytes0, with_pair p1)
            else let offset1 = DUALBOY_STATE_HEADER_SIZE + used0;
                     ((ok1, written1, used1), p2) = serialize p1 1 cap1
            in do {
              bytes1 \<leftarrow> blit bytes0 offset1 written1;
              if \<not> ok1 \<or> used1 > cap1 then Some (False, Some bytes1, with_pair p2)
              else let offset2 = offset1 + used1;
                       (ok2, written2, link_used) = serialize_l p2 (link_state_capacity session)
              in do {
                bytes2 \<leftarrow> blit bytes1 offset2 written2;
                if \<not> ok2 \<or> link_used > link_state_capacity session
                then Some (False, Some bytes2, with_pair p2)
                else case checked_add offset2 link_used of
                       None \<Rightarrow> Some (False, Some bytes2, with_pair p2)
                     | Some total_used \<Rightarrow> do {
                         result \<leftarrow> write_header ops session used0 used1 link_used total_used bytes2;
                         Some (True, Some result, with_pair p2)
                       }
              }
            }
          }
        })"

section \<open>Validation\<close>

definition lengths_valid :: "u64 \<Rightarrow> u64 \<Rightarrow> u64 \<Rightarrow> nat \<Rightarrow> nat option" where
  "lengths_valid first second link input_size =
     (if unat first > SIZE_MAX \<or> unat second > SIZE_MAX \<or> unat link > SIZE_MAX then None
      else do {
        total0 \<leftarrow> checked_add DUALBOY_STATE_HEADER_SIZE (unat first);
        total1 \<leftarrow> checked_add total0 (unat second);
        total2 \<leftarrow> checked_add total1 (unat link);
        if total2 > input_size then None else Some total2
      })"

text \<open>
  Every check of the restore before the session is touched: \<open>Some None\<close> is a rejection, otherwise
  the saved link flag and the three payload lengths.
\<close>

definition check_state ::
  "'p dualboy_session \<Rightarrow> bytes \<Rightarrow> (bool \<times> nat \<times> nat \<times> nat) option option" where
  "check_state session bytes =
     (if \<not> state_ops_valid session \<or> length bytes < DUALBOY_STATE_HEADER_SIZE then Some None
      else do {
        ops \<leftarrow> engine session;
        magic \<leftarrow> memcmp_eq bytes 0 state_magic;
        version \<leftarrow> get_u32 bytes 8;
        header_size \<leftarrow> get_u32 bytes 12;
        header_crc \<leftarrow> get_u32 bytes 108;
        header_actual \<leftarrow> crc32_bytes bytes 0 108;
        if \<not> magic \<or> version \<noteq> DUALBOY_STATE_VERSION \<or>
           header_size \<noteq> of_nat DUALBOY_STATE_HEADER_SIZE \<or> header_crc \<noteq> header_actual
        then Some None
        else do {
          engine_code \<leftarrow> get_u32 bytes 24;
          platform0 \<leftarrow> get_u32 bytes 28;
          platform1 \<leftarrow> get_u32 bytes 32;
          if engine_code \<noteq> family_code (family ops) \<or>
             platform0 \<noteq> platform_code (rom_platform (orom (fst (roms session)))) \<or>
             platform1 \<noteq> platform_code (rom_platform (orom (snd (roms session))))
          then Some None
          else do {
            size0 \<leftarrow> get_u64 bytes 40;
            size1 \<leftarrow> get_u64 bytes 48;
            crc0 \<leftarrow> get_u32 bytes 56;
            crc1 \<leftarrow> get_u32 bytes 60;
            rom0 \<leftarrow> rom_crc (fst (roms session));
            rom1 \<leftarrow> rom_crc (snd (roms session));
            if size0 \<noteq> of_nat (rom_size (orom (fst (roms session)))) \<or>
               size1 \<noteq> of_nat (rom_size (orom (snd (roms session)))) \<or>
               crc0 \<noteq> rom0 \<or> crc1 \<noteq> rom1
            then Some None
            else do {
              flags \<leftarrow> get_u32 bytes 36;
              if flags AND NOT DUALBOY_STATE_FLAG_LINK_ENABLED \<noteq> 0 then Some None
              else do {
                length0 \<leftarrow> get_u64 bytes 64;
                length1 \<leftarrow> get_u64 bytes 72;
                length2 \<leftarrow> get_u64 bytes 80;
                stored_total \<leftarrow> get_u64 bytes 16;
                case lengths_valid length0 length1 length2 (length bytes) of
                  None \<Rightarrow> Some None
                | Some state_total \<Rightarrow>
                  let n0 = unat length0; n1 = unat length1; n2 = unat length2
                  in if stored_total \<noteq> of_nat state_total then Some None
                     else if n0 = 0 \<or> n0 > fst (machine_state_capacity session) then Some None
                     else if n1 = 0 \<or> n1 > snd (machine_state_capacity session) then Some None
                     else if n2 > link_state_capacity session then Some None
                     else do {
                       stored0 \<leftarrow> get_u32 bytes 88;
                       stored1 \<leftarrow> get_u32 bytes 92;
                       stored2 \<leftarrow> get_u32 bytes 96;
                       actual0 \<leftarrow> crc32_bytes bytes DUALBOY_STATE_HEADER_SIZE n0;
                       actual1 \<leftarrow> crc32_bytes bytes (DUALBOY_STATE_HEADER_SIZE + n0) n1;
                       actual2 \<leftarrow> crc32_bytes bytes (DUALBOY_STATE_HEADER_SIZE + n0 + n1) n2;
                       if stored0 \<noteq> actual0 \<or> stored1 \<noteq> actual1 \<or> stored2 \<noteq> actual2 then Some None
                       else Some (Some (flags AND DUALBOY_STATE_FLAG_LINK_ENABLED \<noteq> 0, n0, n1, n2))
                     }
              }
            }
          }
        }
      })"

section \<open>Restore\<close>

datatype dualboy_state_restore_result =
    DUALBOY_STATE_RESTORE_OK
  | DUALBOY_STATE_RESTORE_REJECTED
  | DUALBOY_STATE_RESTORE_FATAL

text \<open>A snapshot buffer: its address and the bytes the engine reported as used.\<close>

type_synonym snapshot_part = "nat option \<times> bytes"

record state_parts =
  part_machine0 :: snapshot_part
  part_machine1 :: snapshot_part
  part_link :: snapshot_part

definition free_state_parts :: "state_parts \<Rightarrow> heap \<Rightarrow> heap option" where
  "free_state_parts parts h = do {
     h1 \<leftarrow> free (fst (part_machine0 parts)) h;
     h2 \<leftarrow> free (fst (part_machine1 parts)) h1;
     free (fst (part_link parts)) h2
   }"

definition zero_parts :: state_parts where
  "zero_parts = \<lparr>part_machine0 = (None, []), part_machine1 = (None, []), part_link = (None, [])\<rparr>"

text \<open>
  The bytes a serializer wrote and the number it reported, in a buffer of the given capacity:
  writing past the capacity or reporting bytes that were never written has no result.
\<close>

definition serialized :: "nat \<Rightarrow> bool \<times> bytes \<times> nat \<Rightarrow> (bool \<times> bytes) option" where
  "serialized capacity answer =
     (case answer of (ok, written, used) \<Rightarrow>
        if length written > capacity then None
        else if \<not> ok \<or> used > capacity then Some (False, [])
        else do { content \<leftarrow> slice written 0 used; Some (True, content) })"

definition snapshot_machine ::
  "'p dualboy_engine_ops \<Rightarrow> nat \<Rightarrow> nat \<Rightarrow> 'p \<Rightarrow> heap \<Rightarrow> ((bool \<times> snapshot_part) \<times> 'p \<times> heap) option" where
  "snapshot_machine ops capacity machine p h =
     (if capacity = 0 then Some ((False, None, []), p, h)
      else case malloc h of
             (None, h1) \<Rightarrow> Some ((False, None, []), p, h1)
           | (Some a, h1) \<Rightarrow> do {
               serialize \<leftarrow> serialize_machine ops;
               let (answer, p') = serialize p machine capacity
               in do {
                 (ok, content) \<leftarrow> serialized capacity answer;
                 Some ((ok, Some a, content), p', h1)
               }
             })"

definition snapshot_link ::
  "'p dualboy_engine_ops \<Rightarrow> nat \<Rightarrow> 'p \<Rightarrow> heap \<Rightarrow> ((bool \<times> snapshot_part) \<times> heap) option" where
  "snapshot_link ops capacity p h = do {
     serialize \<leftarrow> serialize_link ops;
     let (buffer, h1) = (if capacity > 0 then malloc h else (None, h))
     in if capacity > 0 \<and> buffer = None then Some ((False, None, []), h1)
        else do {
          (ok, content) \<leftarrow> serialized capacity (serialize p capacity);
          Some ((ok, buffer, content), h1)
        }
   }"

definition snapshot_state ::
  "'p dualboy_session \<Rightarrow> 'p dualboy_engine_ops \<Rightarrow> 'p \<Rightarrow> heap \<Rightarrow> (state_parts option \<times> 'p \<times> heap) option" where
  "snapshot_state session ops p h = do {
     ((ok0, part0), p1, h1) \<leftarrow> snapshot_machine ops (fst (machine_state_capacity session)) 0 p h;
     let parts1 = zero_parts\<lparr>part_machine0 := part0\<rparr>
     in if \<not> ok0 then do { h' \<leftarrow> free_state_parts parts1 h1; Some (None, p1, h') }
        else do {
          ((ok1, part1), p2, h2) \<leftarrow> snapshot_machine ops (snd (machine_state_capacity session)) 1 p1 h1;
          let parts2 = parts1\<lparr>part_machine1 := part1\<rparr>
          in if \<not> ok1 then do { h' \<leftarrow> free_state_parts parts2 h2; Some (None, p2, h') }
             else do {
               ((ok2, part2), h3) \<leftarrow> snapshot_link ops (link_state_capacity session) p2 h2;
               let parts3 = parts2\<lparr>part_link := part2\<rparr>
               in if \<not> ok2 then do { h' \<leftarrow> free_state_parts parts3 h3; Some (None, p2, h') }
                  else Some (Some parts3, p2, h3)
             }
        }
   }"

text \<open>A protected region: machine, kind, the address of the copy and the copied bytes.\<close>

type_synonym battery_copy = "nat \<times> dualboy_memory_kind \<times> nat \<times> bytes"

definition battery_regions :: "(nat \<times> dualboy_memory_kind) list" where
  "battery_regions = [(0, DUALBOY_MEMORY_SAVE_RAM), (0, DUALBOY_MEMORY_RTC),
                      (1, DUALBOY_MEMORY_SAVE_RAM), (1, DUALBOY_MEMORY_RTC)]"

fun copy_regions ::
  "('p \<Rightarrow> nat \<Rightarrow> dualboy_memory_kind \<Rightarrow> (bool \<times> bytes) option) \<Rightarrow> 'p \<Rightarrow>
   (nat \<times> dualboy_memory_kind) list \<Rightarrow> battery_copy list \<Rightarrow> heap \<Rightarrow> bool \<times> battery_copy list \<times> heap" where
  "copy_regions info p [] copies h = (True, copies, h)"
| "copy_regions info p ((machine, kind) # regions) copies h =
     (case info p machine kind of
        None \<Rightarrow> copy_regions info p regions copies h
      | Some (present, data) \<Rightarrow>
        if data = [] then copy_regions info p regions copies h
        else if \<not> present then (False, copies, h)
        else case malloc h of
               (None, h') \<Rightarrow> (False, copies, h')
             | (Some a, h') \<Rightarrow> copy_regions info p regions (copies @ [(machine, kind, a, data)]) h')"

definition copy_battery ::
  "'p dualboy_engine_ops \<Rightarrow> 'p \<Rightarrow> heap \<Rightarrow> bool \<times> battery_copy list \<times> heap" where
  "copy_battery ops p h =
     (case memory_info ops of
        None \<Rightarrow> (True, [], h)
      | Some info \<Rightarrow> copy_regions info p battery_regions [] h)"

fun restore_and_free_battery ::
  "'p dualboy_engine_ops \<Rightarrow> battery_copy list \<Rightarrow> 'p \<Rightarrow> heap \<Rightarrow> ('p \<times> heap) option" where
  "restore_and_free_battery ops [] p h = Some (p, h)"
| "restore_and_free_battery ops ((machine, kind, a, data) # copies) p h = do {
     h' \<leftarrow> free (Some a) h;
     restore_and_free_battery ops copies (memory_store ops p machine kind data) h'
   }"

definition rollback_state ::
  "'p dualboy_engine_ops \<Rightarrow> state_parts \<Rightarrow> bool \<Rightarrow> 'p \<Rightarrow> (bool \<times> 'p) option" where
  "rollback_state ops snapshot link p = do {
     set_l \<leftarrow> set_link ops;
     restore \<leftarrow> unserialize_machine ops;
     restore_l \<leftarrow> unserialize_link ops;
     let (ok_link, p1) = set_l p link;
         (ok0, p2) = restore p1 0 (snd (part_machine0 snapshot));
         (ok1, p3) = restore p2 1 (snd (part_machine1 snapshot));
         (ok2, p4) = restore_l p3 (snd (part_link snapshot))
     in Some (ok_link \<and> ok0 \<and> ok1 \<and> ok2, p4)
   }"

text \<open>Applying the payloads, up to the first failure.\<close>

definition apply_state ::
  "'p dualboy_engine_ops \<Rightarrow> bytes \<Rightarrow> bool \<Rightarrow> nat \<Rightarrow> nat \<Rightarrow> nat \<Rightarrow> 'p \<Rightarrow> (bool \<times> 'p) option" where
  "apply_state ops bytes saved_link n0 n1 n2 p = do {
     set_l \<leftarrow> set_link ops;
     restore \<leftarrow> unserialize_machine ops;
     restore_l \<leftarrow> unserialize_link ops;
     payload0 \<leftarrow> slice bytes DUALBOY_STATE_HEADER_SIZE n0;
     payload1 \<leftarrow> slice bytes (DUALBOY_STATE_HEADER_SIZE + n0) n1;
     payload2 \<leftarrow> slice bytes (DUALBOY_STATE_HEADER_SIZE + n0 + n1) n2;
     let (ok, p1) = set_l p saved_link
     in if \<not> ok then Some (False, p1)
        else let (ok0, p2) = restore p1 0 payload0
        in if \<not> ok0 then Some (False, p2)
        else let (ok1, p3) = restore p2 1 payload1
        in if \<not> ok1 then Some (False, p3)
        else let (ok2, p4) = restore_l p3 payload2
        in Some (ok2, p4)
   }"

definition dualboy_state_unserialize_ex ::
  "'p dualboy_session \<Rightarrow> bytes option \<Rightarrow> heap
   \<Rightarrow> (dualboy_state_restore_result \<times> 'p dualboy_session \<times> heap) option" where
  "dualboy_state_unserialize_ex session data h =
     (case data of
        None \<Rightarrow> Some (DUALBOY_STATE_RESTORE_REJECTED, session, h)
      | Some bytes \<Rightarrow> do {
          checked \<leftarrow> check_state session bytes;
          case checked of
            None \<Rightarrow> Some (DUALBOY_STATE_RESTORE_REJECTED, session, h)
          | Some (saved_link, n0, n1, n2) \<Rightarrow> do {
              ops \<leftarrow> engine session;
              (address, p0) \<leftarrow> pair session;
              (snapshot, p1, h1) \<leftarrow> snapshot_state session ops p0 h;
              case snapshot of
                None \<Rightarrow> Some (DUALBOY_STATE_RESTORE_REJECTED, session\<lparr>pair := Some (address, p1)\<rparr>, h1)
              | Some parts \<Rightarrow>
                let (protected, battery, h2) = copy_battery ops p1 h1
                in if \<not> protected
                   then do {
                     (p2, h3) \<leftarrow> restore_and_free_battery ops battery p1 h2;
                     h4 \<leftarrow> free_state_parts parts h3;
                     Some (DUALBOY_STATE_RESTORE_REJECTED, session\<lparr>pair := Some (address, p2)\<rparr>, h4)
                   }
                   else do {
                     (applied, p2) \<leftarrow> apply_state ops bytes saved_link n0 n1 n2 p1;
                     (rollback_ok, p3) \<leftarrow>
                       (if applied then Some (True, p2)
                        else rollback_state ops parts (link_enabled session) p2);
                     (p4, h3) \<leftarrow> restore_and_free_battery ops battery p3 h2;
                     h4 \<leftarrow> free_state_parts parts h3;
                     Some (if \<not> applied \<and> \<not> rollback_ok then DUALBOY_STATE_RESTORE_FATAL
                           else if applied then DUALBOY_STATE_RESTORE_OK
                           else DUALBOY_STATE_RESTORE_REJECTED,
                           session\<lparr>pair := Some (address, p4),
                                   link_enabled := (if applied then saved_link else link_enabled session)\<rparr>,
                           h4)
                   }
            }
        })"

definition dualboy_state_unserialize ::
  "'p dualboy_session \<Rightarrow> bytes option \<Rightarrow> heap \<Rightarrow> (bool \<times> 'p dualboy_session \<times> heap) option" where
  "dualboy_state_unserialize session data h = do {
     (result, session', h') \<leftarrow> dualboy_state_unserialize_ex session data h;
     Some (result = DUALBOY_STATE_RESTORE_OK, session', h')
   }"

section \<open>Fields of a buffer\<close>

lemma slice_blit_same: "blit xs off src = Some ys \<Longrightarrow> slice ys off (length src) = Some src"
  by (auto simp: blit_def slice_def split: if_splits)

lemma slice_blit_disjoint:
  assumes "blit xs off src = Some ys" and "a + n \<le> off \<or> off + length src \<le> a"
  shows "slice ys a n = slice xs a n"
proof -
  have len: "length ys = length xs" by (rule blit_length [OF assms(1)])
  show ?thesis
  proof (cases "a + n \<le> length xs")
    case True
    have "take n (drop a ys) = take n (drop a xs)"
    proof (rule nth_equalityI)
      fix i
      assume "i < length (take n (drop a ys))"
      then have i: "i < n" "a + i < length xs" using len by auto
      then have "\<not> (off \<le> a + i \<and> a + i < off + length src)" using assms(2) by auto
      with blit_nth [OF assms(1) i(2)] have "ys ! (a + i) = xs ! (a + i)" by simp
      then show "take n (drop a ys) ! i = take n (drop a xs) ! i"
        using i len by simp
    qed (simp add: len)
    then show ?thesis by (simp add: slice_def len)
  next
    case False
    then show ?thesis by (simp add: slice_def len)
  qed
qed

text \<open>
  A field codec reads back what was written at an offset, and every stored field is the encoding
  of the value read from it.
\<close>

locale field_codec =
  fixes encode :: "'w \<Rightarrow> bytes" and decode :: "bytes \<Rightarrow> nat \<Rightarrow> 'w option" and field_width :: nat
  assumes encode_length: "length (encode v) = field_width"
    and decode_slice: "slice bs off field_width = Some (encode v) \<Longrightarrow> decode bs off = Some v"
    and decode_total: "off + field_width \<le> length bs \<Longrightarrow>
      \<exists>v. decode bs off = Some v \<and> slice bs off field_width = Some (encode v)"
begin

lemma decode_blit: "blit bs off (encode v) = Some bs' \<Longrightarrow> decode bs' off = Some v"
  using slice_blit_same [of bs off "encode v" bs'] by (intro decode_slice) (simp add: encode_length)

lemma decode_cong:
  assumes "slice bs off field_width = slice bs' off field_width" and "off + field_width \<le> length bs"
  shows "decode bs off = decode bs' off"
proof -
  from decode_total [OF assms(2)] obtain v where
    "decode bs off = Some v" "slice bs off field_width = Some (encode v)" by blast
  then show ?thesis using decode_slice [of bs' off v] assms(1) by simp
qed

lemma encode_inj: "encode v = encode w \<Longrightarrow> v = w"
  using decode_slice [of "encode v" 0 v] decode_slice [of "encode v" 0 w]
  by (simp add: slice_def encode_length)

lemma decode_kept:
  assumes "i < off \<or> off + field_width \<le> i" and "off + field_width \<le> length bs"
  shows "decode (bs[i := v]) off = decode bs off"
  using assms by (intro decode_cong) (simp_all add: slice_def take_drop_update_outside)

lemma decode_changed:
  assumes "off \<le> i" and "i < off + field_width" and "off + field_width \<le> length bs" and "v \<noteq> bs ! i"
  shows "decode (bs[i := v]) off \<noteq> decode bs off"
proof
  assume eq: "decode (bs[i := v]) off = decode bs off"
  from decode_total [OF assms(3)] decode_total [of off "bs[i := v]"] assms(3) obtain x where
    "slice bs off field_width = Some (encode x)" "slice (bs[i := v]) off field_width = Some (encode x)"
    using eq by auto
  then have "take field_width (drop off (bs[i := v])) = take field_width (drop off bs)"
    using assms(3) by (simp add: slice_def)
  then have "take field_width (drop off (bs[i := v])) ! (i - off) = take field_width (drop off bs) ! (i - off)"
    by simp
  with assms show False by simp
qed

end

lemma u32_bytes_join:
  "u32_bytes (ucast b0 OR push_bit 8 (ucast b1) OR push_bit 16 (ucast b2) OR push_bit 24 (ucast b3)) =
    [b0, b1, b2, b3]" for b0 b1 b2 b3 :: u8
  by (auto simp: u32_bytes_def bit_eq_iff bit_simps dest: bit_imp_le_length)

lemma get_u32_slice:
  "off + 4 \<le> length bs \<Longrightarrow> get_u32 bs off =
     Some (ucast (bs ! off) OR push_bit 8 (ucast (bs ! (off + 1))) OR push_bit 16 (ucast (bs ! (off + 2))) OR
           push_bit 24 (ucast (bs ! (off + 3))))"
  by (simp add: get_u32_def mem_simps)

lemma take4: "off + 4 \<le> length bs \<Longrightarrow>
    take 4 (drop off bs) = [bs ! off, bs ! (off + 1), bs ! (off + 2), bs ! (off + 3)]"
  by (rule nth_equalityI) (auto simp: less_Suc_eq numeral_eq_Suc)

interpretation u32: field_codec u32_bytes get_u32 4
proof unfold_locales
  show len: "length (u32_bytes v) = 4" for v by (simp add: u32_bytes_def)
  show total: "\<exists>v. get_u32 bs off = Some v \<and> slice bs off 4 = Some (u32_bytes v)"
    if "off + 4 \<le> length bs" for bs off
    using that by (simp add: get_u32_slice slice_def take4 u32_bytes_join)
  show "get_u32 bs off = Some v" if "slice bs off 4 = Some (u32_bytes v)" for bs off v
  proof -
    have off: "off + 4 \<le> length bs" and "take 4 (drop off bs) = u32_bytes v"
      using that by (auto simp: slice_def split: if_splits)
    then have "[bs ! off, bs ! (off + 1), bs ! (off + 2), bs ! (off + 3)] = u32_bytes v"
      by (simp only: take4)
    then show ?thesis
      using get_u32_slice [OF off] le32_split [of v] by (simp add: u32_bytes_def)
  qed
qed

definition join_u64 :: "bytes \<Rightarrow> u64" where
  "join_u64 bs = (ucast (bs ! 0) OR push_bit 8 (ucast (bs ! 1)) OR push_bit 16 (ucast (bs ! 2)) OR
     push_bit 24 (ucast (bs ! 3)) OR push_bit 32 (ucast (bs ! 4)) OR push_bit 40 (ucast (bs ! 5)) OR
     push_bit 48 (ucast (bs ! 6)) OR push_bit 56 (ucast (bs ! 7)))"

lemma get_u64_slice:
  "off + 8 \<le> length bs \<Longrightarrow> get_u64 bs off = Some (join_u64 (take 8 (drop off bs)))"
  by (simp add: get_u64_def join_u64_def mem_simps upt_rec or.assoc add.commute)
    (simp add: eval_nat_numeral)

lemma u64_bytes_unfold:
  "u64_bytes v = [ucast v, ucast (drop_bit 8 v), ucast (drop_bit 16 v), ucast (drop_bit 24 v),
     ucast (drop_bit 32 v), ucast (drop_bit 40 v), ucast (drop_bit 48 v), ucast (drop_bit 56 v)]"
  by (simp add: u64_bytes_def upt_rec)

lemma bit_join_u64:
  assumes "m < 64"
  shows "bit (join_u64 bs) m \<longleftrightarrow> bit (bs ! 0) m \<or> 8 \<le> m \<and> bit (bs ! 1) (m - 8) \<or>
    16 \<le> m \<and> bit (bs ! 2) (m - 16) \<or> 24 \<le> m \<and> bit (bs ! 3) (m - 24) \<or>
    32 \<le> m \<and> bit (bs ! 4) (m - 32) \<or> 40 \<le> m \<and> bit (bs ! 5) (m - 40) \<or>
    48 \<le> m \<and> bit (bs ! 6) (m - 48) \<or> 56 \<le> m \<and> bit (bs ! 7) (m - 56)"
  using assms by (simp add: join_u64_def bit_simps less_imp_diff_less)

lemma join_u64_bytes: "join_u64 (u64_bytes v) = v"
proof (rule bit_word_eqI)
  fix n
  assume "n < LENGTH(64)"
  then have n: "n < 64" by simp
  then consider "n < 8" | "8 \<le> n" "n < 16" | "16 \<le> n" "n < 24" | "24 \<le> n" "n < 32"
    | "32 \<le> n" "n < 40" | "40 \<le> n" "n < 48" | "48 \<le> n" "n < 56" | "56 \<le> n"
    by linarith
  then show "bit (join_u64 (u64_bytes v)) n = bit v n"
    unfolding bit_join_u64 [OF n] u64_bytes_unfold
    using n by cases (simp_all add: bit_simps less_diff_conv2)
qed

lemma u8_high: "8 \<le> m \<Longrightarrow> \<not> bit (b :: u8) m"
  by (auto dest: bit_imp_le_length)

lemma u64_bytes_join:
  assumes "length bs = 8"
  shows "u64_bytes (join_u64 bs) = bs"
proof -
  have byte: "(ucast (drop_bit k (join_u64 bs)) :: u8) = b"
    if "\<And>n. n < 8 \<Longrightarrow> bit (join_u64 bs) (k + n) = bit b n" for k b
    using that by (intro bit_word_eqI) (simp add: bit_simps)
  have "ucast (drop_bit 0 (join_u64 bs)) = bs ! 0" "ucast (drop_bit 8 (join_u64 bs)) = bs ! 1"
    "ucast (drop_bit 16 (join_u64 bs)) = bs ! 2" "ucast (drop_bit 24 (join_u64 bs)) = bs ! 3"
    "ucast (drop_bit 32 (join_u64 bs)) = bs ! 4" "ucast (drop_bit 40 (join_u64 bs)) = bs ! 5"
    "ucast (drop_bit 48 (join_u64 bs)) = bs ! 6" "ucast (drop_bit 56 (join_u64 bs)) = bs ! 7"
    by (rule byte, simp add: bit_join_u64 u8_high)+
  moreover have "bs = [bs ! 0, bs ! 1, bs ! 2, bs ! 3, bs ! 4, bs ! 5, bs ! 6, bs ! 7]"
    using assms by (auto simp: eval_nat_numeral length_Suc_conv)
  ultimately show ?thesis unfolding u64_bytes_unfold by (simp del: One_nat_def)
qed

interpretation u64: field_codec u64_bytes get_u64 8
proof unfold_locales
  show "length (u64_bytes v) = 8" for v by (simp add: u64_bytes_def)
  show "\<exists>v. get_u64 bs off = Some v \<and> slice bs off 8 = Some (u64_bytes v)"
    if "off + 8 \<le> length bs" for bs off
    using that by (simp add: get_u64_slice slice_def u64_bytes_join)
  show "get_u64 bs off = Some v" if "slice bs off 8 = Some (u64_bytes v)" for bs off v
    using that by (auto simp: slice_def get_u64_slice join_u64_bytes split: if_splits)
qed

section \<open>The checksum\<close>

lemma crc32_bit_crc: "crc32_bit = crc_bit 0xEDB88320"
proof (rule ext)
  fix c :: u32
  have "c AND 1 = 0 \<or> c AND 1 = 1" by (simp add: and_one_eq mod_2_eq_odd)
  then show "crc32_bit c = crc_bit 0xEDB88320 c"
    by (auto simp: crc32_bit_def crc_bit_def)
qed

lemma crc32_step_crc: "crc32_step = crc_byte 0xEDB88320"
  by (intro ext) (simp add: crc32_step_def crc_byte_def crc32_bit_crc)

interpretation crc32: byte_digest crc32_step
proof unfold_locales
  have top: "bit (0xEDB88320 :: u32) (LENGTH(32) - 1)" by simp
  show "c = c'" if "crc32_step c b = crc32_step c' b" for c c' b
    using that unfolding crc32_step_crc by (rule crc_byte_inj_state [OF top])
  show "b = b'" if "crc32_step c b = crc32_step c b'" for c b b'
    using that unfolding crc32_step_crc by (rule crc_byte_inj_byte [OF top, rotated]) simp
qed

definition crc32_of :: "bytes \<Rightarrow> u32" where
  "crc32_of bs = NOT (foldl crc32_step 0xFFFFFFFF bs)"

lemma crc32_bytes_inside:
  "off + n \<le> length data \<Longrightarrow> crc32_bytes data off n = Some (crc32_of (take n (drop off data)))"
  by (simp add: crc32_bytes_def crc32_of_def mem_simps)

lemma crc32_of_changed: "i < length bs \<Longrightarrow> v \<noteq> bs ! i \<Longrightarrow> crc32_of (bs[i := v]) \<noteq> crc32_of bs"
  using crc32.single_byte_detected [of i bs v "0xFFFFFFFF"] by (auto simp: crc32_of_def)

lemma crc32_bytes_cong:
  assumes "slice bs a n = slice bs' a n" and "a + n \<le> length bs"
  shows "crc32_bytes bs a n = crc32_bytes bs' a n"
proof -
  have "a + n \<le> length bs'" and "take n (drop a bs) = take n (drop a bs')"
    using assms by (auto simp: slice_def split: if_splits)
  with assms(2) show ?thesis by (simp add: crc32_bytes_inside)
qed

section \<open>The header\<close>

text \<open>A buffer that holds a complete state of the session with the given payload lengths.\<close>

definition state_image :: "'p dualboy_engine_ops \<Rightarrow> 'p dualboy_session \<Rightarrow> nat \<Rightarrow> nat \<Rightarrow> nat \<Rightarrow> bytes \<Rightarrow> bool" where
  "state_image ops session used0 used1 link_used bs \<longleftrightarrow>
     112 + used0 + used1 + link_used \<le> length bs \<and>
     slice bs 0 8 = Some state_magic \<and> get_u32 bs 8 = Some 1 \<and> get_u32 bs 12 = Some 112 \<and>
     get_u64 bs 16 = Some (of_nat (112 + used0 + used1 + link_used)) \<and>
     get_u32 bs 24 = Some (family_code (family ops)) \<and>
     get_u32 bs 28 = Some (platform_code (rom_platform (orom (fst (roms session))))) \<and>
     get_u32 bs 32 = Some (platform_code (rom_platform (orom (snd (roms session))))) \<and>
     get_u32 bs 36 = Some (if link_enabled session then 1 else 0) \<and>
     get_u64 bs 40 = Some (of_nat (rom_size (orom (fst (roms session))))) \<and>
     get_u64 bs 48 = Some (of_nat (rom_size (orom (snd (roms session))))) \<and>
     rom_crc (fst (roms session)) \<noteq> None \<and> get_u32 bs 56 = rom_crc (fst (roms session)) \<and>
     rom_crc (snd (roms session)) \<noteq> None \<and> get_u32 bs 60 = rom_crc (snd (roms session)) \<and>
     get_u64 bs 64 = Some (of_nat used0) \<and> get_u64 bs 72 = Some (of_nat used1) \<and>
     get_u64 bs 80 = Some (of_nat link_used) \<and>
     get_u32 bs 88 = crc32_bytes bs 112 used0 \<and> get_u32 bs 92 = crc32_bytes bs (112 + used0) used1 \<and>
     get_u32 bs 96 = crc32_bytes bs (112 + used0 + used1) link_used \<and>
     get_u32 bs 108 = crc32_bytes bs 0 108"

lemma write_header_image:
  assumes "write_header ops session used0 used1 link_used (112 + used0 + used1 + link_used) bytes = Some bs"
    and "112 + used0 + used1 + link_used \<le> length bytes"
  shows "state_image ops session used0 used1 link_used bs"
    and "length bs = length bytes" and "\<And>a n. 112 \<le> a \<Longrightarrow> slice bs a n = slice bytes a n"
proof -
  from assms(1) obtain b1 b2 b3 b4 b5 b6 b7 b8 b9 b10 b11 b12 b13 b14 b15 b16 b17 b18
      crc0 crc1 payload0 payload1 payload2 hcrc where
    c: "blit bytes 0 state_magic = Some b1" "blit b1 8 (u32_bytes 1) = Some b2"
      "blit b2 12 (u32_bytes 112) = Some b3"
      "blit b3 16 (u64_bytes (of_nat (112 + used0 + used1 + link_used))) = Some b4"
      "blit b4 24 (u32_bytes (family_code (family ops))) = Some b5"
      "blit b5 28 (u32_bytes (platform_code (rom_platform (orom (fst (roms session)))))) = Some b6"
      "blit b6 32 (u32_bytes (platform_code (rom_platform (orom (snd (roms session)))))) = Some b7"
      "blit b7 36 (u32_bytes (if link_enabled session then 1 else 0)) = Some b8"
      "blit b8 40 (u64_bytes (of_nat (rom_size (orom (fst (roms session)))))) = Some b9"
      "blit b9 48 (u64_bytes (of_nat (rom_size (orom (snd (roms session)))))) = Some b10"
      "blit b10 56 (u32_bytes crc0) = Some b11" "blit b11 60 (u32_bytes crc1) = Some b12"
      "blit b12 64 (u64_bytes (of_nat used0)) = Some b13" "blit b13 72 (u64_bytes (of_nat used1)) = Some b14"
      "blit b14 80 (u64_bytes (of_nat link_used)) = Some b15" "blit b15 88 (u32_bytes payload0) = Some b16"
      "blit b16 92 (u32_bytes payload1) = Some b17" "blit b17 96 (u32_bytes payload2) = Some b18"
      "blit b18 108 (u32_bytes hcrc) = Some bs"
    and roms: "rom_crc (fst (roms session)) = Some crc0" "rom_crc (snd (roms session)) = Some crc1"
    and crcs: "crc32_bytes b15 112 used0 = Some payload0" "crc32_bytes b16 (112 + used0) used1 = Some payload1"
      "crc32_bytes b17 (112 + used0 + used1) link_used = Some payload2" "crc32_bytes b18 0 108 = Some hcrc"
    unfolding write_header_def put_u32_def put_u64_def DUALBOY_STATE_VERSION_def
      DUALBOY_STATE_HEADER_SIZE_def DUALBOY_STATE_FLAG_LINK_ENABLED_def
    by (simp split: Option.bind_splits)
  note len = c [THEN blit_length]
  note same = c [THEN slice_blit_same, unfolded u32.encode_length u64.encode_length]
  have magic: "length state_magic = 8" by (simp add: state_magic_def)
  note skip = c [THEN slice_blit_disjoint, unfolded u32.encode_length u64.encode_length magic]
  show length: "length bs = length bytes" by (simp add: len)
  show payload: "slice bs a n = slice bytes a n" if "112 \<le> a" for a n
    using that by (simp add: skip)
  have p: "slice bs 112 used0 = slice b15 112 used0" "slice bs (112 + used0) used1 = slice b16 (112 + used0) used1"
    "slice bs (112 + used0 + used1) link_used = slice b17 (112 + used0 + used1) link_used"
    "slice bs 0 108 = slice b18 0 108"
    by (simp_all add: skip)
  have "crc32_bytes bs 112 used0 = Some payload0" "crc32_bytes bs (112 + used0) used1 = Some payload1"
    "crc32_bytes bs (112 + used0 + used1) link_used = Some payload2" "crc32_bytes bs 0 108 = Some hcrc"
    using crcs p [THEN crc32_bytes_cong] assms(2) by (simp_all add: length)
  then show "state_image ops session used0 used1 link_used bs"
    unfolding state_image_def
    using assms(2) same magic roms
    by (simp add: skip length u32.decode_slice u64.decode_slice)
qed

lemma unat_of_nat_size: "n \<le> SIZE_MAX \<Longrightarrow> unat (of_nat n :: u64) = n"
  by (simp add: unat_of_nat take_bit_nat_eq_self SIZE_MAX_def)

lemma unat_size_max: "unat (w :: u64) \<le> SIZE_MAX"
proof -
  have "unat w < 2 ^ 64" using unsigned_less [of w] by simp
  then show ?thesis by (simp add: SIZE_MAX_def)
qed

text \<open>A complete image of a session passes every check of that session.\<close>

lemma check_state_image:
  assumes "state_ops_valid session" and "engine session = Some ops"
    and "state_image ops session used0 used1 link_used bs"
    and "0 < used0" and "used0 \<le> fst (machine_state_capacity session)"
    and "0 < used1" and "used1 \<le> snd (machine_state_capacity session)"
    and "link_used \<le> link_state_capacity session" and "112 + used0 + used1 + link_used \<le> SIZE_MAX"
  shows "check_state session bs = Some (Some (link_enabled session, used0, used1, link_used))"
proof -
  have len: "112 + used0 + used1 + link_used \<le> length bs"
    using assms(3) by (simp add: state_image_def)
  have lengths: "lengths_valid (of_nat used0) (of_nat used1) (of_nat link_used) (length bs) =
      Some (112 + used0 + used1 + link_used)"
    using assms(9) len
    by (simp add: lengths_valid_def checked_add_def unat_of_nat_size DUALBOY_STATE_HEADER_SIZE_def) linarith
  have "length state_magic = 8" by (simp add: state_magic_def)
  then have magic: "memcmp_eq bs 0 state_magic = Some True"
    using assms(3) by (simp add: state_image_def memcmp_eq_def)
  have crcs: "crc32_bytes bs 112 used0 \<noteq> None" "crc32_bytes bs (112 + used0) used1 \<noteq> None"
    "crc32_bytes bs (112 + used0 + used1) link_used \<noteq> None" "crc32_bytes bs 0 108 \<noteq> None"
    using len by (simp_all add: crc32_bytes_inside)
  show ?thesis
    using assms(1,2,4-9) assms(3)[unfolded state_image_def] magic lengths crcs
    by (auto simp: check_state_def DUALBOY_STATE_HEADER_SIZE_def DUALBOY_STATE_VERSION_def
        DUALBOY_STATE_FLAG_LINK_ENABLED_def unat_of_nat_size)
qed

text \<open>What an accepted buffer is known to hold.\<close>

lemma check_state_Some:
  assumes "check_state session bs = Some (Some (saved_link, n0, n1, n2))"
  shows "state_ops_valid session \<and> 0 < n0 \<and> n0 \<le> fst (machine_state_capacity session) \<and>
    0 < n1 \<and> n1 \<le> snd (machine_state_capacity session) \<and> n2 \<le> link_state_capacity session \<and>
    112 + n0 + n1 + n2 \<le> length bs \<and> 112 + n0 + n1 + n2 \<le> SIZE_MAX \<and>
    get_u32 bs 108 = crc32_bytes bs 0 108 \<and>
    get_u64 bs 64 = Some (of_nat n0) \<and> get_u64 bs 72 = Some (of_nat n1) \<and> get_u64 bs 80 = Some (of_nat n2) \<and>
    get_u32 bs 88 = crc32_bytes bs 112 n0 \<and> get_u32 bs 92 = crc32_bytes bs (112 + n0) n1 \<and>
    get_u32 bs 96 = crc32_bytes bs (112 + n0 + n1) n2"
  using assms unfolding check_state_def lengths_valid_def checked_add_def DUALBOY_STATE_HEADER_SIZE_def Let_def
  by (simp split: if_splits Option.bind_splits option.splits) auto

lemma crc32_bytes_kept:
  "i < a \<or> a + n \<le> i \<Longrightarrow> a + n \<le> length bs \<Longrightarrow> crc32_bytes (bs[i := v]) a n = crc32_bytes bs a n"
  by (simp add: crc32_bytes_inside take_drop_update_outside)

lemma crc32_bytes_changed:
  assumes "a \<le> i" and "i < a + n" and "a + n \<le> length bs" and "v \<noteq> bs ! i"
  shows "crc32_bytes (bs[i := v]) a n \<noteq> crc32_bytes bs a n"
proof -
  have "crc32_of ((take n (drop a bs))[i - a := v]) \<noteq> crc32_of (take n (drop a bs))"
    using assms by (intro crc32_of_changed) auto
  then show ?thesis
    using assms by (simp add: crc32_bytes_inside take_drop_update_inside)
qed

text \<open>Writing the header of a large enough buffer always succeeds.\<close>

lemma blit_total:
  "off + length src \<le> n \<Longrightarrow> n \<le> length xs \<Longrightarrow> \<exists>ys. blit xs off src = Some ys \<and> n \<le> length ys"
  by (auto simp: blit_def)

lemma crc32_total: "off + k \<le> n \<Longrightarrow> n \<le> length bs \<Longrightarrow> \<exists>crc. crc32_bytes bs off k = Some crc"
  by (simp add: crc32_bytes_inside)

lemma write_header_total:
  assumes "112 + used0 + used1 + link_used \<le> length bytes"
    and "rom_crc (fst (roms session)) \<noteq> None" and "rom_crc (snd (roms session)) \<noteq> None"
  shows "\<exists>bs. write_header ops session used0 used1 link_used t bytes = Some bs"
proof -
  let ?n = "112 + used0 + used1 + link_used"
  obtain crc0 crc1 where crc: "rom_crc (fst (roms session)) = Some crc0" "rom_crc (snd (roms session)) = Some crc1"
    using assms(2,3) by auto
  have put: "\<exists>ys. blit xs off src = Some ys \<and> ?n \<le> length ys" if "?n \<le> length xs" and "off + length src \<le> 112" for xs off and src :: bytes
    using that by (intro blit_total) auto
  have magic: "length state_magic = 8" by (simp add: state_magic_def)
  note lens = u32.encode_length u64.encode_length magic
  obtain b1 where c1: "blit bytes 0 (state_magic) = Some b1" and l1: "?n \<le> length b1"
    using put [OF assms(1), of 0 "state_magic"] by (auto simp: lens)
  obtain b2 where c2: "blit b1 8 (u32_bytes DUALBOY_STATE_VERSION) = Some b2" and l2: "?n \<le> length b2"
    using put [OF l1, of 8 "u32_bytes DUALBOY_STATE_VERSION"] by (auto simp: lens)
  obtain b3 where c3: "blit b2 12 (u32_bytes (of_nat 112)) = Some b3" and l3: "?n \<le> length b3"
    using put [OF l2, of 12 "u32_bytes (of_nat 112)"] by (auto simp: lens)
  obtain b4 where c4: "blit b3 16 (u64_bytes (of_nat t)) = Some b4" and l4: "?n \<le> length b4"
    using put [OF l3, of 16 "u64_bytes (of_nat t)"] by (auto simp: lens)
  obtain b5 where c5: "blit b4 24 (u32_bytes (family_code (family ops))) = Some b5" and l5: "?n \<le> length b5"
    using put [OF l4, of 24 "u32_bytes (family_code (family ops))"] by (auto simp: lens)
  obtain b6 where c6: "blit b5 28 (u32_bytes (platform_code (rom_platform (orom (fst (roms session)))))) = Some b6" and l6: "?n \<le> length b6"
    using put [OF l5, of 28 "u32_bytes (platform_code (rom_platform (orom (fst (roms session)))))"] by (auto simp: lens)
  obtain b7 where c7: "blit b6 32 (u32_bytes (platform_code (rom_platform (orom (snd (roms session)))))) = Some b7" and l7: "?n \<le> length b7"
    using put [OF l6, of 32 "u32_bytes (platform_code (rom_platform (orom (snd (roms session)))))"] by (auto simp: lens)
  obtain b8 where c8: "blit b7 36 (u32_bytes (if link_enabled session then DUALBOY_STATE_FLAG_LINK_ENABLED else 0)) = Some b8" and l8: "?n \<le> length b8"
    using put [OF l7, of 36 "u32_bytes (if link_enabled session then DUALBOY_STATE_FLAG_LINK_ENABLED else 0)"] by (auto simp: lens)
  obtain b9 where c9: "blit b8 40 (u64_bytes (of_nat (rom_size (orom (fst (roms session)))))) = Some b9" and l9: "?n \<le> length b9"
    using put [OF l8, of 40 "u64_bytes (of_nat (rom_size (orom (fst (roms session)))))"] by (auto simp: lens)
  obtain b10 where c10: "blit b9 48 (u64_bytes (of_nat (rom_size (orom (snd (roms session)))))) = Some b10" and l10: "?n \<le> length b10"
    using put [OF l9, of 48 "u64_bytes (of_nat (rom_size (orom (snd (roms session)))))"] by (auto simp: lens)
  obtain b11 where c11: "blit b10 56 (u32_bytes crc0) = Some b11" and l11: "?n \<le> length b11"
    using put [OF l10, of 56 "u32_bytes crc0"] by (auto simp: lens)
  obtain b12 where c12: "blit b11 60 (u32_bytes crc1) = Some b12" and l12: "?n \<le> length b12"
    using put [OF l11, of 60 "u32_bytes crc1"] by (auto simp: lens)
  obtain b13 where c13: "blit b12 64 (u64_bytes (of_nat used0)) = Some b13" and l13: "?n \<le> length b13"
    using put [OF l12, of 64 "u64_bytes (of_nat used0)"] by (auto simp: lens)
  obtain b14 where c14: "blit b13 72 (u64_bytes (of_nat used1)) = Some b14" and l14: "?n \<le> length b14"
    using put [OF l13, of 72 "u64_bytes (of_nat used1)"] by (auto simp: lens)
  obtain b15 where c15: "blit b14 80 (u64_bytes (of_nat link_used)) = Some b15" and l15: "?n \<le> length b15"
    using put [OF l14, of 80 "u64_bytes (of_nat link_used)"] by (auto simp: lens)
  obtain payload0 where p0: "crc32_bytes b15 112 used0 = Some payload0"
    using crc32_total [OF _ l15] by fastforce
  obtain b16 where c16: "blit b15 88 (u32_bytes payload0) = Some b16" and l16: "?n \<le> length b16"
    using put [OF l15, of 88 "u32_bytes payload0"] by (auto simp: lens)
  obtain payload1 where p1: "crc32_bytes b16 (112 + used0) used1 = Some payload1"
    using crc32_total [OF _ l16] by fastforce
  obtain b17 where c17: "blit b16 92 (u32_bytes payload1) = Some b17" and l17: "?n \<le> length b17"
    using put [OF l16, of 92 "u32_bytes payload1"] by (auto simp: lens)
  obtain payload2 where p2: "crc32_bytes b17 (112 + used0 + used1) link_used = Some payload2"
    using crc32_total [OF _ l17] by fastforce
  obtain b18 where c18: "blit b17 96 (u32_bytes payload2) = Some b18" and l18: "?n \<le> length b18"
    using put [OF l17, of 96 "u32_bytes payload2"] by (auto simp: lens)
  obtain hcrc where p3: "crc32_bytes b18 0 108 = Some hcrc"
    using crc32_total [OF _ l18] by fastforce
  obtain b19 where c19: "blit b18 108 (u32_bytes hcrc) = Some b19" and l19: "?n \<le> length b19"
    using put [OF l18, of 108 "u32_bytes hcrc"] by (auto simp: lens)
  show ?thesis
    unfolding write_header_def put_u32_def put_u64_def DUALBOY_STATE_HEADER_SIZE_def
    by (simp only: crc p0 p1 p2 p3 c1 c2 c3 c4 c5 c6 c7 c8 c9 c10 c11 c12 c13 c14 c15 c16 c17 c18 c19
        Option.bind.simps) simp
qed

lemma slice_prefix: "slice xs off n = Some s \<Longrightarrow> m \<le> n \<Longrightarrow> slice xs off m = Some (take m s)"
  by (auto simp: slice_def min_def split: if_splits)

section \<open>Temporary buffers of a restore\<close>

text \<open>
  What the savestate code relies on in a serializer: it writes at most the capacity it was given,
  and on success it wrote every byte it reports.
\<close>

definition serializer_contract :: "'p dualboy_engine_ops \<Rightarrow> bool" where
  "serializer_contract ops \<longleftrightarrow>
     (\<forall>f p m capacity ok written used p'. serialize_machine ops = Some f \<and>
        f p m capacity = ((ok, written, used), p') \<longrightarrow>
        length written \<le> capacity \<and> (ok \<and> used \<le> capacity \<longrightarrow> used \<le> length written)) \<and>
     (\<forall>f p capacity ok written used. serialize_link ops = Some f \<and>
        f p capacity = (ok, written, used) \<longrightarrow>
        length written \<le> capacity \<and> (ok \<and> used \<le> capacity \<longrightarrow> used \<le> length written))"

lemma machine_serializerD:
  "serializer_contract ops \<Longrightarrow> serialize_machine ops = Some f \<Longrightarrow>
   f p m capacity = ((True, written, used), p') \<Longrightarrow> used \<le> capacity \<Longrightarrow>
   used \<le> length written \<and> length written \<le> capacity"
  unfolding serializer_contract_def by blast

lemma link_serializerD:
  "serializer_contract ops \<Longrightarrow> serialize_link ops = Some f \<Longrightarrow>
   f p capacity = (True, written, used) \<Longrightarrow> used \<le> capacity \<Longrightarrow>
   used \<le> length written \<and> length written \<le> capacity"
  unfolding serializer_contract_def by blast

lemma serialized_total:
  assumes "length written \<le> capacity" and "ok \<and> used \<le> capacity \<longrightarrow> used \<le> length written"
  shows "\<exists>result content. serialized capacity (ok, written, used) = Some (result, content)"
  using assms by (auto simp: serialized_def mem_simps)

lemma snapshot_machine_owned:
  assumes "owns_beside base ps h" and "serializer_contract ops" and "serialize_machine ops \<noteq> None"
  shows "\<exists>ok part p' h'. snapshot_machine ops capacity m p h = Some ((ok, part), p', h') \<and>
    owns_beside base (fst part # ps) h'"
proof (cases "capacity = 0")
  case True
  then show ?thesis using assms(1) by (auto simp: snapshot_machine_def)
next
  case False
  obtain a h1 where alloc: "malloc h = (a, h1)" by fastforce
  note own = malloc_owned [OF assms(1) alloc]
  obtain f where f: "serialize_machine ops = Some f" using assms(3) by auto
  obtain ok written used p' where ser: "f p m capacity = ((ok, written, used), p')" by (metis prod.exhaust)
  with assms(2) f have "length written \<le> capacity" "ok \<and> used \<le> capacity \<longrightarrow> used \<le> length written"
    unfolding serializer_contract_def by blast+
  from serialized_total [OF this] False alloc own f ser show ?thesis
    by (cases a) (auto simp: snapshot_machine_def)
qed

lemma snapshot_link_owned:
  assumes "owns_beside base ps h" and "serializer_contract ops" and "serialize_link ops \<noteq> None"
  shows "\<exists>ok part h'. snapshot_link ops capacity p h = Some ((ok, part), h') \<and>
    owns_beside base (fst part # ps) h'"
proof -
  obtain a h1 where alloc: "(if capacity > 0 then malloc h else (None, h)) = (a, h1)" by fastforce
  then have own: "owns_beside base (a # ps) h1"
    using assms(1) malloc_owned [of base ps h a h1] by (cases "capacity > 0") auto
  obtain f where f: "serialize_link ops = Some f" using assms(3) by auto
  obtain ok written used where ser: "f p capacity = (ok, written, used)" by (metis prod.exhaust)
  with assms(2) f have "length written \<le> capacity" "ok \<and> used \<le> capacity \<longrightarrow> used \<le> length written"
    unfolding serializer_contract_def by blast+
  from serialized_total [OF this] obtain result content where
    "serialized capacity (ok, written, used) = Some (result, content)" by blast
  with own f ser alloc show ?thesis
    by (cases "capacity > 0"; cases a) (auto simp: snapshot_link_def)
qed

definition part_pointers :: "state_parts \<Rightarrow> nat option list" where
  "part_pointers parts = [fst (part_machine0 parts), fst (part_machine1 parts), fst (part_link parts)]"

lemma free_state_parts_owned:
  assumes "owns_beside base (part_pointers parts @ ps) h"
  shows "\<exists>h'. free_state_parts parts h = Some h' \<and> owns_beside base ps h'"
proof -
  from assms have own: "owns_beside base (fst (part_machine0 parts) # fst (part_machine1 parts) #
      fst (part_link parts) # ps) h"
    by (simp add: part_pointers_def)
  from free_owned [OF own] obtain h1 where h1: "free (fst (part_machine0 parts)) h = Some h1"
    "owns_beside base (fst (part_machine1 parts) # fst (part_link parts) # ps) h1" by blast
  from free_owned [OF h1(2)] obtain h2 where h2: "free (fst (part_machine1 parts)) h1 = Some h2"
    "owns_beside base (fst (part_link parts) # ps) h2" by blast
  from free_owned [OF h2(2)] h1(1) h2(1) show ?thesis by (auto simp: free_state_parts_def)
qed

lemma owns_beside_rev: "owns_beside base [c, b, a] h = owns_beside base [a, b, c] h"
  by (cases a; cases b; cases c) (auto simp: owns_beside_def)

lemma snapshot_state_owned:
  assumes "owns_beside base [] h" and "serializer_contract ops"
    and "serialize_machine ops \<noteq> None" and "serialize_link ops \<noteq> None"
  shows "\<exists>snapshot p' h'. snapshot_state session ops p h = Some (snapshot, p', h') \<and>
    (case snapshot of None \<Rightarrow> owns_beside base [] h' | Some parts \<Rightarrow> owns_beside base (part_pointers parts) h')"
proof -
  let ?cap0 = "fst (machine_state_capacity session)" and ?cap1 = "snd (machine_state_capacity session)"
  from snapshot_machine_owned [OF assms(1-3)] obtain ok0 part0 p1 h1 where
    s0: "snapshot_machine ops ?cap0 0 p h = Some ((ok0, part0), p1, h1)"
    and own0: "owns_beside base [fst part0] h1" by blast
  from snapshot_machine_owned [OF own0 assms(2,3)] obtain ok1 part1 p2 h2 where
    s1: "snapshot_machine ops ?cap1 1 p1 h1 = Some ((ok1, part1), p2, h2)"
    and own1: "owns_beside base [fst part1, fst part0] h2" by blast
  from snapshot_link_owned [OF own1 assms(2,4)] obtain ok2 part2 h3 where
    s2: "snapshot_link ops (link_state_capacity session) p2 h2 = Some ((ok2, part2), h3)"
    and own2: "owns_beside base [fst part2, fst part1, fst part0] h3" by blast
  have free: "\<exists>h'. free_state_parts parts h = Some h' \<and> owns_beside base [] h'"
    if "owns_beside base [fst (part_link parts), fst (part_machine1 parts), fst (part_machine0 parts)] h"
    for parts h
    using that free_state_parts_owned [of base parts "[]" h] owns_beside_rev
    by (simp add: part_pointers_def)
  let ?parts1 = "zero_parts\<lparr>part_machine0 := part0\<rparr>"
  let ?parts2 = "?parts1\<lparr>part_machine1 := part1\<rparr>"
  let ?parts3 = "?parts2\<lparr>part_link := part2\<rparr>"
  consider "\<not> ok0" | "ok0" "\<not> ok1" | "ok0" "ok1" "\<not> ok2" | "ok0" "ok1" "ok2" by blast
  then show ?thesis
  proof cases
    case 1
    with s0 own0 free [of ?parts1 h1] show ?thesis
      by (auto simp: snapshot_state_def zero_parts_def)
  next
    case 2
    with s0 s1 own1 free [of ?parts2 h2] show ?thesis
      by (auto simp: snapshot_state_def zero_parts_def)
  next
    case 3
    with s0 s1 s2 own2 free [of ?parts3 h3] show ?thesis
      by (auto simp: snapshot_state_def zero_parts_def)
  next
    case 4
    with s0 s1 s2 own2 show ?thesis
      by (simp add: snapshot_state_def zero_parts_def part_pointers_def owns_beside_rev)
  qed
qed

definition battery_pointers :: "battery_copy list \<Rightarrow> nat option list" where
  "battery_pointers copies = map (\<lambda>(m, kind, a, data). Some a) copies"

lemma copy_regions_owned:
  assumes "owns_beside base (battery_pointers copies @ ps) h"
  shows "\<exists>ok copies' h'. copy_regions info p regions copies h = (ok, copies', h') \<and>
    owns_beside base (battery_pointers copies' @ ps) h'"
  using assms
proof (induction info p regions copies h rule: copy_regions.induct)
  case (1 info p copies h)
  then show ?case by auto
next
  case (2 info p m kind regions copies h)
  show ?case
  proof (cases "info p m kind")
    case None
    with 2 show ?thesis by simp
  next
    case (Some region)
    obtain present data where region: "region = (present, data)" by (cases region)
    obtain a h' where alloc: "malloc h = (a, h')" by fastforce
    note own = malloc_owned [OF 2(4) alloc]
    have "owns_beside base (battery_pointers (copies @ [(m, kind, x, data)]) @ ps) h'" if "a = Some x" for x
      using own that owns_beside_swap [of base "[Some x]" "battery_pointers copies" ps h']
      by (simp add: battery_pointers_def)
    with 2 Some region alloc own show ?thesis by (cases a) auto
  qed
qed

lemma copy_battery_owned:
  assumes "owns_beside base ps h"
  shows "\<exists>ok copies h'. copy_battery ops p h = (ok, copies, h') \<and>
    owns_beside base (battery_pointers copies @ ps) h'"
  using assms copy_regions_owned [of base "[]" ps h]
  by (cases "memory_info ops") (auto simp: copy_battery_def battery_pointers_def)

lemma restore_battery_owned:
  assumes "owns_beside base (battery_pointers copies @ ps) h"
  shows "\<exists>h'. restore_and_free_battery ops copies p h =
      Some (foldl (\<lambda>p (m, kind, a, data). memory_store ops p m kind data) p copies, h') \<and>
    owns_beside base ps h'"
  using assms
proof (induction copies arbitrary: p h)
  case Nil
  then show ?case by (simp add: battery_pointers_def)
next
  case (Cons copy copies)
  obtain m kind a data where copy: "copy = (m, kind, a, data)" by (cases copy)
  from Cons.prems have "owns_beside base (Some a # battery_pointers copies @ ps) h"
    by (simp add: battery_pointers_def copy)
  from free_owned [OF this] obtain h1 where "free (Some a) h = Some h1"
    "owns_beside base (battery_pointers copies @ ps) h1" by blast
  with Cons.IH [OF this(2)] show ?case by (auto simp: copy)
qed

lemma check_state_total:
  assumes "rom_crc (fst (roms session)) \<noteq> None" and "rom_crc (snd (roms session)) \<noteq> None"
  shows "\<exists>checked. check_state session bs = Some checked"
proof (cases "state_ops_valid session \<and> 112 \<le> length bs")
  case False
  then show ?thesis by (auto simp: check_state_def DUALBOY_STATE_HEADER_SIZE_def)
next
  case True
  then obtain ops where ops: "engine session = Some ops" by (auto simp: state_ops_valid_def split: option.splits)
  have magic: "\<exists>b. memcmp_eq bs 0 state_magic = Some b"
    using True by (simp add: memcmp_eq_def slice_def state_magic_def)
  have u32: "\<exists>v. get_u32 bs off = Some v" if "off \<le> 108" for off
    using u32.decode_total [of off bs] True that by auto
  have u64: "\<exists>v. get_u64 bs off = Some v" if "off \<le> 104" for off
    using u64.decode_total [of off bs] True that by auto
  have crc: "\<exists>v. crc32_bytes bs off n = Some v" if "off + n \<le> length bs" for off n
    using that by (simp add: crc32_bytes_inside)
  have fits: "112 + unat a + unat b + unat c \<le> length bs"
    if "lengths_valid a b c (length bs) = Some t" for a b c t
    using that by (auto simp: lengths_valid_def checked_add_def DUALBOY_STATE_HEADER_SIZE_def
        split: if_splits Option.bind_splits)
  obtain b v8 v12 v108 v24 v28 v32 v56 v60 v36 v88 v92 v96 l16 l40 l48 l64 l72 l80 crc r0 r1 where
    reads: "memcmp_eq bs 0 state_magic = Some b" "get_u32 bs 8 = Some v8" "get_u32 bs 12 = Some v12"
      "get_u32 bs 108 = Some v108" "get_u32 bs 24 = Some v24" "get_u32 bs 28 = Some v28" "get_u32 bs 32 = Some v32"
      "get_u32 bs 56 = Some v56" "get_u32 bs 60 = Some v60" "get_u32 bs 36 = Some v36" "get_u32 bs 88 = Some v88"
      "get_u32 bs 92 = Some v92" "get_u32 bs 96 = Some v96" "get_u64 bs 16 = Some l16" "get_u64 bs 40 = Some l40"
      "get_u64 bs 48 = Some l48" "get_u64 bs 64 = Some l64" "get_u64 bs 72 = Some l72" "get_u64 bs 80 = Some l80"
      "crc32_bytes bs 0 108 = Some crc" "rom_crc (fst (roms session)) = Some r0" "rom_crc (snd (roms session)) = Some r1"
    using magic u32 [of 8] u32 [of 12] u32 [of 108] u32 [of 24] u32 [of 28] u32 [of 32] u32 [of 56] u32 [of 60]
      u32 [of 36] u32 [of 88] u32 [of 92] u32 [of 96] u64 [of 16] u64 [of 40] u64 [of 48] u64 [of 64] u64 [of 72]
      u64 [of 80] crc [of 0 108] True assms
    by (simp only: le_numeral_simps order_refl numeral_le_iff) force
  show ?thesis
  proof (cases "lengths_valid l64 l72 l80 (length bs)")
    case None
    with reads ops True show ?thesis
      unfolding check_state_def Let_def by (simp add: DUALBOY_STATE_HEADER_SIZE_def)
  next
    case (Some t)
    from fits [OF Some] obtain c0 c1 c2 where "crc32_bytes bs 112 (unat l64) = Some c0"
      "crc32_bytes bs (112 + unat l64) (unat l72) = Some c1"
      "crc32_bytes bs (112 + unat l64 + unat l72) (unat l80) = Some c2"
      using crc [of 112 "unat l64"] crc [of "112 + unat l64" "unat l72"] crc [of "112 + unat l64 + unat l72" "unat l80"]
      by auto
    with Some reads ops True show ?thesis
      unfolding check_state_def Let_def by (simp add: DUALBOY_STATE_HEADER_SIZE_def)
  qed
qed

lemma apply_state_total:
  assumes "set_link ops \<noteq> None" and "unserialize_machine ops \<noteq> None" and "unserialize_link ops \<noteq> None"
    and "112 + n0 + n1 + n2 \<le> length bs"
  shows "\<exists>applied p'. apply_state ops bs saved_link n0 n1 n2 p = Some (applied, p')"
proof -
  have "slice bs 112 n0 \<noteq> None" "slice bs (112 + n0) n1 \<noteq> None" "slice bs (112 + n0 + n1) n2 \<noteq> None"
    using assms(4) by (simp_all add: slice_def)
  with assms(1-3) show ?thesis
    by (auto simp: apply_state_def DUALBOY_STATE_HEADER_SIZE_def split: prod.splits)
qed

lemma rollback_state_total:
  assumes "set_link ops \<noteq> None" and "unserialize_machine ops \<noteq> None" and "unserialize_link ops \<noteq> None"
  shows "\<exists>ok p'. rollback_state ops parts link p = Some (ok, p')"
  using assms by (auto simp: rollback_state_def split: prod.splits)

text \<open>
  Once the buffer has been accepted: the snapshot, the battery copies and the engine answers
  determine the outcome, and the buffers allocated on the way are released again.
\<close>

definition poke_battery :: "'p dualboy_engine_ops \<Rightarrow> battery_copy list \<Rightarrow> 'p \<Rightarrow> 'p" where
  "poke_battery ops battery p = foldl (\<lambda>p (m, kind, a, data). memory_store ops p m kind data) p battery"

lemma restore_cases [consumes 6, case_names no_snapshot unprotected tried]:
  assumes "check_state session bs = Some (Some (saved_link, n0, n1, n2))" and "engine session = Some ops"
    and "pair session = Some (address, p0)" and "owns_beside base [] h" and "serializer_contract ops"
    and "set_link ops \<noteq> None"
  obtains (no_snapshot) p1 h1 where "snapshot_state session ops p0 h = Some (None, p1, h1)"
      and "owns_beside base [] h1" and "dualboy_state_unserialize_ex session (Some bs) h =
        Some (DUALBOY_STATE_RESTORE_REJECTED, session\<lparr>pair := Some (address, p1)\<rparr>, h1)"
    | (unprotected) parts p1 h1 battery h2 h4 where "snapshot_state session ops p0 h = Some (Some parts, p1, h1)"
      and "copy_battery ops p1 h1 = (False, battery, h2)" and "owns_beside base [] h4"
      and "dualboy_state_unserialize_ex session (Some bs) h =
        Some (DUALBOY_STATE_RESTORE_REJECTED, session\<lparr>pair := Some (address, poke_battery ops battery p1)\<rparr>, h4)"
    | (tried) parts p1 h1 battery h2 h4 applied p2 rollback_ok p3 where
      "snapshot_state session ops p0 h = Some (Some parts, p1, h1)"
      and "copy_battery ops p1 h1 = (True, battery, h2)" and "owns_beside base [] h4"
      and "apply_state ops bs saved_link n0 n1 n2 p1 = Some (applied, p2)"
      and "(if applied then Some (True, p2) else rollback_state ops parts (link_enabled session) p2) =
        Some (rollback_ok, p3)"
      and "dualboy_state_unserialize_ex session (Some bs) h =
        Some (if \<not> applied \<and> \<not> rollback_ok then DUALBOY_STATE_RESTORE_FATAL
              else if applied then DUALBOY_STATE_RESTORE_OK else DUALBOY_STATE_RESTORE_REJECTED,
              session\<lparr>pair := Some (address, poke_battery ops battery p3),
                link_enabled := (if applied then saved_link else link_enabled session)\<rparr>, h4)"
proof -
  have valid: "state_ops_valid session" and len: "112 + n0 + n1 + n2 \<le> length bs"
    using check_state_Some [OF assms(1)] by blast+
  have ser: "serialize_machine ops \<noteq> None" "serialize_link ops \<noteq> None"
    and un: "unserialize_machine ops \<noteq> None" "unserialize_link ops \<noteq> None"
    using valid assms(2) by (auto simp: state_ops_valid_def)
  from snapshot_state_owned [OF assms(4,5) ser, of session p0] obtain snapshot p1 h1 where
    snap: "snapshot_state session ops p0 h = Some (snapshot, p1, h1)"
    and own: "case snapshot of None \<Rightarrow> owns_beside base [] h1 | Some parts \<Rightarrow> owns_beside base (part_pointers parts) h1"
    by blast
  show thesis
  proof (cases snapshot)
    case None
    with snap own assms(1-3) show thesis by (intro no_snapshot) (auto simp: dualboy_state_unserialize_ex_def)
  next
    case (Some parts)
    from own Some have "owns_beside base (part_pointers parts) h1" by simp
    from copy_battery_owned [OF this, of ops p1] obtain protected battery h2 where
      copy: "copy_battery ops p1 h1 = (protected, battery, h2)"
      and own2: "owns_beside base (battery_pointers battery @ part_pointers parts) h2" by blast
    have restore: "\<exists>h3. restore_and_free_battery ops battery p h2 =
        Some (poke_battery ops battery p, h3) \<and>
        owns_beside base (part_pointers parts) h3" for p
      unfolding poke_battery_def by (rule restore_battery_owned [OF own2])
    from apply_state_total [OF assms(6) un len, of saved_link p1] obtain applied p2 where
      payload: "apply_state ops bs saved_link n0 n1 n2 p1 = Some (applied, p2)" by blast
    from rollback_state_total [OF assms(6) un, of parts "link_enabled session" p2] obtain rollback_ok p3 where
      rollback: "(if applied then Some (True, p2) else rollback_state ops parts (link_enabled session) p2) =
        Some (rollback_ok, p3)" by (cases applied) auto
    define final where "final = (if protected then p3 else p1)"
    from restore [of final] obtain h3 where h3: "restore_and_free_battery ops battery final h2 =
        Some (poke_battery ops battery final, h3)"
      "owns_beside base (part_pointers parts) h3" by blast
    from free_state_parts_owned [of base parts "[]" h3] h3(2) obtain h4 where
      h4: "free_state_parts parts h3 = Some h4" "owns_beside base [] h4" by auto
    show thesis
    proof (cases protected)
      case True
      have "dualboy_state_unserialize_ex session (Some bs) h =
        Some (if \<not> applied \<and> \<not> rollback_ok then DUALBOY_STATE_RESTORE_FATAL
              else if applied then DUALBOY_STATE_RESTORE_OK else DUALBOY_STATE_RESTORE_REJECTED,
              session\<lparr>pair := Some (address, poke_battery ops battery p3),
                link_enabled := (if applied then saved_link else link_enabled session)\<rparr>, h4)"
        using True assms(1-3) snap Some copy payload rollback h3(1) h4
        by (simp add: dualboy_state_unserialize_ex_def final_def split del: if_split)
      from tried [OF _ _ h4(2) payload rollback this] show thesis using True snap Some copy by simp
    next
      case False
      then have "dualboy_state_unserialize_ex session (Some bs) h =
        Some (DUALBOY_STATE_RESTORE_REJECTED, session\<lparr>pair := Some (address, poke_battery ops battery p1)\<rparr>, h4)"
        using assms(1-3) snap Some copy h3(1) h4
        by (simp add: dualboy_state_unserialize_ex_def final_def)
      from unprotected [OF _ _ h4(2) this] show thesis using False snap Some copy by simp
    qed
  qed
qed

section \<open>A session of the small engine\<close>

definition demo_pair_state :: demo_pair where
  "demo_pair_state = \<lparr>register0 = 5, register1 = 6, ram0 = 7, ram1 = 8, cable = True\<rparr>"

definition demo_session :: "demo_pair dualboy_session" where
  "demo_session = dualboy_session_init
     \<lparr>engine := Some demo_engine, pair := Some (9, demo_pair_state),
      roms := (\<lparr>orom = demo_rom, owned_data = None, owned_path = None\<rparr>,
               \<lparr>orom = demo_rom, owned_data = None, owned_path = None\<rparr>),
      machine_state_capacity := (2, 2), link_state_capacity := 1, link_enabled := True, loaded := True\<rparr>"

lemma demo_session_fields [simp]:
  "engine demo_session = Some demo_engine" "pair demo_session = Some (9, demo_pair_state)"
  "machine_state_capacity demo_session = (2, 2)" "link_state_capacity demo_session = 1"
  "link_enabled demo_session"
  by (simp_all add: demo_session_def)

lemma demo_state_ops_valid: "state_ops_valid demo_session"
  by (simp add: state_ops_valid_def) (simp add: demo_session_def demo_engine_def)

lemma demo_rom_crc: "rom_crc (fst (roms demo_session)) \<noteq> None" "rom_crc (snd (roms demo_session)) \<noteq> None"
  by (simp_all add: demo_session_def demo_rom_def rom_crc_def crc32_bytes_inside)

lemma demo_serializer_contract: "serializer_contract demo_engine"
  by (auto simp: serializer_contract_def demo_engine_def demo_machine_def split: if_splits)

text \<open>For any payload bytes there is a state the demonstration session accepts.\<close>

lemma demo_accepts_any:
  assumes "0 < length m0" and "length m0 \<le> 2" and "0 < length m1" and "length m1 \<le> 2" and "length l \<le> 1"
  obtains bs where "check_state demo_session bs = Some (Some (True, length m0, length m1, length l))"
    and "length bs = 112 + length m0 + length m1 + length l" and "slice bs 112 (length m0) = Some m0"
    and "slice bs (112 + length m0) (length m1) = Some m1"
    and "slice bs (112 + length m0 + length m1) (length l) = Some l"
proof -
  let ?n0 = "length m0" and ?n1 = "length m1" and ?n2 = "length l"
  let ?bytes = "replicate 112 0 @ m0 @ m1 @ l"
  obtain bs where header: "write_header demo_engine demo_session ?n0 ?n1 ?n2 (112 + ?n0 + ?n1 + ?n2) ?bytes = Some bs"
    using write_header_total [of ?n0 ?n1 ?n2 ?bytes, OF _ demo_rom_crc] by auto
  note image = write_header_image [OF header]
  have "check_state demo_session bs = Some (Some (link_enabled demo_session, ?n0, ?n1, ?n2))"
    using assms by (intro check_state_image [OF demo_state_ops_valid _ image(1)]) (auto simp: SIZE_MAX_def)
  moreover have "slice bs 112 ?n0 = slice ?bytes 112 ?n0" "slice bs (112 + ?n0) ?n1 = slice ?bytes (112 + ?n0) ?n1"
    "slice bs (112 + ?n0 + ?n1) ?n2 = slice ?bytes (112 + ?n0 + ?n1) ?n2" "length bs = length ?bytes"
    using image(2,3) by simp_all
  ultimately show thesis
    by (intro that [of bs]) (simp_all add: slice_def)
qed

lemma demo_accepts:
  obtains bs where "check_state demo_session bs = Some (Some (True, 2, 2, 1))" and "length bs = 117"
    and "slice bs 112 2 = Some [a, b]" and "slice bs 114 2 = Some [c, d]" and "slice bs 116 1 = Some [e]"
  by (rule demo_accepts_any [of "[a, b]" "[c, d]" "[e]"]) (use that in \<open>auto simp: numeral_2_eq_2 [symmetric]\<close>)

section \<open>Properties of the format\<close>

text \<open>
  C21. Every single-byte corruption of a savestate is refused: take any buffer the session
  accepts and change one byte anywhere in its header or in one of its three payloads; the
  session no longer accepts it. The checksum fields, the reserved bytes and the lengths are
  included.
\<close>

theorem state_corruption_rejected:
  assumes "check_state session bs = Some (Some (saved_link, n0, n1, n2))"
    and "i < 112 + n0 + n1 + n2" and "v \<noteq> bs ! i"
  shows "check_state session (bs[i := v]) \<noteq> Some (Some accepted)"
proof
  assume bad: "check_state session (bs[i := v]) = Some (Some accepted)"
  obtain saved_link' m0 m1 m2 where "accepted = (saved_link', m0, m1, m2)" by (cases accepted)
  note old = check_state_Some [OF assms(1)] and new = check_state_Some [OF bad [unfolded this]]
  have len: "112 + n0 + n1 + n2 \<le> length bs" and small: "112 + n0 + n1 + n2 \<le> SIZE_MAX"
    and header_crc: "get_u32 bs 108 = crc32_bytes bs 0 108"
      "get_u32 (bs[i := v]) 108 = crc32_bytes (bs[i := v]) 0 108"
    using old new by blast+
  consider (header) "i < 108" | (checksum) "108 \<le> i" "i < 112" | (payload) "112 \<le> i" by linarith
  then show False
  proof cases
    case header
    then have "get_u32 (bs[i := v]) 108 = get_u32 bs 108" using len by (intro u32.decode_kept) auto
    moreover have "crc32_bytes (bs[i := v]) 0 108 \<noteq> crc32_bytes bs 0 108"
      using header len assms(3) by (intro crc32_bytes_changed) auto
    ultimately show False using header_crc by simp
  next
    case checksum
    then have "get_u32 (bs[i := v]) 108 \<noteq> get_u32 bs 108"
      using len assms(3) by (intro u32.decode_changed) auto
    moreover have "crc32_bytes (bs[i := v]) 0 108 = crc32_bytes bs 0 108"
      using checksum len by (intro crc32_bytes_kept) auto
    ultimately show False using header_crc by simp
  next
    case payload
    have kept: "get_u64 (bs[i := v]) 64 = get_u64 bs 64" "get_u64 (bs[i := v]) 72 = get_u64 bs 72"
      "get_u64 (bs[i := v]) 80 = get_u64 bs 80" "get_u32 (bs[i := v]) 88 = get_u32 bs 88"
      "get_u32 (bs[i := v]) 92 = get_u32 bs 92" "get_u32 (bs[i := v]) 96 = get_u32 bs 96"
      using payload len by (simp_all add: u64.decode_kept u32.decode_kept)
    have inj: "m = n" if "(of_nat m :: u64) = of_nat n" and "m \<le> SIZE_MAX" and "n \<le> SIZE_MAX" for m n
      using that by (metis unat_of_nat_size)
    have old_n: "get_u64 bs 64 = Some (of_nat n0)" "get_u64 bs 72 = Some (of_nat n1)" "get_u64 bs 80 = Some (of_nat n2)"
      and old_crc: "get_u32 bs 88 = crc32_bytes bs 112 n0" "get_u32 bs 92 = crc32_bytes bs (112 + n0) n1"
        "get_u32 bs 96 = crc32_bytes bs (112 + n0 + n1) n2"
      using old by blast+
    have new_n: "get_u64 (bs[i := v]) 64 = Some (of_nat m0)" "get_u64 (bs[i := v]) 72 = Some (of_nat m1)"
        "get_u64 (bs[i := v]) 80 = Some (of_nat m2)" "112 + m0 + m1 + m2 \<le> SIZE_MAX"
      and new_crc: "get_u32 (bs[i := v]) 88 = crc32_bytes (bs[i := v]) 112 m0"
        "get_u32 (bs[i := v]) 92 = crc32_bytes (bs[i := v]) (112 + m0) m1"
        "get_u32 (bs[i := v]) 96 = crc32_bytes (bs[i := v]) (112 + m0 + m1) m2"
      using new by blast+
    have n: "m0 = n0" "m1 = n1" "m2 = n2"
    proof -
      have "(of_nat m0 :: u64) = of_nat n0" using new_n(1) old_n(1) kept(1) by (metis option.inject)
      then show "m0 = n0" by (rule inj) (use small new_n(4) in linarith)+
      have "(of_nat m1 :: u64) = of_nat n1" using new_n(2) old_n(2) kept(2) by (metis option.inject)
      then show "m1 = n1" by (rule inj) (use small new_n(4) in linarith)+
      have "(of_nat m2 :: u64) = of_nat n2" using new_n(3) old_n(3) kept(3) by (metis option.inject)
      then show "m2 = n2" by (rule inj) (use small new_n(4) in linarith)+
    qed
    have crcs: "crc32_bytes (bs[i := v]) 112 n0 = crc32_bytes bs 112 n0"
      "crc32_bytes (bs[i := v]) (112 + n0) n1 = crc32_bytes bs (112 + n0) n1"
      "crc32_bytes (bs[i := v]) (112 + n0 + n1) n2 = crc32_bytes bs (112 + n0 + n1) n2"
      using old_crc new_crc kept(4-6) by (simp_all only: n)
    consider "i < 112 + n0" | "112 + n0 \<le> i" "i < 112 + n0 + n1" | "112 + n0 + n1 \<le> i" by linarith
    then show False
    proof cases
      case 1
      with payload crc32_bytes_changed [of 112 i n0 bs v] assms(3) len crcs show False by simp
    next
      case 2
      with crc32_bytes_changed [of "112 + n0" i n1 bs v] assms(3) len crcs show False by simp
    next
      case 3
      with assms(2) crc32_bytes_changed [of "112 + n0 + n1" i n2 bs v] assms(3) len crcs show False by simp
    qed
  qed
qed

theorem state_corruption_rejected_witness:
  "\<exists>bs. check_state demo_session bs = Some (Some (True, 2, 2, 1)) \<and>
     (\<forall>accepted. check_state demo_session (bs[113 := 4]) \<noteq> Some (Some accepted))"
proof -
  obtain bs where bs: "check_state demo_session bs = Some (Some (True, 2, 2, 1))" "slice bs 112 2 = Some [1, 2]"
    by (rule demo_accepts [of 1 2 3 4 5])
  then have "take 2 (drop 112 bs) = [1, 2]" and "114 \<le> length bs" by (simp_all add: slice_def split: if_splits)
  then have "bs ! 113 = 2" using nth_take_drop_two [of 112 bs 1 2] by simp
  then show ?thesis using state_corruption_rejected [OF bs(1), of 113 4] bs(1) by auto
qed

lemma serialize_accepted:
  assumes "state_ops_valid session" and "engine session = Some ops" and "pair session = Some (address, p0)"
    and "serializer_contract ops" and "0 < dualboy_state_size session" and "dualboy_state_size session \<le> length buffer"
    and "serialize_machine ops = Some f" and "serialize_link ops = Some fl"
    and "f p0 0 (fst (machine_state_capacity session)) = ((True, w0, u0), p1)"
    and "f p1 1 (snd (machine_state_capacity session)) = ((True, w1, u1), p2)"
    and "fl p2 (link_state_capacity session) = (True, wl, ul)"
    and "0 < u0" and "u0 \<le> fst (machine_state_capacity session)"
    and "0 < u1" and "u1 \<le> snd (machine_state_capacity session)" and "ul \<le> link_state_capacity session"
    and "rom_crc (fst (roms session)) \<noteq> None" and "rom_crc (snd (roms session)) \<noteq> None"
  shows "\<exists>bs. dualboy_state_serialize session (Some buffer) =
      Some (True, Some bs, session\<lparr>pair := Some (address, p2)\<rparr>) \<and> length bs = length buffer \<and>
    check_state session bs = Some (Some (link_enabled session, u0, u1, ul)) \<and>
    slice bs 112 u0 = Some (take u0 w0) \<and> slice bs (112 + u0) u1 = Some (take u1 w1) \<and>
    slice bs (112 + u0 + u1) ul = Some (take ul wl)"
proof -
  obtain cap0 cap1 where cap: "machine_state_capacity session = (cap0, cap1)" by fastforce
  let ?lcap = "link_state_capacity session"
  have size: "dualboy_state_size session = 112 + cap0 + cap1 + ?lcap" "112 + cap0 + cap1 + ?lcap \<le> SIZE_MAX"
    using assms(1,5) by (auto simp: dualboy_state_size_def checked_add_def DUALBOY_STATE_HEADER_SIZE_def cap
        split: if_splits Option.bind_splits option.splits)
  have w0: "u0 \<le> length w0" "length w0 \<le> cap0" and w1: "u1 \<le> length w1" "length w1 \<le> cap1"
    using machine_serializerD [OF assms(4,7,9,13)] machine_serializerD [OF assms(4,7,10,15)] by (auto simp: cap)
  have wl: "ul \<le> length wl" "length wl \<le> ?lcap"
    using link_serializerD [OF assms(4,8,11,16)] by auto
  obtain b0 where b0: "blit (replicate (length buffer) 0) 112 w0 = Some b0"
    using w0(2) size assms(6) by (simp add: blit_def)
  obtain b1 where b1: "blit b0 (112 + u0) w1 = Some b1"
    using w0 w1(2) size assms(6,13) blit_length [OF b0] cap by (simp add: blit_def)
  obtain b2 where b2: "blit b1 (112 + u0 + u1) wl = Some b2"
    using w0 w1 wl(2) size assms(6,13,15) blit_length [OF b0] blit_length [OF b1] cap by (simp add: blit_def)
  have len: "length b2 = length buffer"
    using blit_length [OF b0] blit_length [OF b1] blit_length [OF b2] by simp
  have small: "112 + u0 + u1 + ul \<le> 112 + cap0 + cap1 + ?lcap"
    using assms(13,15,16) cap by simp
  have room: "112 + u0 + u1 + ul \<le> length b2"
    using small size assms(6) len by linarith
  from write_header_total [OF room assms(17,18)] obtain bs where
    header: "write_header ops session u0 u1 ul (112 + u0 + u1 + ul) b2 = Some bs" by blast
  note image = write_header_image [OF header room]
  have slices: "slice bs 112 u0 = Some (take u0 w0)" "slice bs (112 + u0) u1 = Some (take u1 w1)"
    "slice bs (112 + u0 + u1) ul = Some (take ul wl)"
    using slice_prefix [OF slice_blit_same [OF b0] w0(1)] slice_prefix [OF slice_blit_same [OF b1] w1(1)]
      slice_prefix [OF slice_blit_same [OF b2] wl(1)]
    by (simp_all add: image(3) slice_blit_disjoint [OF b1] slice_blit_disjoint [OF b2])
  have "checked_add (112 + u0 + u1) ul = Some (112 + u0 + u1 + ul)"
    using small size(2) by (simp add: checked_add_def)
  then have "dualboy_state_serialize session (Some buffer) =
      Some (True, Some bs, session\<lparr>pair := Some (address, p2)\<rparr>)"
    using assms cap b0 b1 b2 header
    by (simp add: dualboy_state_serialize_def DUALBOY_STATE_HEADER_SIZE_def)
  moreover have "check_state session bs = Some (Some (link_enabled session, u0, u1, ul))"
    using small size(2) assms(12-16)
    by (intro check_state_image [OF assms(1,2) image(1)]) auto
  ultimately show ?thesis using slices image(2) len by simp
qed

lemma demo_state_size: "dualboy_state_size demo_session = 117"
  using demo_state_ops_valid
  by (simp add: dualboy_state_size_def checked_add_def DUALBOY_STATE_HEADER_SIZE_def SIZE_MAX_def)

lemma demo_state_operations:
  "set_link demo_engine = Some (\<lambda>p enabled. (True, p\<lparr>cable := enabled\<rparr>))"
  "serialize_machine demo_engine = Some (\<lambda>p m capacity.
     (if capacity < 2 \<or> 2 \<le> m then (False, [], 0) else (True, demo_machine p m, 2), p))"
  "unserialize_machine demo_engine = Some demo_set_machine"
  "serialize_link demo_engine = Some (\<lambda>p capacity.
     if capacity < 1 then (False, [], 0) else (True, [if cable p then 1 else 0], 1))"
  "unserialize_link demo_engine = Some (\<lambda>p data. (data \<noteq> [], p\<lparr>cable := data \<noteq> [] \<and> data ! 0 \<noteq> 0\<rparr>))"
  "memory_info demo_engine = Some (\<lambda>p m kind. if kind = DUALBOY_MEMORY_SAVE_RAM \<and> m < 2
     then Some (True, [if m = 0 then ram0 p else ram1 p]) else None)"
  "memory_store demo_engine = (\<lambda>p m kind data. if kind = DUALBOY_MEMORY_SAVE_RAM \<and> m < 2
     then if m = 0 then p\<lparr>ram0 := data ! 0\<rparr> else p\<lparr>ram1 := data ! 0\<rparr> else p)"
  by (simp_all add: demo_engine_def)

lemma demo_serialize:
  obtains bs where "dualboy_state_serialize demo_session (Some (replicate 117 0)) = Some (True, Some bs, demo_session)"
    and "check_state demo_session bs = Some (Some (True, 2, 2, 1))"
    and "slice bs 112 2 = Some [5, 7]" and "slice bs 114 2 = Some [6, 8]" and "slice bs 116 1 = Some [1]"
proof -
  have same: "demo_session\<lparr>pair := Some (9, demo_pair_state)\<rparr> = demo_session"
    by (simp add: demo_session_def)
  have "\<exists>bs. dualboy_state_serialize demo_session (Some (replicate 117 0)) = Some (True, Some bs, demo_session) \<and>
     length bs = 117 \<and> check_state demo_session bs = Some (Some (True, 2, 2, 1)) \<and>
     slice bs 112 2 = Some [5, 7] \<and> slice bs 114 2 = Some [6, 8] \<and> slice bs 116 1 = Some [1]"
    using serialize_accepted [OF demo_state_ops_valid demo_session_fields(1,2) demo_serializer_contract, of
        "replicate 117 0", OF _ _ demo_state_operations(2,4), of "[5, 7]" 2 demo_pair_state "[6, 8]" 2 demo_pair_state
        "[1]" 1] demo_rom_crc
    by (simp add: demo_state_size same demo_machine_def) (simp add: demo_pair_state_def)
  then show thesis using that by blast
qed

text \<open>
  C22. What serialization produces is what a restore accepts and reads back. When both engines'
  serializers succeed, the state written into a buffer of the advertised size keeps the buffer's
  length, passes every check of the session that wrote it, and its three payloads are exactly the
  bytes the machines and the link reported.
\<close>

theorem state_serialize_accepted:
  assumes "state_ops_valid session" and "engine session = Some ops" and "pair session = Some (address, p0)"
    and "serializer_contract ops" and "0 < dualboy_state_size session" and "dualboy_state_size session \<le> length buffer"
    and "serialize_machine ops = Some f" and "serialize_link ops = Some fl"
    and "f p0 0 (fst (machine_state_capacity session)) = ((True, w0, u0), p1)"
    and "f p1 1 (snd (machine_state_capacity session)) = ((True, w1, u1), p2)"
    and "fl p2 (link_state_capacity session) = (True, wl, ul)"
    and "0 < u0" and "u0 \<le> fst (machine_state_capacity session)"
    and "0 < u1" and "u1 \<le> snd (machine_state_capacity session)" and "ul \<le> link_state_capacity session"
    and "rom_crc (fst (roms session)) \<noteq> None" and "rom_crc (snd (roms session)) \<noteq> None"
  shows "\<exists>bs. dualboy_state_serialize session (Some buffer) =
      Some (True, Some bs, session\<lparr>pair := Some (address, p2)\<rparr>) \<and> length bs = length buffer \<and>
    check_state session bs = Some (Some (link_enabled session, u0, u1, ul)) \<and>
    slice bs 112 u0 = Some (take u0 w0) \<and> slice bs (112 + u0) u1 = Some (take u1 w1) \<and>
    slice bs (112 + u0 + u1) ul = Some (take ul wl)"
  by (rule serialize_accepted [OF assms])

theorem state_serialize_accepted_witness:
  "\<exists>bs. dualboy_state_serialize demo_session (Some (replicate 120 9)) = Some (True, Some bs, demo_session) \<and>
     length bs = 120 \<and> check_state demo_session bs = Some (Some (True, 2, 2, 1)) \<and>
     slice bs 112 2 = Some [5, 7] \<and> slice bs 114 2 = Some [6, 8] \<and> slice bs 116 1 = Some [1]"
proof -
  have same: "demo_session\<lparr>pair := Some (9, demo_pair_state)\<rparr> = demo_session"
    by (simp add: demo_session_def)
  show ?thesis
    using state_serialize_accepted [OF demo_state_ops_valid demo_session_fields(1,2) demo_serializer_contract, of
        "replicate 120 9", OF _ _ demo_state_operations(2,4), of "[5, 7]" 2 demo_pair_state "[6, 8]" 2 demo_pair_state
        "[1]" 1] demo_rom_crc
    by (simp add: demo_state_size same demo_machine_def) (simp add: demo_pair_state_def)
qed

end
