(* ===== verification/State_Restore.thy ===== *)
theory State_Restore
  imports State
begin

text \<open>
  The guarantees of a restore, \<open>dualboy_state_unserialize_ex\<close> of \<open>src/frontend/state.c\<close>: it
  returns for every input and releases every buffer, a rejected state leaves the session as it
  was, and battery memory survives every outcome. What these rely on in an engine is stated as
  laws over its operations, which the demonstration engine of the session theory satisfies.
\<close>

section \<open>Transactions\<close>

text \<open>
  What a savestate is worth is a matter of the engine: an adapter keeps its battery memory and
  empties its audio queue when it loads a state. The properties are therefore stated for a view of
  the pair, \<open>mach p m\<close> of each machine and \<open>lnk p\<close> of the link, and hold for every view that the
  engine's states carry: taking a state does not change the view; a state that was taken from \<open>q\<close> and
  is accepted gives that machine, or the link, its view in \<open>q\<close> and leaves the view of the other
  machine alone; and battery memory, which no restore may touch, is not part of the view. Nothing is
  said of what lies outside the view.
\<close>

definition states_preserve ::
  "'p dualboy_engine_ops \<Rightarrow> ('p \<Rightarrow> nat \<Rightarrow> 'm) \<Rightarrow> ('p \<Rightarrow> 'l) \<Rightarrow> bool" where
  "states_preserve ops mach lnk \<longleftrightarrow> (\<forall>f p m capacity answer p'. serialize_machine ops = Some f \<and>
     f p m capacity = (answer, p') \<longrightarrow> mach p' = mach p \<and> lnk p' = lnk p)"

definition machine_states_apply :: "'p dualboy_engine_ops \<Rightarrow> ('p \<Rightarrow> nat \<Rightarrow> 'm) \<Rightarrow> bool" where
  "machine_states_apply ops mach \<longleftrightarrow>
     (\<forall>f g p q m capacity written used q' p'. serialize_machine ops = Some f \<and> unserialize_machine ops = Some g \<and>
        f q m capacity = ((True, written, used), q') \<and> used \<le> capacity \<and> g p m (take used written) = (True, p') \<longrightarrow>
        mach p' m = mach q m \<and> (\<forall>m'. m' \<noteq> m \<longrightarrow> mach p' m' = mach p m'))"

definition link_states_apply :: "'p dualboy_engine_ops \<Rightarrow> ('p \<Rightarrow> nat \<Rightarrow> 'm) \<Rightarrow> ('p \<Rightarrow> 'l) \<Rightarrow> bool" where
  "link_states_apply ops mach lnk \<longleftrightarrow>
     (\<forall>f g p q capacity written used p'. serialize_link ops = Some f \<and> unserialize_link ops = Some g \<and>
        f q capacity = (True, written, used) \<and> used \<le> capacity \<and> g p (take used written) = (True, p') \<longrightarrow>
        lnk p' = lnk q \<and> mach p' = mach p)"

definition carried_by_states ::
  "'p dualboy_engine_ops \<Rightarrow> ('p \<Rightarrow> nat \<Rightarrow> 'm) \<Rightarrow> ('p \<Rightarrow> 'l) \<Rightarrow> bool" where
  "carried_by_states ops mach lnk \<longleftrightarrow>
     states_preserve ops mach lnk \<and> machine_states_apply ops mach \<and> link_states_apply ops mach lnk \<and>
     (\<forall>p m kind data. (m, kind) \<in> set battery_regions \<longrightarrow>
        mach (memory_store ops p m kind data) = mach p \<and> lnk (memory_store ops p m kind data) = lnk p)"

lemma carried_by_statesD:
  assumes "carried_by_states ops mach lnk"
  shows "states_preserve ops mach lnk" and "machine_states_apply ops mach" and "link_states_apply ops mach lnk"
    and "(m, kind) \<in> set battery_regions \<Longrightarrow> mach (memory_store ops p m kind data) = mach p"
    and "(m, kind) \<in> set battery_regions \<Longrightarrow> lnk (memory_store ops p m kind data) = lnk p"
  using assms unfolding carried_by_states_def by blast+

text \<open>The protection of battery memory relies on more: that taking a state changes nothing at all.\<close>

definition states_pure :: "'p dualboy_engine_ops \<Rightarrow> bool" where
  "states_pure ops \<longleftrightarrow> (\<forall>f p m capacity answer p'. serialize_machine ops = Some f \<and>
     f p m capacity = (answer, p') \<longrightarrow> p' = p)"

lemma snapshot_machine_content:
  assumes "snapshot_machine ops capacity m p h = Some ((True, part), p', h')"
  shows "\<exists>f written used. serialize_machine ops = Some f \<and> f p m capacity = ((True, written, used), p') \<and>
    used \<le> capacity \<and> snd part = take used written"
  using assms
  by (auto simp: snapshot_machine_def serialized_def slice_def split: if_splits Option.bind_splits option.splits prod.splits)

lemma snapshot_link_content:
  assumes "snapshot_link ops capacity p h = Some ((True, part), h')"
  shows "\<exists>f written used. serialize_link ops = Some f \<and> f p capacity = (True, written, used) \<and>
    used \<le> capacity \<and> snd part = take used written"
  using assms
  by (auto simp: snapshot_link_def serialized_def slice_def Let_def split: if_splits Option.bind_splits option.splits prod.splits)

lemma snapshot_machine_pure:
  assumes "snapshot_machine ops capacity m p h = Some (result, p', h')" and "states_pure ops"
  shows "p' = p"
proof -
  have pure: "p' = p" if "serialize_machine ops = Some f" and "f p m capacity = (answer, p')" for f p' answer
    using assms(2) that unfolding states_pure_def by blast
  show ?thesis
    using assms(1)
    by (auto simp: snapshot_machine_def split: if_splits Option.bind_splits option.splits prod.splits dest: pure)
qed

lemma snapshot_state_pure:
  assumes "snapshot_state session ops p h = Some (snapshot, p', h')" and "states_pure ops"
  shows "p' = p"
  using assms(1)
  by (auto simp: snapshot_state_def Let_def split: if_splits Option.bind_splits
      dest!: snapshot_machine_pure [OF _ assms(2)])

lemma snapshot_machine_view:
  assumes "snapshot_machine ops capacity m p h = Some (result, p', h')" and "states_preserve ops mach lnk"
  shows "mach p' = mach p \<and> lnk p' = lnk p"
proof -
  have view: "mach p' = mach p \<and> lnk p' = lnk p"
    if "serialize_machine ops = Some f" and "f p m capacity = (answer, p')" for f p' answer
    using assms(2) that unfolding states_preserve_def by blast
  show ?thesis
    using assms(1)
    by (auto simp: snapshot_machine_def split: if_splits Option.bind_splits option.splits prod.splits dest: view)
qed

lemma snapshot_state_view:
  assumes "snapshot_state session ops p h = Some (snapshot, p', h')" and "states_preserve ops mach lnk"
  shows "mach p' = mach p \<and> lnk p' = lnk p"
  using assms(1)
  by (auto simp: snapshot_state_def Let_def split: if_splits Option.bind_splits
      dest!: snapshot_machine_view [OF _ assms(2)])

text \<open>
  A state of a machine, and of the link, that shows what a view shows of a given pair: the engine
  wrote it for a pair with that view.
\<close>

definition machine_state_of ::
  "'p dualboy_engine_ops \<Rightarrow> ('p \<Rightarrow> nat \<Rightarrow> 'm) \<Rightarrow> 'p \<Rightarrow> nat \<Rightarrow> bytes \<Rightarrow> bool" where
  "machine_state_of ops mach p m state \<longleftrightarrow>
     (\<exists>f q q' capacity written used. serialize_machine ops = Some f \<and> mach q = mach p \<and>
        f q m capacity = ((True, written, used), q') \<and> used \<le> capacity \<and> state = take used written)"

definition link_state_of :: "'p dualboy_engine_ops \<Rightarrow> ('p \<Rightarrow> 'l) \<Rightarrow> 'p \<Rightarrow> bytes \<Rightarrow> bool" where
  "link_state_of ops lnk p state \<longleftrightarrow>
     (\<exists>f q capacity written used. serialize_link ops = Some f \<and> lnk q = lnk p \<and>
        f q capacity = (True, written, used) \<and> used \<le> capacity \<and> state = take used written)"

lemma snapshot_state_content:
  assumes "snapshot_state session ops p h = Some (Some parts, p', h')" and "states_preserve ops mach lnk"
  shows "machine_state_of ops mach p 0 (snd (part_machine0 parts))"
    and "machine_state_of ops mach p 1 (snd (part_machine1 parts))"
    and "link_state_of ops lnk p (snd (part_link parts))"
proof -
  from assms(1) obtain part0 p1 h1 part1 p2 h2 part2 where
    s0: "snapshot_machine ops (fst (machine_state_capacity session)) 0 p h = Some ((True, part0), p1, h1)"
    and s1: "snapshot_machine ops (snd (machine_state_capacity session)) 1 p1 h1 = Some ((True, part1), p2, h2)"
    and s2: "snapshot_link ops (link_state_capacity session) p2 h2 = Some ((True, part2), h')"
    and parts: "parts = zero_parts\<lparr>part_machine0 := part0, part_machine1 := part1, part_link := part2\<rparr>"
    by (auto simp: snapshot_state_def Let_def split: if_splits Option.bind_splits)
  have view: "mach p1 = mach p" "lnk p2 = lnk p"
    using snapshot_machine_view [OF s0 assms(2)] snapshot_machine_view [OF s1 assms(2)] by auto
  show "machine_state_of ops mach p 0 (snd (part_machine0 parts))"
    using snapshot_machine_content [OF s0] unfolding machine_state_of_def parts by fastforce
  show "machine_state_of ops mach p 1 (snd (part_machine1 parts))"
    using snapshot_machine_content [OF s1] view unfolding machine_state_of_def parts by fastforce
  show "link_state_of ops lnk p (snd (part_link parts))"
    using snapshot_link_content [OF s2] view unfolding link_state_of_def parts by fastforce
qed

text \<open>Applying states of a view, whatever the pair was like before, brings the view back.\<close>

lemma states_applied:
  assumes "carried_by_states ops mach lnk" and "unserialize_machine ops = Some g" and "unserialize_link ops = Some gl"
    and "machine_state_of ops mach p 0 s0" and "machine_state_of ops mach p 1 s1" and "link_state_of ops lnk p sl"
    and "g q1 0 s0 = (True, q2)" and "g q2 1 s1 = (True, q3)" and "gl q3 sl = (True, r)"
  shows "mach r 0 = mach p 0 \<and> mach r 1 = mach p 1 \<and> lnk r = lnk p"
proof -
  have machine: "mach r m = mach p m \<and> (\<forall>m'. m' \<noteq> m \<longrightarrow> mach r m' = mach q m')"
    if "machine_state_of ops mach p m s" and "g q m s = (True, r)" for q r m s
  proof -
    from that(1) obtain f q0 q0' capacity written used where "serialize_machine ops = Some f" and
      q0: "mach q0 = mach p" and "f q0 m capacity = ((True, written, used), q0')" "used \<le> capacity"
      and "s = take used written"
      unfolding machine_state_of_def by blast
    with carried_by_statesD(2) [OF assms(1)] assms(2) that(2)
    have "mach r m = mach q0 m \<and> (\<forall>m'. m' \<noteq> m \<longrightarrow> mach r m' = mach q m')"
      unfolding machine_states_apply_def by blast
    then show ?thesis using q0 by simp
  qed
  have "lnk r = lnk p \<and> mach r = mach q3"
  proof -
    from assms(6) obtain f q0 capacity written used where "serialize_link ops = Some f" and
      q0: "lnk q0 = lnk p" and "f q0 capacity = (True, written, used)" "used \<le> capacity"
      and "sl = take used written"
      unfolding link_state_of_def by blast
    with carried_by_statesD(3) [OF assms(1)] assms(3,9) have "lnk r = lnk q0 \<and> mach r = mach q3"
      unfolding link_states_apply_def by blast
    then show ?thesis using q0 by simp
  qed
  then show ?thesis
    using machine [OF assms(4,7)] machine [OF assms(5,8)] by simp
qed

lemma rollback_restores:
  assumes "carried_by_states ops mach lnk" and "snapshot_state session ops p h = Some (Some parts, p', h')"
    and "rollback_state ops parts link q = Some (True, r)"
  shows "mach r 0 = mach p 0 \<and> mach r 1 = mach p 1 \<and> lnk r = lnk p"
proof -
  from assms(3) obtain g gl q1 q2 q3 where g: "unserialize_machine ops = Some g" "unserialize_link ops = Some gl"
    and q: "g q1 0 (snd (part_machine0 parts)) = (True, q2)" "g q2 1 (snd (part_machine1 parts)) = (True, q3)"
      "gl q3 (snd (part_link parts)) = (True, r)"
    by (auto simp: rollback_state_def split: Option.bind_splits prod.splits)
  show ?thesis
    by (rule states_applied [OF assms(1) g snapshot_state_content [OF assms(2) carried_by_statesD(1) [OF assms(1)]] q])
qed

lemma copy_regions_own:
  assumes "copy_regions info p regions copies h = (ok, copies', h')"
    and "\<forall>(m, kind, a, data) \<in> set copies. info p m kind = Some (True, data)"
  shows "\<forall>(m, kind, a, data) \<in> set copies'. info p m kind = Some (True, data)"
  using assms
proof (induction info p regions copies h rule: copy_regions.induct)
  case (1 info p copies h)
  then show ?case by simp
next
  case (2 info p m' kind' regions copies h)
  show ?case
  proof (cases "info p m' kind'")
    case None
    with 2 show ?thesis by simp
  next
    case (Some region)
    obtain present data where region: "region = (present, data)" by (cases region)
    obtain a h1 where alloc: "malloc h = (a, h1)" by fastforce
    show ?thesis
    proof (cases "data \<noteq> [] \<and> present \<and> a \<noteq> None")
      case True
      then obtain x where x: "a = Some x" by auto
      have "\<forall>(m, kind, a, data) \<in> set (copies @ [(m', kind', x, data)]). info p m kind = Some (True, data)"
        using 2(5) Some region True by simp
      moreover have "copy_regions info p regions (copies @ [(m', kind', x, data)]) h1 = (ok, copies', h')"
        using 2(4) Some region True x alloc by simp
      ultimately show ?thesis
        using 2(3) [OF Some region [symmetric] _ _ alloc [symmetric] x] True by blast
    next
      case False
      with 2 Some region alloc show ?thesis by (cases a) (auto split: if_splits)
    qed
  qed
qed

lemma copy_battery_own:
  assumes "copy_battery ops p h = (ok, copies, h')"
  shows "\<forall>(m, kind, a, data) \<in> set copies. \<exists>info. memory_info ops = Some info \<and> info p m kind = Some (True, data)"
  using assms copy_regions_own [of _ p battery_regions "[]" h ok copies h']
  by (cases "memory_info ops") (auto simp: copy_battery_def)

lemma copy_regions_among:
  assumes "copy_regions info p regions copies h = (ok, copies', h')"
    and "\<forall>(m, kind, a, data) \<in> set copies. (m, kind) \<in> R" and "set regions \<subseteq> R"
  shows "\<forall>(m, kind, a, data) \<in> set copies'. (m, kind) \<in> R"
  using assms
proof (induction info p regions copies h rule: copy_regions.induct)
  case (2 info p m' kind' regions copies h)
  then show ?case by (fastforce split: option.splits if_splits prod.splits)
qed simp

lemma poke_battery_view:
  assumes "carried_by_states ops mach lnk" and "copy_battery ops p h = (ok, copies, h')"
  shows "mach (poke_battery ops copies q) = mach q \<and> lnk (poke_battery ops copies q) = lnk q"
proof -
  have "\<forall>(m, kind, a, data) \<in> set copies. (m, kind) \<in> set battery_regions"
    using assms(2) copy_regions_among [of _ p battery_regions "[]" h ok copies h' "set battery_regions"]
    by (cases "memory_info ops") (auto simp: copy_battery_def)
  then show ?thesis
  proof (induction copies arbitrary: q)
    case (Cons copy copies)
    obtain m kind a data where copy: "copy = (m, kind, a, data)" by (cases copy)
    with Cons.prems have "(m, kind) \<in> set battery_regions" by simp
    moreover have "poke_battery ops (copy # copies) q = poke_battery ops copies (memory_store ops q m kind data)"
      by (simp add: poke_battery_def copy)
    ultimately show ?case
      using Cons.IH [of "memory_store ops q m kind data"] Cons.prems carried_by_statesD(4,5) [OF assms(1)] by auto
  qed (simp add: poke_battery_def)
qed

text \<open>
  What the protection of battery memory relies on: a memory region keeps its presence and size
  for the lifetime of a pair, and storing to one region replaces its bytes and no other region's.
\<close>

definition battery_law :: "'p dualboy_engine_ops \<Rightarrow> bool" where
  "battery_law ops \<longleftrightarrow> (\<forall>info. memory_info ops = Some info \<longrightarrow>
     (\<forall>p q m kind data. info p m kind = Some (True, data) \<longrightarrow>
        (\<exists>data'. info q m kind = Some (True, data') \<and> length data' = length data)) \<and>
     (\<forall>p m kind data old. info p m kind = Some (True, old) \<and> length old = length data \<longrightarrow>
        (\<forall>m' kind'. info (memory_store ops p m kind data) m' kind' =
           (if m' = m \<and> kind' = kind then Some (True, data) else info p m' kind'))))"

lemma battery_lawD:
  assumes "battery_law ops" and "memory_info ops = Some info" and "info p m kind = Some (True, data)"
  shows "info (memory_store ops q m kind data) m' kind' =
    (if m' = m \<and> kind' = kind then Some (True, data) else info q m' kind')"
proof -
  from assms obtain data' where "info q m kind = Some (True, data')" "length data' = length data"
    unfolding battery_law_def by blast
  with assms(1,2) show ?thesis unfolding battery_law_def by blast
qed

lemma poke_battery_info:
  assumes "battery_law ops" and "memory_info ops = Some info"
    and "\<forall>(m, kind, a, data) \<in> set copies. info p m kind = Some (True, data)"
    and "info p m kind = Some (True, data)"
  shows "info (poke_battery ops copies q) m kind =
    (if \<exists>a d. (m, kind, a, d) \<in> set copies then Some (True, data) else info q m kind)"
  using assms(3)
proof (induction copies arbitrary: q)
  case Nil
  then show ?case by (simp add: poke_battery_def)
next
  case (Cons copy copies)
  obtain m1 kind1 a1 data1 where copy: "copy = (m1, kind1, a1, data1)" by (cases copy)
  with Cons.prems have own: "info p m1 kind1 = Some (True, data1)" by simp
  have "poke_battery ops (copy # copies) q = poke_battery ops copies (memory_store ops q m1 kind1 data1)"
    by (simp add: poke_battery_def copy)
  with Cons.IH [of "memory_store ops q m1 kind1 data1"] Cons.prems
    battery_lawD [OF assms(1,2) own, of q m kind] own assms(4)
  show ?case by (auto simp: copy)
qed

lemma copy_regions_prefix:
  "copy_regions info p regions copies h = (ok, copies', h') \<Longrightarrow> set copies \<subseteq> set copies'"
proof (induction info p regions copies h rule: copy_regions.induct)
  case (2 info p m kind regions copies h)
  then show ?case by (fastforce split: option.splits if_splits prod.splits)
qed simp

lemma copy_regions_complete:
  assumes "copy_regions info p regions copies h = (True, copies', h')" and "(m, kind) \<in> set regions"
    and "info p m kind = Some (True, data)" and "data \<noteq> []"
  shows "\<exists>a. (m, kind, a, data) \<in> set copies'"
  using assms(1,2)
proof (induction regions arbitrary: copies h)
  case (Cons region regions)
  obtain m1 kind1 where region: "region = (m1, kind1)" by (cases region)
  show ?case
  proof (cases "(m, kind) = (m1, kind1)")
    case True
    with Cons.prems(1) region assms(3,4) obtain a h1 where
      "copy_regions info p regions (copies @ [(m, kind, a, data)]) h1 = (True, copies', h')"
      by (auto split: option.splits prod.splits)
    from copy_regions_prefix [OF this] show ?thesis by auto
  next
    case False
    with Cons.prems region have "(m, kind) \<in> set regions" by auto
    moreover from Cons.prems(1) region obtain copies1 h1 where
      "copy_regions info p regions copies1 h1 = (True, copies', h')"
      by (auto split: option.splits prod.splits if_splits)
    ultimately show ?thesis by (rule Cons.IH [rotated])
  qed
qed simp

lemma check_state_same:
  assumes "state_ops_valid s" and "state_ops_valid t" and "engine s = Some ops" and "engine t = Some ops'"
    and "family ops' = family ops" and "roms t = roms s" and "machine_state_capacity t = machine_state_capacity s"
    and "link_state_capacity t = link_state_capacity s"
  shows "check_state t bs = check_state s bs"
  unfolding check_state_def by (simp only: assms simp_thms if_False bind.bind_lunit)

lemma same_pair: "pair session = Some x \<Longrightarrow> session\<lparr>pair := Some x\<rparr> = session"
  by (cases session) simp

text \<open>The saved link flag, and the three payloads of a buffer that serialization has written.\<close>

lemma check_state_link:
  assumes "check_state session bs = Some (Some (saved_link, n0, n1, n2))"
    and "get_u32 bs 36 = Some (if link then 1 else 0)"
  shows "saved_link = link"
  using assms unfolding check_state_def Let_def
  by (simp add: DUALBOY_STATE_FLAG_LINK_ENABLED_def split: if_splits Option.bind_splits option.splits)

lemma serialize_written:
  assumes "dualboy_state_serialize session (Some buffer) = Some (True, Some bs, session1)"
    and "engine session = Some ops" and "pair session = Some (address, p0)" and "serializer_contract ops"
    and "states_preserve ops mach lnk"
  obtains u0 u1 ul s0 s1 sl where "machine_state_of ops mach p0 0 s0" and "machine_state_of ops mach p0 1 s1"
    and "link_state_of ops lnk p0 sl"
    and "state_image ops session u0 u1 ul bs" and "112 + u0 + u1 + ul \<le> SIZE_MAX"
    and "slice bs 112 u0 = Some s0" and "slice bs (112 + u0) u1 = Some s1"
    and "slice bs (112 + u0 + u1) ul = Some sl"
proof -
  obtain cap0 cap1 where cap: "machine_state_capacity session = (cap0, cap1)" by fastforce
  from assms(1-3) cap obtain f fl w0 u0 p1 w1 u1 p2 wl ul b0 b1 b2 where
    f: "serialize_machine ops = Some f" "serialize_link ops = Some fl"
    and s0: "f p0 0 cap0 = ((True, w0, u0), p1)" "u0 \<le> cap0"
    and s1: "f p1 1 cap1 = ((True, w1, u1), p2)" "u1 \<le> cap1"
    and sl: "fl p2 (link_state_capacity session) = (True, wl, ul)" "ul \<le> link_state_capacity session"
    and b0: "blit (replicate (length buffer) 0) 112 w0 = Some b0"
    and b1: "blit b0 (112 + u0) w1 = Some b1" and b2: "blit b1 (112 + u0 + u1) wl = Some b2"
    and total: "112 + u0 + u1 + ul \<le> SIZE_MAX"
    and header: "write_header ops session u0 u1 ul (112 + u0 + u1 + ul) b2 = Some bs"
    by (auto simp: dualboy_state_serialize_def Let_def DUALBOY_STATE_HEADER_SIZE_def checked_add_def
        split: if_splits Option.bind_splits option.splits prod.splits)
  have view: "mach p1 = mach p0" "lnk p2 = lnk p0"
    using assms(5) f(1) s0(1) s1(1) unfolding states_preserve_def by metis+
  have states: "machine_state_of ops mach p0 0 (take u0 w0)" "machine_state_of ops mach p0 1 (take u1 w1)"
    "link_state_of ops lnk p0 (take ul wl)"
    using f s0 s1 sl view unfolding machine_state_of_def link_state_of_def by blast+
  have w: "u0 \<le> length w0" "u1 \<le> length w1" "ul \<le> length wl"
    using machine_serializerD [OF assms(4) f(1) s0] machine_serializerD [OF assms(4) f(1) s1]
      link_serializerD [OF assms(4) f(2) sl] by auto
  have room: "112 + u0 + u1 + ul \<le> length b2"
    using b2 w(3) blit_length [OF b2] by (auto simp: blit_def split: if_splits)
  note header_image = write_header_image [OF header room]
  have "slice bs 112 u0 = Some (take u0 w0)" "slice bs (112 + u0) u1 = Some (take u1 w1)"
    "slice bs (112 + u0 + u1) ul = Some (take ul wl)"
    using slice_prefix [OF slice_blit_same [OF b0] w(1)] slice_prefix [OF slice_blit_same [OF b1] w(2)]
      slice_prefix [OF slice_blit_same [OF b2] w(3)]
    by (simp_all add: header_image(3) slice_blit_disjoint [OF b1] slice_blit_disjoint [OF b2])
  with header_image(1) total show thesis by (intro that [OF states]) simp_all
qed

section \<open>Properties of the restore\<close>

text \<open>
  C20. A restore is safe for every input. Whatever bytes it is given, whichever allocation fails and
  whatever the engine answers, it returns; every temporary buffer it allocated has been released
  exactly once and nothing else was; only the engine pair and the link flag of the session can have
  changed; and an input that fails validation changes nothing at all.
\<close>

theorem state_restore_safe:
  assumes "owns_beside base [] h"
    and "engine session = Some ops" and "serializer_contract ops" and "set_link ops \<noteq> None"
    and "rom_crc (fst (roms session)) \<noteq> None" and "rom_crc (snd (roms session)) \<noteq> None"
  shows "\<exists>result session' h'. dualboy_state_unserialize_ex session data h = Some (result, session', h') \<and>
    live h' = base \<and> session'\<lparr>pair := pair session, link_enabled := link_enabled session\<rparr> = session \<and>
    (result \<noteq> DUALBOY_STATE_RESTORE_OK \<longrightarrow> link_enabled session' = link_enabled session) \<and>
    (\<forall>bs. data = Some bs \<and> check_state session bs = Some None \<longrightarrow>
       result = DUALBOY_STATE_RESTORE_REJECTED \<and> session' = session \<and> h' = h)"
proof -
  have live: "live h' = base" if "owns_beside base [] h'" for h'
    using that by (simp add: owns_beside_def)
  show ?thesis
  proof (cases data)
    case None
    then show ?thesis using live [OF assms(1)] by (simp add: dualboy_state_unserialize_ex_def)
  next
    case (Some bs)
    from check_state_total [OF assms(5,6)] obtain checked where checked: "check_state session bs = Some checked" by blast
    show ?thesis
    proof (cases checked)
      case None
      then show ?thesis
        using Some checked live [OF assms(1)] by (simp add: dualboy_state_unserialize_ex_def)
    next
      case (Some fields)
      then obtain saved_link n0 n1 n2 where check: "check_state session bs = Some (Some (saved_link, n0, n1, n2))"
        using checked by (cases fields) auto
      then have "pair session \<noteq> None" using check_state_Some [OF check] by (simp add: state_ops_valid_def)
      then obtain address p0 where pair: "pair session = Some (address, p0)" by auto
      from check assms(2) pair assms(1,3,4) show ?thesis
      proof (cases rule: restore_cases)
        case (no_snapshot p1 h1)
        with \<open>data = Some bs\<close> check live show ?thesis by simp
      next
        case (unprotected parts p1 h1 battery h2 h4)
        with \<open>data = Some bs\<close> check live show ?thesis by simp
      next
        case (tried parts p1 h1 battery h2 h4 applied p2 rollback_ok p3)
        with \<open>data = Some bs\<close> check live show ?thesis by (cases applied) simp_all
      qed
    qed
  qed
qed


lemma demo_restore_owns: "owns_beside {0} [] demo_heap"
  using demo_init_owns [where ?'a = demo_pair]
  by (simp add: session_owns_def session_pointers_def rom_pointers_def dualboy_session_init_def owns_beside_def zero_rom_def)

lemma demo_set_link: "set_link demo_engine \<noteq> None"
  by (simp add: demo_engine_def)

theorem state_restore_safe_witness:
  "\<exists>bs result session' h'. check_state demo_session bs = Some (Some (True, 2, 2, 1)) \<and>
     dualboy_state_unserialize_ex demo_session (Some bs) demo_heap = Some (result, session', h') \<and> live h' = {0}"
proof -
  obtain bs where "check_state demo_session bs = Some (Some (True, 2, 2, 1))"
    by (rule demo_accepts [of 1 2 3 4 5])
  moreover have "\<exists>result session' h'. dualboy_state_unserialize_ex demo_session (Some bs) demo_heap =
      Some (result, session', h') \<and> live h' = {0}"
    using state_restore_safe [OF demo_restore_owns demo_session_fields(1) demo_serializer_contract demo_set_link
        demo_rom_crc, of "Some bs"] by blast
  ultimately show ?thesis by blast
qed

text \<open>
  C17. A restore that does not succeed and is not fatal is a transaction. A rejected state, at
  whichever step it is refused, leaves every field of the session but the engine pair as it was;
  and in every view of the pair that the engine's states carry, both machines and the link are
  what they were before the call.
\<close>

theorem state_restore_transactional:
  assumes "carried_by_states ops mach lnk" and "engine session = Some ops" and "pair session = Some (address, p)"
    and "owns_beside base [] h" and "serializer_contract ops" and "set_link ops \<noteq> None"
    and "dualboy_state_unserialize_ex session data h = Some (DUALBOY_STATE_RESTORE_REJECTED, session', h')"
  shows "\<exists>p'. session' = session\<lparr>pair := Some (address, p')\<rparr> \<and>
    mach p' 0 = mach p 0 \<and> mach p' 1 = mach p 1 \<and> lnk p' = lnk p"
proof (cases "\<exists>bs fields. data = Some bs \<and> check_state session bs = Some (Some fields)")
  case False
  with assms(7) have "session' = session"
    by (auto simp: dualboy_state_unserialize_ex_def split: Option.bind_splits option.splits)
  with same_pair [OF assms(3)] show ?thesis by (intro exI [of _ p]) simp
next
  case True
  then obtain bs saved_link n0 n1 n2 where bs: "data = Some bs"
    and check: "check_state session bs = Some (Some (saved_link, n0, n1, n2))" by auto
  note preserve = carried_by_statesD(1) [OF assms(1)]
  from check assms(2-6) show ?thesis
  proof (cases rule: restore_cases)
    case (no_snapshot p1 h1)
    with bs assms(7) snapshot_state_view [OF no_snapshot(1) preserve] show ?thesis by auto
  next
    case (unprotected parts p1 h1 battery h2 h4)
    with bs assms(7) snapshot_state_view [OF unprotected(1) preserve]
      poke_battery_view [OF assms(1) unprotected(2), of p1] show ?thesis by auto
  next
    case (tried parts p1 h1 battery h2 h4 applied p2 rollback_ok p3)
    from tried(6) bs assms(7) have failed: "\<not> applied" "rollback_ok"
      and session': "session' = session\<lparr>pair := Some (address, poke_battery ops battery p3)\<rparr>"
      by (auto split: if_splits)
    have "mach p3 0 = mach p 0 \<and> mach p3 1 = mach p 1 \<and> lnk p3 = lnk p"
      by (rule rollback_restores [OF assms(1) tried(1)]) (use tried(5) failed in simp)
    with session' poke_battery_view [OF assms(1) tried(2), of p3] show ?thesis by auto
  qed
qed

text \<open>
  A view of the demonstration engine: the register of each machine and the cable. The RAM, which
  the states of this engine hold as well, is battery memory and lies outside the view.
\<close>

definition demo_view :: "demo_pair \<Rightarrow> nat \<Rightarrow> u8 option" where
  "demo_view p m = (if m = 0 then Some (register0 p) else if m = 1 then Some (register1 p) else None)"

lemma demo_view_updates [simp]:
  "demo_view (p\<lparr>cable := c\<rparr>) = demo_view p" "demo_view (p\<lparr>ram0 := b\<rparr>) = demo_view p"
  "demo_view (p\<lparr>ram1 := b\<rparr>) = demo_view p"
  by (simp_all add: demo_view_def fun_eq_iff)

lemma demo_states_pure: "states_pure demo_engine"
  by (simp add: states_pure_def demo_engine_def)

lemma demo_carried: "carried_by_states demo_engine demo_view cable"
proof -
  have "states_preserve demo_engine demo_view cable"
    by (simp add: states_preserve_def demo_engine_def)
  moreover have "machine_states_apply demo_engine demo_view"
    by (auto simp: machine_states_apply_def demo_engine_def demo_view_def demo_machine_def demo_set_machine_def
        split: if_splits)
  moreover have "link_states_apply demo_engine demo_view cable"
    by (auto simp: link_states_apply_def demo_engine_def split: if_splits)
  moreover have "demo_view (memory_store demo_engine p m kind data) = demo_view p \<and>
      cable (memory_store demo_engine p m kind data) = cable p" for p m kind data
    by (simp add: demo_engine_def)
  ultimately show ?thesis unfolding carried_by_states_def by blast
qed

lemma demo_battery_law: "battery_law demo_engine"
proof -
  have single: "[data ! 0] = data" if "Suc 0 = length data" for data :: bytes
    using that by (cases data) auto
  show ?thesis by (auto simp: battery_law_def demo_engine_def single split: if_splits)
qed

theorem state_restore_transactional_witness:
  "\<exists>bs session' h'. check_state demo_session bs = Some (Some (True, 2, 1, 0)) \<and>
     dualboy_state_unserialize_ex demo_session (Some bs) demo_heap =
       Some (DUALBOY_STATE_RESTORE_REJECTED, session', h') \<and>
     (\<exists>p'. session' = demo_session\<lparr>pair := Some (9, p')\<rparr> \<and> register0 p' = 5 \<and> register1 p' = 6 \<and> cable p')"
proof -
  obtain bs where bs: "check_state demo_session bs = Some (Some (True, 2, 1, 0))"
    "slice bs 112 2 = Some [1, 2]" "slice bs 114 1 = Some [3]" "slice bs 115 0 = Some []"
    by (rule demo_accepts_any [of "[1, 2]" "[3]" "[]"]) (auto simp: numeral_2_eq_2)
  have refused: "apply_state demo_engine bs True 2 1 0 demo_pair_state =
      Some (False, demo_pair_state\<lparr>register0 := 1, ram0 := 2\<rparr>)"
    using bs by (simp add: apply_state_def DUALBOY_STATE_HEADER_SIZE_def demo_state_operations demo_set_machine_def
        demo_pair_state_def)
  obtain session' h' where restore: "dualboy_state_unserialize_ex demo_session (Some bs) demo_heap =
      Some (DUALBOY_STATE_RESTORE_REJECTED, session', h')"
    using bs(1) refused
    by (simp add: dualboy_state_unserialize_ex_def snapshot_state_def snapshot_machine_def snapshot_link_def malloc_def
        demo_heap_def demo_state_operations demo_machine_def serialized_def slice_def copy_battery_def
        battery_regions_def demo_set_machine_def rollback_state_def zero_parts_def free_state_parts_def free_def)
  from state_restore_transactional [OF demo_carried demo_session_fields(1,2) demo_restore_owns
      demo_serializer_contract demo_set_link restore] bs(1) restore
  show ?thesis by (fastforce simp: demo_view_def demo_pair_state_def)
qed


text \<open>
  C18. A restore never changes battery memory. For an engine whose memory regions keep their size
  and can be stored independently, every non-empty save RAM or clock region holds after the call
  the bytes it held before, whether the state was applied, rejected at any stage, or failed so
  badly that the session has to be discarded.
\<close>

theorem state_restore_keeps_battery:
  assumes "battery_law ops" and "states_pure ops" and "engine session = Some ops" and "owns_beside base [] h"
    and "serializer_contract ops" and "set_link ops \<noteq> None" and "pair session = Some (address, p)"
    and "memory_info ops = Some info" and "(m, kind) \<in> set battery_regions"
    and "info p m kind = Some (True, bytes)" and "bytes \<noteq> []"
    and "dualboy_state_unserialize_ex session data h = Some (result, session', h')"
  shows "\<exists>p'. pair session' = Some (address, p') \<and> info p' m kind = Some (True, bytes)"
proof -
  have poked: "info (poke_battery ops battery q) m kind = Some (True, bytes)"
    if "copy_battery ops p h1 = (ok, battery, h2)" and "ok \<or> q = p" for ok battery h1 h2 q
  proof -
    have own: "\<forall>(m, kind, a, data) \<in> set battery. info p m kind = Some (True, data)"
      using copy_battery_own [OF that(1)] assms(8) by fastforce
    have "\<exists>a. (m, kind, a, bytes) \<in> set battery" if ok
      using \<open>copy_battery ops p h1 = (ok, battery, h2)\<close> that assms(8-11)
      by (intro copy_regions_complete [of info p battery_regions "[]" h1 battery h2]) (simp_all add: copy_battery_def)
    then show ?thesis
      using poke_battery_info [OF assms(1,8) own assms(10), of q] that(2) assms(10) by auto
  qed
  show ?thesis
  proof (cases "\<exists>bs fields. data = Some bs \<and> check_state session bs = Some (Some fields)")
    case False
    with assms(12) have "session' = session"
      by (auto simp: dualboy_state_unserialize_ex_def split: Option.bind_splits option.splits)
    with assms(7,10) show ?thesis by simp
  next
    case True
    then obtain bs saved_link n0 n1 n2 where bs: "data = Some bs"
      and check: "check_state session bs = Some (Some (saved_link, n0, n1, n2))" by auto
    from check assms(3,7,4,5,6) show ?thesis
    proof (cases rule: restore_cases)
      case (no_snapshot p1 h1)
      with bs assms(10,12) snapshot_state_pure [OF no_snapshot(1) assms(2)] show ?thesis by auto
    next
      case (unprotected parts p1 h1 battery h2 h4)
      with bs assms(12) snapshot_state_pure [OF unprotected(1) assms(2)] poked [of h1 False battery h2 p]
      show ?thesis by auto
    next
      case (tried parts p1 h1 battery h2 h4 applied p2 rollback_ok p3)
      with bs assms(12) snapshot_state_pure [OF tried(1) assms(2)] poked [of h1 True battery h2 p3]
      show ?thesis by auto
    qed
  qed
qed

theorem state_restore_keeps_battery_witness:
  "\<exists>bs result session' h' p'. check_state demo_session bs = Some (Some (True, 2, 2, 1)) \<and>
     dualboy_state_unserialize_ex demo_session (Some bs) demo_heap = Some (result, session', h') \<and>
     pair session' = Some (9, p') \<and> ram1 p' = 8"
proof -
  obtain bs where bs: "check_state demo_session bs = Some (Some (True, 2, 2, 1))"
    by (rule demo_accepts [of 1 2 3 4 0])
  from bs demo_session_fields(1,2) demo_restore_owns demo_serializer_contract demo_set_link
  obtain result session' h' where
    restore: "dualboy_state_unserialize_ex demo_session (Some bs) demo_heap = Some (result, session', h')"
    by (rule restore_cases) blast+
  from state_restore_keeps_battery [OF demo_battery_law demo_states_pure demo_session_fields(1) demo_restore_owns
      demo_serializer_contract demo_set_link demo_session_fields(2) demo_state_operations(6), of
      1 DUALBOY_MEMORY_SAVE_RAM "[8]", OF _ _ _ restore]
  have "\<exists>p'. pair session' = Some (9, p') \<and> ram1 p' = 8"
    by (auto simp: battery_regions_def demo_pair_state_def)
  with bs restore show ?thesis by blast
qed


text \<open>
  C19. A savestate brings the machines and the link back. Take a state written by one session and
  restore it, successfully, into a session with the same engine in whatever condition: in every view
  of the pair that the engine's states carry, both machines and the link are then what they were
  when the state was written, the link switch is the saved one, and the other fields of the session
  are as before. (What the battery memory holds then is the previous property.)
\<close>

theorem state_roundtrip:
  assumes "carried_by_states ops mach lnk" and "serializer_contract ops" and "set_link ops \<noteq> None"
    and "engine session = Some ops" and "pair session = Some (address, saved)"
    and "dualboy_state_serialize session (Some buffer) = Some (True, Some bs, session1)"
    and "engine now = Some ops" and "pair now = Some (here, p)" and "owns_beside base [] h"
    and "dualboy_state_unserialize_ex now (Some bs) h = Some (DUALBOY_STATE_RESTORE_OK, now', h')"
  shows "\<exists>p'. now' = now\<lparr>pair := Some (here, p'), link_enabled := link_enabled session\<rparr> \<and>
    mach p' 0 = mach saved 0 \<and> mach p' 1 = mach saved 1 \<and> lnk p' = lnk saved"
proof -
  note preserve = carried_by_statesD(1) [OF assms(1)]
  obtain u0 u1 ul s0 s1 sl where
    states: "machine_state_of ops mach saved 0 s0" "machine_state_of ops mach saved 1 s1" "link_state_of ops lnk saved sl"
    and header: "state_image ops session u0 u1 ul bs" and small: "112 + u0 + u1 + ul \<le> SIZE_MAX"
    and payloads: "slice bs 112 u0 = Some s0" "slice bs (112 + u0) u1 = Some s1"
      "slice bs (112 + u0 + u1) ul = Some sl"
    by (rule serialize_written [OF assms(6,4,5,2) preserve])
  from assms(10) obtain saved_link n0 n1 n2 where
    check: "check_state now bs = Some (Some (saved_link, n0, n1, n2))"
    by (auto simp: dualboy_state_unserialize_ex_def split: Option.bind_splits option.splits)
  have inj: "m = n" if "Some (of_nat m :: u64) = Some (of_nat n)" and "m \<le> SIZE_MAX" and "n \<le> SIZE_MAX" for m n
    using that by (metis option.inject unat_of_nat_size)
  have stored: "get_u64 bs 64 = Some (of_nat u0)" "get_u64 bs 72 = Some (of_nat u1)" "get_u64 bs 80 = Some (of_nat ul)"
    "get_u32 bs 36 = Some (if link_enabled session then 1 else 0)"
    using header unfolding state_image_def by blast+
  have read: "get_u64 bs 64 = Some (of_nat n0)" "get_u64 bs 72 = Some (of_nat n1)" "get_u64 bs 80 = Some (of_nat n2)"
    "112 + n0 + n1 + n2 \<le> SIZE_MAX"
    using check_state_Some [OF check] by blast+
  have eqs: "Some (of_nat n0 :: u64) = Some (of_nat u0)" "Some (of_nat n1 :: u64) = Some (of_nat u1)"
    "Some (of_nat n2 :: u64) = Some (of_nat ul)"
    using stored read by metis+
  have n: "n0 = u0" "n1 = u1" "n2 = ul"
    by (rule inj [OF eqs(1)], use read(4) small in linarith, use small in linarith)
      (rule inj [OF eqs(2)], use read(4) small in linarith, use small in linarith,
       rule inj [OF eqs(3)], use read(4) small in linarith, use small in linarith)
  have link: "saved_link = link_enabled session" by (rule check_state_link [OF check stored(4)])
  from check assms(7-9,2,3) show ?thesis
  proof (cases rule: restore_cases)
    case (tried parts p1 h1 battery h2 h4 applied p2 rollback_ok p3)
    have ok: applied
      using tried(6) assms(10) by (cases applied; cases rollback_ok) simp_all
    have now': "now' = now\<lparr>pair := Some (here, poke_battery ops battery p3), link_enabled := saved_link\<rparr>"
      using tried(6) assms(10) ok by simp
    from tried(5) ok have p3: "p3 = p2" by simp
    from tried(4) ok obtain g gl q1 q2 q3 where g: "unserialize_machine ops = Some g" "unserialize_link ops = Some gl"
      and q: "g q1 0 s0 = (True, q2)" "g q2 1 s1 = (True, q3)" "gl q3 sl = (True, p2)"
      by (auto simp: apply_state_def n payloads DUALBOY_STATE_HEADER_SIZE_def split: Option.bind_splits prod.splits if_splits)
    from states_applied [OF assms(1) g states q] poke_battery_view [OF assms(1) tried(2), of p3]
    show ?thesis by (intro exI [of _ "poke_battery ops battery p3"]) (simp add: now' link p3)
  qed (use assms(10) in simp_all)
qed


theorem state_roundtrip_witness:
  "\<exists>bs now now' h' p'. dualboy_state_serialize demo_session (Some (replicate 117 0)) =
       Some (True, Some bs, demo_session) \<and>
     now = demo_session\<lparr>pair := Some (9, demo_pair_state\<lparr>register0 := 77, ram0 := 99\<rparr>), link_enabled := False\<rparr> \<and>
     dualboy_state_unserialize_ex now (Some bs) demo_heap = Some (DUALBOY_STATE_RESTORE_OK, now', h') \<and>
     link_enabled now' \<and> pair now' = Some (9, p') \<and> register0 p' = 5 \<and> register1 p' = 6"
proof -
  let ?p = "demo_pair_state\<lparr>register0 := 77, ram0 := 99\<rparr>"
  let ?now = "demo_session\<lparr>pair := Some (9, ?p), link_enabled := False\<rparr>"
  obtain bs where bs: "dualboy_state_serialize demo_session (Some (replicate 117 0)) = Some (True, Some bs, demo_session)"
    "check_state demo_session bs = Some (Some (True, 2, 2, 1))"
    "slice bs 112 2 = Some [5, 7]" "slice bs 114 2 = Some [6, 8]" "slice bs 116 1 = Some [1]"
    by (rule demo_serialize)
  have check: "check_state ?now bs = Some (Some (True, 2, 2, 1))"
    unfolding bs(2) [symmetric] using demo_state_ops_valid
    by (intro check_state_same [of demo_session _ demo_engine demo_engine]) (simp_all add: state_ops_valid_def)
  have accepted: "apply_state demo_engine bs True 2 2 1 ?p = Some (True, demo_pair_state)"
    using bs(3-5) by (simp add: apply_state_def DUALBOY_STATE_HEADER_SIZE_def demo_state_operations demo_set_machine_def
        demo_pair_state_def)
  obtain now' h' where restore: "dualboy_state_unserialize_ex ?now (Some bs) demo_heap =
      Some (DUALBOY_STATE_RESTORE_OK, now', h')"
    using check accepted
    by (simp add: dualboy_state_unserialize_ex_def snapshot_state_def snapshot_machine_def snapshot_link_def malloc_def
        demo_heap_def demo_state_operations demo_machine_def serialized_def slice_def copy_battery_def
        battery_regions_def zero_parts_def free_state_parts_def free_def)
  from state_roundtrip [OF demo_carried demo_serializer_contract demo_set_link demo_session_fields(1,2) bs(1)
      _ _ demo_restore_owns restore, of 9 ?p] demo_session_fields(1)
  obtain p' where "now' = ?now\<lparr>pair := Some (9, p'), link_enabled := link_enabled demo_session\<rparr>"
    and "demo_view p' 0 = demo_view demo_pair_state 0" and "demo_view p' 1 = demo_view demo_pair_state 1" by auto
  moreover have "link_enabled demo_session"
    by (simp add: demo_session_def)
  ultimately have "link_enabled now' \<and> pair now' = Some (9, p') \<and> register0 p' = 5 \<and> register1 p' = 6"
    by (simp add: demo_view_def demo_pair_state_def)
  with bs(1) restore show ?thesis by blast
qed

text \<open>
  C23. The savestate code checks every engine operation it uses before it uses it, except
  \<open>set_link\<close>: an engine without that operation, which loading a session permits, passes
  \<open>state_ops_valid\<close>, and a state that is accepted, snapshotted and protected then makes the restore
  call through a null pointer.
\<close>

theorem state_restore_null_set_link:
  assumes "engine session = Some ops" and "set_link ops = None" and "pair session = Some (address, p)"
    and "check_state session bs = Some (Some accepted)"
    and "snapshot_state session ops p h = Some (Some parts, p1, h1)" and "fst (copy_battery ops p1 h1)"
  shows "dualboy_state_unserialize_ex session (Some bs) h = None"
proof -
  obtain saved_link n0 n1 n2 where accepted: "accepted = (saved_link, n0, n1, n2)" by (cases accepted)
  have "apply_state ops bs saved_link n0 n1 n2 p1 = None"
    by (simp add: apply_state_def assms(2))
  with assms accepted show ?thesis
    by (auto simp: dualboy_state_unserialize_ex_def split: prod.splits)
qed

theorem state_restore_null_set_link_witness:
  "\<exists>bs. dualboy_state_unserialize_ex (demo_session\<lparr>engine := Some (demo_engine\<lparr>set_link := None\<rparr>)\<rparr>) (Some bs) demo_heap =
     None"
proof -
  let ?ops = "demo_engine\<lparr>set_link := None\<rparr>" and ?session = "demo_session\<lparr>engine := Some (demo_engine\<lparr>set_link := None\<rparr>)\<rparr>"
  obtain bs where "check_state demo_session bs = Some (Some (True, 2, 2, 1))"
    by (rule demo_accepts [of 1 2 3 4 5])
  moreover have "check_state ?session bs = check_state demo_session bs"
    using demo_state_ops_valid
    by (intro check_state_same [of demo_session _ demo_engine ?ops]) (simp_all add: state_ops_valid_def)
  ultimately have check: "check_state ?session bs = Some (Some (True, 2, 2, 1))" by simp
  obtain parts h1 where snap: "snapshot_state ?session ?ops demo_pair_state demo_heap = Some (Some parts, demo_pair_state, h1)"
    and battery: "fst (copy_battery ?ops demo_pair_state h1)"
    by (simp add: snapshot_state_def snapshot_machine_def snapshot_link_def malloc_def demo_heap_def
        demo_state_operations demo_machine_def serialized_def slice_def copy_battery_def battery_regions_def)
  show ?thesis
    using state_restore_null_set_link [of ?session ?ops 9 demo_pair_state bs _ demo_heap, OF _ _ _ check snap battery]
    by auto
qed

end
