(* ===== verification/Playlist.thy ===== *)
theory Playlist
  imports Persistence Heap
begin

text \<open>
  Playlists, \<open>src/frontend/playlist.c\<close>: a text file naming the two cartridges. The theory models
  path validation, lexical normalization with its component stack, the line scanner and the file
  loader. As in the save file theory an output buffer is an \<open>Inr\<close> value and an error code an \<open>Inl\<close>
  value; a cursor into a buffer is the rest of the buffer from that position. The work arrays of
  the normalization and the file buffer live on the heap, so that a leak or a double release is
  visible.
\<close>

section \<open>Paths\<close>

definition DUALBOY_PLAYLIST_ENTRY_COUNT :: nat where
  "DUALBOY_PLAYLIST_ENTRY_COUNT = 2"

definition DUALBOY_PLAYLIST_PATH_CAPACITY :: nat where
  "DUALBOY_PLAYLIST_PATH_CAPACITY = 4096"

definition DUALBOY_PLAYLIST_FILE_LIMIT :: nat where
  "DUALBOY_PLAYLIST_FILE_LIMIT = 64 * 1024"

datatype dualboy_playlist_result =
    DUALBOY_PLAYLIST_OK
  | DUALBOY_PLAYLIST_INVALID_ARGUMENT
  | DUALBOY_PLAYLIST_IO_ERROR
  | DUALBOY_PLAYLIST_TOO_LARGE
  | DUALBOY_PLAYLIST_WRONG_ENTRY_COUNT
  | DUALBOY_PLAYLIST_UNSAFE_PATH
  | DUALBOY_PLAYLIST_PATH_TOO_LONG

type_synonym dualboy_playlist = "string list"

definition is_space :: "u8 \<Rightarrow> bool" where
  "is_space character \<longleftrightarrow> character = 0x20 \<or> character = 0x09 \<or> character = 0x0B \<or> character = 0x0C"

definition starts_network_path :: "string \<Rightarrow> bool" where
  "starts_network_path path \<longleftrightarrow> take 2 path = ''//'' \<or> take 2 path = [CHR 0x5C, CHR 0x5C]"

definition is_letter :: "char \<Rightarrow> bool" where
  "is_letter c \<longleftrightarrow> (let n = of_char c :: nat in (0x41 \<le> n \<and> n \<le> 0x5A) \<or> (0x61 \<le> n \<and> n \<le> 0x7A))"

definition is_digit :: "char \<Rightarrow> bool" where
  "is_digit c \<longleftrightarrow> (let n = of_char c :: nat in 0x30 \<le> n \<and> n \<le> 0x39)"

fun scheme_loop :: "string \<Rightarrow> bool" where
  "scheme_loop [] = False"
| "scheme_loop (c # cs) =
     (if c = CHR '':'' then True
      else if c = CHR ''/'' \<or> c = CHR 0x5C then False
      else if \<not> (is_letter c \<or> is_digit c \<or> c = CHR ''+'' \<or> c = CHR ''-'' \<or> c = CHR ''.'') then False
      else scheme_loop cs)"

definition starts_uri_scheme :: "string \<Rightarrow> bool" where
  "starts_uri_scheme path = (case path of [] \<Rightarrow> False | first # cs \<Rightarrow> is_letter first \<and> scheme_loop cs)"

text \<open>The code \<open>DUALBOY_PLAYLIST_OK\<close> or the error.\<close>

definition validate_local_path :: "string option \<Rightarrow> dualboy_playlist_result" where
  "validate_local_path path =
     (case path of
        None \<Rightarrow> DUALBOY_PLAYLIST_INVALID_ARGUMENT
      | Some p \<Rightarrow>
        if p = [] then DUALBOY_PLAYLIST_INVALID_ARGUMENT
        else if length p \<ge> DUALBOY_PLAYLIST_PATH_CAPACITY then DUALBOY_PLAYLIST_PATH_TOO_LONG
        else if starts_network_path p \<or> hd p = CHR 0x5C \<or> starts_uri_scheme p
        then DUALBOY_PLAYLIST_UNSAFE_PATH
        else DUALBOY_PLAYLIST_OK)"

section \<open>Normalization\<close>

definition needs_separator :: "string \<Rightarrow> bool" where
  "needs_separator out \<longleftrightarrow> out \<noteq> [] \<and> last out \<noteq> CHR ''/''"

definition append_component :: "string \<Rightarrow> nat \<Rightarrow> string \<Rightarrow> string option" where
  "append_component out capacity component =
     (let required = length out + length component + 1 + (if needs_separator out then 1 else 0)
      in if required > capacity then None
         else Some ((if needs_separator out then out @ ''/'' else out) @ component))"

text \<open>
  The component loop: the rest of the input, the stack of restore lengths and parent flags (the
  last pushed entry first), and the output so far.
\<close>

function normalize_loop ::
  "bool \<Rightarrow> nat \<Rightarrow> string \<Rightarrow> (nat \<times> bool) list \<Rightarrow> string \<Rightarrow> dualboy_playlist_result + string" where
  "normalize_loop absolute capacity rest stack out =
     (if rest = [] then Inr out
      else let start = dropWhile (\<lambda>c. c = CHR ''/'') rest;
               component = takeWhile (\<lambda>c. c \<noteq> CHR ''/'') start;
               rest' = dropWhile (\<lambda>c. c \<noteq> CHR ''/'') start;
               parent = (component = ''..'')
           in if component = [] \<or> component = ''.''
              then normalize_loop absolute capacity rest' stack out
              else if parent \<and> stack \<noteq> [] \<and> \<not> snd (hd stack)
              then normalize_loop absolute capacity rest' (tl stack) (take (fst (hd stack)) out)
              else if parent \<and> absolute then Inl DUALBOY_PLAYLIST_UNSAFE_PATH
              else case append_component out capacity component of
                     None \<Rightarrow> Inl DUALBOY_PLAYLIST_PATH_TOO_LONG
                   | Some out' \<Rightarrow>
                     normalize_loop absolute capacity rest' ((length out, parent) # stack) out')"
  by pat_completeness auto

lemma component_shorter:
  assumes "rest \<noteq> []"
  shows "length (dropWhile (\<lambda>c. c \<noteq> CHR ''/'') (dropWhile (\<lambda>c. c = CHR ''/'') rest)) < length rest"
proof (cases rest)
  case (Cons c cs)
  have "length (dropWhile P xs) \<le> length xs" for P and xs :: string by (rule length_dropWhile_le)
  with Cons show ?thesis
    by (cases "c = CHR ''/''") (auto intro: le_less_trans order_trans simp: less_Suc_eq_le)
qed (use assms in simp)

termination normalize_loop
  by (relation "measure (\<lambda>(absolute, capacity, rest, stack, out). length rest)")
    (simp_all add: component_shorter)

declare normalize_loop.simps [simp del]

definition normalize_text :: "string \<Rightarrow> nat \<Rightarrow> dualboy_playlist_result + string" where
  "normalize_text input capacity =
     (let absolute = (input \<noteq> [] \<and> hd input = CHR ''/'')
      in if absolute \<and> capacity < 2 then Inl DUALBOY_PLAYLIST_PATH_TOO_LONG
         else case normalize_loop absolute capacity input [] (if absolute then ''/'' else '''') of
                Inl error \<Rightarrow> Inl error
              | Inr out \<Rightarrow>
                if out = [] then if capacity < 2 then Inl DUALBOY_PLAYLIST_PATH_TOO_LONG else Inr ''.''
                else Inr out)"

definition normalize_path ::
  "string \<Rightarrow> nat \<Rightarrow> heap \<Rightarrow> ((dualboy_playlist_result + string) \<times> heap) option" where
  "normalize_path input capacity h =
     (let (restore_lengths, h1) = malloc h; (is_parent, h2) = malloc h1
      in do {
        h3 \<leftarrow> free restore_lengths h2;
        h4 \<leftarrow> free is_parent h3;
        Some (if restore_lengths = None \<or> is_parent = None then Inl DUALBOY_PLAYLIST_IO_ERROR
              else normalize_text input capacity, h4)
      })"

definition playlist_directory ::
  "string option \<Rightarrow> nat \<Rightarrow> heap \<Rightarrow> ((dualboy_playlist_result + string) \<times> heap) option" where
  "playlist_directory playlist_path capacity h =
     (if validate_local_path playlist_path \<noteq> DUALBOY_PLAYLIST_OK
      then Some (Inl (validate_local_path playlist_path), h)
      else do {
        path \<leftarrow> playlist_path;
        if last path = CHR ''/'' then Some (Inl DUALBOY_PLAYLIST_INVALID_ARGUMENT, h)
        else do {
          (result, h') \<leftarrow> normalize_path path DUALBOY_PLAYLIST_PATH_CAPACITY h;
          Some (case result of
                  Inl error \<Rightarrow> Inl error
                | Inr normalized \<Rightarrow>
                  if normalized = ''/'' \<or> normalized = ''.'' \<or> normalized = ''..'' \<or> last normalized = CHR ''/''
                  then Inl DUALBOY_PLAYLIST_INVALID_ARGUMENT
                  else case last_slash normalized of
                    None \<Rightarrow> if capacity < 2 then Inl DUALBOY_PLAYLIST_PATH_TOO_LONG else Inr ''.''
                  | Some slash \<Rightarrow>
                    if slash = 0 then if capacity < 2 then Inl DUALBOY_PLAYLIST_PATH_TOO_LONG else Inr ''/''
                    else if slash \<ge> capacity then Inl DUALBOY_PLAYLIST_PATH_TOO_LONG
                    else Inr (take slash normalized), h')
        }
      })"

text \<open>The bytes of a file read as characters.\<close>

definition text_of :: "bytes \<Rightarrow> string" where
  "text_of = map (\<lambda>b. char_of (unat b))"

definition resolve_entry ::
  "string \<Rightarrow> bytes \<Rightarrow> heap \<Rightarrow> ((dualboy_playlist_result + string) \<times> heap) option" where
  "resolve_entry directory entry h =
     (if entry = [] then Some (Inl DUALBOY_PLAYLIST_INVALID_ARGUMENT, h)
      else if length entry \<ge> DUALBOY_PLAYLIST_PATH_CAPACITY then Some (Inl DUALBOY_PLAYLIST_PATH_TOO_LONG, h)
      else let raw = text_of entry
           in if validate_local_path (Some raw) \<noteq> DUALBOY_PLAYLIST_OK
              then Some (Inl (validate_local_path (Some raw)), h)
              else if last raw = CHR ''/'' then Some (Inl DUALBOY_PLAYLIST_INVALID_ARGUMENT, h)
              else let last_component = (case last_slash raw of None \<Rightarrow> raw | Some slash \<Rightarrow> drop (slash + 1) raw)
              in if last_component = ''.'' \<or> last_component = ''..''
                 then Some (Inl DUALBOY_PLAYLIST_INVALID_ARGUMENT, h)
                 else if hd raw = CHR ''/'' \<or> directory = ''.''
                 then normalize_path raw DUALBOY_PLAYLIST_PATH_CAPACITY h
                 else if length directory + length entry + 2 > DUALBOY_PLAYLIST_PATH_CAPACITY
                 then Some (Inl DUALBOY_PLAYLIST_PATH_TOO_LONG, h)
                 else normalize_path
                        ((if directory = [] \<or> last directory \<noteq> CHR ''/'' then directory @ ''/'' else directory) @ raw)
                        DUALBOY_PLAYLIST_PATH_CAPACITY h)"

section \<open>Lines\<close>

definition line_break :: "u8 \<Rightarrow> bool" where
  "line_break b \<longleftrightarrow> b = 0x0A \<or> b = 0x0D"

fun skip_line_break :: "bytes \<Rightarrow> bytes" where
  "skip_line_break [] = []"
| "skip_line_break (b # rest) =
     (if b = 0x0D then (case rest of [] \<Rightarrow> [] | c # rest' \<Rightarrow> if c = 0x0A then rest' else rest)
      else rest)"

definition trim :: "bytes \<Rightarrow> bytes" where
  "trim line = rev (dropWhile is_space (rev (dropWhile is_space line)))"

lemma skip_line_break_le: "length (skip_line_break rest) \<le> length rest - 1"
  by (cases rest rule: skip_line_break.cases) (auto split: list.splits)

lemma line_shorter:
  "rest \<noteq> [] \<Longrightarrow> length (skip_line_break (dropWhile (\<lambda>b. \<not> line_break b) rest)) < length rest"
  using skip_line_break_le [of "dropWhile (\<lambda>b. \<not> line_break b) rest"] length_dropWhile_le [of "\<lambda>b. \<not> line_break b" rest]
  by (cases rest) auto

function parse_loop ::
  "string \<Rightarrow> bytes \<Rightarrow> dualboy_playlist \<Rightarrow> heap \<Rightarrow> ((dualboy_playlist_result + dualboy_playlist) \<times> heap) option" where
  "parse_loop directory rest entries h =
     (if rest = []
      then Some (if length entries \<noteq> DUALBOY_PLAYLIST_ENTRY_COUNT
                 then Inl DUALBOY_PLAYLIST_WRONG_ENTRY_COUNT else Inr entries, h)
      else let line = takeWhile (\<lambda>b. \<not> line_break b) rest;
               rest' = skip_line_break (dropWhile (\<lambda>b. \<not> line_break b) rest);
               entry = trim line
           in if 0 \<in> set line then Some (Inl DUALBOY_PLAYLIST_INVALID_ARGUMENT, h)
              else if entry = [] \<or> hd entry = 0x23 then parse_loop directory rest' entries h
              else if length entries \<ge> DUALBOY_PLAYLIST_ENTRY_COUNT
              then Some (Inl DUALBOY_PLAYLIST_WRONG_ENTRY_COUNT, h)
              else case resolve_entry directory entry h of
                     None \<Rightarrow> None
                   | Some (Inl error, h') \<Rightarrow> Some (Inl error, h')
                   | Some (Inr path, h') \<Rightarrow> parse_loop directory rest' (entries @ [path]) h')"
  by pat_completeness auto

termination parse_loop
  by (relation "measure (\<lambda>(directory, rest, entries, h). length rest)") (simp_all add: line_shorter)

declare parse_loop.simps [simp del]

definition skip_bom :: "bytes \<Rightarrow> bytes" where
  "skip_bom data = (if take 3 data = [0xEF, 0xBB, 0xBF] then drop 3 data else data)"

text \<open>
  The result code, the playlist behind the output pointer, and the heap. \<open>None\<close> is a null output
  pointer, and a null data pointer with a size other than zero; a null data pointer with size zero
  is the empty list.
\<close>

definition dualboy_playlist_parse ::
  "string option \<Rightarrow> bytes option \<Rightarrow> dualboy_playlist option \<Rightarrow> heap
   \<Rightarrow> (dualboy_playlist_result \<times> dualboy_playlist option \<times> heap) option" where
  "dualboy_playlist_parse playlist_path data playlist h =
     (case (data, playlist) of
        (Some bytes, Some old) \<Rightarrow> do {
          (directory, h1) \<leftarrow> playlist_directory playlist_path DUALBOY_PLAYLIST_PATH_CAPACITY h;
          case directory of
            Inl error \<Rightarrow> Some (error, playlist, h1)
          | Inr dir \<Rightarrow>
            if length bytes > DUALBOY_PLAYLIST_FILE_LIMIT
            then Some (DUALBOY_PLAYLIST_TOO_LARGE, playlist, h1)
            else do {
              (result, h2) \<leftarrow> parse_loop dir (skip_bom bytes) [] h1;
              Some (case result of
                      Inl error \<Rightarrow> (error, playlist, h2)
                    | Inr candidate \<Rightarrow> (DUALBOY_PLAYLIST_OK, Some candidate, h2))
            }
        }
      | _ \<Rightarrow> Some (DUALBOY_PLAYLIST_INVALID_ARGUMENT, playlist, h))"

section \<open>Files\<close>

text \<open>What the operating system answers while a playlist is loaded.\<close>

record playlist_calls =
  playlist_opens :: bool
  playlist_cloexec :: bool
  playlist_regular :: bool
  playlist_reads :: "read_result list"
  playlist_closes :: bool

text \<open>
  The read loop, until the end of the file or one byte past the limit. A read that returns more
  than was asked for has no result, and neither has a loop that outlives the list of answers.
\<close>

fun playlist_read_loop :: "read_result list \<Rightarrow> bytes \<Rightarrow> (dualboy_playlist_result + bytes) option" where
  "playlist_read_loop calls data =
     (if length data > DUALBOY_PLAYLIST_FILE_LIMIT then Some (Inr data)
      else case calls of
             [] \<Rightarrow> None
           | READ_ERR errno # rest \<Rightarrow>
             if errno = EINTR then playlist_read_loop rest data else Some (Inl DUALBOY_PLAYLIST_IO_ERROR)
           | READ_BYTES chunk # rest \<Rightarrow>
             if chunk = [] then Some (Inr data)
             else if length chunk > DUALBOY_PLAYLIST_FILE_LIMIT + 1 - length data then None
             else playlist_read_loop rest (data @ chunk))"

definition dualboy_playlist_parse_file ::
  "playlist_calls \<Rightarrow> string option \<Rightarrow> dualboy_playlist option \<Rightarrow> heap
   \<Rightarrow> (dualboy_playlist_result \<times> dualboy_playlist option \<times> heap) option" where
  "dualboy_playlist_parse_file os playlist_path playlist h =
     (if playlist = None then Some (DUALBOY_PLAYLIST_INVALID_ARGUMENT, playlist, h)
      else if validate_local_path playlist_path \<noteq> DUALBOY_PLAYLIST_OK
      then Some (validate_local_path playlist_path, playlist, h)
      else case malloc h of
        (None, h1) \<Rightarrow> Some (DUALBOY_PLAYLIST_IO_ERROR, playlist, h1)
      | (Some buffer, h1) \<Rightarrow>
        let failed = (\<lambda>result. do { h2 \<leftarrow> free (Some buffer) h1; Some (result, playlist, h2) })
        in if \<not> playlist_opens os then failed DUALBOY_PLAYLIST_IO_ERROR
           else if \<not> playlist_cloexec os \<or> \<not> playlist_regular os then failed DUALBOY_PLAYLIST_IO_ERROR
           else do {
             loaded \<leftarrow> playlist_read_loop (playlist_reads os) [];
             case loaded of
               Inl error \<Rightarrow> failed error
             | Inr data \<Rightarrow>
               if \<not> playlist_closes os then failed DUALBOY_PLAYLIST_IO_ERROR
               else if length data > DUALBOY_PLAYLIST_FILE_LIMIT then failed DUALBOY_PLAYLIST_TOO_LARGE
               else do {
                 (result, playlist', h2) \<leftarrow> dualboy_playlist_parse playlist_path (Some data) playlist h1;
                 h3 \<leftarrow> free (Some buffer) h2;
                 Some (result, playlist', h3)
               }
           })"

fun dualboy_playlist_result_message :: "dualboy_playlist_result \<Rightarrow> string" where
  "dualboy_playlist_result_message DUALBOY_PLAYLIST_OK = ''success''"
| "dualboy_playlist_result_message DUALBOY_PLAYLIST_INVALID_ARGUMENT =
     ''playlist contains invalid data or has no filename''"
| "dualboy_playlist_result_message DUALBOY_PLAYLIST_IO_ERROR = ''playlist could not be read''"
| "dualboy_playlist_result_message DUALBOY_PLAYLIST_TOO_LARGE = ''playlist exceeds the 64 KiB size limit''"
| "dualboy_playlist_result_message DUALBOY_PLAYLIST_WRONG_ENTRY_COUNT =
     ''playlist must contain exactly two ROM paths''"
| "dualboy_playlist_result_message DUALBOY_PLAYLIST_UNSAFE_PATH =
     ''playlist contains a URL, network path, or root traversal''"
| "dualboy_playlist_result_message DUALBOY_PLAYLIST_PATH_TOO_LONG =
     ''playlist path exceeds DualBoy's path limit''"

section \<open>Reference: lexical resolution\<close>

text \<open>
  What normalization is meant to compute, without buffers: split the path at slashes, drop empty
  and \<open>.\<close> components, let \<open>..\<close> cancel the component before it, and refuse to leave the root.
\<close>

fun split_on :: "'a \<Rightarrow> 'a list \<Rightarrow> 'a list list" where
  "split_on x [] = [[]]"
| "split_on x (y # ys) =
     (if y = x then [] # split_on x ys
      else case split_on x ys of [] \<Rightarrow> [[y]] | s # ss \<Rightarrow> (y # s) # ss)"

definition components :: "string \<Rightarrow> string list" where
  "components path = filter (\<lambda>c. c \<noteq> [] \<and> c \<noteq> ''.'') (split_on (CHR ''/'') path)"

text \<open>The resolved components so far are kept in reverse.\<close>

fun resolve_components :: "bool \<Rightarrow> string list \<Rightarrow> string list \<Rightarrow> string list option" where
  "resolve_components absolute kept [] = Some (rev kept)"
| "resolve_components absolute kept (c # cs) =
     (if c \<noteq> ''..'' then resolve_components absolute (c # kept) cs
      else if kept \<noteq> [] \<and> hd kept \<noteq> ''..'' then resolve_components absolute (tl kept) cs
      else if absolute then None
      else resolve_components absolute (c # kept) cs)"

fun join_components :: "string list \<Rightarrow> string" where
  "join_components [] = []"
| "join_components [c] = c"
| "join_components (c # cs) = c @ ''/'' @ join_components cs"

definition path_text :: "bool \<Rightarrow> string list \<Rightarrow> string" where
  "path_text absolute cs = (if absolute then CHR ''/'' # join_components cs else join_components cs)"

definition is_absolute :: "string \<Rightarrow> bool" where
  "is_absolute path \<longleftrightarrow> path \<noteq> [] \<and> hd path = CHR ''/''"

definition normalized_path :: "string \<Rightarrow> string option" where
  "normalized_path path =
     map_option (\<lambda>cs. if \<not> is_absolute path \<and> cs = [] then ''.'' else path_text (is_absolute path) cs)
       (resolve_components (is_absolute path) [] (components path))"

lemma split_on_not_Nil [simp]: "split_on x xs \<noteq> []"
  by (induction xs) (auto split: list.splits)

lemma split_on_unfold:
  "split_on x xs = takeWhile (\<lambda>y. y \<noteq> x) xs #
     (case dropWhile (\<lambda>y. y \<noteq> x) xs of [] \<Rightarrow> [] | _ # ys \<Rightarrow> split_on x ys)"
  by (induction xs) (auto split: list.splits)

lemma split_on_free: "s \<in> set (split_on x xs) \<Longrightarrow> x \<notin> set s"
  by (induction xs arbitrary: s) (auto split: list.splits if_splits)

lemma components_Nil [simp]: "components [] = []"
  by (simp add: components_def)

lemma components_slash [simp]: "components (CHR ''/'' # path) = components path"
  by (simp add: components_def)

lemma components_skip: "components (dropWhile (\<lambda>c. c = CHR ''/'') path) = components path"
  by (induction path) auto

lemma components_step:
  assumes "start = dropWhile (\<lambda>c. c = CHR ''/'') path" and "component = takeWhile (\<lambda>c. c \<noteq> CHR ''/'') start"
    and "rest = dropWhile (\<lambda>c. c \<noteq> CHR ''/'') start"
  shows "components path = (if component = [] \<or> component = ''.'' then [] else [component]) @ components rest"
proof -
  have "components start = (if component = [] \<or> component = ''.'' then [] else [component]) @
      filter (\<lambda>c. c \<noteq> [] \<and> c \<noteq> ''.'') (case rest of [] \<Rightarrow> [] | _ # ys \<Rightarrow> split_on (CHR ''/'') ys)"
    unfolding components_def assms(2,3) by (subst split_on_unfold) simp
  moreover have "filter (\<lambda>c. c \<noteq> [] \<and> c \<noteq> ''.'') (case rest of [] \<Rightarrow> [] | _ # ys \<Rightarrow> split_on (CHR ''/'') ys) =
      components rest"
  proof (cases rest)
    case (Cons c ys)
    then have "c = CHR ''/''" using assms(3) by (metis (full_types) dropWhile_eq_Cons_conv)
    with Cons show ?thesis by (simp add: components_def)
  qed simp
  ultimately show ?thesis using components_skip [of path] assms(1) by simp
qed

definition clean :: "string \<Rightarrow> bool" where
  "clean c \<longleftrightarrow> c \<noteq> [] \<and> c \<noteq> ''.'' \<and> CHR ''/'' \<notin> set c"

lemma components_clean: "c \<in> set (components path) \<Longrightarrow> clean c"
  by (auto simp: components_def clean_def dest: split_on_free)

lemma join_snoc:
  "join_components (cs @ [c]) = (if cs = [] then c else join_components cs @ ''/'' @ c)"
  by (induction cs rule: join_components.induct) auto

lemma join_last: "cs \<noteq> [] \<Longrightarrow> clean (last cs) \<Longrightarrow> join_components cs \<noteq> [] \<and> last (join_components cs) \<noteq> CHR ''/''"
  by (cases cs rule: rev_cases) (auto simp: join_snoc clean_def, metis last_in_set)

section \<open>Normalization refines the reference\<close>

text \<open>The stack and the output that belong to a list of kept components.\<close>

fun stack_of :: "bool \<Rightarrow> string list \<Rightarrow> (nat \<times> bool) list" where
  "stack_of absolute [] = []"
| "stack_of absolute (c # kept) = (length (path_text absolute (rev kept)), c = ''..'') # stack_of absolute kept"

lemma path_text_snoc:
  assumes "list_all clean cs"
  shows "path_text absolute (cs @ [c]) =
    (if needs_separator (path_text absolute cs) then path_text absolute cs @ ''/'' else path_text absolute cs) @ c"
proof (cases cs rule: rev_cases)
  case Nil
  then show ?thesis by (simp add: path_text_def needs_separator_def)
next
  case (snoc ds d)
  with assms have "clean (last cs)" "cs \<noteq> []" by auto
  from join_last [OF this(2,1)] this(2) show ?thesis by (auto simp: path_text_def needs_separator_def join_snoc)
qed

definition potential :: "string \<Rightarrow> string \<Rightarrow> nat" where
  "potential out rest =
     (let start = dropWhile (\<lambda>c. c = CHR ''/'') rest
      in length out + length start + (if needs_separator out \<and> start \<noteq> [] then 1 else 0))"


lemma potential_step:
  assumes "start = dropWhile (\<lambda>c. c = CHR ''/'') path" and "component = takeWhile (\<lambda>c. c \<noteq> CHR ''/'') start"
    and "rest = dropWhile (\<lambda>c. c \<noteq> CHR ''/'') start"
  shows "potential out rest \<le> potential out path"
    and "component \<noteq> [] \<Longrightarrow> length out' < length out \<Longrightarrow> potential out' rest \<le> potential out path"
    and "component \<noteq> [] \<Longrightarrow>
      length out' = length out + length component + (if needs_separator out then 1 else 0) \<Longrightarrow>
      length out' \<le> potential out path \<and> potential out' rest \<le> potential out path"
proof -
  have len: "length component + length rest = length start"
    unfolding assms(2,3) by (metis length_append takeWhile_dropWhile_id)
  have le: "length (dropWhile (\<lambda>c. c = CHR ''/'') rest) + (if dropWhile (\<lambda>c. c = CHR ''/'') rest = [] then 0 else 1)
      \<le> length rest"
  proof (cases rest)
    case (Cons c ys)
    then have "c = CHR ''/''" using assms(3) by (metis (full_types) dropWhile_eq_Cons_conv)
    with Cons length_dropWhile_le [of "\<lambda>c. c = CHR ''/''" ys] show ?thesis by simp
  qed simp
  show "potential out rest \<le> potential out path"
    using len le by (auto simp: potential_def Let_def assms(1) [symmetric] split: if_splits)
  show "potential out' rest \<le> potential out path" if "component \<noteq> []" "length out' < length out"
    using len le that by (auto simp: potential_def Let_def assms(1) [symmetric] split: if_splits)
  show "length out' \<le> potential out path \<and> potential out' rest \<le> potential out path"
    if "component \<noteq> []" "length out' = length out + length component + (if needs_separator out then 1 else 0)"
  proof -
    have "start \<noteq> []" using that(1) assms(2) by auto
    then show ?thesis
      using len le that by (auto simp: potential_def Let_def assms(1) [symmetric] split: if_splits)
  qed
qed

lemma path_text_pop:
  assumes "list_all clean (c # kept)"
  shows "take (length (path_text absolute (rev kept))) (path_text absolute (rev (c # kept))) = path_text absolute (rev kept)"
    and "length (path_text absolute (rev kept)) < length (path_text absolute (rev (c # kept)))"
  using assms path_text_snoc [of "rev kept" absolute c] by (auto simp: clean_def list_all_rev)

lemma normalize_loop_refines:
  assumes "list_all clean kept" and "potential (path_text absolute (rev kept)) rest < capacity"
  shows "normalize_loop absolute capacity rest (stack_of absolute kept) (path_text absolute (rev kept)) =
    (case resolve_components absolute kept (components rest) of
       None \<Rightarrow> Inl DUALBOY_PLAYLIST_UNSAFE_PATH | Some cs \<Rightarrow> Inr (path_text absolute cs))"
  using assms
proof (induction "length rest" arbitrary: rest kept rule: less_induct)
  case less
  let ?out = "path_text absolute (rev kept)"
  show ?case
  proof (cases "rest = []")
    case True
    then show ?thesis by (simp add: normalize_loop.simps)
  next
    case False
    define start where "start = dropWhile (\<lambda>c. c = CHR ''/'') rest"
    define component where "component = takeWhile (\<lambda>c. c \<noteq> CHR ''/'') start"
    define rest' where "rest' = dropWhile (\<lambda>c. c \<noteq> CHR ''/'') start"
    note defs = start_def component_def rest'_def
    note comps = components_step [OF defs] and pot = potential_step [OF defs, where out = ?out]
    have shorter: "length rest' < length rest" using component_shorter [OF False] by (simp add: defs)
    note unfolded = normalize_loop.simps [of absolute capacity rest, folded defs, unfolded Let_def, folded defs]
    consider (skip) "component = [] \<or> component = ''.''"
      | (pop) c kept' where "component = ''..''" "kept = c # kept'" "c \<noteq> ''..''"
      | (root) "component = ''..''" "kept = [] \<or> hd kept = ''..''" absolute
      | (push) "component \<noteq> []" "component \<noteq> ''.''" "component = ''..'' \<longrightarrow> (kept = [] \<or> hd kept = ''..'') \<and> \<not> absolute"
      by (cases kept) auto
    then show ?thesis
    proof cases
      case skip
      have "normalize_loop absolute capacity rest (stack_of absolute kept) ?out =
          normalize_loop absolute capacity rest' (stack_of absolute kept) ?out"
        using skip False by (simp add: unfolded)
      with less.hyps [OF shorter less.prems(1)] pot(1) less.prems(2) skip comps show ?thesis by simp
    next
      case pop
      from less.prems(1) pop have kept': "list_all clean kept'" by simp
      note popped = path_text_pop [of c kept' absolute, folded pop(2), OF less.prems(1)]
      have "normalize_loop absolute capacity rest (stack_of absolute kept) ?out =
          normalize_loop absolute capacity rest' (stack_of absolute kept') (path_text absolute (rev kept'))"
        using pop False popped(1) by (simp add: unfolded)
      moreover have "potential (path_text absolute (rev kept')) rest' < capacity"
        using pot(2) [OF _ popped(2)] pop(1) less.prems(2) by simp
      ultimately show ?thesis using less.hyps [OF shorter kept'] pop comps by simp
    next
      case root
      then have "normalize_loop absolute capacity rest (stack_of absolute kept) ?out = Inl DUALBOY_PLAYLIST_UNSAFE_PATH"
        unfolding unfolded using False by (cases kept) auto
      with root comps show ?thesis by auto
    next
      case push
      have clean: "list_all clean (component # kept)"
        using push less.prems(1) components_clean [of component rest] comps by simp
      have extended: "path_text absolute (rev (component # kept)) =
          (if needs_separator ?out then ?out @ ''/'' else ?out) @ component"
        using path_text_snoc [of "rev kept" absolute component] less.prems(1) by (simp add: list_all_rev)
      then have "length (path_text absolute (rev (component # kept))) =
          length ?out + length component + (if needs_separator ?out then 1 else 0)" by simp
      note room = pot(3) [OF push(1) this]
      have "append_component ?out capacity component = Some (path_text absolute (rev (component # kept)))"
        using room less.prems(2) extended by (auto simp: append_component_def Let_def)
      then have "normalize_loop absolute capacity rest (stack_of absolute kept) ?out =
          normalize_loop absolute capacity rest' (stack_of absolute (component # kept))
            (path_text absolute (rev (component # kept)))"
        unfolding unfolded [of "stack_of absolute kept" ?out] using push False by (cases kept) auto
      moreover have "resolve_components absolute kept (components rest) =
          resolve_components absolute (component # kept) (components rest')"
        using push comps by auto
      ultimately show ?thesis using less.hyps [OF shorter clean] room less.prems(2) by simp
    qed
  qed
qed


lemma resolve_clean:
  "resolve_components absolute kept ds = Some cs \<Longrightarrow> list_all clean kept \<Longrightarrow> list_all clean ds \<Longrightarrow> list_all clean cs"
proof (induction absolute kept ds rule: resolve_components.induct)
  case (1 absolute kept)
  then show ?case by (auto simp: list_all_rev)
next
  case (2 absolute kept c ds)
  then show ?case by (cases kept) (auto split: if_splits)
qed

lemma components_all_clean: "list_all clean (components path)"
  by (simp add: list_all_iff components_clean)

lemma path_text_empty:
  assumes "list_all clean cs"
  shows "path_text absolute cs = [] \<longleftrightarrow> \<not> absolute \<and> cs = []"
  using assms join_last [of cs] by (cases cs rule: rev_cases) (auto simp: path_text_def)

lemma normalize_text_refines:
  assumes "length path < capacity" and "2 \<le> capacity"
  shows "normalize_text path capacity =
    (case normalized_path path of None \<Rightarrow> Inl DUALBOY_PLAYLIST_UNSAFE_PATH | Some q \<Rightarrow> Inr q)"
proof -
  let ?absolute = "is_absolute path"
  have "potential (path_text ?absolute []) path < capacity"
    using assms length_dropWhile_le [of "\<lambda>c. c = CHR ''/''" path] length_dropWhile_le [of "\<lambda>c. c = CHR ''/''" "tl path"]
    by (cases path) (auto simp: potential_def Let_def path_text_def is_absolute_def needs_separator_def)
  then have loop: "normalize_loop ?absolute capacity path [] (path_text ?absolute []) =
      (case resolve_components ?absolute [] (components path) of
         None \<Rightarrow> Inl DUALBOY_PLAYLIST_UNSAFE_PATH | Some cs \<Rightarrow> Inr (path_text ?absolute cs))"
    using normalize_loop_refines [of "[]" ?absolute path capacity] by simp
  have start: "path_text ?absolute [] = (if ?absolute then ''/'' else [])" by (simp add: path_text_def)
  show ?thesis
  proof (cases "resolve_components ?absolute [] (components path)")
    case None
    with loop start assms(2) show ?thesis
      by (simp add: normalize_text_def Let_def normalized_path_def is_absolute_def [symmetric] split: if_splits)
  next
    case (Some cs)
    have "list_all clean cs" by (rule resolve_clean [OF Some _ components_all_clean]) simp
    from path_text_empty [OF this] Some loop start assms(2) show ?thesis
      by (simp add: normalize_text_def Let_def normalized_path_def is_absolute_def [symmetric] split: if_splits)
  qed
qed

section \<open>Normal forms\<close>

text \<open>
  A normal form: leading \<open>..\<close> components, in a relative path only, then components that are
  neither empty nor a dot nor two dots.
\<close>

definition normal_components :: "bool \<Rightarrow> string list \<Rightarrow> bool" where
  "normal_components absolute cs \<longleftrightarrow>
     (\<exists>n ds. cs = replicate n ''..'' @ ds \<and> (absolute \<longrightarrow> n = 0) \<and> list_all (\<lambda>c. clean c \<and> c \<noteq> ''..'') ds)"

lemma clean_parent [simp]: "clean ''..''"
  by (simp add: clean_def)

lemma normal_components_clean: "normal_components absolute cs \<Longrightarrow> list_all clean cs"
  by (auto simp: normal_components_def list_all_iff)

lemma normal_components_Nil [simp]: "normal_components absolute []"
  by (auto simp: normal_components_def)

lemma normal_components_push:
  assumes "normal_components absolute cs" and "clean c"
    and "c = ''..'' \<Longrightarrow> \<not> absolute \<and> (cs = [] \<or> last cs = ''..'')"
  shows "normal_components absolute (cs @ [c])"
proof -
  from assms(1) obtain n ds where cs: "cs = replicate n ''..'' @ ds" "absolute \<longrightarrow> n = 0"
    "list_all (\<lambda>c. clean c \<and> c \<noteq> ''..'') ds" by (auto simp: normal_components_def)
  show ?thesis
  proof (cases "c = ''..''")
    case True
    with assms(3) cs have "ds = []" by (cases ds rule: rev_cases) auto
    with True cs assms(3) show ?thesis
      unfolding normal_components_def by (intro exI [of _ "Suc n"] exI [of _ "[]"]) (simp add: replicate_append_same)
  next
    case False
    with cs assms(2) show ?thesis
      unfolding normal_components_def by (intro exI [of _ n] exI [of _ "ds @ [c]"]) simp
  qed
qed

lemma normal_components_pop: "normal_components absolute (cs @ [c]) \<Longrightarrow> normal_components absolute cs"
proof -
  assume "normal_components absolute (cs @ [c])"
  then obtain n ds where cs: "cs @ [c] = replicate n ''..'' @ ds" "absolute \<longrightarrow> n = 0"
    "list_all (\<lambda>c. clean c \<and> c \<noteq> ''..'') ds" by (auto simp: normal_components_def)
  show "normal_components absolute cs"
  proof (cases ds rule: rev_cases)
    case Nil
    then have "cs = replicate (n - 1) ''..''"
      using cs(1) by (cases n) (simp_all, metis append1_eq_conv replicate_append_same)
    with cs(2) show ?thesis
      unfolding normal_components_def by (intro exI [of _ "n - 1"] exI [of _ "[]"]) simp
  next
    case (snoc es e)
    with cs show ?thesis unfolding normal_components_def by (intro exI [of _ n] exI [of _ es]) simp
  qed
qed

lemma resolve_normal:
  "resolve_components absolute kept ds = Some cs \<Longrightarrow> normal_components absolute (rev kept) \<Longrightarrow> list_all clean ds \<Longrightarrow>
   normal_components absolute cs"
proof (induction ds arbitrary: kept)
  case (Cons c ds)
  then have clean: "clean c" "list_all clean ds" by simp_all
  consider (pop) c' kept' where "c = ''..''" "kept = c' # kept'" "c' \<noteq> ''..''"
    | (push) "c = ''..'' \<longrightarrow> \<not> absolute \<and> (kept = [] \<or> hd kept = ''..'')"
        "resolve_components absolute (c # kept) ds = Some cs"
    using Cons.prems(1) by (cases kept) (auto split: if_splits)
  then show ?case
  proof cases
    case pop
    then have "normal_components absolute (rev kept')"
      using Cons.prems(2) by (auto dest: normal_components_pop)
    then show ?thesis using Cons.prems(1) pop clean(2) by (intro Cons.IH) auto
  next
    case push
    have "normal_components absolute (rev kept @ [c])"
      using push(1) by (intro normal_components_push Cons.prems(2) clean(1)) (auto simp: last_rev)
    then show ?thesis using push(2) clean(2) by (intro Cons.IH) auto
  qed
qed simp

lemma resolve_normal_fixed:
  "normal_components absolute (rev kept @ ds) \<Longrightarrow> resolve_components absolute kept ds = Some (rev kept @ ds)"
proof (induction ds arbitrary: kept)
  case (Cons c ds)
  have "resolve_components absolute kept (c # ds) = resolve_components absolute (c # kept) ds"
  proof (cases "c = ''..''")
    case True
    from Cons.prems obtain n es where es: "rev kept @ c # ds = replicate n ''..'' @ es" "absolute \<longrightarrow> n = 0"
      "list_all (\<lambda>c. clean c \<and> c \<noteq> ''..'') es" by (auto simp: normal_components_def)
    have inside: "length kept < n"
    proof (rule ccontr)
      assume "\<not> length kept < n"
      then have "c \<in> set (drop n (rev kept @ c # ds))" by (simp add: drop_Cons')
      moreover have "drop n (rev kept @ c # ds) = es" unfolding es(1) by simp
      ultimately have "c \<in> set es" by (simp only:)
      then show False using True es(3) by (auto simp: list_all_iff)
    qed
    then have "rev kept = replicate (length kept) ''..''"
      using arg_cong [OF es(1), of "take (length kept)"] by simp
    then have "kept = replicate (length kept) ''..''" by (metis rev_replicate rev_rev_ident)
    then have "kept = [] \<or> hd kept = ''..''" by (metis hd_replicate length_0_conv)
    with True inside es(2) show ?thesis by auto
  qed simp
  with Cons.IH [of "c # kept"] Cons.prems show ?case by simp
qed simp

lemma split_on_append: "x \<notin> set a \<Longrightarrow> split_on x (a @ x # b) = a # split_on x b"
  by (induction a) auto

lemma split_on_single: "x \<notin> set a \<Longrightarrow> split_on x a = [a]"
  by (induction a) auto

lemma components_join: "list_all clean cs \<Longrightarrow> components (join_components cs) = cs"
proof (induction cs rule: join_components.induct)
  case (2 c)
  then show ?case by (simp add: components_def clean_def split_on_single)
next
  case (3 c d cs)
  then show ?case by (simp add: components_def clean_def split_on_append)
qed simp

lemma components_text: "list_all clean cs \<Longrightarrow> components (path_text absolute cs) = cs"
  by (simp add: path_text_def components_join)

lemma is_absolute_text: "list_all clean cs \<Longrightarrow> is_absolute (path_text absolute cs) \<longleftrightarrow> absolute"
  by (cases cs rule: join_components.cases) (auto simp: is_absolute_def path_text_def clean_def hd_append, (metis hd_in_set)+)

lemma normalized_path_normal:
  assumes "normalized_path path = Some q"
  shows "normalized_path q = Some q" and "normal_components (is_absolute path) (components q)"
    and "is_absolute q = is_absolute path"
proof -
  from assms obtain cs where cs: "resolve_components (is_absolute path) [] (components path) = Some cs"
    and q: "q = (if \<not> is_absolute path \<and> cs = [] then ''.'' else path_text (is_absolute path) cs)"
    by (auto simp: normalized_path_def)
  have normal: "normal_components (is_absolute path) cs"
    by (rule resolve_normal [OF cs _ components_all_clean]) simp
  note clean = normal_components_clean [OF normal]
  have dot: "components ''.'' = []" "\<not> is_absolute ''.''" by (simp_all add: components_def is_absolute_def)
  have comps: "components q = cs" using q clean dot by (auto simp: components_text)
  with normal show "normal_components (is_absolute path) (components q)" by simp
  show abs: "is_absolute q = is_absolute path" using q clean dot by (auto simp: is_absolute_text)
  show "normalized_path q = Some q"
    using resolve_normal_fixed [of "is_absolute path" "[]" cs] normal
    unfolding normalized_path_def abs comps by (simp only: q rev.simps append_Nil option.map)
qed


section \<open>Memory\<close>

text \<open>The operations give back every allocation; \<open>same_memory\<close> says so.\<close>

definition same_memory :: "heap \<Rightarrow> heap \<Rightarrow> bool" where
  "same_memory h h' \<longleftrightarrow> heap_ok h' \<and> live h' = live h \<and> alloc_ok h' = alloc_ok h"

lemma same_memory_trans [trans]: "same_memory h h' \<Longrightarrow> same_memory h' h'' \<Longrightarrow> same_memory h h''"
  by (simp add: same_memory_def)

lemma same_memory_refl: "heap_ok h \<Longrightarrow> same_memory h h"
  by (simp add: same_memory_def)

lemma same_memoryD: "same_memory h h' \<Longrightarrow> heap_ok h'" "same_memory h h' \<Longrightarrow> alloc_ok h' = alloc_ok h"
  by (simp_all add: same_memory_def)

lemma malloc_free:
  assumes "heap_ok h" and "malloc h = (p, h1)" and "same_memory h1 h2"
  shows "heap_ok h1" and "\<exists>h3. free p h2 = Some h3 \<and> same_memory h h3"
proof -
  have fresh: "next_address h \<notin> live h" using assms(1) by (auto simp: heap_ok_def)
  show "heap_ok h1" using assms by (auto simp: malloc_def heap_ok_def less_Suc_eq split: if_splits)
  show "\<exists>h3. free p h2 = Some h3 \<and> same_memory h h3"
    using assms fresh by (auto simp: malloc_def free_def same_memory_def heap_ok_def split: if_splits)
qed

lemma normalize_path_memory:
  assumes "heap_ok h"
  shows "\<exists>h'. normalize_path path capacity h =
      Some (if alloc_ok h (next_address h) \<and> alloc_ok h (Suc (next_address h)) then normalize_text path capacity
            else Inl DUALBOY_PLAYLIST_IO_ERROR, h') \<and> same_memory h h'"
  using assms
  by (auto simp: normalize_path_def malloc_def free_def same_memory_def heap_ok_def Let_def less_Suc_eq)

lemma normalize_path_available:
  assumes "heap_ok h" and "\<forall>n. alloc_ok h n"
  shows "\<exists>h'. normalize_path path capacity h = Some (normalize_text path capacity, h') \<and> same_memory h h'"
  using normalize_path_memory [OF assms(1)] assms(2) by simp

lemma playlist_directory_memory:
  assumes "heap_ok h"
  shows "\<exists>result h'. playlist_directory path capacity h = Some (result, h') \<and> same_memory h h'"
proof (cases "validate_local_path path = DUALBOY_PLAYLIST_OK")
  case True
  then obtain p where "path = Some p" by (auto simp: validate_local_path_def split: option.splits)
  moreover obtain h' where "\<exists>r. normalize_path p DUALBOY_PLAYLIST_PATH_CAPACITY h = Some (r, h')" "same_memory h h'"
    using normalize_path_memory [OF assms] by blast
  ultimately show ?thesis using assms by (auto simp: playlist_directory_def same_memory_refl)
qed (simp add: playlist_directory_def same_memory_refl assms)

lemma resolve_entry_memory:
  assumes "heap_ok h"
  shows "\<exists>result h'. resolve_entry directory entry h = Some (result, h') \<and> same_memory h h'"
proof -
  have "\<exists>result h'. normalize_path p DUALBOY_PLAYLIST_PATH_CAPACITY h = Some (result, h') \<and> same_memory h h'" for p
    using normalize_path_memory [OF assms, of p] by blast
  then show ?thesis
    using same_memory_refl [OF assms] unfolding resolve_entry_def Let_def
    by (simp split del: if_split split: if_split_asm add: if_distrib) (auto split: if_splits)
qed

section \<open>Reference: the lines of a playlist\<close>

text \<open>
  A playlist file as text: every line break, in any of the three conventions, ends a line; blanks
  around a line do not count; empty lines and comments name nothing.
\<close>

fun unify_line_breaks :: "bytes \<Rightarrow> bytes" where
  "unify_line_breaks [] = []"
| "unify_line_breaks (b # rest) =
     (if b = 0x0D
      then 0x0A # (case rest of [] \<Rightarrow> []
                   | c # rest' \<Rightarrow> if c = 0x0A then unify_line_breaks rest' else unify_line_breaks rest)
      else b # unify_line_breaks rest)"

definition playlist_lines :: "bytes \<Rightarrow> bytes list" where
  "playlist_lines text = filter (\<lambda>e. e \<noteq> [] \<and> hd e \<noteq> 0x23) (map trim (split_on 0x0A (unify_line_breaks text)))"


lemma unify_line:
  "unify_line_breaks rest = takeWhile (\<lambda>b. \<not> line_break b) rest @
     (case dropWhile (\<lambda>b. \<not> line_break b) rest of [] \<Rightarrow> []
      | b # after \<Rightarrow> 0x0A # unify_line_breaks (skip_line_break (b # after)))"
  by (induction rest) (auto simp: line_break_def split: list.splits)

lemma line_free: "0x0A \<notin> set (takeWhile (\<lambda>b. \<not> line_break b) rest)"
  by (auto simp: line_break_def dest: set_takeWhileD)

lemma playlist_lines_Nil [simp]: "playlist_lines [] = []"
  by (simp add: playlist_lines_def trim_def)

lemma playlist_lines_step:
  assumes "line = takeWhile (\<lambda>b. \<not> line_break b) rest"
    and "rest' = skip_line_break (dropWhile (\<lambda>b. \<not> line_break b) rest)"
  shows "playlist_lines rest =
    (if trim line = [] \<or> hd (trim line) = 0x23 then [] else [trim line]) @ playlist_lines rest'"
proof (cases "dropWhile (\<lambda>b. \<not> line_break b) rest")
  case Nil
  have "unify_line_breaks rest = line"
    using unify_line [of rest] unfolding Nil assms(1) [symmetric] by simp
  moreover have "split_on 0x0A line = [line]" using line_free [of rest] assms(1) by (intro split_on_single) simp
  moreover have "rest' = []" unfolding assms(2) Nil by simp
  ultimately show ?thesis by (simp add: playlist_lines_def trim_def [of "[]"])
next
  case (Cons b after)
  have "unify_line_breaks rest = line @ 0x0A # unify_line_breaks rest'"
    using unify_line [of rest] unfolding assms(2) unfolding Cons assms(1) [symmetric] by simp
  moreover have "split_on 0x0A (line @ 0x0A # unify_line_breaks rest') = line # split_on 0x0A (unify_line_breaks rest')"
    using line_free [of rest] assms(1) by (intro split_on_append) simp
  ultimately show ?thesis by (simp add: playlist_lines_def)
qed

lemma skip_line_break_cases:
  "skip_line_break [0x0D] = []" "skip_line_break (0x0D # 0x0A # rest) = rest"
  "c \<noteq> 0x0A \<Longrightarrow> skip_line_break (0x0D # c # rest) = c # rest" "b \<noteq> 0x0D \<Longrightarrow> skip_line_break (b # rest) = rest"
  by simp_all

lemma line_zero:
  assumes "line = takeWhile (\<lambda>b. \<not> line_break b) rest"
    and "rest' = skip_line_break (dropWhile (\<lambda>b. \<not> line_break b) rest)"
  shows "0 \<in> set rest \<longleftrightarrow> 0 \<in> set line \<or> 0 \<in> set rest'"
proof -
  have "0 \<in> set (dropWhile (\<lambda>b. \<not> line_break b) rest) \<longleftrightarrow> 0 \<in> set rest'"
  proof (cases "dropWhile (\<lambda>b. \<not> line_break b) rest")
    case (Cons b after)
    then have "line_break b" by (metis (full_types) dropWhile_eq_Cons_conv)
    then consider "b = 0x0A" | "b = 0x0D" "after = []" | cs where "b = 0x0D" "after = 0x0A # cs"
      | c cs where "b = 0x0D" "after = c # cs" "c \<noteq> 0x0A"
      by (cases after) (auto simp: line_break_def)
    then show ?thesis
      by cases (simp_all add: assms(2) Cons skip_line_break_cases del: skip_line_break.simps)
  next
    case Nil
    show ?thesis unfolding assms(2) Nil by simp
  qed
  then show ?thesis
    using assms(1) by (metis Un_iff set_append takeWhile_dropWhile_id)
qed

text \<open>The path an entry stands for, from the directory of the playlist.\<close>

definition entry_path :: "string \<Rightarrow> bytes \<Rightarrow> string option" where
  "entry_path directory entry =
     (let raw = text_of entry;
          name = (case last_slash raw of None \<Rightarrow> raw | Some slash \<Rightarrow> drop (slash + 1) raw)
      in if validate_local_path (Some raw) \<noteq> DUALBOY_PLAYLIST_OK \<or> last raw = CHR ''/'' \<or> name = ''.'' \<or> name = ''..'' then None
         else if is_absolute raw \<or> directory = ''.'' then normalized_path raw
         else if length directory + length entry + 2 > DUALBOY_PLAYLIST_PATH_CAPACITY then None
         else normalized_path (directory @ ''/'' @ raw))"

lemma components_double_slash: "components (a @ CHR ''/'' # b) = components a @ components b"
proof (induction a rule: length_induct)
  case (1 a)
  let ?P = "\<lambda>c. c \<noteq> CHR ''/''"
  show ?case
  proof (cases "dropWhile ?P a")
    case Nil
    then have "CHR ''/'' \<notin> set a" by (auto simp: dropWhile_eq_Nil_conv)
    then show ?thesis by (simp add: components_def split_on_append split_on_single)
  next
    case (Cons c rest)
    then have a: "a = takeWhile ?P a @ CHR ''/'' # rest"
      by (metis (full_types) dropWhile_eq_Cons_conv)
    moreover have "CHR ''/'' \<notin> set (takeWhile ?P a)" by (auto dest: set_takeWhileD)
    moreover have "length rest < length a" using arg_cong [OF a, of length] by simp
    ultimately obtain w where w: "a = w @ CHR ''/'' # rest" "CHR ''/'' \<notin> set w" "length rest < length a" by metis
    with 1 have "components (rest @ CHR ''/'' # b) = components rest @ components b" by blast
    with w(2) show ?thesis unfolding w(1) by (simp add: components_def split_on_append)
  qed
qed


lemma normalized_path_slashes:
  assumes "directory \<noteq> []" and "last directory = CHR ''/''"
  shows "normalized_path (directory @ raw) = normalized_path (directory @ ''/'' @ raw)"
proof -
  obtain d where d: "directory = d @ ''/''" using assms by (metis append_butlast_last_id)
  have "components (directory @ raw) = components (directory @ ''/'' @ raw)"
    unfolding d by (simp add: components_double_slash)
  moreover have "is_absolute (directory @ raw) = is_absolute (directory @ ''/'' @ raw)"
    using assms(1) by (simp add: is_absolute_def)
  ultimately show ?thesis unfolding normalized_path_def by (simp only:)
qed

lemma normalize_capacity:
  assumes "length path < DUALBOY_PLAYLIST_PATH_CAPACITY"
  shows "normalize_text path DUALBOY_PLAYLIST_PATH_CAPACITY = Inr p \<longleftrightarrow> normalized_path path = Some p"
  using normalize_text_refines [OF assms] by (auto simp: DUALBOY_PLAYLIST_PATH_CAPACITY_def split: option.splits)

lemma resolve_entry_available:
  assumes "heap_ok h" and "\<forall>n. alloc_ok h n"
  shows "\<exists>result h'. resolve_entry directory entry h = Some (result, h') \<and> same_memory h h' \<and>
    (\<forall>p. result = Inr p \<longleftrightarrow> entry_path directory entry = Some p)"
proof -
  define raw where "raw = text_of entry"
  define name where "name = (case last_slash raw of None \<Rightarrow> raw | Some slash \<Rightarrow> drop (slash + 1) raw)"
  have len: "length raw = length entry" by (simp add: raw_def text_of_def)
  have path: "\<exists>h'. normalize_path q DUALBOY_PLAYLIST_PATH_CAPACITY h =
      Some (normalize_text q DUALBOY_PLAYLIST_PATH_CAPACITY, h') \<and> same_memory h h'" for q
    by (rule normalize_path_available [OF assms])
  have valid: "raw \<noteq> [] \<and> length raw < DUALBOY_PLAYLIST_PATH_CAPACITY"
    if "validate_local_path (Some raw) = DUALBOY_PLAYLIST_OK"
    using that by (auto simp: validate_local_path_def split: if_splits)
  note refl = same_memory_refl [OF assms(1)]
  consider (bad) "validate_local_path (Some raw) \<noteq> DUALBOY_PLAYLIST_OK \<or> last raw = CHR ''/'' \<or> name = ''.'' \<or> name = ''..''"
    | (alone) "validate_local_path (Some raw) = DUALBOY_PLAYLIST_OK" "last raw \<noteq> CHR ''/''" "name \<noteq> ''.''" "name \<noteq> ''..''"
        "is_absolute raw \<or> directory = ''.''"
    | (beside) "validate_local_path (Some raw) = DUALBOY_PLAYLIST_OK" "last raw \<noteq> CHR ''/''" "name \<noteq> ''.''" "name \<noteq> ''..''"
        "\<not> is_absolute raw" "directory \<noteq> ''.''"
    by blast
  then show ?thesis
  proof cases
    case bad
    then show ?thesis
      using refl unfolding resolve_entry_def entry_path_def raw_def [symmetric] Let_def name_def [symmetric]
      by (auto simp: len)
  next
    case alone
    note v = valid [OF alone(1)]
    have "resolve_entry directory entry h = normalize_path raw DUALBOY_PLAYLIST_PATH_CAPACITY h"
      using alone v len unfolding resolve_entry_def raw_def [symmetric] Let_def name_def [symmetric]
      by (auto simp: is_absolute_def)
    moreover have "entry_path directory entry = normalized_path raw"
      using alone unfolding entry_path_def raw_def [symmetric] Let_def name_def [symmetric] by auto
    ultimately show ?thesis using path [of raw] normalize_capacity [OF conjunct2 [OF v]] by auto
  next
    case beside
    note v = valid [OF beside(1)]
    let ?full = "(if directory = [] \<or> last directory \<noteq> CHR ''/'' then directory @ ''/'' else directory) @ raw"
    let ?long = "length directory + length entry + 2 > DUALBOY_PLAYLIST_PATH_CAPACITY"
    have "resolve_entry directory entry h =
        (if ?long then Some (Inl DUALBOY_PLAYLIST_PATH_TOO_LONG, h)
         else normalize_path ?full DUALBOY_PLAYLIST_PATH_CAPACITY h)"
      using beside v len unfolding resolve_entry_def raw_def [symmetric] Let_def name_def [symmetric]
      by (auto simp: is_absolute_def)
    moreover have "entry_path directory entry = (if ?long then None else normalized_path ?full)"
      using beside normalized_path_slashes [of directory raw]
      unfolding entry_path_def raw_def [symmetric] Let_def name_def [symmetric] by auto
    moreover have "length ?full < DUALBOY_PLAYLIST_PATH_CAPACITY" if "\<not> ?long"
      using that len by auto
    ultimately show ?thesis using path [of ?full] normalize_capacity [of ?full] refl by (cases ?long) auto
  qed
qed

text \<open>The outcome of the line loop when memory is available.\<close>

lemma parse_loop_available:
  assumes "heap_ok h" and "\<forall>n. alloc_ok h n"
  shows "\<exists>result h'. parse_loop directory rest entries h = Some (result, h') \<and> same_memory h h' \<and>
    (\<forall>ps. result = Inr ps \<longleftrightarrow> 0 \<notin> set rest \<and> length ps = 2 \<and>
       (\<exists>qs. map (entry_path directory) (playlist_lines rest) = map Some qs \<and> ps = entries @ qs))"
  using assms
proof (induction "length rest" arbitrary: rest entries h rule: less_induct)
  case less
  show ?case
  proof (cases "rest = []")
    case True
    then show ?thesis
      using same_memory_refl [OF less.prems(1)]
      by (auto simp: parse_loop.simps [of directory "[]"] DUALBOY_PLAYLIST_ENTRY_COUNT_def)
  next
    case False
    define line where "line = takeWhile (\<lambda>b. \<not> line_break b) rest"
    define rest' where "rest' = skip_line_break (dropWhile (\<lambda>b. \<not> line_break b) rest)"
    note defs = line_def rest'_def
    note lines = playlist_lines_step [OF defs] and zero = line_zero [OF defs]
    have shorter: "length rest' < length rest" using line_shorter [OF False] by (simp add: defs)
    note unfolded = parse_loop.simps [of directory rest, folded defs, unfolded Let_def, folded defs]
    consider (zero) "0 \<in> set line" | (skip) "0 \<notin> set line" "trim line = [] \<or> hd (trim line) = 0x23"
      | (third) "0 \<notin> set line" "trim line \<noteq> []" "hd (trim line) \<noteq> 0x23" "length entries \<ge> 2"
      | (entry) "0 \<notin> set line" "trim line \<noteq> []" "hd (trim line) \<noteq> 0x23" "length entries < 2"
      by linarith
    then show ?thesis
    proof cases
      case zero
      then show ?thesis
        using False \<open>0 \<in> set rest \<longleftrightarrow> _\<close> same_memory_refl [OF less.prems(1)] by (simp add: unfolded)
    next
      case skip
      then have "parse_loop directory rest entries h = parse_loop directory rest' entries h"
        using False by (simp add: unfolded)
      with less.hyps [OF shorter less.prems] skip lines zero show ?thesis by simp
    next
      case third
      then have "parse_loop directory rest entries h = Some (Inl DUALBOY_PLAYLIST_WRONG_ENTRY_COUNT, h)"
        using False by (simp add: unfolded DUALBOY_PLAYLIST_ENTRY_COUNT_def)
      with third lines same_memory_refl [OF less.prems(1)] show ?thesis by (auto simp: map_eq_Cons_conv)
    next
      case entry
      from resolve_entry_available [OF less.prems, of directory "trim line"] obtain result h1 where
        res: "resolve_entry directory (trim line) h = Some (result, h1)" "same_memory h h1"
          "\<forall>p. result = Inr p \<longleftrightarrow> entry_path directory (trim line) = Some p" by blast
      show ?thesis
      proof (cases result)
        case (Inl error)
        then have "parse_loop directory rest entries h = Some (Inl error, h1)"
          using False entry res(1) by (simp add: unfolded DUALBOY_PLAYLIST_ENTRY_COUNT_def)
        moreover have "entry_path directory (trim line) = None" using res(3) Inl by (cases "entry_path directory (trim line)") auto
        ultimately show ?thesis using res(2) lines entry by (auto simp: map_eq_Cons_conv)
      next
        case (Inr p)
        then have "parse_loop directory rest entries h = parse_loop directory rest' (entries @ [p]) h1"
          using False entry res(1) by (simp add: unfolded DUALBOY_PLAYLIST_ENTRY_COUNT_def)
        moreover from less.hyps [OF shorter same_memoryD(1) [OF res(2)], of "entries @ [p]"] obtain result' h2 where
          "parse_loop directory rest' (entries @ [p]) h1 = Some (result', h2)" "same_memory h1 h2"
          "\<forall>ps. result' = Inr ps \<longleftrightarrow> 0 \<notin> set rest' \<and> length ps = 2 \<and>
             (\<exists>qs. map (entry_path directory) (playlist_lines rest') = map Some qs \<and> ps = (entries @ [p]) @ qs)"
          using same_memoryD(2) [OF res(2)] less.prems(2) by auto
        moreover have "entry_path directory (trim line) = Some p" using res(3) Inr by blast
        ultimately show ?thesis
          using lines entry zero same_memory_trans [OF res(2)] by (auto simp: Cons_eq_map_conv map_eq_Cons_conv)
      qed
    qed
  qed
qed


text \<open>What comes out of a normalization fits its buffer and is in normal form.\<close>

definition normal_path :: "string \<Rightarrow> bool" where
  "normal_path p \<longleftrightarrow> p \<noteq> [] \<and> length p < DUALBOY_PLAYLIST_PATH_CAPACITY \<and>
     normalized_path p = Some p \<and> normal_components (is_absolute p) (components p)"

lemma normalize_loop_bound:
  "normalize_loop absolute capacity rest stack out = Inr r \<Longrightarrow> length out < capacity \<Longrightarrow> length r < capacity"
proof (induction "length rest" arbitrary: rest stack out rule: less_induct)
  case less
  show ?case
  proof (cases "rest = []")
    case True
    with less.prems show ?thesis by (simp add: normalize_loop.simps)
  next
    case False
    define start where "start = dropWhile (\<lambda>c. c = CHR ''/'') rest"
    define component where "component = takeWhile (\<lambda>c. c \<noteq> CHR ''/'') start"
    define rest' where "rest' = dropWhile (\<lambda>c. c \<noteq> CHR ''/'') start"
    note defs = start_def component_def rest'_def
    have shorter: "length rest' < length rest" using component_shorter [OF False] by (simp add: defs)
    note loop = less.prems(1) [unfolded normalize_loop.simps [of absolute capacity rest, folded defs, unfolded Let_def,
        folded defs]]
    show ?thesis
    proof (cases "component = [] \<or> component = ''.'' \<or> component = ''..'' \<and> stack \<noteq> [] \<and> \<not> snd (hd stack)")
      case True
      then obtain stack' out' where "normalize_loop absolute capacity rest' stack' out' = Inr r" "length out' \<le> length out"
        using loop False by (cases "component = [] \<or> component = ''.''") auto
      then show ?thesis using less.hyps [OF shorter] less.prems(2) by fastforce
    next
      case pushed: False
      then obtain out' where out': "append_component out capacity component = Some out'"
        "normalize_loop absolute capacity rest' ((length out, component = ''..'') # stack) out' = Inr r"
        using loop False by (cases "component = ''..'' \<and> absolute"; cases "append_component out capacity component") auto
      from out'(1) have "length out' < capacity"
        by (auto simp: append_component_def Let_def split: if_splits)
      then show ?thesis using less.hyps [OF shorter out'(2)] by simp
    qed
  qed
qed

lemma normalize_text_bound: "normalize_text path capacity = Inr q \<Longrightarrow> 2 \<le> capacity \<Longrightarrow> length q < capacity"
  using normalize_loop_bound [of _ capacity path "[]" _ q]
  by (auto simp: normalize_text_def Let_def split: sum.splits if_splits)

lemma normalize_text_nonempty: "normalize_text path capacity = Inr q \<Longrightarrow> q \<noteq> []"
  by (auto simp: normalize_text_def Let_def split: sum.splits if_splits)

lemma normalize_text_normal:
  assumes "normalize_text path DUALBOY_PLAYLIST_PATH_CAPACITY = Inr p" and "length path < DUALBOY_PLAYLIST_PATH_CAPACITY"
  shows "normal_path p"
proof -
  have path: "normalized_path path = Some p" using assms normalize_capacity by blast
  have "length p < DUALBOY_PLAYLIST_PATH_CAPACITY" and "p \<noteq> []"
    using normalize_text_bound [OF assms(1)] normalize_text_nonempty [OF assms(1)]
    by (simp_all add: DUALBOY_PLAYLIST_PATH_CAPACITY_def)
  with normalized_path_normal [OF path] show ?thesis by (simp add: normal_path_def)
qed

lemma resolve_entry_normal:
  assumes "heap_ok h" and "resolve_entry directory entry h = Some (Inr p, h')"
  shows "normal_path p"
proof -
  have "normal_path p" if "normalize_path q DUALBOY_PLAYLIST_PATH_CAPACITY h = Some (Inr p, h')"
    "length q < DUALBOY_PLAYLIST_PATH_CAPACITY" for q
    using that normalize_path_memory [OF assms(1), of q DUALBOY_PLAYLIST_PATH_CAPACITY]
    by (auto split: if_splits intro: normalize_text_normal)
  moreover have "length (text_of entry) = length entry" by (simp add: text_of_def)
  ultimately show ?thesis
    using assms(2) unfolding resolve_entry_def Let_def by (fastforce split: if_splits)
qed

text \<open>The success code is never returned as an error.\<close>

lemma normalize_loop_error: "normalize_loop absolute capacity rest stack out \<noteq> Inl DUALBOY_PLAYLIST_OK"
proof (induction absolute capacity rest stack out rule: normalize_loop.induct)
  case (1 absolute capacity rest stack out)
  then show ?case
    by (subst normalize_loop.simps) (simp add: Let_def split: option.split)
qed

lemma normalize_path_error: "normalize_path path capacity h = Some (Inl error, h') \<Longrightarrow> error \<noteq> DUALBOY_PLAYLIST_OK"
  using normalize_loop_error
  by (fastforce simp: normalize_path_def normalize_text_def Let_def split: if_splits sum.splits Option.bind_splits prod.splits)

lemma playlist_directory_error:
  "playlist_directory path capacity h = Some (Inl error, h') \<Longrightarrow> error \<noteq> DUALBOY_PLAYLIST_OK"
  using normalize_path_error
  by (fastforce simp: playlist_directory_def split: if_splits sum.splits Option.bind_splits option.splits)

lemma resolve_entry_error: "resolve_entry directory entry h = Some (Inl error, h') \<Longrightarrow> error \<noteq> DUALBOY_PLAYLIST_OK"
  using normalize_path_error unfolding resolve_entry_def Let_def by (fastforce split: if_splits)

lemma parse_loop_memory:
  assumes "heap_ok h" and "list_all normal_path entries"
  shows "\<exists>result h'. parse_loop directory rest entries h = Some (result, h') \<and> same_memory h h' \<and>
    result \<noteq> Inl DUALBOY_PLAYLIST_OK \<and> (\<forall>ps. result = Inr ps \<longrightarrow> length ps = 2 \<and> list_all normal_path ps)"
  using assms
proof (induction "length rest" arbitrary: rest entries h rule: less_induct)
  case less
  note keep = same_memory_refl [OF less.prems(1)]
  show ?case
  proof (cases "rest = []")
    case True
    then show ?thesis
      using keep less.prems(2) by (simp add: parse_loop.simps [of directory "[]"] DUALBOY_PLAYLIST_ENTRY_COUNT_def)
  next
    case False
    define line where "line = takeWhile (\<lambda>b. \<not> line_break b) rest"
    define rest' where "rest' = skip_line_break (dropWhile (\<lambda>b. \<not> line_break b) rest)"
    note defs = line_def rest'_def
    have shorter: "length rest' < length rest" using line_shorter [OF False] by (simp add: defs)
    note unfolded = parse_loop.simps [of directory rest, folded defs, unfolded Let_def, folded defs]
    from resolve_entry_memory [OF less.prems(1), of directory "trim line"] obtain result h1 where
      res: "resolve_entry directory (trim line) h = Some (result, h1)" "same_memory h h1" by blast
    consider (stop) error where "parse_loop directory rest entries h = Some (Inl error, h)" "error \<noteq> DUALBOY_PLAYLIST_OK"
      | (failed) error where "result = Inl error" "parse_loop directory rest entries h = Some (Inl error, h1)"
      | (skip) "parse_loop directory rest entries h = parse_loop directory rest' entries h"
      | (entry) p where "result = Inr p"
          "parse_loop directory rest entries h = parse_loop directory rest' (entries @ [p]) h1"
      using False res(1)
      by (cases result; cases "0 \<in> set line"; cases "trim line = [] \<or> hd (trim line) = 0x23";
          cases "length entries \<ge> DUALBOY_PLAYLIST_ENTRY_COUNT") (auto simp: unfolded)
    then show ?thesis
    proof cases
      case stop
      with keep show ?thesis by simp
    next
      case failed
      with res resolve_entry_error [of directory "trim line" h] show ?thesis by auto
    next
      case skip
      with less.hyps [OF shorter less.prems] show ?thesis by simp
    next
      case (entry p)
      have "list_all normal_path (entries @ [p])"
        using less.prems(2) resolve_entry_normal [OF less.prems(1)] res(1) entry(1) by simp
      from less.hyps [OF shorter same_memoryD(1) [OF res(2)] this] entry(2) res(2) show ?thesis
        by (auto intro: same_memory_trans)
    qed
  qed
qed


lemma playlist_parse_memory:
  assumes "heap_ok h"
  shows "\<exists>result playlist' h'. dualboy_playlist_parse path data playlist h = Some (result, playlist', h') \<and>
    same_memory h h' \<and>
    (if result \<noteq> DUALBOY_PLAYLIST_OK then playlist' = playlist
     else playlist \<noteq> None \<and> (\<exists>first second. playlist' = Some [first, second] \<and> normal_path first \<and> normal_path second))"
proof (cases "data = None \<or> playlist = None")
  case True
  then show ?thesis using same_memory_refl [OF assms] by (auto simp: dualboy_playlist_parse_def split: option.splits)
next
  case False
  then obtain bs old where some: "data = Some bs" "playlist = Some old" by auto
  from playlist_directory_memory [OF assms, of path DUALBOY_PLAYLIST_PATH_CAPACITY] obtain directory h1 where
    dir: "playlist_directory path DUALBOY_PLAYLIST_PATH_CAPACITY h = Some (directory, h1)" "same_memory h h1" by blast
  show ?thesis
  proof (cases "\<exists>d. directory = Inr d \<and> length bs \<le> DUALBOY_PLAYLIST_FILE_LIMIT")
    case True
    then obtain d where d: "directory = Inr d" "length bs \<le> DUALBOY_PLAYLIST_FILE_LIMIT" by blast
    from parse_loop_memory [OF same_memoryD(1) [OF dir(2)], of "[]" d "skip_bom bs"] obtain result h2 where
      loop: "parse_loop d (skip_bom bs) [] h1 = Some (result, h2)" "same_memory h1 h2"
        "result \<noteq> Inl DUALBOY_PLAYLIST_OK" "\<forall>ps. result = Inr ps \<longrightarrow> length ps = 2 \<and> list_all normal_path ps" by auto
    have "\<exists>first second. ps = [first, second] \<and> normal_path first \<and> normal_path second" if "result = Inr ps" for ps
      using loop(4) that by (auto simp: length_Suc_conv numeral_2_eq_2)
    with some dir d loop(1,3) same_memory_trans [OF dir(2) loop(2)] show ?thesis
      by (cases result) (auto simp: dualboy_playlist_parse_def)
  next
    case False
    then show ?thesis using some dir playlist_directory_error [of path DUALBOY_PLAYLIST_PATH_CAPACITY h]
      by (cases directory) (auto simp: dualboy_playlist_parse_def)
  qed
qed

text \<open>Reading a file that the system delivers in pieces, with interruptions.\<close>

fun playlist_delivery :: "bytes \<Rightarrow> read_result list \<Rightarrow> bool" where
  "playlist_delivery content [] = False"
| "playlist_delivery content (READ_ERR errno # rest) = (errno = EINTR \<and> playlist_delivery content rest)"
| "playlist_delivery content (READ_BYTES chunk # rest) =
     (if content = [] then chunk = []
      else chunk \<noteq> [] \<and> take (length chunk) content = chunk \<and> playlist_delivery (drop (length chunk) content) rest)"

lemma playlist_read_loop_delivers:
  assumes "playlist_delivery content calls" and "length (data @ content) \<le> DUALBOY_PLAYLIST_FILE_LIMIT"
  shows "playlist_read_loop calls data = Some (Inr (data @ content))"
  using assms
proof (induction calls arbitrary: content data)
  case (Cons call calls)
  show ?case
  proof (cases call)
    case (READ_ERR errno)
    with Cons show ?thesis by (subst playlist_read_loop.simps) simp
  next
    case (READ_BYTES chunk)
    show ?thesis
    proof (cases "content = []")
      case True
      with Cons.prems READ_BYTES show ?thesis by (subst playlist_read_loop.simps) simp
    next
      case False
      with Cons.prems READ_BYTES have chunk: "chunk \<noteq> []" "take (length chunk) content = chunk"
        "playlist_delivery (drop (length chunk) content) calls" by simp_all
      then obtain after where content: "content = chunk @ after" by (metis append_take_drop_id)
      with chunk Cons.prems(2) have "playlist_read_loop calls (data @ chunk) = Some (Inr ((data @ chunk) @ after))"
        by (intro Cons.IH) simp_all
      with READ_BYTES chunk(1) Cons.prems(2) content show ?thesis by (subst playlist_read_loop.simps) simp
    qed
  qed
qed simp

declare playlist_read_loop.simps [simp del]

section \<open>Properties\<close>

text \<open>
  C25. Path normalization computes what it is meant to. In a buffer that is longer than the path,
  the component loop with its stack of restore lengths returns exactly the reference resolution:
  empty and \<open>.\<close> components dropped, \<open>..\<close> cancelling the component before it, a relative path that
  becomes empty written as \<open>.\<close>, and a path that would climb above the root refused. Both work
  arrays are released again, and running out of memory is an I/O error.
\<close>

theorem normalize_path_refines:
  assumes "heap_ok h" and "length path < capacity" and "2 \<le> capacity"
  shows "\<exists>h'. normalize_path path capacity h =
      Some (if alloc_ok h (next_address h) \<and> alloc_ok h (Suc (next_address h))
            then (case normalized_path path of None \<Rightarrow> Inl DUALBOY_PLAYLIST_UNSAFE_PATH | Some q \<Rightarrow> Inr q)
            else Inl DUALBOY_PLAYLIST_IO_ERROR, h') \<and> live h' = live h"
  using normalize_path_memory [OF assms(1), of path capacity] normalize_text_refines [OF assms(2,3)]
  by (auto simp: same_memory_def)

lemma demo_heap_ok: "heap_ok demo_heap" "\<forall>n. alloc_ok demo_heap n"
  by (simp_all add: heap_ok_def demo_heap_def)

theorem normalize_path_refines_witness:
  "\<exists>h'. normalize_path ''roms/./gb/../gbc//a.gbc'' 4096 demo_heap = Some (Inr ''roms/gbc/a.gbc'', h')"
proof -
  have "normalized_path ''roms/./gb/../gbc//a.gbc'' = Some ''roms/gbc/a.gbc''"
    by (simp add: normalized_path_def is_absolute_def components_def path_text_def)
  with normalize_path_refines [OF demo_heap_ok(1), of "''roms/./gb/../gbc//a.gbc''" 4096] demo_heap_ok(2)
  show ?thesis by auto
qed

text \<open>
  C26. A normalized path is in normal form and stays as it is: normalizing it again changes
  nothing, it is absolute exactly when the input was, it has no empty and no \<open>.\<close> component, and
  \<open>..\<close> appears only in front of a relative path, so an absolute result never climbs.
\<close>

theorem normalize_path_normal:
  assumes "length path < capacity" and "2 \<le> capacity" and "normalize_text path capacity = Inr q"
  shows "normalize_text q capacity = Inr q \<and> is_absolute q = is_absolute path \<and>
    (\<exists>n names. components q = replicate n ''..'' @ names \<and> (is_absolute q \<longrightarrow> n = 0) \<and>
       (\<forall>name \<in> set names. name \<noteq> [] \<and> name \<noteq> ''.'' \<and> name \<noteq> ''..''))"
proof -
  have "normalized_path path = Some q"
    using normalize_text_refines [OF assms(1,2)] assms(3) by (auto split: option.splits)
  note normal = normalized_path_normal [OF this]
  show ?thesis
    using normal normalize_text_refines [OF normalize_text_bound [OF assms(3,2)] assms(2)]
    by (fastforce simp: normal_components_def list_all_iff clean_def)
qed

theorem normalize_path_normal_witness:
  "normalize_text ''../a/b/..'' 16 = Inr ''../a'' \<and> normalize_text ''../a'' 16 = Inr ''../a''"
proof -
  have eq: "normalize_text ''../a/b/..'' 16 = Inr ''../a''"
    by (simp add: normalize_text_refines normalized_path_def is_absolute_def components_def path_text_def)
  with normalize_path_normal [of "''../a/b/..''" 16 "''../a''"] show ?thesis by simp
qed


text \<open>
  C24. A playlist is accepted exactly when it should be. With memory available, parsing succeeds
  with two paths if and only if the playlist path has a usable directory, the text is within the
  size limit and has no NUL byte, exactly two of its lines name something (whatever line break
  convention it uses, and whether or not it starts with a byte order mark), and both names resolve
  from that directory; the two paths are then the resolved names in order.
\<close>

theorem playlist_parse_iff:
  assumes "heap_ok h" and "\<forall>n. alloc_ok h n"
  shows "(\<exists>h'. dualboy_playlist_parse path (Some bs) (Some old) h = Some (DUALBOY_PLAYLIST_OK, Some [first, second], h')) \<longleftrightarrow>
    (\<exists>directory h1 a b. playlist_directory path DUALBOY_PLAYLIST_PATH_CAPACITY h = Some (Inr directory, h1) \<and>
       length bs \<le> DUALBOY_PLAYLIST_FILE_LIMIT \<and> 0 \<notin> set (skip_bom bs) \<and> playlist_lines (skip_bom bs) = [a, b] \<and>
       entry_path directory a = Some first \<and> entry_path directory b = Some second)"
proof -
  from playlist_directory_memory [OF assms(1), of path DUALBOY_PLAYLIST_PATH_CAPACITY] obtain directory h1 where
    dir: "playlist_directory path DUALBOY_PLAYLIST_PATH_CAPACITY h = Some (directory, h1)" "same_memory h h1" by blast
  show ?thesis
  proof (cases "\<exists>d. directory = Inr d \<and> length bs \<le> DUALBOY_PLAYLIST_FILE_LIMIT")
    case True
    then obtain d where d: "directory = Inr d" "length bs \<le> DUALBOY_PLAYLIST_FILE_LIMIT" by blast
    have "\<forall>n. alloc_ok h1 n" using assms(2) same_memoryD(2) [OF dir(2)] by simp
    from parse_loop_available [OF same_memoryD(1) [OF dir(2)] this, of d "skip_bom bs" "[]"] obtain result h2 where
      loop: "parse_loop d (skip_bom bs) [] h1 = Some (result, h2)"
        "\<forall>ps. result = Inr ps \<longleftrightarrow> 0 \<notin> set (skip_bom bs) \<and> length ps = 2 \<and>
           (\<exists>qs. map (entry_path d) (playlist_lines (skip_bom bs)) = map Some qs \<and> ps = [] @ qs)" by blast
    have parse: "(\<exists>h'. dualboy_playlist_parse path (Some bs) (Some old) h =
        Some (DUALBOY_PLAYLIST_OK, Some [first, second], h')) \<longleftrightarrow> result = Inr [first, second]"
      using dir d loop(1) parse_loop_memory [OF same_memoryD(1) [OF dir(2)], of "[]" d "skip_bom bs"]
      by (cases result) (auto simp: dualboy_playlist_parse_def)
    show ?thesis
      unfolding parse loop(2) [rule_format] using dir d by (auto simp: map_eq_Cons_conv Cons_eq_map_conv)
  next
    case False
    then show ?thesis using dir playlist_directory_error [of path DUALBOY_PLAYLIST_PATH_CAPACITY h]
      by (cases directory) (auto simp: dualboy_playlist_parse_def)
  qed
qed


definition demo_playlist :: bytes where
  "demo_playlist = [0xEF, 0xBB, 0xBF, 0x23, 0x0D, 0x0A, 0x20, 0x61, 0x2E, 0x67, 0x62, 0x0D, 0x2E, 0x2E, 0x2F, 0x62]"

lemma demo_playlist_lines:
  "skip_bom demo_playlist = drop 3 demo_playlist" "0 \<notin> set (skip_bom demo_playlist)"
  "playlist_lines (skip_bom demo_playlist) = [[0x61, 0x2E, 0x67, 0x62], [0x2E, 0x2E, 0x2F, 0x62]]"
  by (simp_all add: demo_playlist_def skip_bom_def playlist_lines_def trim_def is_space_def)

lemma demo_directory:
  "\<exists>h1. playlist_directory (Some ''x/y.m3u'') DUALBOY_PLAYLIST_PATH_CAPACITY demo_heap = Some (Inr ''x'', h1)"
proof -
  have valid: "validate_local_path (Some ''x/y.m3u'') = DUALBOY_PLAYLIST_OK"
    by (simp add: validate_local_path_def starts_network_path_def starts_uri_scheme_def is_letter_def
        DUALBOY_PLAYLIST_PATH_CAPACITY_def)
  have "normalize_text ''x/y.m3u'' DUALBOY_PLAYLIST_PATH_CAPACITY = Inr ''x/y.m3u''"
    by (simp add: normalize_text_refines DUALBOY_PLAYLIST_PATH_CAPACITY_def normalized_path_def is_absolute_def
        components_def path_text_def)
  with normalize_path_available [OF demo_heap_ok, of "''x/y.m3u''" DUALBOY_PLAYLIST_PATH_CAPACITY] obtain h1 where
    "normalize_path ''x/y.m3u'' DUALBOY_PLAYLIST_PATH_CAPACITY demo_heap = Some (Inr ''x/y.m3u'', h1)" by auto
  with valid show ?thesis
    by (simp add: playlist_directory_def last_slash_def DUALBOY_PLAYLIST_PATH_CAPACITY_def)
qed

lemma demo_entries:
  "entry_path ''x'' [0x61, 0x2E, 0x67, 0x62] = Some ''x/a.gb''" "entry_path ''x'' [0x2E, 0x2E, 0x2F, 0x62] = Some ''b''"
  by (simp_all add: entry_path_def text_of_def validate_local_path_def starts_network_path_def starts_uri_scheme_def
      is_letter_def is_digit_def DUALBOY_PLAYLIST_PATH_CAPACITY_def last_slash_def is_absolute_def normalized_path_def
      components_def path_text_def char_of_def bit_0)

theorem playlist_parse_iff_witness:
  "\<exists>h'. dualboy_playlist_parse (Some ''x/y.m3u'') (Some demo_playlist) (Some []) demo_heap =
     Some (DUALBOY_PLAYLIST_OK, Some [''x/a.gb'', ''b''], h')"
proof -
  have "length demo_playlist \<le> DUALBOY_PLAYLIST_FILE_LIMIT"
    by (simp add: demo_playlist_def DUALBOY_PLAYLIST_FILE_LIMIT_def)
  with playlist_parse_iff [OF demo_heap_ok, of "Some ''x/y.m3u''" demo_playlist "[]" "''x/a.gb''" "''b''"]
    demo_directory demo_playlist_lines demo_entries show ?thesis by blast
qed

text \<open>
  C27. Parsing is safe whatever it is given and whichever allocation fails: it returns, gives back
  all its memory, changes the caller's playlist only when it reports success, and a playlist it
  accepts always holds exactly two paths, each in normal form and short enough for its buffer.
\<close>

theorem playlist_parse_safe:
  assumes "heap_ok h"
  shows "\<exists>result playlist' h'. dualboy_playlist_parse path data playlist h = Some (result, playlist', h') \<and>
    live h' = live h \<and>
    (if result \<noteq> DUALBOY_PLAYLIST_OK then playlist' = playlist
     else \<exists>first second. playlist' = Some [first, second] \<and> (\<forall>p \<in> {first, second}.
       p \<noteq> [] \<and> length p < DUALBOY_PLAYLIST_PATH_CAPACITY \<and> normalized_path p = Some p))"
  using playlist_parse_memory [OF assms, of path data playlist]
  by (auto simp: same_memory_def normal_path_def split: if_splits)

theorem playlist_parse_safe_witness:
  "\<exists>result playlist' h'. dualboy_playlist_parse (Some ''x/y.m3u'') (Some demo_playlist) (Some [])
      (demo_heap\<lparr>alloc_ok := (\<lambda>n. n < 4)\<rparr>) = Some (result, playlist', h') \<and> live h' = {0}"
proof -
  have "heap_ok (demo_heap\<lparr>alloc_ok := (\<lambda>n. n < 4)\<rparr>)" by (simp add: heap_ok_def demo_heap_def)
  from playlist_parse_safe [OF this, of "Some ''x/y.m3u''" "Some demo_playlist" "Some []"] show ?thesis
    by (auto simp: demo_heap_def)
qed

text \<open>
  C28. Loading a playlist file reads the whole file: when the system delivers its content in any
  pieces, with any number of interruptions, within the size limit, the loader terminates with what
  parsing that content gives, and releases its buffer.
\<close>

theorem playlist_file_parses_content:
  assumes "heap_ok h" and "alloc_ok h (next_address h)" and "validate_local_path path = DUALBOY_PLAYLIST_OK"
    and "playlist_opens os" and "playlist_cloexec os" and "playlist_regular os" and "playlist_closes os"
    and "playlist_delivery content (playlist_reads os)" and "length content \<le> DUALBOY_PLAYLIST_FILE_LIMIT"
  shows "\<exists>result playlist' h1 h2 h3. dualboy_playlist_parse path (Some content) (Some old) h1 = Some (result, playlist', h2) \<and>
    live h1 = insert (next_address h) (live h) \<and>
    dualboy_playlist_parse_file os path (Some old) h = Some (result, playlist', h3) \<and> live h3 = live h"
proof -
  obtain h1 where alloc: "malloc h = (Some (next_address h), h1)" "live h1 = insert (next_address h) (live h)"
    using assms(2) by (simp add: malloc_def)
  have ok: "heap_ok h1" by (rule malloc_free(1) [OF assms(1) alloc(1)]) (rule same_memory_refl, insert assms(1) alloc,
      auto simp: malloc_def heap_ok_def less_Suc_eq split: if_splits)
  from playlist_parse_memory [OF ok, of path "Some content" "Some old"] obtain result playlist' h2 where
    parse: "dualboy_playlist_parse path (Some content) (Some old) h1 = Some (result, playlist', h2)" "same_memory h1 h2"
    by blast
  from malloc_free(2) [OF assms(1) alloc(1) parse(2)] obtain h3 where
    h3: "free (Some (next_address h)) h2 = Some h3" "same_memory h h3" by blast
  have "playlist_read_loop (playlist_reads os) [] = Some (Inr content)"
    using playlist_read_loop_delivers [OF assms(8), of "[]"] assms(9) by simp
  with assms alloc parse(1) h3(1) have "dualboy_playlist_parse_file os path (Some old) h = Some (result, playlist', h3)"
    by (simp add: dualboy_playlist_parse_file_def)
  with parse(1) alloc(2) h3(2) show ?thesis by (auto simp: same_memory_def)
qed

theorem playlist_file_parses_content_witness:
  "\<exists>result playlist' h3. dualboy_playlist_parse_file
      \<lparr>playlist_opens = True, playlist_cloexec = True, playlist_regular = True,
       playlist_reads = [READ_ERR EINTR, READ_BYTES (take 9 demo_playlist), READ_BYTES (drop 9 demo_playlist), READ_BYTES []],
       playlist_closes = True\<rparr> (Some ''x/y.m3u'') (Some []) demo_heap = Some (result, playlist', h3) \<and> live h3 = {0}"
proof -
  let ?os = "\<lparr>playlist_opens = True, playlist_cloexec = True, playlist_regular = True,
       playlist_reads = [READ_ERR EINTR, READ_BYTES (take 9 demo_playlist), READ_BYTES (drop 9 demo_playlist), READ_BYTES []],
       playlist_closes = True\<rparr>"
  have "validate_local_path (Some ''x/y.m3u'') = DUALBOY_PLAYLIST_OK"
    by (simp add: validate_local_path_def starts_network_path_def starts_uri_scheme_def is_letter_def
        DUALBOY_PLAYLIST_PATH_CAPACITY_def)
  moreover have "playlist_delivery demo_playlist (playlist_reads ?os)" by (simp add: demo_playlist_def)
  moreover have "length demo_playlist \<le> DUALBOY_PLAYLIST_FILE_LIMIT"
    by (simp add: demo_playlist_def DUALBOY_PLAYLIST_FILE_LIMIT_def)
  ultimately have "\<exists>result playlist' h1 h2 h3.
    dualboy_playlist_parse (Some ''x/y.m3u'') (Some demo_playlist) (Some []) h1 = Some (result, playlist', h2) \<and>
    live h1 = insert (next_address demo_heap) (live demo_heap) \<and>
    dualboy_playlist_parse_file ?os (Some ''x/y.m3u'') (Some []) demo_heap = Some (result, playlist', h3) \<and>
    live h3 = live demo_heap"
    by (intro playlist_file_parses_content demo_heap_ok(1)) (simp_all add: demo_heap_ok(2))
  then show ?thesis by (auto simp: demo_heap_def)
qed

end
