(* ===== verification/Save_Manager.thy ===== *)
theory Save_Manager
  imports Persistence Session "HOL-Library.Char_ord" "HOL-Library.List_Lexorder"
begin

text \<open>
  The save manager, \<open>src/frontend/save_manager.c\<close>: who persists which memory region, the lock files
  that make one process the writer, loading of save files into engine memory, and the flush that
  writes changed regions back.

  Everything outside the program is in \<open>save_world\<close>: the heap, the files, and the answers of the
  operating system, one element per call of the file routines of the save file theory. The outer
  option of an operation is \<open>None\<close> when it reads outside a region, frees memory it does not own or
  runs out of answers (a system call that has not returned). The manager and the session are the
  caller's objects, never null; error texts are not modelled.
\<close>

unbundle bit_operations_syntax

section \<open>State\<close>

type_synonym region = "nat \<times> dualboy_memory_kind"

definition DUALBOY_NDS_FIRMWARE_SIZE :: nat where
  "DUALBOY_NDS_FIRMWARE_SIZE = 128 * 1024"

definition DUALBOY_SAVE_FLUSH_INTERVAL_FRAMES :: u64 where
  "DUALBOY_SAVE_FLUSH_INTERVAL_FRAMES = 300"

record dualboy_save_region_tracking =
  baseline :: "(nat \<times> bytes) option"
  baseline_size :: nat
  tracked_hash :: u64
  tracked_size :: nat
  loaded_size :: nat
  preserved_size :: nat
  extent_known :: bool
  tracking_valid :: bool

record dualboy_save_manager =
  paths :: dualboy_save_paths
  core_managed :: "region \<Rightarrow> bool"
  tracked :: "region \<Rightarrow> dualboy_save_region_tracking"
  frames_since_flush :: u64
  write_lock_fds :: "nat list"
  write_owner :: bool
  initialized :: bool

definition zero_tracking :: dualboy_save_region_tracking where
  "zero_tracking = \<lparr>baseline = None, baseline_size = 0, tracked_hash = 0, tracked_size = 0, loaded_size = 0,
     preserved_size = 0, extent_known = False, tracking_valid = False\<rparr>"

definition zero_manager :: dualboy_save_manager where
  "zero_manager = \<lparr>paths = \<lparr>sram = ([], []), rtc = ([], []), firmware = ([], []), second_uses_collision_suffix = False\<rparr>,
     core_managed = (\<lambda>_. False), tracked = (\<lambda>_. zero_tracking), frames_since_flush = 0, write_lock_fds = [],
     write_owner = False, initialized = False\<rparr>"

definition kinds :: "dualboy_memory_kind list" where
  "kinds = [DUALBOY_MEMORY_SAVE_RAM, DUALBOY_MEMORY_RTC, DUALBOY_MEMORY_FIRMWARE]"

definition machine_regions :: "nat \<Rightarrow> region list" where
  "machine_regions machine = map (Pair machine) kinds"

definition all_regions :: "region list" where
  "all_regions = machine_regions 0 @ machine_regions 1"

text \<open>The answers to one attempt to open and lock a lock file.\<close>

datatype flock_result = FLOCK_OK | FLOCK_INTERRUPTED | FLOCK_BUSY | FLOCK_FAILED

record lock_calls =
  lock_opens :: "nat option"
  flocks :: "flock_result list"

record save_world =
  memory :: heap
  files :: file_system
  file_stat :: "string \<Rightarrow> stat_result"
  read_answers :: "read_calls list"
  write_answers :: "write_calls list"
  lock_answers :: "lock_calls list"
  held_locks :: "nat set"

definition read_file ::
  "save_world \<Rightarrow> string \<Rightarrow> nat \<Rightarrow> u8 \<Rightarrow> ((dualboy_persistence_result \<times> bytes \<times> nat) \<times> save_world) option" where
  "read_file w path capacity fill =
     (case read_answers w of
        [] \<Rightarrow> None
      | os # rest \<Rightarrow> do {
          answer \<leftarrow> dualboy_read_file_filled os (Some path) (replicate capacity 0) fill;
          Some (answer, w\<lparr>read_answers := rest\<rparr>)
        })"

definition write_file :: "save_world \<Rightarrow> string \<Rightarrow> bytes \<Rightarrow> (dualboy_persistence_result \<times> save_world) option" where
  "write_file w path data =
     (case write_answers w of
        [] \<Rightarrow> None
      | os # rest \<Rightarrow> do {
          (result, steps) \<leftarrow> dualboy_write_file_atomic os (files w) (Some path) data;
          Some (result, w\<lparr>files := last (files w # steps), write_answers := rest\<rparr>)
        })"

definition allocate :: "save_world \<Rightarrow> nat option \<times> save_world" where
  "allocate w = (case malloc (memory w) of (a, h) \<Rightarrow> (a, w\<lparr>memory := h\<rparr>))"

definition release :: "nat option \<Rightarrow> save_world \<Rightarrow> save_world option" where
  "release a w = do { h \<leftarrow> free a (memory w); Some (w\<lparr>memory := h\<rparr>) }"

section \<open>Tracking\<close>

definition memory_hash :: "bytes \<Rightarrow> nat \<Rightarrow> u64 option" where
  "memory_hash data n = fold_range fnv_step data 0 n fnv_offset"

definition replace_baseline ::
  "dualboy_save_region_tracking \<Rightarrow> bytes \<Rightarrow> nat \<Rightarrow> save_world
   \<Rightarrow> (bool \<times> dualboy_save_region_tracking \<times> save_world) option" where
  "replace_baseline tracking data n w = do {
     copy \<leftarrow> slice data 0 n;
     if n = baseline_size tracking \<and> (n = 0 \<or> baseline tracking \<noteq> None)
     then Some (True,
       (if n \<noteq> 0 then tracking\<lparr>baseline := map_option (\<lambda>(a, _). (a, copy)) (baseline tracking)\<rparr> else tracking), w)
     else let (replacement, w1) = (if n \<noteq> 0 then allocate w else (None, w))
          in if n \<noteq> 0 \<and> replacement = None then Some (False, tracking, w1)
             else do {
               w2 \<leftarrow> release (map_option fst (baseline tracking)) w1;
               Some (True, tracking\<lparr>baseline := map_option (\<lambda>a. (a, copy)) replacement, baseline_size := n\<rparr>, w2)
             }
   }"

definition region_path :: "dualboy_save_manager \<Rightarrow> region \<Rightarrow> string" where
  "region_path manager region =
     (let pick = (\<lambda>names. if fst region = 0 then fst names else snd names)
      in case snd region of
           DUALBOY_MEMORY_SAVE_RAM \<Rightarrow> pick (sram (paths manager))
         | DUALBOY_MEMORY_RTC \<Rightarrow> pick (rtc (paths manager))
         | DUALBOY_MEMORY_FIRMWARE \<Rightarrow> pick (firmware (paths manager)))"

definition engine_memory :: "'p dualboy_session \<Rightarrow> 'p \<Rightarrow> region \<Rightarrow> bytes option" where
  "engine_memory session p region =
     (if \<not> loaded session then None
      else do {
        ops \<leftarrow> engine session;
        info \<leftarrow> memory_info ops;
        (present, data) \<leftarrow> info p (fst region) (snd region);
        if present \<or> data = [] then Some data else None
      })"

definition persistent_extent ::
  "'p dualboy_engine_ops \<Rightarrow> 'p \<Rightarrow> region \<Rightarrow> nat \<Rightarrow> (bool \<times> nat) option" where
  "persistent_extent ops p region capacity =
     (case persistent_memory_extent ops of
        None \<Rightarrow> Some (True, capacity)
      | Some f \<Rightarrow> do {
          (known, n) \<leftarrow> f p (fst region) (snd region);
          if known \<and> n > capacity then None else Some (known, n)
        })"

definition bytes_are_fill :: "bytes \<Rightarrow> nat \<Rightarrow> nat \<Rightarrow> u8 \<Rightarrow> bool option" where
  "bytes_are_fill data start finish fill = do {
     part \<leftarrow> slice data start (finish - start);
     Some (list_all (\<lambda>b. b = fill) part)
   }"

text \<open>
  A file that is longer than the extent keeps its tail unless the tail is fill; the tracked size and
  hash move to the extent unless the file is longer than that.
\<close>

definition initialize_extent_tracking ::
  "dualboy_save_region_tracking \<Rightarrow> bytes \<Rightarrow> nat \<Rightarrow> dualboy_save_region_tracking option" where
  "initialize_extent_tracking tracking data extent = do {
     preserved \<leftarrow>
       (if extent = 0 \<and> loaded_size tracking \<noteq> 0 then Some (loaded_size tracking)
        else if loaded_size tracking > extent
        then do {
          blank \<leftarrow> bytes_are_fill data extent (loaded_size tracking) 0xFF;
          Some (if \<not> blank then loaded_size tracking else preserved_size tracking)
        }
        else Some (preserved_size tracking));
     let size = max extent preserved;
         tracking1 = tracking\<lparr>preserved_size := preserved\<rparr>
     in do {
       tracking2 \<leftarrow>
         (if loaded_size tracking \<le> size
          then do { hash \<leftarrow> memory_hash data size; Some (tracking1\<lparr>tracked_size := size, tracked_hash := hash\<rparr>) }
          else Some tracking1);
       Some (tracking2\<lparr>extent_known := True, tracking_valid := True\<rparr>)
     }
   }"

section \<open>Loading\<close>

text \<open>Success, loaded size, engine pair and world.\<close>

definition read_region ::
  "string \<Rightarrow> region \<Rightarrow> nat \<Rightarrow> u8 \<Rightarrow> bool \<Rightarrow> 'p dualboy_engine_ops \<Rightarrow> 'p \<Rightarrow> save_world
   \<Rightarrow> (bool \<times> nat \<times> 'p \<times> save_world) option" where
  "read_region path region capacity fill missing_is_ok ops p w =
     (if capacity = 0 then Some (True, 0, p, w)
      else case allocate w of
        (None, w1) \<Rightarrow> Some (False, 0, p, w1)
      | (Some temporary, w1) \<Rightarrow> do {
          ((result, content, file_size), w2) \<leftarrow> read_file w1 path capacity fill;
          w3 \<leftarrow> release (Some temporary) w2;
          if result = DUALBOY_PERSISTENCE_OK
          then Some (True, file_size, memory_store ops p (fst region) (snd region) content, w3)
          else Some (missing_is_ok \<and> result = DUALBOY_PERSISTENCE_NOT_FOUND, 0, p, w3)
        })"

definition load_nds_firmware ::
  "string \<Rightarrow> region \<Rightarrow> nat \<Rightarrow> 'p dualboy_engine_ops \<Rightarrow> 'p \<Rightarrow> save_world
   \<Rightarrow> (bool \<times> nat \<times> 'p \<times> save_world) option" where
  "load_nds_firmware path region capacity ops p w =
     (case allocate w of
        (None, w1) \<Rightarrow> Some (False, 0, p, w1)
      | (Some temporary, w1) \<Rightarrow> do {
          ((result, content, file_size), w2) \<leftarrow> read_file w1 path capacity 0;
          w3 \<leftarrow> release (Some temporary) w2;
          if result = DUALBOY_PERSISTENCE_NOT_FOUND then Some (True, 0, p, w3)
          else if result \<noteq> DUALBOY_PERSISTENCE_OK then Some (False, 0, p, w3)
          else if file_size \<noteq> DUALBOY_NDS_FIRMWARE_SIZE then Some (False, 0, p, w3)
          else do {
            image \<leftarrow> slice content 0 file_size;
            if (case validate_persistent_memory ops of
                  None \<Rightarrow> False
                | Some validate \<Rightarrow> \<not> validate p (fst region) DUALBOY_MEMORY_FIRMWARE image)
            then Some (False, 0, p, w3)
            else Some (True, file_size, memory_store ops p (fst region) (snd region) content, w3)
          }
        })"

definition is_supported_gba_battery_size :: "nat \<Rightarrow> bool" where
  "is_supported_gba_battery_size n \<longleftrightarrow>
     n = 512 \<or> n = 8 * 1024 \<or> n = 32 * 1024 \<or> n = 64 * 1024 \<or> n = 128 * 1024"

text \<open>
  The import of a legacy save: \<open>extent\<close> is the engine's answer, \<open>capacity\<close> the capacity of the save
  memory. The result is the number of battery bytes, and whether a clock block follows them.
\<close>

definition split_legacy :: "bool \<times> nat \<Rightarrow> nat \<Rightarrow> nat \<Rightarrow> bool \<Rightarrow> (nat \<times> bool) option" where
  "split_legacy extent capacity legacy_size has_rtc =
     (case extent of (known, n) \<Rightarrow>
        if has_rtc \<and>
           (known \<and> legacy_size = n + 16 \<or>
            \<not> known \<and> legacy_size \<ge> 16 \<and> is_supported_gba_battery_size (legacy_size - 16))
        then Some (if known then n else legacy_size - 16, True)
        else if legacy_size > capacity then None
        else Some (legacy_size, False))"

text \<open>A process that owns the files copies an imported save, clock first, to the canonical paths.\<close>

definition publish_import ::
  "dualboy_save_manager \<Rightarrow> nat \<Rightarrow> string \<Rightarrow> bool \<Rightarrow> bytes \<Rightarrow> bytes \<Rightarrow> save_world \<Rightarrow> (bool \<times> save_world) option" where
  "publish_import manager machine canonical with_rtc clock battery w =
     (if \<not> write_owner manager then Some (True, w)
      else do {
        (result1, w1) \<leftarrow>
          (if with_rtc then write_file w (region_path manager (machine, DUALBOY_MEMORY_RTC)) clock
           else Some (DUALBOY_PERSISTENCE_OK, w));
        (result2, w2) \<leftarrow>
          (if result1 = DUALBOY_PERSISTENCE_OK then write_file w1 canonical battery else Some (result1, w1));
        Some (result2 = DUALBOY_PERSISTENCE_OK, w2)
      })"

definition import_legacy ::
  "dualboy_save_manager \<Rightarrow> 'p dualboy_session \<Rightarrow> 'p dualboy_engine_ops \<Rightarrow> nat \<Rightarrow> string \<Rightarrow> string \<Rightarrow> nat
   \<Rightarrow> 'p \<Rightarrow> save_world \<Rightarrow> (bool \<times> nat \<times> 'p \<times> save_world) option" where
  "import_legacy manager session ops machine canonical legacy capacity p w =
     (if capacity > SIZE_MAX - 16 then Some (False, 0, p, w)
      else case allocate w of
        (None, w1) \<Rightarrow> Some (False, 0, p, w1)
      | (Some temporary, w1) \<Rightarrow> do {
          ((result, content, legacy_size), w2) \<leftarrow> read_file w1 legacy (capacity + 16) 0xFF;
          w3 \<leftarrow> release (Some temporary) w2;
          if result \<noteq> DUALBOY_PERSISTENCE_OK then Some (False, 0, p, w3)
          else case (case persistent_memory_extent ops of
                       None \<Rightarrow> Some (True, capacity)
                     | Some f \<Rightarrow> f p machine DUALBOY_MEMORY_SAVE_RAM) of
                 None \<Rightarrow> Some (False, 0, p, w3)
               | Some extent \<Rightarrow>
                 if fst extent \<and> snd extent > capacity then Some (False, 0, p, w3)
                 else let has_rtc = (case engine_memory session p (machine, DUALBOY_MEMORY_RTC) of
                                       None \<Rightarrow> False | Some clock \<Rightarrow> length clock = 16)
                 in case split_legacy extent capacity legacy_size has_rtc of
                      None \<Rightarrow> Some (False, 0, p, w3)
                    | Some (battery_size, with_rtc) \<Rightarrow> do {
                        clock \<leftarrow> (if with_rtc then slice content battery_size 16 else Some []);
                        battery \<leftarrow> slice content 0 battery_size;
                        data \<leftarrow> blit (replicate capacity 0xFF) 0 battery;
                        let p1 = (if with_rtc then memory_store ops p machine DUALBOY_MEMORY_RTC clock else p);
                            p2 = memory_store ops p1 machine DUALBOY_MEMORY_SAVE_RAM data
                        in do {
                          (ok, w4) \<leftarrow> publish_import manager machine canonical (has_rtc \<and> legacy_size = battery_size + 16)
                            clock battery w3;
                          Some (ok, battery_size, p2, w4)
                        }
                      }
        })"

definition load_sram ::
  "dualboy_save_manager \<Rightarrow> 'p dualboy_session \<Rightarrow> 'p dualboy_engine_ops \<Rightarrow> nat \<Rightarrow> nat \<Rightarrow> 'p \<Rightarrow> save_world
   \<Rightarrow> (bool \<times> nat \<times> 'p \<times> save_world) option" where
  "load_sram manager session ops machine capacity p w =
     (let region = (machine, DUALBOY_MEMORY_SAVE_RAM); canonical = region_path manager region
      in if family ops \<noteq> DUALBOY_ENGINE_MGBA then read_region canonical region capacity 0xFF True ops p w
         else case dualboy_legacy_sav_path (Some canonical) DUALBOY_PATH_CAPACITY of
           Inl _ \<Rightarrow> Some (False, 0, p, w)
         | Inr legacy \<Rightarrow>
           (case dualboy_choose_sav_import (file_stat w) (Some canonical) (Some legacy) of
              Inl _ \<Rightarrow> Some (False, 0, p, w)
            | Inr DUALBOY_SAV_IMPORT_NO_SOURCE \<Rightarrow> Some (True, 0, p, w)
            | Inr DUALBOY_SAV_IMPORT_KEEP_CANONICAL \<Rightarrow> read_region canonical region capacity 0xFF False ops p w
            | Inr DUALBOY_SAV_IMPORT_COPY_LEGACY \<Rightarrow>
              import_legacy manager session ops machine canonical legacy capacity p w))"

section \<open>Ownership\<close>

definition choose_ownership ::
  "dualboy_save_manager \<Rightarrow> 'p dualboy_session \<Rightarrow> 'p dualboy_engine_ops \<Rightarrow> dualboy_save_manager" where
  "choose_ownership manager session ops =
     (let default = (\<lambda>(machine, kind).
            kind = DUALBOY_MEMORY_SAVE_RAM \<or>
            kind = DUALBOY_MEMORY_RTC \<and> family ops \<noteq> DUALBOY_ENGINE_MELONDS \<or>
            kind = DUALBOY_MEMORY_FIRMWARE \<and> family ops = DUALBOY_ENGINE_MELONDS);
          frontend0 = (\<not> fst (content_path_missing session));
          frontend1 = (load_kind session = DUALBOY_LOAD_SUBSYSTEM \<and>
                       \<not> second_uses_collision_suffix (paths manager) \<and>
                       \<not> snd (content_path_missing session))
      in if family ops \<noteq> DUALBOY_ENGINE_SAMEBOY \<or> load_kind session = DUALBOY_LOAD_PLAYLIST
         then manager\<lparr>core_managed := default\<rparr>
         else manager\<lparr>core_managed := (\<lambda>(machine, kind).
                default (machine, kind) \<and> \<not> (machine = 0 \<and> frontend0) \<and> \<not> (machine = 1 \<and> frontend1))\<rparr>)"

datatype write_ownership_result = WRITE_OWNERSHIP_ACQUIRED | WRITE_OWNERSHIP_BUSY | WRITE_OWNERSHIP_ERROR

definition has_core_managed_regions :: "dualboy_save_manager \<Rightarrow> bool" where
  "has_core_managed_regions manager = list_ex (core_managed manager) all_regions"

definition release_write_ownership :: "dualboy_save_manager \<Rightarrow> save_world \<Rightarrow> dualboy_save_manager \<times> save_world" where
  "release_write_ownership manager w =
     (manager\<lparr>write_lock_fds := [], write_owner := False\<rparr>,
      w\<lparr>held_locks := held_locks w - set (write_lock_fds manager)\<rparr>)"

text \<open>The paths of the managed regions, each once, as they are found.\<close>

fun collect_paths :: "dualboy_save_manager \<Rightarrow> region list \<Rightarrow> string list \<Rightarrow> string list" where
  "collect_paths manager [] found = found"
| "collect_paths manager (region # regions) found =
     (if \<not> core_managed manager region \<or> region_path manager region \<in> set found
      then collect_paths manager regions found
      else collect_paths manager regions (found @ [region_path manager region]))"

fun flock_loop :: "flock_result list \<Rightarrow> flock_result option" where
  "flock_loop [] = None"
| "flock_loop (FLOCK_INTERRUPTED # rest) = flock_loop rest"
| "flock_loop (result # rest) = Some result"

definition lock_path :: "string \<Rightarrow> string" where
  "lock_path path = path @ ''.dualboy.lock''"

fun lock_paths ::
  "dualboy_save_manager \<Rightarrow> string list \<Rightarrow> save_world
   \<Rightarrow> (write_ownership_result \<times> dualboy_save_manager \<times> save_world) option" where
  "lock_paths manager [] w = Some (WRITE_OWNERSHIP_ACQUIRED, manager\<lparr>write_owner := True\<rparr>, w)"
| "lock_paths manager (path # rest) w =
     (let failed = (\<lambda>result w. (case release_write_ownership manager w of (manager', w') \<Rightarrow> Some (result, manager', w')))
      in if length (lock_path path) \<ge> DUALBOY_PATH_CAPACITY then failed WRITE_OWNERSHIP_ERROR w
         else case lock_answers w of
           [] \<Rightarrow> None
         | calls # later \<Rightarrow>
           let w1 = w\<lparr>lock_answers := later\<rparr>
           in case lock_opens calls of
                None \<Rightarrow> failed WRITE_OWNERSHIP_ERROR w1
              | Some descriptor \<Rightarrow>
                (case flock_loop (flocks calls) of
                   None \<Rightarrow> None
                 | Some FLOCK_OK \<Rightarrow>
                   lock_paths (manager\<lparr>write_lock_fds := write_lock_fds manager @ [descriptor]\<rparr>) rest
                     (w1\<lparr>held_locks := insert descriptor (held_locks w1)\<rparr>)
                 | Some FLOCK_BUSY \<Rightarrow> failed WRITE_OWNERSHIP_BUSY w1
                 | Some _ \<Rightarrow> failed WRITE_OWNERSHIP_ERROR w1))"

definition acquire_write_ownership ::
  "dualboy_save_manager \<Rightarrow> save_world \<Rightarrow> (write_ownership_result \<times> dualboy_save_manager \<times> save_world) option" where
  "acquire_write_ownership manager w =
     (let manager1 = manager\<lparr>write_lock_fds := [], write_owner := False\<rparr>
      in if \<not> has_core_managed_regions manager1
         then Some (WRITE_OWNERSHIP_ACQUIRED, manager1\<lparr>write_owner := True\<rparr>, w)
         else lock_paths manager1 (sort (collect_paths manager1 all_regions [])) w)"

fun release_baselines ::
  "region list \<Rightarrow> dualboy_save_manager \<Rightarrow> save_world \<Rightarrow> (dualboy_save_manager \<times> save_world) option" where
  "release_baselines [] manager w = Some (manager, w)"
| "release_baselines (region # regions) manager w = do {
     w1 \<leftarrow> release (map_option fst (baseline (tracked manager region))) w;
     release_baselines regions
       (manager\<lparr>tracked := (tracked manager)(region := (tracked manager region)\<lparr>baseline := None, baseline_size := 0\<rparr>)\<rparr>) w1
   }"

definition release_tracking_baselines ::
  "dualboy_save_manager \<Rightarrow> save_world \<Rightarrow> (dualboy_save_manager \<times> save_world) option" where
  "release_tracking_baselines = release_baselines all_regions"

section \<open>Initialization\<close>

definition load_region ::
  "dualboy_save_manager \<Rightarrow> 'p dualboy_session \<Rightarrow> 'p dualboy_engine_ops \<Rightarrow> region \<Rightarrow> nat \<Rightarrow> 'p \<Rightarrow> save_world
   \<Rightarrow> (bool \<times> nat \<times> 'p \<times> save_world) option" where
  "load_region manager session ops region capacity p w =
     (case snd region of
        DUALBOY_MEMORY_SAVE_RAM \<Rightarrow> load_sram manager session ops (fst region) capacity p w
      | DUALBOY_MEMORY_FIRMWARE \<Rightarrow> load_nds_firmware (region_path manager region) region capacity ops p w
      | DUALBOY_MEMORY_RTC \<Rightarrow> read_region (region_path manager region) region capacity 0 True ops p w)"

text \<open>
  Tracking of a region that has just been loaded: success, the tracking and the world. The data is
  what the region holds after the load.
\<close>

definition start_tracking ::
  "'p dualboy_engine_ops \<Rightarrow> region \<Rightarrow> nat \<Rightarrow> bytes \<Rightarrow> nat \<Rightarrow> 'p \<Rightarrow> dualboy_save_region_tracking \<Rightarrow> save_world
   \<Rightarrow> (bool \<times> dualboy_save_region_tracking \<times> save_world) option" where
  "start_tracking ops region capacity data loaded_bytes p tracking w = do {
     hash \<leftarrow> memory_hash data loaded_bytes;
     let tracking1 = tracking\<lparr>loaded_size := loaded_bytes, tracked_size := loaded_bytes, tracked_hash := hash,
           tracking_valid := True\<rparr>
     in case persistent_extent ops p region capacity of
          None \<Rightarrow> Some (False, tracking1, w)
        | Some (known, extent) \<Rightarrow> do {
            tracking2 \<leftarrow> (if known then initialize_extent_tracking tracking1 data extent else Some tracking1);
            replace_baseline tracking2 data capacity w
          }
   }"

fun init_regions ::
  "'p dualboy_session \<Rightarrow> 'p dualboy_engine_ops \<Rightarrow> region list \<Rightarrow> dualboy_save_manager \<Rightarrow> 'p \<Rightarrow> save_world
   \<Rightarrow> (bool \<times> dualboy_save_manager \<times> 'p \<times> save_world) option" where
  "init_regions session ops [] manager p w = Some (True, manager, p, w)"
| "init_regions session ops (region # regions) manager p w =
     (if \<not> core_managed manager region then init_regions session ops regions manager p w
      else case engine_memory session p region of
        None \<Rightarrow> Some (False, manager, p, w)
      | Some data \<Rightarrow>
        if snd region = DUALBOY_MEMORY_FIRMWARE \<and> length data \<noteq> DUALBOY_NDS_FIRMWARE_SIZE
        then Some (False, manager, p, w)
        else if data = [] then init_regions session ops regions manager p w
        else do {
          (ok, loaded_bytes, p1, w1) \<leftarrow> load_region manager session ops region (length data) p w;
          if \<not> ok then Some (False, manager, p1, w1)
          else do {
            content \<leftarrow> engine_memory session p1 region;
            (ok1, tracking, w2) \<leftarrow>
              start_tracking ops region (length data) content loaded_bytes p1 (tracked manager region) w1;
            let manager1 = manager\<lparr>tracked := (tracked manager)(region := tracking)\<rparr>
            in if \<not> ok1 then Some (False, manager1, p1, w2)
               else init_regions session ops regions manager1 p1 w2
          }
        })"

text \<open>Success, the manager, the session and the world.\<close>

definition dualboy_save_manager_init ::
  "dualboy_save_manager \<Rightarrow> 'p dualboy_session \<Rightarrow> string option \<Rightarrow> save_world
   \<Rightarrow> (bool \<times> dualboy_save_manager \<times> 'p dualboy_session \<times> save_world) option" where
  "dualboy_save_manager_init manager session save_directory w =
     (case (engine session, save_directory, rom_path (orom (fst (roms session))), rom_path (orom (snd (roms session)))) of
        (Some ops, Some directory, Some path0, Some path1) \<Rightarrow>
          if \<not> loaded session \<or> memory_info ops = None \<or> directory = [] then Some (False, manager, session, w)
          else (case dualboy_build_save_paths save_directory (Some path0) (Some path1)
                       (family ops = DUALBOY_ENGINE_MELONDS) of
                  Inl _ \<Rightarrow> Some (False, zero_manager, session, w)
                | Inr save_paths \<Rightarrow>
                  let manager0 = choose_ownership (zero_manager\<lparr>paths := save_paths\<rparr>) session ops;
                      failure = (\<lambda>manager session w.
                        case release_write_ownership manager w of (manager1, w1) \<Rightarrow> do {
                          (manager2, w2) \<leftarrow> release_tracking_baselines manager1 w1;
                          Some (False, zero_manager, session, w2)
                        })
                  in do {
                    (address, p) \<leftarrow> pair session;
                    (ownership, manager1, w1) \<leftarrow> acquire_write_ownership manager0 w;
                    if ownership = WRITE_OWNERSHIP_ERROR then failure manager1 session w1
                    else do {
                      (ok, manager2, p1, w2) \<leftarrow> init_regions session ops all_regions manager1 p w1;
                      if \<not> ok then failure manager2 (session\<lparr>pair := Some (address, p1)\<rparr>) w2
                      else let p2 = (case persistent_memory_loaded ops of None \<Rightarrow> p1 | Some notify \<Rightarrow> notify p1)
                           in Some (True, manager2\<lparr>initialized := True\<rparr>, session\<lparr>pair := Some (address, p2)\<rparr>, w2)
                    }
                  })
      | _ \<Rightarrow> Some (False, manager, session, w))"

definition dualboy_save_manager_frontend_memory ::
  "dualboy_save_manager \<Rightarrow> 'p dualboy_session \<Rightarrow> 'p \<Rightarrow> region \<Rightarrow> bytes option" where
  "dualboy_save_manager_frontend_memory manager session p region =
     (if \<not> initialized manager \<or> fst region \<ge> DUALBOY_MACHINE_COUNT \<or>
         snd region = DUALBOY_MEMORY_FIRMWARE \<or> core_managed manager region
      then None
      else engine_memory session p region)"

section \<open>Flush\<close>

text \<open>Tracking of a region whose extent has just become known.\<close>

definition discover_extent ::
  "'p dualboy_engine_ops \<Rightarrow> 'p \<Rightarrow> region \<Rightarrow> bytes \<Rightarrow> nat \<Rightarrow> dualboy_save_region_tracking
   \<Rightarrow> dualboy_save_region_tracking option" where
  "discover_extent ops p region data extent tracking = do {
     tracking1 \<leftarrow> initialize_extent_tracking tracking data extent;
     let dirty = (case memory_dirty ops of None \<Rightarrow> False | Some f \<Rightarrow> f p (fst region));
         compare_size = max extent (preserved_size tracking1)
     in do {
       changed \<leftarrow>
         (case baseline tracking1 of
            None \<Rightarrow> Some False
          | Some (_, copy) \<Rightarrow>
            if compare_size \<le> baseline_size tracking1
            then do { now \<leftarrow> slice data 0 compare_size; old \<leftarrow> slice copy 0 compare_size; Some (now \<noteq> old) }
            else Some True);
       Some (if dirty \<or> changed then tracking1\<lparr>tracking_valid := False\<rparr> else tracking1)
     }
   }"

text \<open>Whether a region need not be written, for its hash over the extent.\<close>

definition flush_skips :: "dualboy_save_region_tracking \<Rightarrow> bytes \<Rightarrow> nat \<Rightarrow> u64 \<Rightarrow> bool option" where
  "flush_skips tracking data extent hash = do {
     promoted \<leftarrow>
       (if tracking_valid tracking \<and> extent > tracked_size tracking
        then (case baseline tracking of
                None \<Rightarrow> Some False
              | Some (_, copy) \<Rightarrow>
                if extent \<le> baseline_size tracking
                then do { now \<leftarrow> slice data 0 extent; old \<leftarrow> slice copy 0 extent; Some (now = old) }
                else Some False)
        else Some False);
     Some (promoted \<or> tracking_valid tracking \<and> tracked_size tracking = extent \<and> tracked_hash tracking = hash)
   }"

definition flush_region ::
  "'p dualboy_session \<Rightarrow> 'p dualboy_engine_ops \<Rightarrow> 'p \<Rightarrow> region \<Rightarrow> dualboy_save_manager \<Rightarrow> save_world
   \<Rightarrow> (bool \<times> dualboy_save_manager \<times> save_world) option" where
  "flush_region session ops p region manager w =
     (if \<not> core_managed manager region then Some (True, manager, w)
      else case engine_memory session p region of
        None \<Rightarrow> Some (False, manager, w)
      | Some data \<Rightarrow>
        if data = [] then Some (True, manager, w)
        else case persistent_extent ops p region (length data) of
          None \<Rightarrow> Some (False, manager, w)
        | Some (known, extent0) \<Rightarrow>
          if \<not> known then Some (True, manager, w)
          else do {
            tracking \<leftarrow>
              (if extent_known (tracked manager region) then Some (tracked manager region)
               else discover_extent ops p region data extent0 (tracked manager region));
            let extent = max extent0 (preserved_size tracking);
                track = (\<lambda>t. manager\<lparr>tracked := (tracked manager)(region := t)\<rparr>)
            in do {
              hash \<leftarrow> memory_hash data extent;
              skip \<leftarrow> flush_skips tracking data extent hash;
              if skip then Some (True, track tracking, w)
              else do {
                content \<leftarrow> slice data 0 extent;
                (result, w1) \<leftarrow> write_file w (region_path manager region) content;
                if result \<noteq> DUALBOY_PERSISTENCE_OK then Some (False, track tracking, w1)
                else do {
                  (ok, tracking', w2) \<leftarrow>
                    replace_baseline (tracking\<lparr>tracked_hash := hash, tracked_size := extent, loaded_size := extent,
                      tracking_valid := True\<rparr>) data (length data) w1;
                  Some (ok, track tracking', w2)
                }
              }
            }
          })"

fun flush_regions ::
  "'p dualboy_session \<Rightarrow> 'p dualboy_engine_ops \<Rightarrow> 'p \<Rightarrow> region list \<Rightarrow> dualboy_save_manager \<Rightarrow> save_world
   \<Rightarrow> (bool \<times> dualboy_save_manager \<times> save_world) option" where
  "flush_regions session ops p [] manager w = Some (True, manager, w)"
| "flush_regions session ops p (region # regions) manager w = do {
     (ok, manager1, w1) \<leftarrow> flush_region session ops p region manager w;
     if \<not> ok then Some (False, manager1, w1) else flush_regions session ops p regions manager1 w1
   }"

definition clear_dirty :: "'p dualboy_engine_ops \<Rightarrow> nat \<Rightarrow> 'p \<Rightarrow> 'p" where
  "clear_dirty ops machine p = (case clear_memory_dirty ops of None \<Rightarrow> p | Some f \<Rightarrow> f p machine)"

definition dualboy_save_manager_flush ::
  "dualboy_save_manager \<Rightarrow> 'p dualboy_session \<Rightarrow> save_world
   \<Rightarrow> (bool \<times> dualboy_save_manager \<times> 'p dualboy_session \<times> save_world) option" where
  "dualboy_save_manager_flush manager session w =
     (if \<not> initialized manager \<or> \<not> write_owner manager \<or> \<not> loaded session then Some (True, manager, session, w)
      else do {
        ops \<leftarrow> engine session;
        (address, p0) \<leftarrow> pair session;
        let with_pair = (\<lambda>p. session\<lparr>pair := Some (address, p)\<rparr>)
        in do {
          (ok0, manager1, w1) \<leftarrow> flush_regions session ops p0 (machine_regions 0) manager w;
          if \<not> ok0 then Some (False, manager1, session, w1)
          else let p1 = clear_dirty ops 0 p0 in do {
            (ok1, manager2, w2) \<leftarrow> flush_regions session ops p1 (machine_regions 1) manager1 w1;
            if \<not> ok1 then Some (False, manager2, with_pair p1, w2)
            else Some (True, manager2\<lparr>frames_since_flush := 0\<rparr>, with_pair (clear_dirty ops 1 p1), w2)
          }
        }
      })"

definition dualboy_save_manager_tick ::
  "dualboy_save_manager \<Rightarrow> 'p dualboy_session \<Rightarrow> save_world
   \<Rightarrow> (bool \<times> dualboy_save_manager \<times> 'p dualboy_session \<times> save_world) option" where
  "dualboy_save_manager_tick manager session w =
     (if \<not> initialized manager then Some (True, manager, session, w)
      else let manager1 = manager\<lparr>frames_since_flush := frames_since_flush manager + 1\<rparr>
           in if frames_since_flush manager1 < DUALBOY_SAVE_FLUSH_INTERVAL_FRAMES then Some (True, manager1, session, w)
              else dualboy_save_manager_flush manager1 session w)"

definition dualboy_save_manager_deinit ::
  "dualboy_save_manager \<Rightarrow> save_world \<Rightarrow> (dualboy_save_manager \<times> save_world) option" where
  "dualboy_save_manager_deinit manager w =
     (if \<not> initialized manager then Some (zero_manager, w)
      else case release_write_ownership manager w of (manager1, w1) \<Rightarrow> do {
        (manager2, w2) \<leftarrow> release_tracking_baselines manager1 w1;
        Some (zero_manager, w2)
      })"

section \<open>The hash\<close>

lemma memory_hash_inside: "n \<le> length data \<Longrightarrow> memory_hash data n = Some (foldl fnv_step fnv_offset (take n data))"
  by (simp add: memory_hash_def fold_range_def fold_rd_upt)

end
