(* ===== verification/Save_Demo.thy ===== *)
theory Save_Demo
  imports Save_Manager State
begin

text \<open>
  A small session with one byte of save memory on each machine, and a run of the save manager on
  it: no files at first, lock files that can be opened, writes that succeed. It shows that the
  hypotheses of the save manager's theorems can hold together.
\<close>

section \<open>The session and the system\<close>

definition saving_engine :: "demo_pair dualboy_engine_ops" where
  "saving_engine = demo_engine\<lparr>memory_info := Some (\<lambda>p m kind.
     if kind = DUALBOY_MEMORY_SAVE_RAM then Some (True, [if m = 0 then ram0 p else ram1 p]) else Some (False, []))\<rparr>"

definition saving_session :: "demo_pair dualboy_session" where
  "saving_session = demo_session\<lparr>engine := Some saving_engine, load_kind := DUALBOY_LOAD_PLAYLIST\<rparr>"

definition no_file :: read_calls where
  "no_file = \<lparr>open_error = Some ENOENT, fstat = None, malloc_succeeds = True, reads = [], close_succeeds = True\<rparr>"

definition byte_write :: write_calls where
  "byte_write = \<lparr>path_malloc_succeeds = True, mkstemp = Some ''aB3dE6'', writes = [WROTE 1], fsyncs = [None],
     close_written_succeeds = True, rename_succeeds = True, unlink_succeeds = True\<rparr>"

definition saving_world :: save_world where
  "saving_world = \<lparr>memory = demo_heap, files = (\<lambda>_. None), file_stat = (\<lambda>_. STAT_FAILED ENOENT), read_answers = [no_file, no_file],
     write_answers = replicate 6 byte_write,
     lock_answers = map (\<lambda>d. \<lparr>lock_opens = Some d, flocks = [FLOCK_INTERRUPTED, FLOCK_OK]\<rparr>) [4..<8], held_locks = {3}\<rparr>"

section \<open>Initialization\<close>

definition saving_paths :: dualboy_save_paths where
  "saving_paths = \<lparr>sram = (''/s/a.srm'', ''/s/a.srm.2''), rtc = (''/s/a.rtc'', ''/s/a.rtc.2''), firmware = ([], []),
     second_uses_collision_suffix = True\<rparr>"

definition byte_tracking :: "nat \<Rightarrow> u8 \<Rightarrow> dualboy_save_region_tracking" where
  "byte_tracking a b = \<lparr>baseline = Some (a, [b]), baseline_size = 1, tracked_hash = foldl fnv_step fnv_offset [b],
     tracked_size = 1, loaded_size = 0, preserved_size = 0, extent_known = True, tracking_valid = True\<rparr>"

definition saving_manager :: dualboy_save_manager where
  "saving_manager = \<lparr>paths = saving_paths,
     core_managed = (\<lambda>(machine, kind). kind = DUALBOY_MEMORY_SAVE_RAM \<or> kind = DUALBOY_MEMORY_RTC),
     tracked = (\<lambda>_. zero_tracking)((0, DUALBOY_MEMORY_SAVE_RAM) := byte_tracking 2 7, (1, DUALBOY_MEMORY_SAVE_RAM) := byte_tracking 4 8),
     frames_since_flush = 0, write_lock_fds = [4, 5, 6, 7], write_owner = True, initialized = True\<rparr>"

lemma saving_paths_built:
  "dualboy_build_save_paths (Some ''/s'') (Some ''a.gb'') (Some ''a.gb'') False = Inr saving_paths"
  by (simp add: dualboy_build_save_paths_def build_one_set_def dualboy_join_save_path_def
        dualboy_content_stem_def is_safe_component_def is_separator_def copy_string_def Let_def
        trim_separators.simps DUALBOY_PATH_CAPACITY_def SIZE_MAX_def saving_paths_def)

lemma saving_memory:
  "engine_memory saving_session p (machine, kind) =
     Some (if kind = DUALBOY_MEMORY_SAVE_RAM then [if machine = 0 then ram0 p else ram1 p] else [])"
  by (simp add: engine_memory_def saving_session_def saving_engine_def demo_session_def)

lemma saving_extent: "persistent_extent saving_engine p r n = Some (True, n)"
  by (simp add: persistent_extent_def saving_engine_def demo_engine_def)

lemma saving_locks:
  "acquire_write_ownership (zero_manager\<lparr>paths := saving_paths, core_managed := core_managed saving_manager\<rparr>) saving_world =
     Some (WRITE_OWNERSHIP_ACQUIRED, zero_manager\<lparr>paths := saving_paths, core_managed := core_managed saving_manager,
       write_lock_fds := [4, 5, 6, 7], write_owner := True\<rparr>, saving_world\<lparr>lock_answers := [], held_locks := {3, 4, 5, 6, 7}\<rparr>)"
  by (simp add: acquire_write_ownership_def has_core_managed_regions_def saving_manager_def all_regions_def
      machine_regions_def kinds_def region_path_def saving_paths_def Let_def lock_path_def DUALBOY_PATH_CAPACITY_def
      saving_world_def zero_manager_def upt_rec) auto

lemma saving_file:
  "write_answers w = byte_write # rest \<Longrightarrow> dualboy_write_file_atomic byte_write (files w) (Some path) [b] = Some (result, steps) \<Longrightarrow>
   write_file w path [b] = Some (result, w\<lparr>files := last (files w # steps), write_answers := rest\<rparr>)"
  by (simp add: write_file_def)

lemma saving_read: "read_answers w = no_file # rest \<Longrightarrow> path \<noteq> [] \<Longrightarrow> length path < DUALBOY_PATH_CAPACITY \<Longrightarrow>
  read_file w path n fill = Some ((DUALBOY_PERSISTENCE_NOT_FOUND, replicate n fill, 0), w\<lparr>read_answers := rest\<rparr>)"
  by (simp add: read_file_def no_file_def dualboy_read_file_filled_def fill_buffer_def Let_def)

lemma saving_load:
  assumes "read_answers w = no_file # rest" and "region_path m (machine, DUALBOY_MEMORY_SAVE_RAM) \<noteq> []"
    and "length (region_path m (machine, DUALBOY_MEMORY_SAVE_RAM)) < DUALBOY_PATH_CAPACITY"
    and "memory w = \<lparr>alloc_ok = (\<lambda>_. True), next_address = a, live = used\<rparr>" and "a \<notin> used"
  shows "load_region m saving_session saving_engine (machine, DUALBOY_MEMORY_SAVE_RAM) (Suc 0) p w =
    Some (True, 0, p, w\<lparr>memory := \<lparr>alloc_ok = (\<lambda>_. True), next_address = Suc a, live = used\<rparr>, read_answers := rest\<rparr>)"
  using assms by (simp add: load_region_def load_sram_def read_region_def saving_read allocate_def malloc_def release_def free_def
      saving_engine_def demo_engine_def)

lemma saving_start:
  assumes "memory w = \<lparr>alloc_ok = (\<lambda>_. True), next_address = a, live = used\<rparr>"
  shows "start_tracking saving_engine r (Suc 0) [b] 0 p zero_tracking w =
    Some (True, byte_tracking a b, w\<lparr>memory := \<lparr>alloc_ok = (\<lambda>_. True), next_address = Suc a, live = insert a used\<rparr>\<rparr>)"
  using assms by (simp add: start_tracking_def memory_hash_inside saving_extent initialize_extent_tracking_def zero_tracking_def
      replace_baseline_def slice_def allocate_def malloc_def release_def free_def byte_tracking_def)

lemma saving_init_regions:
  "init_regions saving_session saving_engine all_regions (zero_manager\<lparr>paths := saving_paths, core_managed := core_managed saving_manager,
       write_lock_fds := [4, 5, 6, 7], write_owner := True\<rparr>) demo_pair_state (saving_world\<lparr>lock_answers := [], held_locks := {3, 4, 5, 6, 7}\<rparr>) =
     Some (True, saving_manager\<lparr>initialized := False\<rparr>, demo_pair_state,
       saving_world\<lparr>memory := demo_heap\<lparr>next_address := 5, live := {0, 2, 4}\<rparr>, lock_answers := [], read_answers := [],
         held_locks := {3, 4, 5, 6, 7}\<rparr>)"
  by (simp add: all_regions_def machine_regions_def kinds_def saving_manager_def saving_memory saving_load saving_start
      region_path_def saving_paths_def saving_world_def demo_heap_def zero_manager_def DUALBOY_PATH_CAPACITY_def
      demo_pair_state_def) (auto simp: numeral_eq_Suc)

lemma saving_session_fields [simp]:
  "engine saving_session = Some saving_engine" "pair saving_session = Some (9, demo_pair_state)" "loaded saving_session"
  "rom_path (orom (fst (roms saving_session))) = Some ''a.gb''" "rom_path (orom (snd (roms saving_session))) = Some ''a.gb''"
  "load_kind saving_session = DUALBOY_LOAD_PLAYLIST" "saving_session\<lparr>pair := Some (9, demo_pair_state)\<rparr> = saving_session"
  by (simp_all add: saving_session_def demo_session_def demo_rom_def)

lemma saving_engine_fields [simp]:
  "memory_info saving_engine \<noteq> None" "family saving_engine = DUALBOY_ENGINE_SAMEBOY" "persistent_memory_loaded saving_engine = None"
  "clear_memory_dirty saving_engine = None" "memory_dirty saving_engine = None"
  by (simp_all add: saving_engine_def demo_engine_def)

lemma saving_choice:
  "choose_ownership (zero_manager\<lparr>paths := saving_paths\<rparr>) saving_session saving_engine =
     zero_manager\<lparr>paths := saving_paths, core_managed := core_managed saving_manager\<rparr>"
  by (auto simp: choose_ownership_def saving_manager_def Let_def)

lemma saving_init:
  "dualboy_save_manager_init zero_manager saving_session (Some ''/s'') saving_world =
     Some (True, saving_manager, saving_session, saving_world\<lparr>memory := demo_heap\<lparr>next_address := 5, live := {0, 2, 4}\<rparr>,
       lock_answers := [], read_answers := [], held_locks := {3, 4, 5, 6, 7}\<rparr>)"
proof -
  have "saving_manager\<lparr>initialized := True\<rparr> = saving_manager" by (simp add: saving_manager_def)
  then show ?thesis
    by (simp add: dualboy_save_manager_init_def saving_paths_built saving_choice saving_locks saving_init_regions)
qed


section \<open>Flushes\<close>

lemma saving_clear [simp]: "clear_dirty saving_engine machine p = p"
  by (simp add: clear_dirty_def)

lemma saving_still_region:
  assumes "r \<in> set all_regions"
  shows "flush_region saving_session saving_engine demo_pair_state r saving_manager w = Some (True, saving_manager, w)"
proof -
  have "saving_manager\<lparr>tracked := tracked saving_manager\<rparr> = saving_manager" by simp
  with assms show ?thesis
    by (auto simp: flush_region_def all_regions_def machine_regions_def kinds_def saving_manager_def saving_memory saving_extent
        byte_tracking_def demo_pair_state_def memory_hash_inside flush_skips_def slice_def fun_eq_iff)
qed

lemma saving_still: "dualboy_save_manager_flush saving_manager saving_session w = Some (True, saving_manager, saving_session, w)"
proof -
  have "saving_manager\<lparr>frames_since_flush := 0\<rparr> = saving_manager" "initialized saving_manager" "write_owner saving_manager"
    by (simp_all add: saving_manager_def)
  then show ?thesis
    by (simp add: dualboy_save_manager_flush_def machine_regions_def kinds_def saving_still_region all_regions_def Let_def)
qed

definition changed_pair :: demo_pair where
  "changed_pair = demo_pair_state\<lparr>ram0 := 9\<rparr>"

definition changed_session :: "demo_pair dualboy_session" where
  "changed_session = saving_session\<lparr>pair := Some (9, changed_pair)\<rparr>"

lemma byte_write_succeeds:
  "\<exists>steps. dualboy_write_file_atomic byte_write fs (Some ''/s/a.srm'') [b] = Some (DUALBOY_PERSISTENCE_OK, steps)"
  by (simp add: dualboy_write_file_atomic_def byte_write_def DUALBOY_PATH_CAPACITY_def SIZE_MAX_def
      SSIZE_MAX_def valid_target_path_def last_slash_def write_loop_unfold Let_def)

lemma changed_region:
  assumes "write_answers w = byte_write # rest"
  shows "\<exists>w'. flush_region saving_session saving_engine changed_pair (0, DUALBOY_MEMORY_SAVE_RAM) saving_manager w =
     Some (True, saving_manager\<lparr>tracked := (tracked saving_manager)((0, DUALBOY_MEMORY_SAVE_RAM) := (byte_tracking 2 9)\<lparr>loaded_size := 1\<rparr>)\<rparr>, w')"
proof -
  obtain steps where wrote: "dualboy_write_file_atomic byte_write (files w) (Some ''/s/a.srm'') [9] = Some (DUALBOY_PERSISTENCE_OK, steps)"
    using byte_write_succeeds by blast
  have facts: "core_managed saving_manager (0, DUALBOY_MEMORY_SAVE_RAM)" "region_path saving_manager (0, DUALBOY_MEMORY_SAVE_RAM) = ''/s/a.srm''"
    "tracked saving_manager (0, DUALBOY_MEMORY_SAVE_RAM) = byte_tracking 2 7" "ram0 changed_pair = 9"
    by (simp_all add: saving_manager_def region_path_def saving_paths_def changed_pair_def)
  have "fnv_step fnv_offset 7 \<noteq> fnv_step fnv_offset 9" using fnv.step_inj_byte [of fnv_offset 7 9] by auto
  with facts assms wrote show ?thesis
    by (simp add: flush_region_def saving_memory saving_extent write_file_def byte_tracking_def memory_hash_inside
        flush_skips_def slice_def replace_baseline_def)
qed

text \<open>A flush after the byte of the first machine has changed: it is written, the rest is not.\<close>

lemma changed_flush:
  assumes "write_answers w = byte_write # rest"
  shows "\<exists>m' w'. dualboy_save_manager_flush saving_manager changed_session w = Some (True, m', changed_session, w')"
proof -
  have same: "engine_memory changed_session = engine_memory saving_session"
    by (intro ext) (simp add: changed_session_def engine_memory_def)
  have region: "flush_region changed_session = flush_region saving_session"
    by (intro ext) (simp add: flush_region_def same)
  obtain m1 w1 where first: "flush_region saving_session saving_engine changed_pair (0, DUALBOY_MEMORY_SAVE_RAM) saving_manager w =
      Some (True, m1, w1)" and m1: "m1 = saving_manager\<lparr>tracked := (tracked saving_manager)
        ((0, DUALBOY_MEMORY_SAVE_RAM) := (byte_tracking 2 9)\<lparr>loaded_size := 1\<rparr>)\<rparr>"
    using changed_region [OF assms] by blast
  have rest: "flush_region saving_session saving_engine changed_pair r m1 w = Some (True, m1, w)"
    if "r = (0, DUALBOY_MEMORY_RTC) \<or> r = (0, DUALBOY_MEMORY_FIRMWARE) \<or> r = (1, DUALBOY_MEMORY_SAVE_RAM) \<or>
      r = (1, DUALBOY_MEMORY_RTC) \<or> r = (1, DUALBOY_MEMORY_FIRMWARE)" for r w
    using that unfolding m1
    by (auto simp: flush_region_def saving_manager_def saving_memory saving_extent byte_tracking_def changed_pair_def
        demo_pair_state_def memory_hash_inside flush_skips_def slice_def fun_eq_iff)
  have "initialized saving_manager" "write_owner saving_manager" by (simp_all add: saving_manager_def)
  moreover have "engine changed_session = Some saving_engine" "pair changed_session = Some (9, changed_pair)" "loaded changed_session"
    "changed_session\<lparr>pair := Some (9, changed_pair)\<rparr> = changed_session" by (simp_all add: changed_session_def)
  ultimately show ?thesis
    using first rest [of "(0, DUALBOY_MEMORY_RTC)"] rest [of "(0, DUALBOY_MEMORY_FIRMWARE)"] rest [of "(1, DUALBOY_MEMORY_SAVE_RAM)"]
      rest [of "(1, DUALBOY_MEMORY_RTC)"] rest [of "(1, DUALBOY_MEMORY_FIRMWARE)"]
    by (simp add: dualboy_save_manager_flush_def machine_regions_def kinds_def region Let_def)
qed

end
