(* ===== verification/Save_Flush.thy ===== *)
theory Save_Flush
  imports Save_Demo
begin

text \<open>
  What the save manager promises: files hold current bytes of their region or are left alone, a
  changed byte reaches the file, an unchanged region is not written again, and over a whole life
  of the manager neither memory nor locks leak and no access leaves a region.
\<close>

section \<open>Single operations\<close>

lemma memory_hash_changed:
  assumes "i < n" and "n \<le> length data" and "v \<noteq> data ! i"
  shows "memory_hash (data[i := v]) n \<noteq> memory_hash data n"
  using assms fnv.single_byte_detected [of i "take n data" v fnv_offset]
  by (simp add: memory_hash_inside take_update_swap)

lemma memory_hash_Some: "memory_hash data n = Some hash \<Longrightarrow> n \<le> length data"
proof (rule ccontr)
  assume hash: "memory_hash data n = Some hash" and "\<not> n \<le> length data"
  then have "[0..<n] = [0..<length data] @ length data # [Suc (length data)..<n]"
    by (metis linorder_not_le upt_conv_Cons upt_add_eq_append le_add_diff_inverse less_imp_le_nat zero_le)
  moreover have "fold_rd f xs (is @ length xs # js) acc = None" for f :: "u64 \<Rightarrow> u8 \<Rightarrow> u64" and xs "is" js acc
    by (induction "is" arbitrary: acc) (auto simp: rd_def split: Option.bind_splits)
  ultimately show False using hash by (simp add: memory_hash_def fold_range_def)
qed

lemma write_file_effect:
  assumes "write_file w path data = Some (result, w')"
  shows "memory w' = memory w" and "held_locks w' = held_locks w"
    and "\<not> reserved_name path path \<Longrightarrow>
      files w' path = (if result = DUALBOY_PERSISTENCE_OK then Some data else files w path)"
    and "\<not> reserved_name path path \<Longrightarrow> q \<noteq> path \<Longrightarrow> \<not> reserved_name path q \<Longrightarrow> files w' q = files w q"
proof -
  from assms obtain os rest steps where "write_answers w = os # rest"
    and wrote: "dualboy_write_file_atomic os (files w) (Some path) data = Some (result, steps)"
    and w': "w' = w\<lparr>files := last (files w # steps), write_answers := rest\<rparr>"
    by (auto simp: write_file_def split: list.splits Option.bind_splits)
  show "memory w' = memory w" "held_locks w' = held_locks w" by (simp_all add: w')
  show "files w' path = (if result = DUALBOY_PERSISTENCE_OK then Some data else files w path)" if "\<not> reserved_name path path"
    using write_file_atomic_last(1) [OF wrote that] by (simp add: w')
  show "files w' q = files w q" if "\<not> reserved_name path path" "q \<noteq> path" "\<not> reserved_name path q"
    using write_file_atomic_last(2) [OF wrote that] by (simp add: w')
qed

lemma replace_baseline_effect:
  assumes "replace_baseline tracking data n w = Some (ok, tracking', w')"
  shows "files w' = files w" and "write_answers w' = write_answers w" and "held_locks w' = held_locks w"
    and "n \<le> length data"
    and "tracked_size tracking' = tracked_size tracking" and "tracked_hash tracking' = tracked_hash tracking"
    and "tracking_valid tracking' = tracking_valid tracking" and "extent_known tracking' = extent_known tracking"
    and "preserved_size tracking' = preserved_size tracking" and "loaded_size tracking' = loaded_size tracking"
  using assms
  by (auto simp: replace_baseline_def allocate_def release_def slice_def Let_def
      split: if_splits Option.bind_splits prod.splits)

text \<open>The extent of a region, the tail that is preserved included, and the decision of the flush on it.\<close>

definition region_tracking ::
  "'p dualboy_engine_ops \<Rightarrow> 'p \<Rightarrow> region \<Rightarrow> bytes \<Rightarrow> nat \<Rightarrow> dualboy_save_region_tracking \<Rightarrow> dualboy_save_region_tracking option" where
  "region_tracking ops p region data extent0 tracking =
     (if extent_known tracking then Some tracking else discover_extent ops p region data extent0 tracking)"

lemma discover_extent_known:
  "discover_extent ops p region data extent tracking = Some tracking' \<Longrightarrow> extent_known tracking'"
  by (auto simp: discover_extent_def initialize_extent_tracking_def Let_def split: Option.bind_splits if_splits)

lemma flush_region_cases [consumes 1, case_names idle failed skipped refused written]:
  assumes "flush_region session ops p region manager w = Some (ok, manager', w')"
  obtains (idle) "ok" "manager' = manager" "w' = w"
      "core_managed manager region \<Longrightarrow> engine_memory session p region = Some [] \<or>
        (\<exists>data n. engine_memory session p region = Some data \<and> persistent_extent ops p region (length data) = Some (False, n))"
    | (failed) "\<not> ok" "manager' = manager" "w' = w"
    | (skipped) data n t hash where "ok" "core_managed manager region" "engine_memory session p region = Some data"
      "data \<noteq> []" "persistent_extent ops p region (length data) = Some (True, n)"
      "region_tracking ops p region data n (tracked manager region) = Some t"
      "memory_hash data (max n (preserved_size t)) = Some hash"
      "flush_skips t data (max n (preserved_size t)) hash = Some True"
      "manager' = manager\<lparr>tracked := (tracked manager)(region := t)\<rparr>" "w' = w"
    | (refused) data n t result where "\<not> ok" "core_managed manager region" "engine_memory session p region = Some data"
      "persistent_extent ops p region (length data) = Some (True, n)"
      "region_tracking ops p region data n (tracked manager region) = Some t"
      "write_file w (region_path manager region) (take (max n (preserved_size t)) data) = Some (result, w')"
      "result \<noteq> DUALBOY_PERSISTENCE_OK" "manager' = manager\<lparr>tracked := (tracked manager)(region := t)\<rparr>"
    | (written) data n t hash w1 t' where "core_managed manager region" "engine_memory session p region = Some data"
      "data \<noteq> []" "persistent_extent ops p region (length data) = Some (True, n)"
      "region_tracking ops p region data n (tracked manager region) = Some t"
      "memory_hash data (max n (preserved_size t)) = Some hash"
      "write_file w (region_path manager region) (take (max n (preserved_size t)) data) = Some (DUALBOY_PERSISTENCE_OK, w1)"
      "replace_baseline (t\<lparr>tracked_hash := hash, tracked_size := max n (preserved_size t),
         loaded_size := max n (preserved_size t), tracking_valid := True\<rparr>) data (length data) w1 = Some (ok, t', w')"
      "manager' = manager\<lparr>tracked := (tracked manager)(region := t')\<rparr>"
proof (cases "core_managed manager region")
  case False
  then show thesis using assms idle by (simp add: flush_region_def)
next
  case managed: True
  show thesis
  proof (cases "engine_memory session p region")
    case None
    then show thesis using assms managed failed by (simp add: flush_region_def)
  next
    case (Some data)
    show thesis
    proof (cases "data = [] \<or> (\<exists>n. persistent_extent ops p region (length data) = Some (False, n))")
      case True
      then show thesis using assms managed Some by (cases "data = []") (auto simp: flush_region_def intro!: idle)
    next
      case active: False
      show thesis
      proof (cases "persistent_extent ops p region (length data)")
        case None
        then show thesis using assms managed Some active failed by (simp add: flush_region_def)
      next
        case extent: (Some answer)
        with active obtain n where n: "answer = (True, n)" by (cases answer) auto
        with assms managed Some active extent obtain t hash skip where t:
          "region_tracking ops p region data n (tracked manager region) = Some t"
          "memory_hash data (max n (preserved_size t)) = Some hash"
          "flush_skips t data (max n (preserved_size t)) hash = Some skip"
          by (auto simp: flush_region_def region_tracking_def Let_def split: Option.bind_splits)
        have content: "slice data 0 (max n (preserved_size t)) = Some (take (max n (preserved_size t)) data)"
          using memory_hash_Some [OF t(2)] by (simp add: slice_def)
        have rest: "(if skip then Some (True, manager\<lparr>tracked := (tracked manager)(region := t)\<rparr>, w)
            else do {
              (result, w1) \<leftarrow> write_file w (region_path manager region) (take (max n (preserved_size t)) data);
              if result \<noteq> DUALBOY_PERSISTENCE_OK
              then Some (False, manager\<lparr>tracked := (tracked manager)(region := t)\<rparr>, w1)
              else do {
                (ok, t', w2) \<leftarrow> replace_baseline (t\<lparr>tracked_hash := hash, tracked_size := max n (preserved_size t),
                  loaded_size := max n (preserved_size t), tracking_valid := True\<rparr>) data (length data) w1;
                Some (ok, manager\<lparr>tracked := (tracked manager)(region := t')\<rparr>, w2)
              }
            }) = Some (ok, manager', w')"
          using assms active
          by (cases skip) (simp_all add: flush_region_def managed Some extent n region_tracking_def [symmetric] t Let_def content)
        show thesis
        proof (cases skip)
          case True
          with rest active t managed Some extent n show thesis by (intro skipped [of data n t hash]) auto
        next
          case False
          with rest active obtain result w1 where wrote:
            "write_file w (region_path manager region) (take (max n (preserved_size t)) data) = Some (result, w1)"
            by (auto split: Option.bind_splits)
          show thesis
          proof (cases "result = DUALBOY_PERSISTENCE_OK")
            case True
            with rest active \<open>\<not> skip\<close> wrote t managed Some extent n show thesis
              by (auto split: Option.bind_splits intro!: written [of data n t hash w1])
          next
            case False
            with rest active \<open>\<not> skip\<close> wrote t managed Some extent n show thesis by (intro refused [of data n t result]) auto
          qed
        qed
      qed
    qed
  qed
qed


section \<open>What a flush leaves alone\<close>

text \<open>The parts of a manager that no flush touches.\<close>

definition same_setup :: "dualboy_save_manager \<Rightarrow> dualboy_save_manager \<Rightarrow> bool" where
  "same_setup m m' \<longleftrightarrow> paths m' = paths m \<and> core_managed m' = core_managed m \<and> write_lock_fds m' = write_lock_fds m \<and>
     write_owner m' = write_owner m \<and> initialized m' = initialized m"

lemma same_setup_refl [simp]: "same_setup m m"
  by (simp add: same_setup_def)

lemma same_setup_trans: "same_setup m m' \<Longrightarrow> same_setup m' m'' \<Longrightarrow> same_setup m m''"
  by (simp add: same_setup_def)

lemma region_path_cong: "paths m' = paths m \<Longrightarrow> region_path m' r = region_path m r"
  unfolding region_path_def by (simp only:)

lemma same_setupD: "same_setup m m' \<Longrightarrow> core_managed m' = core_managed m" "same_setup m m' \<Longrightarrow> region_path m' r = region_path m r"
  by (auto simp: same_setup_def intro: region_path_cong)

definition paths_apart :: "dualboy_save_manager \<Rightarrow> bool" where
  "paths_apart m \<longleftrightarrow> (\<forall>r s. core_managed m r \<and> core_managed m s \<and> r \<in> set all_regions \<and> s \<in> set all_regions \<longrightarrow>
     \<not> reserved_name (region_path m r) (region_path m s) \<and> (r \<noteq> s \<longrightarrow> region_path m r \<noteq> region_path m s))"

definition elsewhere :: "dualboy_save_manager \<Rightarrow> region list \<Rightarrow> string \<Rightarrow> bool" where
  "elsewhere m regions q \<longleftrightarrow>
     (\<forall>r \<in> set regions. core_managed m r \<longrightarrow> q \<noteq> region_path m r \<and> \<not> reserved_name (region_path m r) q)"

lemma paths_apartD:
  assumes "paths_apart m" and "core_managed m r" and "r \<in> set all_regions"
  shows "\<not> reserved_name (region_path m r) (region_path m r)"
    and "r \<notin> set regions \<Longrightarrow> set regions \<subseteq> set all_regions \<Longrightarrow> elsewhere m regions (region_path m r)"
  using assms unfolding paths_apart_def elsewhere_def by (blast, metis subsetD)

lemma flush_region_frame:
  assumes "flush_region session ops p region m w = Some (ok, m', w')"
  shows "same_setup m m'" and "frames_since_flush m' = frames_since_flush m" and "held_locks w' = held_locks w"
    and "r \<noteq> region \<Longrightarrow> tracked m' r = tracked m r"
    and "paths_apart m \<Longrightarrow> region \<in> set all_regions \<Longrightarrow> elsewhere m [region] q \<Longrightarrow> files w' q = files w q"
proof -
  have "same_setup m m' \<and> frames_since_flush m' = frames_since_flush m \<and> held_locks w' = held_locks w \<and>
    (r \<noteq> region \<longrightarrow> tracked m' r = tracked m r) \<and>
    (paths_apart m \<and> region \<in> set all_regions \<and> elsewhere m [region] q \<longrightarrow> files w' q = files w q)"
    using assms
  proof (cases rule: flush_region_cases)
    case (refused data n t result)
    then show ?thesis
      using write_file_effect [OF refused(6)] paths_apartD(1) [of m region]
      by (auto simp: same_setup_def elsewhere_def)
  next
    case (written data n t hash w1 t')
    then show ?thesis
      using write_file_effect [OF written(7)] replace_baseline_effect [OF written(8)] paths_apartD(1) [of m region]
      by (auto simp: same_setup_def elsewhere_def)
  qed (simp_all add: same_setup_def)
  then show "same_setup m m'" and "frames_since_flush m' = frames_since_flush m" and "held_locks w' = held_locks w"
    and "r \<noteq> region \<Longrightarrow> tracked m' r = tracked m r"
    and "paths_apart m \<Longrightarrow> region \<in> set all_regions \<Longrightarrow> elsewhere m [region] q \<Longrightarrow> files w' q = files w q" by blast+
qed

lemma flush_regions_frame:
  assumes "flush_regions session ops p regions m w = Some (ok, m', w')"
  shows "same_setup m m'" and "frames_since_flush m' = frames_since_flush m" and "held_locks w' = held_locks w"
    and "r \<notin> set regions \<Longrightarrow> tracked m' r = tracked m r"
    and "paths_apart m \<Longrightarrow> set regions \<subseteq> set all_regions \<Longrightarrow> elsewhere m regions q \<Longrightarrow> files w' q = files w q"
proof -
  have "same_setup m m' \<and> frames_since_flush m' = frames_since_flush m \<and> held_locks w' = held_locks w \<and>
    (r \<notin> set regions \<longrightarrow> tracked m' r = tracked m r) \<and>
    (paths_apart m \<longrightarrow> set regions \<subseteq> set all_regions \<longrightarrow> elsewhere m regions q \<longrightarrow> files w' q = files w q)"
    using assms
  proof (induction regions arbitrary: m w)
    case (Cons region regions)
    then obtain ok1 m1 w1 where first: "flush_region session ops p region m w = Some (ok1, m1, w1)"
      by (auto split: Option.bind_splits)
    note frame = flush_region_frame [OF first]
    have part: "elsewhere m (region # regions) q \<longleftrightarrow> elsewhere m [region] q \<and> elsewhere m regions q"
      by (simp add: elsewhere_def)
    show ?case
    proof (cases ok1)
      case False
      with Cons.prems first have "m' = m1" "w' = w1" by simp_all
      with frame(1-3) frame(4) [of r] frame(5) [of q] part show ?thesis by simp
    next
      case True
      with Cons.prems first have "flush_regions session ops p regions m1 w1 = Some (ok, m', w')" by simp
      note IH = Cons.IH [OF this]
      have "paths_apart m1 = paths_apart m" and "elsewhere m1 regions q = elsewhere m regions q"
        using same_setupD [OF frame(1)] by (simp_all add: paths_apart_def elsewhere_def)
      with IH frame(2,3) frame(4) [of r] frame(5) [of q] part same_setup_trans [OF frame(1)] show ?thesis by simp
    qed
  qed simp
  then show "same_setup m m'" and "frames_since_flush m' = frames_since_flush m" and "held_locks w' = held_locks w"
    and "r \<notin> set regions \<Longrightarrow> tracked m' r = tracked m r"
    and "paths_apart m \<Longrightarrow> set regions \<subseteq> set all_regions \<Longrightarrow> elsewhere m regions q \<Longrightarrow> files w' q = files w q" by blast+
qed

lemma flush_regions_at:
  "flush_regions session ops p (before @ r # after) m w = Some (True, m', w') \<Longrightarrow>
   \<exists>m1 w1 m2 w2. flush_regions session ops p before m w = Some (True, m1, w1) \<and>
     flush_region session ops p r m1 w1 = Some (True, m2, w2) \<and>
     flush_regions session ops p after m2 w2 = Some (True, m', w')"
  by (induction before arbitrary: m w) (auto split: Option.bind_splits if_splits)

text \<open>The step at which a flush of several regions decides the file of one of them.\<close>

lemma flush_regions_one:
  assumes "flush_regions session ops p regions m w = Some (True, m', w')" and "distinct regions" and "r \<in> set regions"
    and "set regions \<subseteq> set all_regions" and "paths_apart m" and "core_managed m r"
  obtains ma wa mb wb where "flush_region session ops p r ma wa = Some (True, mb, wb)" and "same_setup m ma"
    and "tracked ma r = tracked m r" and "files w' (region_path m r) = files wb (region_path m r)"
proof -
  from split_list [OF assms(3)] obtain before after where regions: "regions = before @ r # after" by blast
  then have lists: "r \<notin> set before" "r \<notin> set after" "set after \<subseteq> set all_regions" "r \<in> set all_regions"
    using assms(2,3,4) by auto
  from flush_regions_at [OF assms(1) [unfolded regions]] obtain ma wa mb wb where
    a: "flush_regions session ops p before m w = Some (True, ma, wa)"
    and b: "flush_region session ops p r ma wa = Some (True, mb, wb)"
    and c: "flush_regions session ops p after mb wb = Some (True, m', w')" by blast
  have setupb: "same_setup m mb" by (rule same_setup_trans [OF flush_regions_frame(1) [OF a] flush_region_frame(1) [OF b]])
  then have "paths_apart mb" "core_managed mb r"
    using assms(5,6) same_setupD [OF setupb] by (simp_all add: paths_apart_def)
  from flush_regions_frame(5) [OF c this(1) lists(3) paths_apartD(2) [OF this lists(4,2,3)]]
  have "files w' (region_path m r) = files wb (region_path m r)" using same_setupD [OF setupb] by simp
  with that [OF b flush_regions_frame(1) [OF a] flush_regions_frame(4) [OF a lists(1)]] show thesis by blast
qed

section \<open>Settled regions\<close>

text \<open>A region is settled when the next flush of the same bytes has nothing to write.\<close>

definition settled ::
  "'p dualboy_session \<Rightarrow> 'p dualboy_engine_ops \<Rightarrow> 'p \<Rightarrow> dualboy_save_manager \<Rightarrow> region \<Rightarrow> bool" where
  "settled session ops p m r \<longleftrightarrow> (core_managed m r \<longrightarrow>
     (\<exists>data. engine_memory session p r = Some data \<and>
        (data \<noteq> [] \<longrightarrow> (\<exists>known n. persistent_extent ops p r (length data) = Some (known, n) \<and>
           (known \<longrightarrow> extent_known (tracked m r) \<and>
              (\<exists>hash. memory_hash data (max n (preserved_size (tracked m r))) = Some hash \<and>
                 flush_skips (tracked m r) data (max n (preserved_size (tracked m r))) hash = Some True))))))"

lemma settledI:
  assumes "engine_memory session p r = Some data" and "persistent_extent ops p r (length data) = Some (True, n)"
    and "extent_known (tracked m r)" and "memory_hash data (max n (preserved_size (tracked m r))) = Some hash"
    and "flush_skips (tracked m r) data (max n (preserved_size (tracked m r))) hash = Some True"
  shows "settled session ops p m r"
  unfolding settled_def using assms by blast

lemma flush_region_settles:
  assumes "flush_region session ops p r m w = Some (True, m', w')"
  shows "settled session ops p m' r"
  using assms
proof (cases rule: flush_region_cases)
  case idle
  then show ?thesis by (auto simp: settled_def)
next
  case (skipped data n t hash)
  have "extent_known t" using skipped(6) by (auto simp: region_tracking_def dest: discover_extent_known split: if_splits)
  then show ?thesis by (intro settledI [of _ _ _ data _ n _ hash]) (simp_all add: skipped)
next
  case (written data n t hash w1 t')
  have "extent_known t" using written(5) by (auto simp: region_tracking_def dest: discover_extent_known split: if_splits)
  then show ?thesis
    by (intro settledI [of _ _ _ data _ n _ hash])
      (simp_all add: written(2,4,6,9) replace_baseline_effect [OF written(8)] flush_skips_def)
qed simp_all

lemma settled_flush:
  assumes "settled session ops p m r"
  shows "flush_region session ops p r m w = Some (True, m, w)"
proof (cases "core_managed m r")
  case True
  with assms obtain data where data: "engine_memory session p r = Some data"
    "data \<noteq> [] \<longrightarrow> (\<exists>known n. persistent_extent ops p r (length data) = Some (known, n) \<and>
       (known \<longrightarrow> extent_known (tracked m r) \<and>
          (\<exists>hash. memory_hash data (max n (preserved_size (tracked m r))) = Some hash \<and>
             flush_skips (tracked m r) data (max n (preserved_size (tracked m r))) hash = Some True)))"
    by (auto simp: settled_def)
  have same: "m\<lparr>tracked := (tracked m)(r := tracked m r)\<rparr> = m" by simp
  show ?thesis
  proof (cases "data = []")
    case False
    with data(2) show ?thesis using True data(1) same by (auto simp: flush_region_def Let_def)
  qed (use True data(1) in \<open>simp add: flush_region_def\<close>)
qed (simp add: flush_region_def)

lemma settled_cong:
  "core_managed m' r = core_managed m r \<Longrightarrow> tracked m' r = tracked m r \<Longrightarrow>
   settled session ops p m' r = settled session ops p m r"
  by (simp add: settled_def)

lemma flush_regions_settle:
  assumes "flush_regions session ops p regions m w = Some (True, m', w')" and "distinct regions" and "r \<in> set regions"
  shows "settled session ops p m' r"
proof -
  from assms(3) obtain before after where regions: "regions = before @ r # after" by (meson split_list)
  from flush_regions_at [OF assms(1) [unfolded regions]] obtain m1 w1 m2 w2 where
    steps: "flush_region session ops p r m1 w1 = Some (True, m2, w2)"
      "flush_regions session ops p after m2 w2 = Some (True, m', w')" by blast
  have "r \<notin> set after" using assms(2) regions by simp
  then have "core_managed m' r = core_managed m2 r" "tracked m' r = tracked m2 r"
    using same_setupD(1) [OF flush_regions_frame(1) [OF steps(2)]] flush_regions_frame(4) [OF steps(2)] by simp_all
  with flush_region_settles [OF steps(1)] show ?thesis using settled_cong [of m' r m2 session ops p] by simp
qed

lemma settled_flush_regions:
  "\<forall>r \<in> set regions. settled session ops p m r \<Longrightarrow> flush_regions session ops p regions m w = Some (True, m, w)"
  by (induction regions) (simp_all add: settled_flush)

text \<open>
  What the manager relies on when it tells the engine that a machine has been flushed: that this
  changes no region and no extent.
\<close>

definition quiet_clear :: "'p dualboy_session \<Rightarrow> 'p dualboy_engine_ops \<Rightarrow> bool" where
  "quiet_clear session ops \<longleftrightarrow> (\<forall>p machine r.
     engine_memory session (clear_dirty ops machine p) r = engine_memory session p r \<and>
     (\<forall>c. persistent_extent ops (clear_dirty ops machine p) r c = persistent_extent ops p r c))"

lemma quiet_clearD:
  assumes "quiet_clear session ops"
  shows "engine_memory session (clear_dirty ops machine p) r = engine_memory session p r"
    and "persistent_extent ops (clear_dirty ops machine p) r c = persistent_extent ops p r c"
  using assms unfolding quiet_clear_def by blast+

lemma quiet_settled:
  "quiet_clear session ops \<Longrightarrow> settled session ops (clear_dirty ops machine p) m r = settled session ops p m r"
  by (simp only: settled_def quiet_clearD)

lemma all_regions_set: "set all_regions = set (machine_regions 0) \<union> set (machine_regions 1)"
  by (simp add: all_regions_def)

lemma machine_regions_apart: "distinct (machine_regions machine)" "set (machine_regions 0) \<inter> set (machine_regions 1) = {}"
  by (auto simp: machine_regions_def kinds_def)


lemma flush_Some_True:
  assumes "dualboy_save_manager_flush m session w = Some (True, m', session', w')"
    and "initialized m" and "write_owner m" and "loaded session" and "engine session = Some ops"
    and "pair session = Some (address, p)"
  obtains m1 w1 m2 where "flush_regions session ops p (machine_regions 0) m w = Some (True, m1, w1)"
    and "flush_regions session ops (clear_dirty ops 0 p) (machine_regions 1) m1 w1 = Some (True, m2, w')"
    and "m' = m2\<lparr>frames_since_flush := 0\<rparr>"
    and "session' = session\<lparr>pair := Some (address, clear_dirty ops 1 (clear_dirty ops 0 p))\<rparr>"
  using assms
  by (auto simp: dualboy_save_manager_flush_def Let_def split: Option.bind_splits if_splits)

lemma engine_memory_pair [simp]: "engine_memory (session\<lparr>pair := x\<rparr>) = engine_memory session"
  by (intro ext) (simp add: engine_memory_def)

lemma settled_pair [simp]: "settled (session\<lparr>pair := x\<rparr>) = settled session"
  by (intro ext) (simp add: settled_def)

lemma settled_frames [simp]: "settled session ops p (m\<lparr>frames_since_flush := x\<rparr>) r = settled session ops p m r"
  by (simp add: settled_def)

text \<open>After a successful flush every region is settled, for the engine as it was.\<close>

lemma flush_all_settled:
  assumes "dualboy_save_manager_flush m session w = Some (True, m', session', w')"
    and "initialized m" and "write_owner m" and "loaded session" and "engine session = Some ops"
    and "pair session = Some (address, p)" and "quiet_clear session ops" and "r \<in> set all_regions"
  shows "settled session ops p m' r"
  using assms(1-6)
proof (rule flush_Some_True)
  fix m1 w1 m2
  assume step0: "flush_regions session ops p (machine_regions 0) m w = Some (True, m1, w1)"
    and step1: "flush_regions session ops (clear_dirty ops 0 p) (machine_regions 1) m1 w1 = Some (True, m2, w')"
    and m': "m' = m2\<lparr>frames_since_flush := 0\<rparr>"
  show ?thesis
  proof (cases "r \<in> set (machine_regions 1)")
    case True
    from flush_regions_settle [OF step1 machine_regions_apart(1) True] quiet_settled [OF assms(7)] m' show ?thesis by simp
  next
    case False
    with assms(8) have r: "r \<in> set (machine_regions 0)" by (simp add: all_regions_set)
    have "core_managed m2 r = core_managed m1 r" "tracked m2 r = tracked m1 r"
      using same_setupD(1) [OF flush_regions_frame(1) [OF step1]] flush_regions_frame(4) [OF step1 False] by simp_all
    with flush_regions_settle [OF step0 machine_regions_apart(1) r] m' show ?thesis
      using settled_cong [of m2 r m1 session ops p] by simp
  qed
qed

lemma flush_setup:
  assumes "dualboy_save_manager_flush m session w = Some (True, m', session', w')"
    and "initialized m" and "write_owner m" and "loaded session" and "engine session = Some ops"
    and "pair session = Some (address, p)"
  shows "same_setup m m'" and "frames_since_flush m' = 0"
    and "session' = session\<lparr>pair := Some (address, clear_dirty ops 1 (clear_dirty ops 0 p))\<rparr>"
  using assms
  by (auto elim!: flush_Some_True dest!: flush_regions_frame(1) intro: same_setup_trans simp: same_setup_def)

section \<open>Properties of the flush\<close>

lemma saving_quiet: "quiet_clear saving_session saving_engine" "quiet_clear changed_session saving_engine"
  by (simp_all add: quiet_clear_def)

lemma saving_apart: "paths_apart saving_manager"
  unfolding paths_apart_def
  by (auto simp: saving_manager_def all_regions_def machine_regions_def kinds_def region_path_def saving_paths_def
      reserved_name_def temporary_prefix_def last_slash_def)

lemma changed_fields: "engine changed_session = Some saving_engine" "pair changed_session = Some (9, changed_pair)"
  "loaded changed_session" "initialized saving_manager" "write_owner saving_manager"
  by (simp_all add: changed_session_def saving_manager_def)

text \<open>
  C38. A region that has not changed is not written again. After a successful flush, flushing the
  same machine memory once more succeeds, changes no file, makes no system call and allocates
  nothing: the tracking of every region already accounts for its bytes, also when its extent only
  became known in the first flush or a promoted save device was deferred.
\<close>

theorem save_flush_idempotent:
  assumes "dualboy_save_manager_flush m session w = Some (True, m', session', w')"
    and "initialized m" and "write_owner m" and "loaded session" and "engine session = Some ops"
    and "pair session = Some (address, p)" and "quiet_clear session ops"
  shows "\<exists>session''. dualboy_save_manager_flush m' session' w'' = Some (True, m', session'', w'')"
proof -
  note kept = flush_setup [OF assms(1-6)]
  let ?p = "clear_dirty ops 1 (clear_dirty ops 0 p)"
  have "settled session ops q m' r" if "r \<in> set all_regions" "q = ?p \<or> q = clear_dirty ops 0 ?p" for q r
    using that flush_all_settled [OF assms that(1)] by (auto simp: quiet_settled [OF assms(7)])
  then have settled: "\<forall>r \<in> set (machine_regions 0). settled session ops ?p m' r"
    "\<forall>r \<in> set (machine_regions 1). settled session ops (clear_dirty ops 0 ?p) m' r"
    by (simp_all add: all_regions_set)
  have same: "m'\<lparr>frames_since_flush := 0\<rparr> = m'" using kept(2) by (cases m') simp
  have flush: "flush_regions session' ops ?p (machine_regions 0) m' w'' = Some (True, m', w'')"
    "flush_regions session' ops (clear_dirty ops 0 ?p) (machine_regions 1) m' w'' = Some (True, m', w'')"
    using settled by (simp_all add: settled_flush_regions kept(3))
  have "initialized m'" "write_owner m'" "loaded session'" "engine session' = Some ops"
    "pair session' = Some (address, ?p)"
    using kept assms(2-5) by (simp_all add: same_setup_def)
  with flush same show ?thesis by (simp add: dualboy_save_manager_flush_def Let_def)
qed

theorem save_flush_idempotent_witness:
  "\<exists>m' session' w' session''. dualboy_save_manager_flush saving_manager changed_session saving_world = Some (True, m', session', w') \<and>
     dualboy_save_manager_flush m' session' saving_world = Some (True, m', session'', saving_world)"
proof -
  obtain m' w' where "dualboy_save_manager_flush saving_manager changed_session saving_world = Some (True, m', changed_session, w')"
    using changed_flush [of saving_world "replicate 5 byte_write"] by (auto simp: saving_world_def numeral_eq_Suc)
  with save_flush_idempotent [OF this changed_fields(4,5,3,1,2) saving_quiet(2), of saving_world] show ?thesis by blast
qed


lemma flush_skips_changed:
  assumes "flush_skips t data n hash = Some True" and "memory_hash data n = Some hash" and "i < n" and "v \<noteq> data ! i"
    and "memory_hash (data[i := v]) n = Some hash'"
  shows "flush_skips t (data[i := v]) n hash' \<noteq> Some True"
proof -
  have n: "n \<le> length data" by (rule memory_hash_Some [OF assms(2)])
  have hash: "hash' \<noteq> hash" using memory_hash_changed [OF assms(3) n assms(4)] assms(2,5) by simp
  have "(take n (data[i := v])) ! i \<noteq> take n data ! i" using assms(3,4) n by simp
  then have differ: "take n (data[i := v]) \<noteq> take n data" by metis
  show ?thesis
    using assms(1) n hash differ
    by (auto simp: flush_skips_def slice_def split: if_splits option.splits Option.bind_splits)
qed

lemma flush_region_changed:
  assumes "settled session ops p m r" and "core_managed m r" and "engine_memory session p r = Some data"
    and "data \<noteq> []" and "persistent_extent ops p r (length data) = Some (True, n)" and "i < n" and "v \<noteq> data ! i"
    and "tracked m' r = tracked m r" and "core_managed m' r" and "\<not> reserved_name (region_path m' r) (region_path m' r)"
    and "engine_memory session' p' r = Some (data[i := v])"
    and "persistent_extent ops p' r (length data) = Some (True, n)"
    and "flush_region session' ops p' r m' w = Some (True, m'', w'')"
  shows "files w'' (region_path m' r) = Some (take (max n (preserved_size (tracked m r))) (data[i := v]))"
proof -
  from assms(1-5) obtain hash where t: "extent_known (tracked m r)"
    "memory_hash data (max n (preserved_size (tracked m r))) = Some hash"
    "flush_skips (tracked m r) data (max n (preserved_size (tracked m r))) hash = Some True"
    by (auto simp: settled_def)
  from assms(13) show ?thesis
  proof (cases rule: flush_region_cases)
    case idle
    then show ?thesis using assms(4,9,11,12) by auto
  next
    case (skipped data' n' t' hash')
    have d: "data' = data[i := v]" "n' = n" "t' = tracked m r"
      using skipped(3,5,6) assms(8,11,12) t(1) by (auto simp: region_tracking_def)
    have "i < max n (preserved_size (tracked m r))" using assms(6) by simp
    from flush_skips_changed [OF t(3,2) this assms(7)] skipped(7,8) d show ?thesis by simp
  next
    case (written data' n' t' hash' w1 t'')
    have d: "data' = data[i := v]" "n' = n" "t' = tracked m r"
      using written(2,4,5) assms(8,11,12) t(1) by (auto simp: region_tracking_def)
    show ?thesis
      using write_file_effect(3) [OF written(7) assms(10)] replace_baseline_effect(1) [OF written(8)] d by simp
  qed simp_all
qed

text \<open>
  C36. A changed byte reaches its file. Flush, let one byte of a managed region within its extent
  change (together with anything else in the engine that keeps the extent), and flush again: when
  that flush reports success, the region's file holds the new bytes up to the extent, tail included.
  The change detector cannot miss it, because the hash of two regions that differ in one byte
  always differs.
\<close>

theorem save_change_written:
  assumes "dualboy_save_manager_flush m session w = Some (True, m1, session1, w1)"
    and "initialized m" and "write_owner m" and "loaded session" and "engine session = Some ops"
    and "pair session = Some (address, p)" and "quiet_clear session ops" and "paths_apart m"
    and "r \<in> set all_regions" and "core_managed m r" and "engine_memory session p r = Some data" and "data \<noteq> []"
    and "persistent_extent ops p r (length data) = Some (True, n)" and "i < n" and "v \<noteq> data ! i"
    and "engine_memory session q r = Some (data[i := v])" and "persistent_extent ops q r (length data) = Some (True, n)"
    and "dualboy_save_manager_flush m1 (session\<lparr>pair := Some (address, q)\<rparr>) w2 = Some (True, m2, session2, w3)"
  shows "files w3 (region_path m r) = Some (take (max n (preserved_size (tracked m1 r))) (data[i := v]))"
proof -
  let ?session = "session\<lparr>pair := Some (address, q)\<rparr>"
  note kept = flush_setup [OF assms(1-6)]
  note setup1 = same_setupD [OF kept(1)]
  have settled: "settled session ops p m1 r" by (rule flush_all_settled [OF assms(1-7,9)])
  have apart: "paths_apart m1" using assms(8) setup1 by (simp add: paths_apart_def)
  have managed: "core_managed m1 r" using assms(10) setup1 by simp
  have at: "files w5 (region_path m1 r) = Some (take (max n (preserved_size (tracked m1 r))) (data[i := v]))"
    if "flush_region ?session ops q' r m4 w4 = Some (True, m5, w5)" and "q' = q \<or> q' = clear_dirty ops 0 q"
      and "same_setup m1 m4" and "tracked m4 r = tracked m1 r" for q' m4 w4 m5 w5
  proof -
    note setup4 = same_setupD [OF that(3)]
    have reserved: "\<not> reserved_name (region_path m4 r) (region_path m4 r)"
      using paths_apartD(1) [OF apart managed assms(9)] setup4 by simp
    have "engine_memory ?session q' r = Some (data[i := v])" "persistent_extent ops q' r (length data) = Some (True, n)"
      using that(2) assms(16,17) by (auto simp: quiet_clearD [OF assms(7)])
    from flush_region_changed [OF settled managed assms(11,12,13,14,15) that(4) _ reserved this that(1)] managed setup4
    show ?thesis by simp
  qed
  have inside: "set (machine_regions k) \<subseteq> set all_regions" if "k < 2" for k
    using that by (auto simp: all_regions_set less_2_cases_iff)
  have "initialized m1" "write_owner m1" using kept(1) assms(2,3) by (simp_all add: same_setup_def)
  from assms(18) this show ?thesis
  proof (rule flush_Some_True [where ops = ops and address = address and p = q])
    fix m3 w4 m4
    assume step0: "flush_regions ?session ops q (machine_regions 0) m1 w2 = Some (True, m3, w4)"
      and step1: "flush_regions ?session ops (clear_dirty ops 0 q) (machine_regions 1) m3 w4 = Some (True, m4, w3)"
    note frame0 = flush_regions_frame [OF step0]
    have apart3: "paths_apart m3" and managed3: "core_managed m3 r"
      using apart managed same_setupD [OF frame0(1)] by (simp_all add: paths_apart_def)
    have path3: "region_path m3 r = region_path m1 r" by (rule same_setupD(2) [OF frame0(1)])
    show ?thesis
    proof (cases "r \<in> set (machine_regions 0)")
      case True
      then have other: "r \<notin> set (machine_regions 1)" using machine_regions_apart(2) by auto
      from flush_regions_one [OF step0 machine_regions_apart(1) True inside apart managed] at
      have "files w4 (region_path m1 r) = Some (take (max n (preserved_size (tracked m1 r))) (data[i := v]))" by force
      moreover have "files w3 (region_path m3 r) = files w4 (region_path m3 r)"
        by (rule flush_regions_frame(5) [OF step1 apart3 inside paths_apartD(2) [OF apart3 managed3 assms(9) other inside]])
          simp_all
      ultimately show ?thesis using path3 setup1 by simp
    next
      case False
      with assms(9) have True: "r \<in> set (machine_regions 1)" by (simp add: all_regions_set)
      from step1 machine_regions_apart(1) True inside [of 1] apart3 managed3
      obtain ma wa mb wb where one: "flush_region ?session ops (clear_dirty ops 0 q) r ma wa = Some (True, mb, wb)"
        "same_setup m3 ma" "tracked ma r = tracked m3 r" "files w3 (region_path m3 r) = files wb (region_path m3 r)"
        by (rule flush_regions_one) simp
      from at [OF one(1) _ same_setup_trans [OF frame0(1) one(2)]] one(3,4) frame0(4) [OF False] path3 setup1
      show ?thesis by simp
    qed
  qed (simp_all add: assms(4,5))
qed

theorem save_change_written_witness:
  "\<exists>m2 session2 w3. dualboy_save_manager_flush saving_manager changed_session saving_world = Some (True, m2, session2, w3) \<and>
     files w3 ''/s/a.srm'' = Some [9]"
proof -
  let ?r = "(0, DUALBOY_MEMORY_SAVE_RAM)"
  obtain m' w' where flush: "dualboy_save_manager_flush saving_manager changed_session saving_world = Some (True, m', changed_session, w')"
    using changed_flush [of saving_world "replicate 5 byte_write"] by (auto simp: saving_world_def numeral_eq_Suc)
  have data: "engine_memory saving_session demo_pair_state ?r = Some [7]"
    "engine_memory saving_session changed_pair ?r = Some ([7][0 := 9])"
    by (simp_all add: saving_memory demo_pair_state_def changed_pair_def)
  have r: "?r \<in> set all_regions" "core_managed saving_manager ?r"
    by (simp_all add: all_regions_def machine_regions_def kinds_def saving_manager_def)
  have "files w' (region_path saving_manager ?r) = Some (take (max 1 (preserved_size (tracked saving_manager ?r))) ([7][0 := 9]))"
    by (rule save_change_written [OF saving_still changed_fields(4,5) saving_session_fields(3,1,2) saving_quiet(1) saving_apart r
          data(1), where q = changed_pair and n = 1 and i = 0 and ?v = 9])
      (use data flush in \<open>simp_all add: saving_extent changed_session_def\<close>)
  then have "files w' ''/s/a.srm'' = Some [9]" by (simp add: region_path_def saving_manager_def saving_paths_def byte_tracking_def)
  with flush show ?thesis by blast
qed


text \<open>A file that a flush wrote: current bytes of its region, at least up to the known extent.\<close>

definition holds_current :: "'p dualboy_session \<Rightarrow> 'p dualboy_engine_ops \<Rightarrow> 'p \<Rightarrow> region \<Rightarrow> bytes option \<Rightarrow> bool" where
  "holds_current session ops p r content \<longleftrightarrow> (\<exists>data k n. engine_memory session p r = Some data \<and>
     persistent_extent ops p r (length data) = Some (True, k) \<and> k \<le> n \<and> n \<le> length data \<and> content = Some (take n data))"

lemma flush_region_file:
  assumes "flush_region session ops p r m w = Some (ok, m', w')" and "\<not> reserved_name (region_path m r) (region_path m r)"
  shows "files w' (region_path m r) = files w (region_path m r) \<or> holds_current session ops p r (files w' (region_path m r))"
  using assms(1)
proof (cases rule: flush_region_cases)
  case (refused data n t result)
  then show ?thesis using write_file_effect(3) [OF refused(6) assms(2)] by simp
next
  case (written data n t hash w1 t')
  have "files w' (region_path m r) = Some (take (max n (preserved_size t)) data)"
    using write_file_effect(3) [OF written(7) assms(2)] replace_baseline_effect(1) [OF written(8)] by simp
  with written memory_hash_Some [OF written(6)] show ?thesis
    unfolding holds_current_def by (intro disjI2 exI [of _ data] exI [of _ n] exI [of _ "max n (preserved_size t)"]) simp
qed simp_all

lemma flush_regions_file:
  assumes "flush_regions session ops p regions m w = Some (ok, m', w')" and "distinct regions" and "r \<in> set regions"
    and "set regions \<subseteq> set all_regions" and "paths_apart m" and "core_managed m r"
  shows "files w' (region_path m r) = files w (region_path m r) \<or> holds_current session ops p r (files w' (region_path m r))"
  using assms
proof (induction regions arbitrary: m w)
  case (Cons region regions)
  then obtain ok1 m1 w1 where first: "flush_region session ops p region m w = Some (ok1, m1, w1)"
    by (auto split: Option.bind_splits)
  note frame = flush_region_frame [OF first]
  note keep = same_setupD [OF frame(1)]
  have apart1: "paths_apart m1" "core_managed m1 r" using Cons.prems(5,6) keep by (simp_all add: paths_apart_def)
  have all: "r \<in> set all_regions" "region \<in> set all_regions" "set regions \<subseteq> set all_regions"
    using Cons.prems(3,4) by auto
  have rest: "ok1 \<and> flush_regions session ops p regions m1 w1 = Some (ok, m', w') \<or> m' = m1 \<and> w' = w1"
    using Cons.prems(1) first by (cases ok1) simp_all
  show ?case
  proof (cases "r = region")
    case True
    have "files w' (region_path m1 r) = files w1 (region_path m1 r)"
      using rest
    proof
      assume "ok1 \<and> flush_regions session ops p regions m1 w1 = Some (ok, m', w')"
      then show ?thesis
        using flush_regions_frame(5) [OF _ apart1(1) all(3) paths_apartD(2) [OF apart1 all(1) _ all(3)]] True Cons.prems(2) by auto
    qed simp
    with flush_region_file [OF first] paths_apartD(1) [OF Cons.prems(5,6) all(1)] True keep show ?thesis by simp
  next
    case False
    have "files w1 (region_path m r) = files w (region_path m r)"
      by (rule frame(5) [OF Cons.prems(5) all(2) paths_apartD(2) [OF Cons.prems(5,6) all(1)]]) (use False all in simp_all)
    moreover have "files w' (region_path m1 r) = files w1 (region_path m1 r) \<or>
        holds_current session ops p r (files w' (region_path m1 r))"
      using rest Cons.IH [OF _ _ _ all(3) apart1] False Cons.prems(2,3) by auto
    ultimately show ?thesis using keep by simp
  qed
qed simp

text \<open>
  C37. A flush never writes anything but current save data to the save files. Whether it succeeds
  or stops half way, a process without the write locks changes nothing; no file outside the
  managed regions (and the temporary names next to them) changes; and the file of a managed region
  is either as it was or holds current bytes of exactly that region, up to the extent the engine
  reports or beyond it, never a prefix cut below it and never bytes of another machine.
\<close>

theorem save_flush_files:
  assumes "dualboy_save_manager_flush m session w = Some (ok, m', session', w')" and "paths_apart m"
    and "engine session = Some ops" and "pair session = Some (address, p)" and "quiet_clear session ops"
  shows "(\<not> write_owner m \<longrightarrow> w' = w) \<and> (\<forall>q. elsewhere m all_regions q \<longrightarrow> files w' q = files w q) \<and>
    (\<forall>r \<in> set all_regions. core_managed m r \<longrightarrow> files w' (region_path m r) = files w (region_path m r) \<or>
       holds_current session ops p r (files w' (region_path m r)))"
proof (cases "initialized m \<and> write_owner m \<and> loaded session")
  case False
  with assms(1) show ?thesis by (auto simp: dualboy_save_manager_flush_def)
next
  case True
  with assms(1,3,4) obtain ok0 m1 w1 where step0: "flush_regions session ops p (machine_regions 0) m w = Some (ok0, m1, w1)"
    and rest: "w' = w1 \<or> (\<exists>ok1 m2. flush_regions session ops (clear_dirty ops 0 p) (machine_regions 1) m1 w1 = Some (ok1, m2, w'))"
    by (auto simp: dualboy_save_manager_flush_def Let_def split: Option.bind_splits if_splits)
  note frame0 = flush_regions_frame [OF step0]
  note keep = same_setupD [OF frame0(1)]
  have apart1: "paths_apart m1" using assms(2) keep by (simp add: paths_apart_def)
  have inside: "set (machine_regions 0) \<subseteq> set all_regions" "set (machine_regions 1) \<subseteq> set all_regions"
    by (auto simp: all_regions_set)
  have quiet: "holds_current session ops (clear_dirty ops 0 p) = holds_current session ops p"
    by (intro ext) (simp only: holds_current_def quiet_clearD [OF assms(5)])
  have "files w' q = files w q" if "elsewhere m all_regions q" for q
  proof -
    have "elsewhere m (machine_regions 0) q" "elsewhere m1 (machine_regions 1) q"
      using that keep by (auto simp: elsewhere_def all_regions_set)
    from frame0(5) [OF assms(2) inside(1) this(1)] rest
      flush_regions_frame(5) [where session = session, OF _ apart1 inside(2) this(2)]
    show ?thesis by auto
  qed
  moreover have "files w' (region_path m r) = files w (region_path m r) \<or> holds_current session ops p r (files w' (region_path m r))"
    if r: "r \<in> set all_regions" "core_managed m r" for r
  proof (cases "r \<in> set (machine_regions 0)")
    case True
    then have "r \<notin> set (machine_regions 1)" using machine_regions_apart(2) by auto
    then have "elsewhere m1 (machine_regions 1) (region_path m1 r)"
      using paths_apartD(2) [OF apart1 _ r(1) _ inside(2)] r(2) keep by simp
    then have "files w' (region_path m1 r) = files w1 (region_path m1 r)"
      using flush_regions_frame(5) [where session = session, OF _ apart1 inside(2)] rest by auto
    with flush_regions_file [OF step0 machine_regions_apart(1) True inside(1) assms(2) r(2)] keep show ?thesis by simp
  next
    case False
    with r(1) have r1: "r \<in> set (machine_regions 1)" by (simp add: all_regions_set)
    have "files w1 (region_path m r) = files w (region_path m r)"
      by (rule frame0(5) [OF assms(2) inside(1) paths_apartD(2) [OF assms(2) r(2,1) False inside(1)]])
    moreover have "files w' (region_path m1 r) = files w1 (region_path m1 r) \<or>
        holds_current session ops p r (files w' (region_path m1 r))"
      using rest flush_regions_file [where session = session and p = "clear_dirty ops 0 p" and ops = ops,
          OF _ machine_regions_apart(1) r1 inside(2) apart1] r(2) keep by (auto simp: quiet)
    ultimately show ?thesis using keep by simp
  qed
  ultimately show ?thesis using True by blast
qed

theorem save_flush_files_witness:
  "\<exists>ok m' session' w'. dualboy_save_manager_flush saving_manager changed_session saving_world = Some (ok, m', session', w') \<and>
     files w' ''/s/b.srm'' = None \<and>
     (files w' ''/s/a.srm'' = None \<or> holds_current changed_session saving_engine changed_pair (0, DUALBOY_MEMORY_SAVE_RAM) (files w' ''/s/a.srm''))"
proof -
  obtain m' w' where flush: "dualboy_save_manager_flush saving_manager changed_session saving_world = Some (True, m', changed_session, w')"
    using changed_flush [of saving_world "replicate 5 byte_write"] by (auto simp: saving_world_def numeral_eq_Suc)
  note result = save_flush_files [OF flush saving_apart changed_fields(1,2) saving_quiet(2)]
  have "elsewhere saving_manager all_regions ''/s/b.srm''"
    by (simp add: elsewhere_def all_regions_def machine_regions_def kinds_def saving_manager_def region_path_def saving_paths_def
        reserved_name_def temporary_prefix_def last_slash_def)
  with result have other: "files w' ''/s/b.srm'' = None" by (simp add: saving_world_def)
  have r: "(0, DUALBOY_MEMORY_SAVE_RAM) \<in> set all_regions" "core_managed saving_manager (0, DUALBOY_MEMORY_SAVE_RAM)"
    "region_path saving_manager (0, DUALBOY_MEMORY_SAVE_RAM) = ''/s/a.srm''"
    by (simp_all add: all_regions_def machine_regions_def kinds_def saving_manager_def region_path_def saving_paths_def)
  from result r have "files w' ''/s/a.srm'' = files saving_world ''/s/a.srm'' \<or>
      holds_current changed_session saving_engine changed_pair (0, DUALBOY_MEMORY_SAVE_RAM) (files w' ''/s/a.srm'')"
    by metis
  with flush other show ?thesis by (auto simp: saving_world_def)
qed

end
