(* ===== verification/Save_Life.thy ===== *)
theory Save_Life
  imports Save_Flush
begin

text \<open>
  The life of a save manager, from initialization over any sequence of flushes, ticks and emulated
  frames to its end: memory and lock files are given back, and no access leaves a region.
\<close>

section \<open>Ownership of the baselines\<close>

definition baseline_pointers :: "dualboy_save_manager \<Rightarrow> region list \<Rightarrow> nat option list" where
  "baseline_pointers m = map (\<lambda>r. map_option fst (baseline (tracked m r)))"

definition save_owns :: "nat set \<Rightarrow> dualboy_save_manager \<Rightarrow> save_world \<Rightarrow> bool" where
  "save_owns base m w \<longleftrightarrow> owns_beside base (baseline_pointers m all_regions) (memory w)"

lemma allocate_owned:
  assumes "allocate w = (a, w')" and "owns_beside base ps (memory w)"
  shows "owns_beside base (a # ps) (memory w')" and "held_locks w' = held_locks w"
  using assms malloc_owned [OF assms(2)] by (auto simp: allocate_def split: prod.splits)

lemma release_owned:
  assumes "owns_beside base (a # ps) (memory w)"
  shows "\<exists>w'. release a w = Some w' \<and> owns_beside base ps (memory w') \<and> held_locks w' = held_locks w"
  using free_owned [OF assms] by (auto simp: release_def)

lemma release_Some:
  assumes "release a w = Some w'" and "owns_beside base (a # ps) (memory w)"
  shows "owns_beside base ps (memory w')" and "held_locks w' = held_locks w"
  using assms release_owned [OF assms(2)] by auto

lemma read_file_same:
  "read_file w path capacity fill = Some (answer, w') \<Longrightarrow> memory w' = memory w \<and> held_locks w' = held_locks w"
  by (auto simp: read_file_def split: list.splits Option.bind_splits)

lemma read_file_size:
  "read_file w path capacity fill = Some ((DUALBOY_PERSISTENCE_OK, content, n), w') \<Longrightarrow> n \<le> capacity"
  by (auto simp: read_file_def split: list.splits Option.bind_splits dest: read_file_filled_size)

text \<open>A load keeps what is owned and loads no more bytes than the region has.\<close>

definition load_keeps :: "nat \<Rightarrow> (bool \<times> nat \<times> 'p \<times> save_world) option \<Rightarrow> save_world \<Rightarrow> bool" where
  "load_keeps capacity outcome w \<longleftrightarrow> (\<forall>ok n p w' base ps. outcome = Some (ok, n, p, w') \<and> owns_beside base ps (memory w) \<longrightarrow>
     owns_beside base ps (memory w') \<and> held_locks w' = held_locks w \<and> n \<le> capacity)"

lemma load_keepsI:
  assumes "\<And>ok n p w' base ps. outcome = Some (ok, n, p, w') \<Longrightarrow> owns_beside base ps (memory w) \<Longrightarrow>
    owns_beside base ps (memory w') \<and> held_locks w' = held_locks w \<and> n \<le> capacity"
  shows "load_keeps capacity outcome w"
  using assms unfolding load_keeps_def by blast

lemma load_keeps_stay [simp]: "load_keeps capacity (Some (ok, 0, p, w)) w"
  by (simp add: load_keeps_def)

text \<open>Reading through a temporary buffer: what the caller sees, and what it owns then.\<close>

lemma temporary_read:
  assumes "allocate w = (Some a, w1)" and "read_file w1 path capacity fill = Some ((result, content, n), w2)"
    and "release (Some a) w2 = Some w3" and "owns_beside base ps (memory w)"
  shows "owns_beside base ps (memory w3)" and "held_locks w3 = held_locks w"
    and "result = DUALBOY_PERSISTENCE_OK \<Longrightarrow> n \<le> capacity"
proof -
  note alloc = allocate_owned [OF assms(1,4)] and same = read_file_same [OF assms(2)]
  have own2: "owns_beside base (Some a # ps) (memory w2)" using alloc same by simp
  show "owns_beside base ps (memory w3)" "held_locks w3 = held_locks w"
    using release_Some [OF assms(3) own2] alloc same by simp_all
  show "n \<le> capacity" if "result = DUALBOY_PERSISTENCE_OK"
    using read_file_size assms(2) that by blast
qed

lemma failed_allocate: "allocate w = (None, w1) \<Longrightarrow> load_keeps capacity (Some (False, 0, p, w1)) w"
  unfolding load_keeps_def by (auto dest: allocate_owned)

lemma read_region_keeps: "load_keeps capacity (read_region path region capacity fill missing_is_ok ops p w) w"
proof (cases "capacity = 0")
  case False
  show ?thesis
  proof (cases "fst (allocate w)")
    case None
    then obtain w1 where "allocate w = (None, w1)" by (cases "allocate w") simp
    with False failed_allocate [OF this] show ?thesis by (simp add: read_region_def)
  next
    case (Some a)
    then obtain w1 where alloc: "allocate w = (Some a, w1)" by (cases "allocate w") simp
    show ?thesis
    proof (rule load_keepsI)
      fix ok n p' w' base ps
      assume outcome: "read_region path region capacity fill missing_is_ok ops p w = Some (ok, n, p', w')"
        and own: "owns_beside base ps (memory w)"
      from outcome False alloc obtain result content m w2 w3 where
        read: "read_file w1 path capacity fill = Some ((result, content, m), w2)" "release (Some a) w2 = Some w3"
        and "w' = w3" "n = 0 \<or> result = DUALBOY_PERSISTENCE_OK \<and> n = m"
        by (auto simp: read_region_def split: Option.bind_splits if_splits)
      with temporary_read [OF alloc read own] show "owns_beside base ps (memory w') \<and> held_locks w' = held_locks w \<and> n \<le> capacity"
        by auto
    qed
  qed
qed (simp add: read_region_def)

lemma load_nds_firmware_keeps: "load_keeps capacity (load_nds_firmware path region capacity ops p w) w"
proof (cases "fst (allocate w)")
  case None
  then obtain w1 where "allocate w = (None, w1)" by (cases "allocate w") simp
  with failed_allocate [OF this] show ?thesis by (simp add: load_nds_firmware_def)
next
  case (Some a)
  then obtain w1 where alloc: "allocate w = (Some a, w1)" by (cases "allocate w") simp
  show ?thesis
  proof (rule load_keepsI)
    fix ok n p' w' base ps
    assume outcome: "load_nds_firmware path region capacity ops p w = Some (ok, n, p', w')"
      and own: "owns_beside base ps (memory w)"
    from outcome alloc obtain result content m w2 w3 where
      read: "read_file w1 path capacity 0 = Some ((result, content, m), w2)" "release (Some a) w2 = Some w3"
      and "w' = w3" "n = 0 \<or> result = DUALBOY_PERSISTENCE_OK \<and> n = m"
      by (auto simp: load_nds_firmware_def split: Option.bind_splits if_splits)
    with temporary_read [OF alloc read own] show "owns_beside base ps (memory w') \<and> held_locks w' = held_locks w \<and> n \<le> capacity"
      by auto
  qed
qed

lemma split_legacy_size:
  assumes "split_legacy (known, k) capacity legacy has_rtc = Some (n, with_rtc)" and "known \<longrightarrow> k \<le> capacity"
    and "legacy \<le> capacity + 16"
  shows "n \<le> capacity" and "with_rtc \<Longrightarrow> legacy = n + 16" and "\<not> with_rtc \<Longrightarrow> n = legacy"
  using assms by (auto simp: split_legacy_def split: if_splits)

lemma write_file_same: "write_file w path data = Some (result, w') \<Longrightarrow> memory w' = memory w \<and> held_locks w' = held_locks w"
  by (simp add: write_file_effect(1,2))

lemma optional_write_same:
  "(if c then write_file w path data else Some (result0, w)) = Some (result, w') \<Longrightarrow>
   memory w' = memory w \<and> held_locks w' = held_locks w"
  by (cases c) (simp_all add: write_file_same)

lemma publish_import_same:
  assumes "publish_import manager machine canonical with_rtc clock battery w = Some (ok, w')"
  shows "memory w' = memory w \<and> held_locks w' = held_locks w"
proof (cases "write_owner manager")
  case True
  with assms obtain r1 w1 r2 where
    "(if with_rtc then write_file w (region_path manager (machine, DUALBOY_MEMORY_RTC)) clock
      else Some (DUALBOY_PERSISTENCE_OK, w)) = Some (r1, w1)"
    "(if r1 = DUALBOY_PERSISTENCE_OK then write_file w1 canonical battery else Some (r1, w1)) = Some (r2, w')"
    unfolding publish_import_def by (auto split del: if_split split: Option.bind_split_asm)
  then show ?thesis using optional_write_same by metis
qed (use assms in \<open>simp add: publish_import_def\<close>)

lemma import_legacy_keeps:
  "load_keeps capacity (import_legacy manager session ops machine canonical legacy capacity p w) w"
proof (cases "capacity > SIZE_MAX - 16")
  case True
  then show ?thesis by (simp add: import_legacy_def)
next
  case room: False
  show ?thesis
  proof (cases "fst (allocate w)")
    case None
    then obtain w1 where "allocate w = (None, w1)" by (cases "allocate w") simp
    with room failed_allocate [OF this] show ?thesis by (simp add: import_legacy_def)
  next
    case (Some a)
    then obtain w1 where alloc: "allocate w = (Some a, w1)" by (cases "allocate w") simp
    show ?thesis
    proof (rule load_keepsI)
      fix ok n p' w' base ps
      assume outcome: "import_legacy manager session ops machine canonical legacy capacity p w = Some (ok, n, p', w')"
        and own: "owns_beside base ps (memory w)"
      from outcome room alloc obtain result content m w2 w3 where
        read: "read_file w1 legacy (capacity + 16) 0xFF = Some ((result, content, m), w2)" "release (Some a) w2 = Some w3"
        by (auto simp: import_legacy_def split: Option.bind_splits)
      note temporary = temporary_read [OF alloc read own]
      define extent where "extent = (case persistent_memory_extent ops of None \<Rightarrow> Some (True, capacity)
        | Some f \<Rightarrow> f p machine DUALBOY_MEMORY_SAVE_RAM)"
      define has_rtc where "has_rtc = (case engine_memory session p (machine, DUALBOY_MEMORY_RTC) of
        None \<Rightarrow> False | Some clock \<Rightarrow> length clock = 16)"
      note outcome' = outcome [unfolded import_legacy_def, folded extent_def has_rtc_def]
      have "memory w' = memory w3 \<and> held_locks w' = held_locks w3 \<and> n \<le> capacity"
      proof (cases "\<exists>known k battery with_rtc. result = DUALBOY_PERSISTENCE_OK \<and> extent = Some (known, k) \<and>
          \<not> (known \<and> k > capacity) \<and> split_legacy (known, k) capacity m has_rtc = Some (battery, with_rtc)")
        case False
        then have "w' = w3 \<and> n = 0"
          using outcome' room alloc read by (auto simp: Let_def split: if_splits option.splits)
        then show ?thesis by simp
      next
        case True
        then obtain known k battery with_rtc where ok: "result = DUALBOY_PERSISTENCE_OK" "extent = Some (known, k)"
          "\<not> (known \<and> k > capacity)" "split_legacy (known, k) capacity m has_rtc = Some (battery, with_rtc)" by blast
        have battery: "battery \<le> capacity"
          using split_legacy_size(1) [OF ok(4)] ok(3) temporary(3) [OF ok(1)] by linarith
        have "n = battery \<and> memory w' = memory w3 \<and> held_locks w' = held_locks w3"
          using outcome' room alloc read ok
          by (auto simp: Let_def dest!: publish_import_same split: Option.bind_splits)
        with battery show ?thesis by simp
      qed
      with temporary show "owns_beside base ps (memory w') \<and> held_locks w' = held_locks w \<and> n \<le> capacity" by simp
    qed
  qed
qed

lemma load_sram_keeps: "load_keeps capacity (load_sram manager session ops machine capacity p w) w"
  by (auto simp: load_sram_def Let_def read_region_keeps import_legacy_keeps
      split: sum.splits dualboy_sav_import_choice.splits)

lemma load_region_keeps: "load_keeps capacity (load_region manager session ops region capacity p w) w"
  by (simp add: load_region_def load_sram_keeps load_nds_firmware_keeps read_region_keeps split: dualboy_memory_kind.split)

text \<open>A load changes the pair by storing into its regions only.\<close>

lemma load_region_closed:
  assumes "load_region manager session ops r capacity p w = Some (ok, n, p', w')" and "Q p"
    and "\<And>p machine kind data. Q p \<Longrightarrow> Q (memory_store ops p machine kind data)"
  shows "Q p'"
proof -
  have read: "Q p'" if "read_region path r' capacity fill missing ops p w = Some (ok, n, p', w')" for path r' fill missing
    using that assms(2,3) by (auto simp: read_region_def split: Option.bind_splits if_splits prod.splits option.splits)
  have firmware: "Q p'" if "load_nds_firmware path r' capacity ops p w = Some (ok, n, p', w')" for path r'
    using that assms(2,3) by (auto simp: load_nds_firmware_def split: Option.bind_splits if_splits prod.splits option.splits)
  have legacy: "Q p'" if "import_legacy manager session ops machine canonical legacy capacity p w = Some (ok, n, p', w')"
    for machine canonical legacy
    using that assms(2,3) by (auto simp: import_legacy_def Let_def split: Option.bind_splits if_splits prod.splits option.splits)
  have sram: "Q p'" if "load_sram manager session ops machine capacity p w = Some (ok, n, p', w')" for machine
    using that read legacy assms(2)
    by (auto simp: load_sram_def Let_def split: sum.splits dualboy_sav_import_choice.splits if_splits)
  from assms(1) sram firmware read show ?thesis
    by (auto simp: load_region_def split: dualboy_memory_kind.splits)
qed


section \<open>Tracking\<close>

abbreviation baseline_pointer :: "dualboy_save_region_tracking \<Rightarrow> nat option" where
  "baseline_pointer t \<equiv> map_option fst (baseline t)"

text \<open>What the tracking of a region with the given capacity always satisfies.\<close>

definition tracking_ok :: "nat \<Rightarrow> dualboy_save_region_tracking \<Rightarrow> bool" where
  "tracking_ok capacity t \<longleftrightarrow> loaded_size t \<le> capacity \<and> preserved_size t \<le> capacity \<and>
     (\<forall>a copy. baseline t = Some (a, copy) \<longrightarrow> length copy = baseline_size t)"

lemma tracking_ok_zero [simp]: "tracking_ok capacity zero_tracking"
  by (simp add: tracking_ok_def zero_tracking_def)

lemma owns_beside_focus: "owns_beside base (ps @ p # qs) h = owns_beside base (p # ps @ qs) h"
  using owns_beside_swap [of base ps "[p]" qs h] by simp

lemma all_regions_distinct: "distinct all_regions"
  by (simp add: all_regions_def machine_regions_def kinds_def)

lemma save_owns_focus:
  assumes "r \<in> set all_regions"
  obtains ps where "\<And>base w. save_owns base m w = owns_beside base (baseline_pointer (tracked m r) # ps) (memory w)"
    and "\<And>base w t. save_owns base (m\<lparr>tracked := (tracked m)(r := t)\<rparr>) w = owns_beside base (baseline_pointer t # ps) (memory w)"
proof -
  from split_list [OF assms] obtain before after where regions: "all_regions = before @ r # after" by blast
  have apart: "r \<notin> set before" "r \<notin> set after" using all_regions_distinct unfolding regions by auto
  let ?ps = "baseline_pointers m before @ baseline_pointers m after"
  have other: "map (\<lambda>s. map_option fst (baseline (((tracked m)(r := t)) s))) rs = baseline_pointers m rs" if "r \<notin> set rs" for t rs
    using that by (auto simp: baseline_pointers_def)
  show thesis
  proof (rule that [of ?ps])
    show "save_owns base m w = owns_beside base (baseline_pointer (tracked m r) # ?ps) (memory w)" for base w
      by (simp add: save_owns_def regions baseline_pointers_def owns_beside_focus)
    show "save_owns base (m\<lparr>tracked := (tracked m)(r := t)\<rparr>) w = owns_beside base (baseline_pointer t # ?ps) (memory w)" for base w t
      unfolding save_owns_def regions baseline_pointers_def [of "m\<lparr>tracked := (tracked m)(r := t)\<rparr>"]
      by (simp add: other [OF apart(1)] other [OF apart(2)] owns_beside_focus del: fun_upd_apply)
        (simp add: owns_beside_focus)
  qed
qed

lemma replace_baseline_owned:
  assumes "owns_beside base (baseline_pointer t # ps) (memory w)" and "n \<le> length data"
  shows "\<exists>ok t' w'. replace_baseline t data n w = Some (ok, t', w') \<and>
    owns_beside base (baseline_pointer t' # ps) (memory w') \<and> held_locks w' = held_locks w \<and>
    (tracking_ok capacity t \<longrightarrow> tracking_ok capacity t')"
proof (cases "n = baseline_size t \<and> (n = 0 \<or> baseline t \<noteq> None)")
  case True
  then show ?thesis
    using assms by (cases "baseline t") (auto simp: replace_baseline_def slice_def tracking_ok_def)
next
  case False
  obtain a w1 where alloc: "(if n \<noteq> 0 then allocate w else (None, w)) = (a, w1)" by fastforce
  have own1: "owns_beside base (a # baseline_pointer t # ps) (memory w1)" "held_locks w1 = held_locks w"
    using alloc allocate_owned [of w a w1 base "baseline_pointer t # ps"] assms(1) by (auto split: if_splits)
  show ?thesis
  proof (cases "n \<noteq> 0 \<and> a = None")
    case True
    then have "replace_baseline t data n w = Some (False, t, w1)"
      using False alloc assms(2) by (auto simp: replace_baseline_def slice_def)
    with True own1 show ?thesis by auto
  next
    case got: False
    from own1(1) owns_beside_swap [of base "[a]" "[baseline_pointer t]" ps "memory w1"]
    have "owns_beside base (baseline_pointer t # a # ps) (memory w1)" by simp
    from release_owned [OF this] obtain w2 where w2: "release (baseline_pointer t) w1 = Some w2"
      "owns_beside base (a # ps) (memory w2)" "held_locks w2 = held_locks w1" by blast
    have "replace_baseline t data n w = Some (True, t\<lparr>baseline := map_option (\<lambda>a. (a, take n data)) a, baseline_size := n\<rparr>, w2)"
      using False got alloc w2(1) assms(2) by (auto simp: replace_baseline_def slice_def Let_def)
    with w2 own1(2) assms(2) show ?thesis by (cases a) (auto simp: tracking_ok_def)
  qed
qed

lemma initialize_extent_tracking_ok:
  assumes "tracking_ok (length data) t" and "extent \<le> length data"
  shows "\<exists>t'. initialize_extent_tracking t data extent = Some t' \<and> tracking_ok (length data) t' \<and>
    baseline t' = baseline t \<and> baseline_size t' = baseline_size t"
proof -
  have inside: "loaded_size t \<le> length data" "preserved_size t \<le> length data"
    using assms(1) by (simp_all add: tracking_ok_def)
  define preserved where "preserved =
    (if extent = 0 \<and> loaded_size t \<noteq> 0 then loaded_size t
     else if loaded_size t > extent
     then if list_all (\<lambda>b. b = 0xFF) (take (loaded_size t - extent) (drop extent data)) then preserved_size t else loaded_size t
     else preserved_size t)"
  have fits: "preserved \<le> length data" using inside by (simp add: preserved_def)
  then have size: "max extent preserved \<le> length data" using assms(2) by simp
  then obtain hash where hash: "memory_hash data (max extent preserved) = Some hash" by (simp add: memory_hash_inside)
  have blank: "bytes_are_fill data extent (loaded_size t) 0xFF =
      Some (list_all (\<lambda>b. b = 0xFF) (take (loaded_size t - extent) (drop extent data)))" if "extent < loaded_size t"
    using inside that by (simp add: bytes_are_fill_def slice_def)
  have step: "(if extent = 0 \<and> loaded_size t \<noteq> 0 then Some (loaded_size t)
        else if loaded_size t > extent
        then do {
          blank \<leftarrow> bytes_are_fill data extent (loaded_size t) 0xFF;
          Some (if \<not> blank then loaded_size t else preserved_size t)
        }
        else Some (preserved_size t)) = Some preserved"
    using blank by (auto simp: preserved_def)
  have "initialize_extent_tracking t data extent =
      Some ((if loaded_size t \<le> max extent preserved
             then t\<lparr>preserved_size := preserved, tracked_size := max extent preserved, tracked_hash := hash\<rparr>
             else t\<lparr>preserved_size := preserved\<rparr>)\<lparr>extent_known := True, tracking_valid := True\<rparr>)"
    unfolding initialize_extent_tracking_def step using hash by (simp add: Let_def)
  with fits assms(1) show ?thesis by (simp add: tracking_ok_def)
qed

lemma discover_extent_ok:
  assumes "tracking_ok (length data) t" and "extent \<le> length data"
  shows "\<exists>t'. discover_extent ops p r data extent t = Some t' \<and> tracking_ok (length data) t' \<and>
    baseline t' = baseline t \<and> baseline_size t' = baseline_size t"
proof -
  from initialize_extent_tracking_ok [OF assms] obtain t1 where t1: "initialize_extent_tracking t data extent = Some t1"
    "tracking_ok (length data) t1" "baseline t1 = baseline t" "baseline_size t1 = baseline_size t" by blast
  let ?n = "max extent (preserved_size t1)"
  have n: "?n \<le> length data" using t1(2) assms(2) by (simp add: tracking_ok_def)
  have "\<exists>changed. (case baseline t1 of None \<Rightarrow> Some False
      | Some (_, copy) \<Rightarrow> if ?n \<le> baseline_size t1
          then do { now \<leftarrow> slice data 0 ?n; old \<leftarrow> slice copy 0 ?n; Some (now \<noteq> old) } else Some True) = Some changed"
  proof (cases "baseline t1")
    case (Some region)
    then obtain a copy where "baseline t1 = Some (a, copy)" by (cases region) simp
    with n t1(2) show ?thesis by (auto simp: slice_def tracking_ok_def)
  qed auto
  with t1 show ?thesis by (auto simp: discover_extent_def tracking_ok_def Let_def)
qed

lemma flush_skips_total:
  assumes "tracking_ok (length data) t" and "n \<le> length data"
  shows "\<exists>skip. flush_skips t data n hash = Some skip"
  using assms by (auto simp: flush_skips_def slice_def tracking_ok_def split: option.splits)


section \<open>The invariant\<close>

definition save_inv :: "nat set \<Rightarrow> (region \<Rightarrow> nat) \<Rightarrow> dualboy_save_manager \<Rightarrow> save_world \<Rightarrow> bool" where
  "save_inv base capacity m w \<longleftrightarrow> save_owns base m w \<and> (\<forall>r \<in> set all_regions. tracking_ok (capacity r) (tracked m r))"

text \<open>
  What the manager relies on in an engine, as \<open>engine.h\<close> promises it: the regions of a pair keep
  their sizes, whatever is stored into them and whenever the engine is told about it.
\<close>

definition stable_memory :: "'p dualboy_session \<Rightarrow> (region \<Rightarrow> nat) \<Rightarrow> 'p \<Rightarrow> bool" where
  "stable_memory session capacity p \<longleftrightarrow> (\<forall>r data. engine_memory session p r = Some data \<longrightarrow> length data = capacity r)"

definition sizes_kept :: "'p dualboy_session \<Rightarrow> 'p \<Rightarrow> 'p \<Rightarrow> bool" where
  "sizes_kept session p p' \<longleftrightarrow> (\<forall>r. map_option length (engine_memory session p' r) = map_option length (engine_memory session p r))"

definition memory_law :: "'p dualboy_session \<Rightarrow> 'p dualboy_engine_ops \<Rightarrow> bool" where
  "memory_law session ops \<longleftrightarrow> (\<forall>p. (\<forall>machine kind data. sizes_kept session p (memory_store ops p machine kind data)) \<and>
     (\<forall>machine. sizes_kept session p (clear_dirty ops machine p)) \<and>
     (\<forall>notify. persistent_memory_loaded ops = Some notify \<longrightarrow> sizes_kept session p (notify p)))"

lemma sizes_kept_stable: "sizes_kept session p p' \<Longrightarrow> stable_memory session capacity p \<Longrightarrow> stable_memory session capacity p'"
proof -
  assume kept: "sizes_kept session p p'" and stable: "stable_memory session capacity p"
  have "length data = capacity r" if data: "engine_memory session p' r = Some data" for r data
  proof -
    have "map_option length (engine_memory session p r) = Some (length data)"
      using kept data unfolding sizes_kept_def by (metis option.simps(9))
    then obtain old where "engine_memory session p r = Some old" "length old = length data" by auto
    with stable show ?thesis unfolding stable_memory_def by metis
  qed
  then show ?thesis unfolding stable_memory_def by blast
qed

lemma memory_lawD:
  assumes "memory_law session ops"
  shows "stable_memory session capacity p \<Longrightarrow> stable_memory session capacity (memory_store ops p machine kind data)"
    and "stable_memory session capacity p \<Longrightarrow> stable_memory session capacity (clear_dirty ops machine p)"
    and "stable_memory session capacity p \<Longrightarrow> persistent_memory_loaded ops = Some notify \<Longrightarrow> stable_memory session capacity (notify p)"
proof -
  note kept = sizes_kept_stable [of session p _ capacity]
  have law: "sizes_kept session p (memory_store ops p machine kind data)" "sizes_kept session p (clear_dirty ops machine p)"
    "persistent_memory_loaded ops = Some notify \<longrightarrow> sizes_kept session p (notify p)"
    using assms unfolding memory_law_def by blast+
  show "stable_memory session capacity p \<Longrightarrow> stable_memory session capacity (memory_store ops p machine kind data)"
    by (rule kept [OF law(1)])
  show "stable_memory session capacity p \<Longrightarrow> stable_memory session capacity (clear_dirty ops machine p)"
    by (rule kept [OF law(2)])
  show "stable_memory session capacity p \<Longrightarrow> persistent_memory_loaded ops = Some notify \<Longrightarrow> stable_memory session capacity (notify p)"
    using law(3) kept by blast
qed

text \<open>The sizes of the regions of a pair.\<close>

definition region_sizes :: "'p dualboy_session \<Rightarrow> 'p \<Rightarrow> region \<Rightarrow> nat" where
  "region_sizes session p r = (case engine_memory session p r of None \<Rightarrow> 0 | Some data \<Rightarrow> length data)"

lemma region_sizes_stable: "stable_memory session (region_sizes session p) p"
  unfolding stable_memory_def region_sizes_def by simp

lemma save_inv_update:
  assumes "save_inv base capacity m w" and "r \<in> set all_regions"
  obtains ps where "owns_beside base (baseline_pointer (tracked m r) # ps) (memory w)"
    and "\<And>t w'. owns_beside base (baseline_pointer t # ps) (memory w') \<Longrightarrow> tracking_ok (capacity r) t \<Longrightarrow>
      save_inv base capacity (m\<lparr>tracked := (tracked m)(r := t)\<rparr>) w'"
proof -
  from save_owns_focus [OF assms(2), of m] obtain ps where
    focus: "\<And>base w. save_owns base m w = owns_beside base (baseline_pointer (tracked m r) # ps) (memory w)"
      "\<And>base w t. save_owns base (m\<lparr>tracked := (tracked m)(r := t)\<rparr>) w = owns_beside base (baseline_pointer t # ps) (memory w)"
    by blast
  show thesis
    by (rule that [of ps]) (use assms(1) focus in \<open>auto simp: save_inv_def\<close>)
qed

lemma persistent_extent_bound: "persistent_extent ops p r capacity = Some (True, n) \<Longrightarrow> n \<le> capacity"
  by (auto simp: persistent_extent_def split: option.splits Option.bind_splits if_splits)

lemma region_tracking_ok:
  assumes "tracking_ok (length data) t" and "n \<le> length data"
  shows "\<exists>t'. region_tracking ops p r data n t = Some t' \<and> tracking_ok (length data) t' \<and> baseline t' = baseline t"
  using assms discover_extent_ok [OF assms, of ops p r] by (auto simp: region_tracking_def)

lemma flush_region_inv:
  assumes "save_inv base capacity m w" and "r \<in> set all_regions" and "stable_memory session capacity p"
    and "flush_region session ops p r m w = Some (ok, m', w')"
  shows "save_inv base capacity m' w'"
proof -
  from save_inv_update [OF assms(1,2)] obtain ps where own: "owns_beside base (baseline_pointer (tracked m r) # ps) (memory w)"
    and update: "\<And>t w'. owns_beside base (baseline_pointer t # ps) (memory w') \<Longrightarrow> tracking_ok (capacity r) t \<Longrightarrow>
      save_inv base capacity (m\<lparr>tracked := (tracked m)(r := t)\<rparr>) w'" by blast
  have tracking: "tracking_ok (capacity r) (tracked m r)" using assms(1,2) by (simp add: save_inv_def)
  have size: "length data = capacity r" if "engine_memory session p r = Some data" for data
    using assms(3) that unfolding stable_memory_def by blast
  have found: "tracking_ok (capacity r) t \<and> baseline t = baseline (tracked m r)"
    if "engine_memory session p r = Some data" "n \<le> length data" "region_tracking ops p r data n (tracked m r) = Some t" for data n t
    using region_tracking_ok [OF _ that(2), of "tracked m r" ops p r] that tracking size [OF that(1)] by auto
  from assms(4) show ?thesis
  proof (cases rule: flush_region_cases)
    case (skipped data n t hash)
    with found [OF skipped(3) persistent_extent_bound [OF skipped(5)] skipped(6)] update own show ?thesis by simp
  next
    case (refused data n t result)
    with found [OF refused(3) persistent_extent_bound [OF refused(4)] refused(5)] update own write_file_same [OF refused(6)]
    show ?thesis by simp
  next
    case (written data n t hash w1 t')
    note t = found [OF written(2) persistent_extent_bound [OF written(4)] written(5)]
    let ?t = "t\<lparr>tracked_hash := hash, tracked_size := max n (preserved_size t), loaded_size := max n (preserved_size t),
      tracking_valid := True\<rparr>"
    have "max n (preserved_size t) \<le> capacity r" using memory_hash_Some [OF written(6)] size [OF written(2)] by simp
    then have ok: "tracking_ok (capacity r) ?t" using t by (simp add: tracking_ok_def)
    have "owns_beside base (baseline_pointer ?t # ps) (memory w1)" using own t write_file_same [OF written(7)] by simp
    from replace_baseline_owned [OF this order_refl [of "length data"], of "capacity r"] written(8) ok
    have "owns_beside base (baseline_pointer t' # ps) (memory w') \<and> tracking_ok (capacity r) t'" by simp
    with update written(9) show ?thesis by simp
  qed (use assms(1) in simp_all)
qed


text \<open>
  A system that answers: every write of bytes of a region to its file comes back, with whatever
  result. How much was written in each piece and what failed is open.
\<close>

definition answering :: "'p dualboy_session \<Rightarrow> dualboy_save_manager \<Rightarrow> write_calls list \<Rightarrow> bool" where
  "answering session m answers \<longleftrightarrow> (\<forall>os \<in> set answers. \<forall>fs p r data n. engine_memory session p r = Some data \<longrightarrow>
     dualboy_write_file_atomic os fs (Some (region_path m r)) (take n data) \<noteq> None)"

lemma write_file_returns:
  assumes "answering session m (write_answers w)" and "write_answers w \<noteq> []" and "engine_memory session p r = Some data"
  shows "\<exists>result w'. write_file w (region_path m r) (take n data) = Some (result, w') \<and> write_answers w' = tl (write_answers w)"
proof -
  obtain os rest where answers: "write_answers w = os # rest" using assms(2) by (cases "write_answers w") auto
  then have "dualboy_write_file_atomic os (files w) (Some (region_path m r)) (take n data) \<noteq> None"
    using assms(1,3) unfolding answering_def by (metis list.set_intros(1))
  with answers show ?thesis by (auto simp: write_file_def)
qed

lemma flush_region_returns:
  assumes "save_inv base capacity m w" and "r \<in> set all_regions" and "stable_memory session capacity p"
    and "answering session m (write_answers w)" and "write_answers w \<noteq> []"
  shows "\<exists>ok m' w'. flush_region session ops p r m w = Some (ok, m', w') \<and>
    (write_answers w' = write_answers w \<or> write_answers w' = tl (write_answers w))"
proof (cases "\<exists>data n. core_managed m r \<and> engine_memory session p r = Some data \<and> data \<noteq> [] \<and>
    persistent_extent ops p r (length data) = Some (True, n)")
  case False
  then show ?thesis by (auto simp: flush_region_def split: option.splits)
next
  case True
  then obtain data n where active: "core_managed m r" "engine_memory session p r = Some data" "data \<noteq> []"
    "persistent_extent ops p r (length data) = Some (True, n)" by blast
  have size: "length data = capacity r" using assms(3) active(2) unfolding stable_memory_def by blast
  have "tracking_ok (length data) (tracked m r)" using assms(1,2) size by (simp add: save_inv_def)
  from region_tracking_ok [OF this persistent_extent_bound [OF active(4)], of ops p r] obtain t where
    t: "region_tracking ops p r data n (tracked m r) = Some t" "tracking_ok (length data) t"
      "baseline t = baseline (tracked m r)" by blast
  let ?n = "max n (preserved_size t)"
  have n: "?n \<le> length data" using t(2) persistent_extent_bound [OF active(4)] by (simp add: tracking_ok_def)
  obtain hash where hash: "memory_hash data ?n = Some hash" using n by (simp add: memory_hash_inside)
  obtain skip where skip: "flush_skips t data ?n hash = Some skip" using flush_skips_total [OF t(2) n] by blast
  obtain result w1 where wrote: "write_file w (region_path m r) (take ?n data) = Some (result, w1)"
    "write_answers w1 = tl (write_answers w)"
    using write_file_returns [OF assms(4,5) active(2)] by blast
  let ?t = "t\<lparr>tracked_hash := hash, tracked_size := ?n, loaded_size := ?n, tracking_valid := True\<rparr>"
  from save_inv_update [OF assms(1,2)] obtain ps where "owns_beside base (baseline_pointer (tracked m r) # ps) (memory w)"
    by blast
  then have "owns_beside base (baseline_pointer ?t # ps) (memory w1)" using t(3) write_file_same [OF wrote(1)] by simp
  from replace_baseline_owned [OF this order_refl [of "length data"], of "capacity r"] obtain ok t' w2 where
    base: "replace_baseline ?t data (length data) w1 = Some (ok, t', w2)" by blast
  have "slice data 0 ?n = Some (take ?n data)" using n by (simp add: slice_def)
  with active t(1) hash skip wrote base replace_baseline_effect(2) [OF base] show ?thesis
    by (auto simp: flush_region_def region_tracking_def [symmetric] Let_def)
qed

lemma answering_cong: "same_setup m m' \<Longrightarrow> answering session m' answers = answering session m answers"
  by (simp add: answering_def same_setupD)

lemma answering_tl: "answering session m answers \<Longrightarrow> answering session m (tl answers)"
  by (cases answers) (auto simp: answering_def)

lemma flush_regions_returns:
  assumes "save_inv base capacity m w" and "set regions \<subseteq> set all_regions" and "stable_memory session capacity p"
    and "answering session m (write_answers w)" and "length regions \<le> length (write_answers w)"
  shows "\<exists>ok m' w'. flush_regions session ops p regions m w = Some (ok, m', w') \<and>
    answering session m (write_answers w') \<and> length (write_answers w) \<le> length (write_answers w') + length regions"
  using assms
proof (induction regions arbitrary: m w)
  case (Cons r regions)
  from Cons.prems have r: "r \<in> set all_regions" "set regions \<subseteq> set all_regions" "write_answers w \<noteq> []" by auto
  from flush_region_returns [OF Cons.prems(1) r(1) Cons.prems(3,4) r(3), of ops] obtain ok1 m1 w1 where
    first: "flush_region session ops p r m w = Some (ok1, m1, w1)"
      "write_answers w1 = write_answers w \<or> write_answers w1 = tl (write_answers w)" by blast
  have inv: "save_inv base capacity m1 w1" by (rule flush_region_inv [OF Cons.prems(1) r(1) Cons.prems(3) first(1)])
  have answers: "answering session m (write_answers w1)" "length (write_answers w) \<le> Suc (length (write_answers w1))"
    using first(2) Cons.prems(4) answering_tl by auto
  note cong = answering_cong [OF flush_region_frame(1) [OF first(1)]]
  show ?case
  proof (cases ok1)
    case False
    with first(1) answers show ?thesis by auto
  next
    case True
    have "answering session m1 (write_answers w1)" using answers(1) by (simp add: cong)
    moreover have "length regions \<le> length (write_answers w1)" using Cons.prems(5) answers(2) by simp
    ultimately obtain ok m' w' where "flush_regions session ops p regions m1 w1 = Some (ok, m', w')"
      "answering session m1 (write_answers w')" "length (write_answers w1) \<le> length (write_answers w') + length regions"
      using Cons.IH [OF inv r(2) Cons.prems(3)] by blast
    with True first(1) answers(2) show ?thesis by (auto simp: cong)
  qed
qed auto

lemma flush_regions_inv:
  "save_inv base capacity m w \<Longrightarrow> set regions \<subseteq> set all_regions \<Longrightarrow> stable_memory session capacity p \<Longrightarrow>
   flush_regions session ops p regions m w = Some (ok, m', w') \<Longrightarrow> save_inv base capacity m' w'"
proof (induction regions arbitrary: m w)
  case (Cons r regions)
  then obtain ok1 m1 w1 where first: "flush_region session ops p r m w = Some (ok1, m1, w1)"
    by (auto split: Option.bind_splits)
  have "save_inv base capacity m1 w1"
    using flush_region_inv [OF Cons.prems(1) _ Cons.prems(3) first] Cons.prems(2) by simp
  with Cons first show ?case by (cases ok1) auto
qed simp

lemma save_inv_frames [simp]: "save_inv base capacity (m\<lparr>frames_since_flush := x\<rparr>) w = save_inv base capacity m w"
  by (simp add: save_inv_def save_owns_def baseline_pointers_def)

lemma machine_regions_inside: "set (machine_regions 0) \<subseteq> set all_regions" "set (machine_regions 1) \<subseteq> set all_regions"
  by (auto simp: all_regions_set)


section \<open>The end of the baselines\<close>

lemma release_baselines_owned:
  assumes "distinct regions" and "owns_beside base (baseline_pointers m regions) (memory w)"
  shows "\<exists>m' w'. release_baselines regions m w = Some (m', w') \<and> owns_beside base [] (memory w') \<and> held_locks w' = held_locks w"
  using assms
proof (induction regions arbitrary: m w)
  case (Cons r regions)
  from Cons.prems(2) have "owns_beside base (baseline_pointer (tracked m r) # baseline_pointers m regions) (memory w)"
    by (simp add: baseline_pointers_def)
  from release_owned [OF this] obtain w1 where w1: "release (baseline_pointer (tracked m r)) w = Some w1"
    "owns_beside base (baseline_pointers m regions) (memory w1)" "held_locks w1 = held_locks w" by blast
  let ?m = "m\<lparr>tracked := (tracked m)(r := (tracked m r)\<lparr>baseline := None, baseline_size := 0\<rparr>)\<rparr>"
  have "baseline_pointers ?m regions = baseline_pointers m regions"
    using Cons.prems(1) by (auto simp: baseline_pointers_def)
  with Cons.IH [of ?m w1] Cons.prems(1) w1 show ?case by auto
qed (simp add: baseline_pointers_def)

lemma save_inv_released:
  assumes "save_inv base capacity m w"
  shows "\<exists>m' w'. release_tracking_baselines m w = Some (m', w') \<and> owns_beside base [] (memory w') \<and> held_locks w' = held_locks w"
proof -
  from assms have "owns_beside base (baseline_pointers m all_regions) (memory w)"
    by (simp add: save_inv_def save_owns_def)
  from release_baselines_owned [OF all_regions_distinct this] show ?thesis
    unfolding release_tracking_baselines_def by auto
qed

lemma save_inv_cong:
  "tracked m' = tracked m \<Longrightarrow> memory w' = memory w \<Longrightarrow> save_inv base capacity m' w' = save_inv base capacity m w"
  by (simp add: save_inv_def save_owns_def baseline_pointers_def)


section \<open>Locks\<close>

text \<open>The descriptors in \<open>locks\<close> belong to the rest of the program; the others are the manager's.\<close>

definition locks_inv :: "nat set \<Rightarrow> dualboy_save_manager \<Rightarrow> save_world \<Rightarrow> bool" where
  "locks_inv locks m w \<longleftrightarrow> held_locks w = locks \<union> set (write_lock_fds m) \<and> locks \<inter> set (write_lock_fds m) = {}"

definition new_descriptors :: "nat set \<Rightarrow> lock_calls list \<Rightarrow> bool" where
  "new_descriptors locks answers \<longleftrightarrow> (\<forall>calls \<in> set answers. \<forall>d. lock_opens calls = Some d \<longrightarrow> d \<notin> locks)"

lemma release_write_ownership_inv:
  assumes "locks_inv locks m w" and "release_write_ownership m w = (m', w')"
  shows "locks_inv locks m' w'" and "held_locks w' = locks" and "tracked m' = tracked m" and "memory w' = memory w"
  using assms by (auto simp: release_write_ownership_def locks_inv_def)

lemma lock_paths_inv:
  assumes "lock_paths m ps w = Some (result, m', w')" and "locks_inv locks m w" and "new_descriptors locks (lock_answers w)"
  shows "locks_inv locks m' w' \<and> tracked m' = tracked m \<and> memory w' = memory w"
  using assms
proof (induction ps arbitrary: m w)
  case (Cons path ps)
  have released: "locks_inv locks m1 w1 \<and> tracked m1 = tracked m \<and> memory w1 = memory w"
    if "release_write_ownership m w0 = (m1, w1)" "held_locks w0 = held_locks w" "memory w0 = memory w" for w0 m1 w1
  proof -
    have "locks_inv locks m w0" using Cons.prems(2) that(2) by (simp add: locks_inv_def)
    from release_write_ownership_inv [OF this that(1)] that(3) show ?thesis by simp
  qed
  show ?case
  proof (cases "\<exists>calls later d. length (lock_path path) < DUALBOY_PATH_CAPACITY \<and> lock_answers w = calls # later \<and>
      lock_opens calls = Some d \<and> flock_loop (flocks calls) = Some FLOCK_OK")
    case True
    then obtain calls later d where locked: "length (lock_path path) < DUALBOY_PATH_CAPACITY" "lock_answers w = calls # later"
      "lock_opens calls = Some d" "flock_loop (flocks calls) = Some FLOCK_OK" by blast
    have "d \<notin> locks" "new_descriptors locks later" using Cons.prems(3) locked(2,3) by (auto simp: new_descriptors_def)
    with Cons.IH [of "m\<lparr>write_lock_fds := write_lock_fds m @ [d]\<rparr>"
        "w\<lparr>lock_answers := later, held_locks := insert d (held_locks w)\<rparr>"] Cons.prems(1,2) locked
    show ?thesis by (auto simp: locks_inv_def)
  next
    case False
    with Cons.prems(1) show ?thesis
      by (auto simp: Let_def dest!: released split: if_splits list.splits option.splits flock_result.splits prod.splits)
  qed
qed (auto simp: locks_inv_def)

lemma acquire_write_ownership_inv:
  assumes "acquire_write_ownership m w = Some (result, m', w')" and "write_lock_fds m = []"
    and "new_descriptors (held_locks w) (lock_answers w)"
  shows "locks_inv (held_locks w) m' w'" and "tracked m' = tracked m" and "memory w' = memory w"
proof -
  have "locks_inv (held_locks w) m' w' \<and> tracked m' = tracked m \<and> memory w' = memory w"
  proof (cases "has_core_managed_regions (m\<lparr>write_lock_fds := [], write_owner := False\<rparr>)")
    case True
    with assms lock_paths_inv [where locks = "held_locks w" and w = w] show ?thesis
      by (fastforce simp: acquire_write_ownership_def locks_inv_def Let_def)
  qed (use assms in \<open>auto simp: acquire_write_ownership_def locks_inv_def Let_def\<close>)
  then show "locks_inv (held_locks w) m' w'" and "tracked m' = tracked m" and "memory w' = memory w" by auto
qed



section \<open>Initialization\<close>

lemma start_tracking_keeps:
  assumes "start_tracking ops r (length data) data n p t w = Some (ok, t', w')" and "n \<le> length data"
    and "tracking_ok (length data) t" and "owns_beside base (baseline_pointer t # ps) (memory w)"
  shows "owns_beside base (baseline_pointer t' # ps) (memory w') \<and> tracking_ok (length data) t' \<and> held_locks w' = held_locks w"
proof -
  obtain hash where hash: "memory_hash data n = Some hash" using assms(2) by (simp add: memory_hash_inside)
  let ?t1 = "t\<lparr>loaded_size := n, tracked_size := n, tracked_hash := hash, tracking_valid := True\<rparr>"
  have ok1: "tracking_ok (length data) ?t1" using assms(2,3) by (simp add: tracking_ok_def)
  show ?thesis
  proof (cases "persistent_extent ops p r (length data)")
    case None
    then have "t' = ?t1" "w' = w" using assms(1) hash by (simp_all add: start_tracking_def)
    then show ?thesis using ok1 assms(4) by simp
  next
    case (Some answer)
    then obtain known extent where answer: "persistent_extent ops p r (length data) = Some (known, extent)" by (cases answer) simp
    obtain t2 where t2: "(if known then initialize_extent_tracking ?t1 data extent else Some ?t1) = Some t2"
      "tracking_ok (length data) t2" "baseline t2 = baseline t"
    proof (cases known)
      case True
      with persistent_extent_bound [of ops p r "length data" extent] answer have "extent \<le> length data" by simp
      from initialize_extent_tracking_ok [OF ok1 this] True that show thesis by auto
    qed (use ok1 that in simp)
    have "replace_baseline t2 data (length data) w = Some (ok, t', w')"
      using assms(1) by (simp add: start_tracking_def hash answer t2(1) Let_def)
    moreover have "owns_beside base (baseline_pointer t2 # ps) (memory w)" using t2(3) assms(4) by simp
    ultimately show ?thesis
      using replace_baseline_owned [of base t2 ps w "length data" data "length data"] t2(2) by auto
  qed
qed

lemma init_regions_inv:
  assumes "init_regions session ops regions m p w = Some (ok, m', p', w')" and "save_inv base capacity m w"
    and "set regions \<subseteq> set all_regions" and "stable_memory session capacity p" and "memory_law session ops"
  shows "save_inv base capacity m' w' \<and> held_locks w' = held_locks w \<and> write_lock_fds m' = write_lock_fds m \<and>
    stable_memory session capacity p'"
  using assms(1-4)
proof (induction regions arbitrary: m p w)
  case (Cons r regions)
  show ?case
  proof (cases "\<exists>data. core_managed m r \<and> engine_memory session p r = Some data \<and> data \<noteq> [] \<and>
      \<not> (snd r = DUALBOY_MEMORY_FIRMWARE \<and> length data \<noteq> DUALBOY_NDS_FIRMWARE_SIZE)")
    case False
    with Cons show ?thesis by (auto split: if_splits option.splits)
  next
    case True
    then obtain data where active: "core_managed m r" "engine_memory session p r = Some data" "data \<noteq> []"
      "\<not> (snd r = DUALBOY_MEMORY_FIRMWARE \<and> length data \<noteq> DUALBOY_NDS_FIRMWARE_SIZE)" by blast
    from Cons.prems(1) active obtain ok1 n p1 w1 where
      load: "load_region m session ops r (length data) p w = Some (ok1, n, p1, w1)"
      by (auto split: Option.bind_splits)
    have stable: "stable_memory session capacity p1"
      using load_region_closed [OF load, of "stable_memory session capacity"] Cons.prems(4) memory_lawD(1) [OF assms(5)] by blast
    have size: "length data = capacity r" "engine_memory session p1 r = Some content \<Longrightarrow> length content = capacity r" for content
      using Cons.prems(4) active(2) stable unfolding stable_memory_def by blast+
    from Cons.prems(3) have r: "r \<in> set all_regions" "set regions \<subseteq> set all_regions" by auto
    from save_inv_update [OF Cons.prems(2) r(1)] obtain ps where
      own: "owns_beside base (baseline_pointer (tracked m r) # ps) (memory w)"
      and update: "\<And>t w'. owns_beside base (baseline_pointer t # ps) (memory w') \<Longrightarrow> tracking_ok (capacity r) t \<Longrightarrow>
        save_inv base capacity (m\<lparr>tracked := (tracked m)(r := t)\<rparr>) w'" by blast
    have tracking: "tracking_ok (capacity r) (tracked m r)" using Cons.prems(2) r(1) by (simp add: save_inv_def)
    from load_region_keeps [of "length data" m session ops r p w] load own
    have loaded: "owns_beside base (baseline_pointer (tracked m r) # ps) (memory w1)" "held_locks w1 = held_locks w"
      "n \<le> capacity r" unfolding load_keeps_def size(1) by blast+
    show ?thesis
    proof (cases ok1)
      case False
      with Cons.prems(1) active load have "m' = m" "w' = w1" "p' = p1" by (auto split: if_splits)
      with update [OF loaded(1) tracking] loaded(2) stable show ?thesis by simp
    next
      case True
      with Cons.prems(1) active load obtain content where content: "engine_memory session p1 r = Some content"
        by (auto split: Option.bind_splits)
      have same: "length data = length content" using size content by simp
      from True Cons.prems(1) active load obtain ok2 t w2 where
        start: "start_tracking ops r (length content) content n p1 (tracked m r) w1 = Some (ok2, t, w2)"
        and rest: "(if \<not> ok2 then Some (False, m\<lparr>tracked := (tracked m)(r := t)\<rparr>, p1, w2)
          else init_regions session ops regions (m\<lparr>tracked := (tracked m)(r := t)\<rparr>) p1 w2) = Some (ok, m', p', w')"
        by (auto simp: content same Let_def simp del: if_split split: Option.bind_splits if_splits)
      from start_tracking_keeps [OF start] loaded tracking size(2) [OF content]
      have t: "owns_beside base (baseline_pointer t # ps) (memory w2)" "tracking_ok (capacity r) t" "held_locks w2 = held_locks w"
        by simp_all
      from update [OF t(1,2)] have inv: "save_inv base capacity (m\<lparr>tracked := (tracked m)(r := t)\<rparr>) w2" .
      show ?thesis
      proof (cases ok2)
        case True
        with rest Cons.IH [OF _ inv r(2) stable] t(3) show ?thesis by auto
      qed (use rest inv t(3) stable in auto)
    qed
  qed
qed simp



section \<open>A whole life\<close>

text \<open>
  What can happen between initialization and the end: the manager is asked to flush or to count a
  frame, the engine runs and changes its pair, and the rest of the system changes files and
  prepares its next answers. Requests that fail are steps like the others.
\<close>

type_synonym 'p save_state = "dualboy_save_manager \<times> 'p dualboy_session \<times> save_world"

inductive save_step :: "'p save_state \<Rightarrow> 'p save_state \<Rightarrow> bool" where
  flush: "dualboy_save_manager_flush m session w = Some (ok, m', session', w') \<Longrightarrow>
    save_step (m, session, w) (m', session', w')"
| tick: "dualboy_save_manager_tick m session w = Some (ok, m', session', w') \<Longrightarrow>
    save_step (m, session, w) (m', session', w')"
| emulate: "pair session = Some (address, p) \<Longrightarrow> sizes_kept session p p' \<Longrightarrow>
    save_step (m, session, w) (m, session\<lparr>pair := Some (address, p')\<rparr>, w)"
| system: "memory w' = memory w \<Longrightarrow> held_locks w' = held_locks w \<Longrightarrow> save_step (m, session, w) (m, session, w')"

inductive_cases save_stepE: "save_step (m, session, w) (m', session', w')"

text \<open>The states of a life; \<open>life_inv\<close> is what holds in all of them.\<close>

definition life_inv :: "nat set \<Rightarrow> nat set \<Rightarrow> (region \<Rightarrow> nat) \<Rightarrow> 'p save_state \<Rightarrow> bool" where
  "life_inv base locks capacity = (\<lambda>(m, session, w).
     save_inv base capacity m w \<and> locks_inv locks m w \<and> initialized m \<and>
     (\<exists>ops address p. engine session = Some ops \<and> pair session = Some (address, p) \<and>
        stable_memory session capacity p \<and> memory_law session ops))"

lemma engine_laws_pair [simp]:
  "stable_memory (session\<lparr>pair := x\<rparr>) capacity = stable_memory session capacity"
  "memory_law (session\<lparr>pair := x\<rparr>) ops = memory_law session ops"
  by (auto simp: stable_memory_def memory_law_def sizes_kept_def)

lemma flush_life_inv:
  assumes "dualboy_save_manager_flush m session w = Some (ok, m', session', w')" and "life_inv base locks capacity (m, session, w)"
  shows "life_inv base locks capacity (m', session', w')"
proof (cases "initialized m \<and> write_owner m \<and> loaded session")
  case False
  with assms show ?thesis by (auto simp: dualboy_save_manager_flush_def)
next
  case True
  from assms(2) obtain ops address p where inv: "save_inv base capacity m w" "locks_inv locks m w"
    and session: "engine session = Some ops" "pair session = Some (address, p)"
    and stable: "stable_memory session capacity p" and law: "memory_law session ops" by (auto simp: life_inv_def)
  note clear = memory_lawD(2) [OF law]
  have keep: "save_inv base capacity m2 w2 \<and> locks_inv locks m2 w2 \<and> initialized m2 = initialized m1"
    if "flush_regions session ops q regions m1 w1 = Some (ok, m2, w2)" "set regions \<subseteq> set all_regions"
      "save_inv base capacity m1 w1" "locks_inv locks m1 w1" "stable_memory session capacity q" for q regions m1 w1 ok m2 w2
    using flush_regions_inv [OF that(3,2,5,1)] flush_regions_frame(1,3) [OF that(1)] that(4)
    by (simp add: locks_inv_def same_setup_def)
  have "session' = session \<or> session' = session\<lparr>pair := Some (address, clear_dirty ops 0 p)\<rparr> \<or>
      session' = session\<lparr>pair := Some (address, clear_dirty ops 1 (clear_dirty ops 0 p))\<rparr>"
    using True assms(1) session
    by (auto simp: dualboy_save_manager_flush_def Let_def split: Option.bind_splits if_splits)
  then have session': "session' = session \<or> (\<exists>q. session' = session\<lparr>pair := Some (address, q)\<rparr> \<and> stable_memory session capacity q)"
    using clear [OF stable] clear [OF clear [OF stable]] by blast
  from True assms(1) session obtain ok0 m1 w1 where
    step0: "flush_regions session ops p (machine_regions 0) m w = Some (ok0, m1, w1)"
    and rest: "m' = m1 \<and> w' = w1 \<or> (\<exists>ok1 m2. flush_regions session ops (clear_dirty ops 0 p) (machine_regions 1) m1 w1 = Some (ok1, m2, w') \<and>
        (m' = m2 \<or> m' = m2\<lparr>frames_since_flush := 0\<rparr>))"
    by (auto simp: dualboy_save_manager_flush_def Let_def split: Option.bind_splits if_splits)
  note first = keep [OF step0 machine_regions_inside(1) inv stable]
  from rest first keep [OF _ machine_regions_inside(2) _ _ clear [OF stable]]
  have "save_inv base capacity m' w' \<and> locks_inv locks m' w' \<and> initialized m' = initialized m"
    by (fastforce simp: locks_inv_def)
  with True session' session stable law show ?thesis by (auto simp: life_inv_def)
qed

lemma tick_life_inv:
  assumes "dualboy_save_manager_tick m session w = Some (ok, m', session', w')" and "life_inv base locks capacity (m, session, w)"
  shows "life_inv base locks capacity (m', session', w')"
proof -
  have "life_inv base locks capacity (m\<lparr>frames_since_flush := x\<rparr>, session, w)" for x
    using assms(2) by (simp add: life_inv_def locks_inv_def)
  with assms flush_life_inv show ?thesis
    by (fastforce simp: dualboy_save_manager_tick_def Let_def split: if_splits)
qed

lemma save_step_inv:
  assumes "save_step s s'" and "life_inv base locks capacity s"
  shows "life_inv base locks capacity s'"
  using assms
proof (cases rule: save_step.cases)
  case (flush m session w ok m' session' w')
  with assms(2) flush_life_inv show ?thesis by blast
next
  case (tick m session w ok m' session' w')
  with assms(2) tick_life_inv show ?thesis by blast
next
  case (emulate session address p p' m w)
  with assms(2) sizes_kept_stable show ?thesis by (fastforce simp: life_inv_def)
next
  case (system w' w m session)
  with assms(2) save_inv_cong [of m m w' w] show ?thesis by (simp add: life_inv_def locks_inv_def)
qed

lemma save_steps_inv: "save_step\<^sup>*\<^sup>* s s' \<Longrightarrow> life_inv base locks capacity s \<Longrightarrow> life_inv base locks capacity s'"
  by (induction rule: rtranclp_induct) (auto intro: save_step_inv)


lemma flush_returns:
  assumes "life_inv base locks capacity (m, session, w)" and "answering session m (write_answers w)"
    and "length all_regions \<le> length (write_answers w)"
  shows "\<exists>ok m' session' w'. dualboy_save_manager_flush m session w = Some (ok, m', session', w')"
proof (cases "initialized m \<and> write_owner m \<and> loaded session")
  case False
  then show ?thesis by (auto simp: dualboy_save_manager_flush_def)
next
  case True
  from assms(1) obtain ops address p where session: "engine session = Some ops" "pair session = Some (address, p)"
    and inv: "save_inv base capacity m w" "stable_memory session capacity p" and law: "memory_law session ops"
    by (auto simp: life_inv_def)
  have count: "length all_regions = length (machine_regions 0) + length (machine_regions 1)" by (simp add: all_regions_def)
  from flush_regions_returns [OF inv(1) machine_regions_inside(1) inv(2) assms(2), of ops] assms(3) count
  obtain ok0 m1 w1 where step0: "flush_regions session ops p (machine_regions 0) m w = Some (ok0, m1, w1)"
    and left: "answering session m (write_answers w1)"
      "length (write_answers w) \<le> length (write_answers w1) + length (machine_regions 0)"
    by auto
  show ?thesis
  proof (cases ok0)
    case False
    with True session step0 show ?thesis by (auto simp: dualboy_save_manager_flush_def)
  next
    case ok0: True
    note keep = answering_cong [OF flush_regions_frame(1) [OF step0]]
    have inv1: "save_inv base capacity m1 w1" by (rule flush_regions_inv [OF inv(1) machine_regions_inside(1) inv(2) step0])
    have "answering session m1 (write_answers w1)" using left(1) by (simp add: keep)
    then obtain ok1 m2 w2 where "flush_regions session ops (clear_dirty ops 0 p) (machine_regions 1) m1 w1 = Some (ok1, m2, w2)"
      using flush_regions_returns [OF inv1 machine_regions_inside(2) memory_lawD(2) [OF law inv(2)], of ops 0] left(2) assms(3) count by auto
    with True session step0 ok0 show ?thesis by (cases ok1) (auto simp: dualboy_save_manager_flush_def Let_def)
  qed
qed

lemma init_failure:
  assumes "save_inv base capacity m w" and "locks_inv locks m w"
    and "(case release_write_ownership m w of (m1, w1) \<Rightarrow> do {
      (m2, w2) \<leftarrow> release_tracking_baselines m1 w1; Some (False, z, session, w2) }) = Some (ok, m', session', w')"
  shows "\<not> ok \<and> owns_beside base [] (memory w') \<and> held_locks w' = locks \<and> m' = z"
proof -
  obtain m1 w1 where released: "release_write_ownership m w = (m1, w1)" by fastforce
  note inv = release_write_ownership_inv [OF assms(2) released]
  have "save_inv base capacity m1 w1" using assms(1) save_inv_cong [OF inv(3,4)] by simp
  from save_inv_released [OF this] released inv(2) assms(3) show ?thesis by auto
qed

lemma deinit_life_inv:
  assumes "life_inv base locks capacity (m, session, w)"
  shows "\<exists>w'. dualboy_save_manager_deinit m w = Some (zero_manager, w') \<and> owns_beside base [] (memory w') \<and> held_locks w' = locks"
proof -
  from assms have inv: "save_inv base capacity m w" "locks_inv locks m w" "initialized m" by (auto simp: life_inv_def)
  obtain m1 w1 where released: "release_write_ownership m w = (m1, w1)" by fastforce
  note kept = release_write_ownership_inv [OF inv(2) released]
  have "save_inv base capacity m1 w1" using inv(1) save_inv_cong [OF kept(3,4)] by simp
  from save_inv_released [OF this] released kept(2) inv(3) show ?thesis
    by (auto simp: dualboy_save_manager_deinit_def)
qed

lemma save_inv_start:
  assumes "owns_beside base [] (memory w)" and "tracked m = (\<lambda>_. zero_tracking)"
  shows "save_inv base capacity m w"
  using assms by (simp add: save_inv_def save_owns_def baseline_pointers_def zero_tracking_def all_regions_def
      machine_regions_def kinds_def) (simp add: tracking_ok_def)

lemma choose_ownership_fields [simp]:
  "tracked (choose_ownership m session ops) = tracked m" "write_lock_fds (choose_ownership m session ops) = write_lock_fds m"
  by (simp_all add: choose_ownership_def Let_def)

lemma init_life_inv:
  assumes "dualboy_save_manager_init manager session directory w = Some (ok, m, session1, w1)"
    and "owns_beside base [] (memory w)" and "new_descriptors (held_locks w) (lock_answers w)"
    and "engine session = Some ops" and "pair session = Some (address, p)" and "memory_law session ops"
    and "stable_memory session capacity p"
  shows "(\<not> ok \<longrightarrow> owns_beside base [] (memory w1) \<and> held_locks w1 = held_locks w \<and> (m = manager \<or> m = zero_manager)) \<and>
    (ok \<longrightarrow> life_inv base (held_locks w) capacity (m, session1, w1))"
proof (cases "\<exists>path0 path1 save_paths. directory \<noteq> None \<and> directory \<noteq> Some [] \<and>
    rom_path (orom (fst (roms session))) = Some path0 \<and> rom_path (orom (snd (roms session))) = Some path1 \<and>
    loaded session \<and> memory_info ops \<noteq> None \<and>
    dualboy_build_save_paths directory (Some path0) (Some path1) (family ops = DUALBOY_ENGINE_MELONDS) = Inr save_paths")
  case False
  then have "\<not> ok \<and> w1 = w \<and> (m = manager \<or> m = zero_manager)"
    using assms(1,4) by (auto simp: dualboy_save_manager_init_def split: option.splits sum.splits if_splits)
  with assms(2) show ?thesis by simp
next
  case True
  then obtain dir path0 path1 save_paths where session: "engine session = Some ops" "directory = Some dir" "dir \<noteq> []"
    "rom_path (orom (fst (roms session))) = Some path0" "rom_path (orom (snd (roms session))) = Some path1"
    "loaded session" "memory_info ops \<noteq> None"
    "dualboy_build_save_paths (Some dir) (Some path0) (Some path1) (family ops = DUALBOY_ENGINE_MELONDS) = Inr save_paths"
    using assms(4) by blast
  let ?m0 = "choose_ownership (zero_manager\<lparr>paths := save_paths\<rparr>) session ops"
  note run = assms(1) [unfolded dualboy_save_manager_init_def session, simplified session, simplified]
  from run session assms(5) obtain ownership m1 w2 where start: "pair session = Some (address, p)"
    "acquire_write_ownership ?m0 w = Some (ownership, m1, w2)"
    by (auto simp: Let_def split: Option.bind_splits)
  note locks = acquire_write_ownership_inv [OF start(2) _ assms(3)]
  have inv1: "locks_inv (held_locks w) m1 w2" "save_inv base capacity m1 w2"
    using locks by (auto simp: zero_manager_def intro!: save_inv_start assms(2))
  show ?thesis
  proof (cases "ownership = WRITE_OWNERSHIP_ERROR")
    case True
    with run session start
    have "(case release_write_ownership m1 w2 of (m1, w1) \<Rightarrow> do {
      (m2, w2) \<leftarrow> release_tracking_baselines m1 w1; Some (False, zero_manager, session, w2) }) = Some (ok, m, session1, w1)"
      by (auto simp: Let_def)
    from init_failure [OF inv1(2,1) this] show ?thesis by simp
  next
    case False
    with run session start obtain ok1 m2 p1 w3 where regions: "init_regions session ops all_regions m1 p w2 = Some (ok1, m2, p1, w3)"
      by (auto simp: Let_def split: Option.bind_splits)
    from init_regions_inv [OF this inv1(2) order_refl assms(7,6)] inv1(1)
    have inv2: "save_inv base capacity m2 w3" "locks_inv (held_locks w) m2 w3" and stable: "stable_memory session capacity p1"
      by (auto simp: locks_inv_def)
    show ?thesis
    proof (cases ok1)
      case True
      then have "ok" "m = m2\<lparr>initialized := True\<rparr>" "w1 = w3"
        "session1 = session\<lparr>pair := Some (address, case persistent_memory_loaded ops of None \<Rightarrow> p1 | Some notify \<Rightarrow> notify p1)\<rparr>"
        using False run session start regions by (auto simp: Let_def)
      moreover have "stable_memory session capacity (case persistent_memory_loaded ops of None \<Rightarrow> p1 | Some notify \<Rightarrow> notify p1)"
        using stable memory_lawD(3) [OF assms(6) stable] by (auto split: option.split)
      ultimately show ?thesis using inv2 session(1) assms(6)
        by (auto simp: life_inv_def locks_inv_def save_inv_def save_owns_def baseline_pointers_def)
    next
      case failed: False
      with False run session start regions
      have "(case release_write_ownership m2 w3 of (m1, w1) \<Rightarrow> do { (m2, w2) \<leftarrow> release_tracking_baselines m1 w1;
        Some (False, zero_manager, session\<lparr>pair := Some (address, p1)\<rparr>, w2) }) = Some (ok, m, session1, w1)"
        by (auto simp: Let_def)
      from init_failure [OF inv2 this] show ?thesis by simp
    qed
  qed
qed


lemma saving_law: "memory_law saving_session saving_engine"
  unfolding memory_law_def sizes_kept_def by (auto simp: saving_memory)

lemma saving_owned: "owns_beside {0} [] (memory saving_world)"
  by (simp add: owns_beside_def heap_ok_def saving_world_def demo_heap_def)

lemma saving_descriptors: "new_descriptors (held_locks saving_world) (lock_answers saving_world)"
  by (simp add: new_descriptors_def saving_world_def)

text \<open>The world after initialization, and a state reached from there by running the engine.\<close>

definition started_world :: save_world where
  "started_world = saving_world\<lparr>memory := demo_heap\<lparr>next_address := 5, live := {0, 2, 4}\<rparr>, lock_answers := [], read_answers := [],
     held_locks := {3, 4, 5, 6, 7}\<rparr>"

lemma saving_emulates: "save_step\<^sup>*\<^sup>* (saving_manager, saving_session, started_world) (saving_manager, changed_session, started_world)"
  unfolding changed_session_def
  by (rule r_into_rtranclp, rule save_step.emulate [of _ _ demo_pair_state]) (auto simp: sizes_kept_def saving_memory)

lemmas saving_run = saving_init [folded started_world_def] saving_owned saving_descriptors saving_session_fields(1,2) saving_law

text \<open>
  C34. Nothing leaks over a life of the manager. When initialization fails, at whatever point, the
  heap is as it was and no lock is kept. When it succeeds, then after any sequence of flushes, frame
  ticks, emulated frames and changes by other processes, failed requests included, the end of the
  manager frees every baseline exactly once, closes exactly its own lock files and leaves the
  cleared manager. It relies on the engine keeping the sizes of the regions of a pair and on \<open>open\<close>
  not returning a descriptor the program already holds.
\<close>

theorem save_manager_life:
  assumes "dualboy_save_manager_init manager session directory w = Some (ok, m, session1, w1)"
    and "owns_beside base [] (memory w)" and "new_descriptors (held_locks w) (lock_answers w)"
    and "engine session = Some ops" and "pair session = Some (address, p)" and "memory_law session ops"
  shows "(\<not> ok \<longrightarrow> live (memory w1) = base \<and> held_locks w1 = held_locks w) \<and>
    (ok \<longrightarrow> (\<forall>m2 session2 w2. save_step\<^sup>*\<^sup>* (m, session1, w1) (m2, session2, w2) \<longrightarrow>
       (\<exists>w3. dualboy_save_manager_deinit m2 w2 = Some (zero_manager, w3) \<and>
          live (memory w3) = base \<and> held_locks w3 = held_locks w)))"
proof -
  note init = init_life_inv [OF assms region_sizes_stable]
  have "\<exists>w3. dualboy_save_manager_deinit m2 w2 = Some (zero_manager, w3) \<and> live (memory w3) = base \<and> held_locks w3 = held_locks w"
    if ok and "save_step\<^sup>*\<^sup>* (m, session1, w1) (m2, session2, w2)" for m2 session2 w2
    using deinit_life_inv [OF save_steps_inv [OF that(2)]] init that(1) by (fastforce simp: owns_beside_def)
  with init show ?thesis by (auto simp: owns_beside_def)
qed

theorem save_manager_life_witness:
  "\<exists>m' w' w3. dualboy_save_manager_flush saving_manager changed_session started_world = Some (True, m', changed_session, w') \<and>
     dualboy_save_manager_deinit m' w' = Some (zero_manager, w3) \<and> live (memory w3) = {0} \<and> held_locks w3 = {3}"
proof -
  obtain m' w' where flush: "dualboy_save_manager_flush saving_manager changed_session started_world = Some (True, m', changed_session, w')"
    using changed_flush [of started_world "replicate 5 byte_write"] by (auto simp: started_world_def saving_world_def numeral_eq_Suc)
  have "save_step\<^sup>*\<^sup>* (saving_manager, saving_session, started_world) (m', changed_session, w')"
    by (rule rtranclp.rtrancl_into_rtrancl [OF saving_emulates save_step.flush [OF flush]])
  with save_manager_life [OF saving_run] flush show ?thesis by (auto simp: saving_world_def)
qed

text \<open>
  C35. A flush never leaves the memory it works on. In every state of a life, if the system answers
  every write, whatever the answer is, the flush comes back: no access beyond a region, beyond a
  baseline copy or to freed memory stops it, however extents and sizes have changed since the
  regions were loaded.
\<close>

theorem save_flush_returns:
  assumes "dualboy_save_manager_init manager session directory w = Some (True, m, session1, w1)"
    and "owns_beside base [] (memory w)" and "new_descriptors (held_locks w) (lock_answers w)"
    and "engine session = Some ops" and "pair session = Some (address, p)" and "memory_law session ops"
    and "save_step\<^sup>*\<^sup>* (m, session1, w1) (m2, session2, w2)"
    and "answering session2 m2 (write_answers w2)" and "length all_regions \<le> length (write_answers w2)"
  shows "\<exists>ok m3 session3 w3. dualboy_save_manager_flush m2 session2 w2 = Some (ok, m3, session3, w3)"
proof -
  have "life_inv base (held_locks w) (region_sizes session p) (m2, session2, w2)"
    using save_steps_inv [OF assms(7)] init_life_inv [OF assms(1-6) region_sizes_stable] by blast
  from flush_returns [OF this assms(8,9)] show ?thesis .
qed

lemma byte_write_returns: "length data \<le> 1 \<Longrightarrow> dualboy_write_file_atomic byte_write fs (Some path) data \<noteq> None"
  by (cases data) (auto simp: dualboy_write_file_atomic_def byte_write_def SSIZE_MAX_def write_loop_unfold Let_def)

lemma saving_answers: "answering changed_session saving_manager (write_answers started_world)"
  unfolding answering_def
proof (intro ballI allI impI)
  fix os fs p r data n
  assume os: "os \<in> set (write_answers started_world)" and data: "engine_memory changed_session p r = Some data"
  from data have "length data \<le> 1" by (cases r) (auto simp: changed_session_def saving_memory split: if_splits)
  with os show "dualboy_write_file_atomic os fs (Some (region_path saving_manager r)) (take n data) \<noteq> None"
    using byte_write_returns [of "take n data"] by (auto simp: started_world_def saving_world_def)
qed

theorem save_flush_returns_witness:
  "\<exists>ok m3 session3 w3. dualboy_save_manager_flush saving_manager changed_session started_world = Some (ok, m3, session3, w3)"
proof -
  have "length all_regions \<le> length (write_answers started_world)"
    by (simp add: all_regions_def machine_regions_def kinds_def started_world_def saving_world_def)
  from save_flush_returns [OF saving_run saving_emulates saving_answers this] show ?thesis .
qed

end
