(* ===== verification/Options.thy ===== *)
theory Options
  imports Compositor
begin

text \<open>
  The core options, \<open>src/libretro/options.c\<close>: the three tables registered with the frontend, one
  for each version of its interface, and reading the values back. The frontend is a function
  from keys to values; a missing value and a null value are both \<open>None\<close>.
\<close>

section \<open>Keys and settings\<close>

definition DUALBOY_CONTROLLER_PORT_COUNT :: nat where
  "DUALBOY_CONTROLLER_PORT_COUNT = 5"

record dualboy_options =
  opt_mode :: dualboy_display_mode
  opt_layout :: dualboy_layout
  opt_link_enabled :: bool
  controller_ports :: "nat \<times> nat"
  opt_swap_screens :: bool
  audio_player1 :: bool
  nds_renderer :: dualboy_video_renderer

definition DUALBOY_OPTION_MODE :: string where
  "DUALBOY_OPTION_MODE = ''dualboy_mode''"

definition DUALBOY_OPTION_LAYOUT :: string where
  "DUALBOY_OPTION_LAYOUT = ''dualboy_layout''"

definition DUALBOY_OPTION_PLAYER1_CONTROLLER :: string where
  "DUALBOY_OPTION_PLAYER1_CONTROLLER = ''dualboy_player1_controller''"

definition DUALBOY_OPTION_PLAYER2_CONTROLLER :: string where
  "DUALBOY_OPTION_PLAYER2_CONTROLLER = ''dualboy_player2_controller''"

definition DUALBOY_OPTION_SWAP_SCREENS :: string where
  "DUALBOY_OPTION_SWAP_SCREENS = ''dualboy_swap_players''"

definition DUALBOY_OPTION_AUDIO :: string where
  "DUALBOY_OPTION_AUDIO = ''dualboy_audio_source''"

definition DUALBOY_OPTION_LINK :: string where
  "DUALBOY_OPTION_LINK = ''dualboy_link''"

definition DUALBOY_OPTION_NDS_RENDERER :: string where
  "DUALBOY_OPTION_NDS_RENDERER = ''dualboy_nds_renderer''"

section \<open>Tables\<close>

record retro_core_option_v2_definition =
  v2_key :: string
  v2_desc :: string
  v2_desc_categorized :: string
  v2_info :: string
  v2_category :: string
  v2_values :: "(string \<times> string) list"
  v2_default :: string

record retro_core_option_definition =
  v1_key :: string
  v1_desc :: string
  v1_info :: string
  v1_values :: "(string \<times> string) list"
  v1_default :: string

text \<open>The terminating null entries of the tables are left out.\<close>

definition option_categories :: "(string \<times> string \<times> string) list" where
  "option_categories =
    [(''video'', ''Video'',
      ''Configure which screens are shown and how they are arranged.''),
     (''link'', ''Link and Players'',
      ''Configure local multiplayer transport and player-to-machine mapping.''),
     (''audio'', ''Audio'',
      ''Configure DualBoy audio output.'')]"

definition option_v2_definitions :: "retro_core_option_v2_definition list" where
  "option_v2_definitions =
    [\<lparr>v2_key = DUALBOY_OPTION_MODE, v2_desc = ''Display Mode'', v2_desc_categorized = ''Mode'',
       v2_info = ''Show both machines or a single player'' @ [CHR 0x27] @ ''s machine.'',
       v2_category = ''video'',
       v2_values = [(''dual'', ''Dual''), (''player1'', ''Player 1 Only''), (''player2'', ''Player 2 Only'')],
       v2_default = ''dual''\<rparr>,
     \<lparr>v2_key = DUALBOY_OPTION_LAYOUT, v2_desc = ''Dual-screen Layout'', v2_desc_categorized = ''Layout'',
       v2_info = ''Arrange both native-resolution screens side by side or vertically.'',
       v2_category = ''video'',
       v2_values = [(''side_by_side'', ''Side by Side''), (''top_bottom'', ''Top/Bottom'')],
       v2_default = ''side_by_side''\<rparr>,
     \<lparr>v2_key = DUALBOY_OPTION_NDS_RENDERER, v2_desc = ''Nintendo DS Renderer'', v2_desc_categorized = ''NDS Renderer'',
       v2_info = ''Select software or OpenGL rendering for Nintendo DS content. Changes apply live. Enabling OpenGL disables Local Link; enabling Local Link restores software rendering.'',
       v2_category = ''video'',
       v2_values = [(''software'', ''Software''), (''opengl'', ''OpenGL'')],
       v2_default = ''software''\<rparr>,
     \<lparr>v2_key = DUALBOY_OPTION_LINK, v2_desc = ''Local Link'', v2_desc_categorized = ''Local Link'',
       v2_info = ''Connect or disconnect the emulated cable or local wireless transport between both machines.'',
       v2_category = ''link'',
       v2_values = [(''enabled'', ''Enabled''), (''disabled'', ''Disabled'')],
       v2_default = ''enabled''\<rparr>,
     \<lparr>v2_key = DUALBOY_OPTION_PLAYER1_CONTROLLER, v2_desc = ''Player 1 Controller'', v2_desc_categorized = ''Player 1 Controller'',
       v2_info = ''Select which RetroArch controller port operates emulated Player 1. The same port may be assigned to both players.'',
       v2_category = ''link'',
       v2_values = [(''port1'', ''Controller Port 1''), (''port2'', ''Controller Port 2''), (''port3'', ''Controller Port 3''), (''port4'', ''Controller Port 4''), (''port5'', ''Controller Port 5'')],
       v2_default = ''port1''\<rparr>,
     \<lparr>v2_key = DUALBOY_OPTION_PLAYER2_CONTROLLER, v2_desc = ''Player 2 Controller'', v2_desc_categorized = ''Player 2 Controller'',
       v2_info = ''Select which RetroArch controller port operates emulated Player 2. The same port may be assigned to both players.'',
       v2_category = ''link'',
       v2_values = [(''port1'', ''Controller Port 1''), (''port2'', ''Controller Port 2''), (''port3'', ''Controller Port 3''), (''port4'', ''Controller Port 4''), (''port5'', ''Controller Port 5'')],
       v2_default = ''port2''\<rparr>,
     \<lparr>v2_key = DUALBOY_OPTION_SWAP_SCREENS, v2_desc = ''Swap Screens'', v2_desc_categorized = ''Swap Screens'',
       v2_info = ''Exchange the positions of the two machine screens without changing controller assignments.'',
       v2_category = ''video'',
       v2_values = [(''disabled'', ''Disabled''), (''enabled'', ''Enabled'')],
       v2_default = ''disabled''\<rparr>,
     \<lparr>v2_key = DUALBOY_OPTION_AUDIO, v2_desc = ''Audio Source'', v2_desc_categorized = ''Source'',
       v2_info = ''Output player 1 audio or disable audio output.'',
       v2_category = ''audio'',
       v2_values = [(''player1'', ''Player 1''), (''disabled'', ''Disabled'')],
       v2_default = ''player1''\<rparr>]"

definition option_v1_definitions :: "retro_core_option_definition list" where
  "option_v1_definitions =
    [\<lparr>v1_key = DUALBOY_OPTION_MODE, v1_desc = ''Display Mode'',
       v1_info = ''Show both machines or a single player'' @ [CHR 0x27] @ ''s machine.'',
       v1_values = [(''dual'', ''Dual''), (''player1'', ''Player 1 Only''), (''player2'', ''Player 2 Only'')],
       v1_default = ''dual''\<rparr>,
     \<lparr>v1_key = DUALBOY_OPTION_LAYOUT, v1_desc = ''Dual-screen Layout'',
       v1_info = ''Arrange both native-resolution screens side by side or vertically.'',
       v1_values = [(''side_by_side'', ''Side by Side''), (''top_bottom'', ''Top/Bottom'')],
       v1_default = ''side_by_side''\<rparr>,
     \<lparr>v1_key = DUALBOY_OPTION_NDS_RENDERER, v1_desc = ''Nintendo DS Renderer'',
       v1_info = ''Select software or OpenGL rendering for Nintendo DS content. Changes apply live. Enabling OpenGL disables Local Link; enabling Local Link restores software rendering.'',
       v1_values = [(''software'', ''Software''), (''opengl'', ''OpenGL'')],
       v1_default = ''software''\<rparr>,
     \<lparr>v1_key = DUALBOY_OPTION_LINK, v1_desc = ''Local Link'',
       v1_info = ''Connect or disconnect the emulated cable or local wireless transport between both machines.'',
       v1_values = [(''enabled'', ''Enabled''), (''disabled'', ''Disabled'')],
       v1_default = ''enabled''\<rparr>,
     \<lparr>v1_key = DUALBOY_OPTION_PLAYER1_CONTROLLER, v1_desc = ''Player 1 Controller'',
       v1_info = ''Select which RetroArch controller port operates emulated Player 1. The same port may be assigned to both players.'',
       v1_values = [(''port1'', ''Controller Port 1''), (''port2'', ''Controller Port 2''), (''port3'', ''Controller Port 3''), (''port4'', ''Controller Port 4''), (''port5'', ''Controller Port 5'')],
       v1_default = ''port1''\<rparr>,
     \<lparr>v1_key = DUALBOY_OPTION_PLAYER2_CONTROLLER, v1_desc = ''Player 2 Controller'',
       v1_info = ''Select which RetroArch controller port operates emulated Player 2. The same port may be assigned to both players.'',
       v1_values = [(''port1'', ''Controller Port 1''), (''port2'', ''Controller Port 2''), (''port3'', ''Controller Port 3''), (''port4'', ''Controller Port 4''), (''port5'', ''Controller Port 5'')],
       v1_default = ''port2''\<rparr>,
     \<lparr>v1_key = DUALBOY_OPTION_SWAP_SCREENS, v1_desc = ''Swap Screens'',
       v1_info = ''Exchange the positions of the two machine screens without changing controller assignments.'',
       v1_values = [(''disabled'', ''Disabled''), (''enabled'', ''Enabled'')],
       v1_default = ''disabled''\<rparr>,
     \<lparr>v1_key = DUALBOY_OPTION_AUDIO, v1_desc = ''Audio Source'',
       v1_info = ''Output player 1 audio or disable audio output.'',
       v1_values = [(''player1'', ''Player 1''), (''disabled'', ''Disabled'')],
       v1_default = ''player1''\<rparr>]"

definition option_legacy_definitions :: "(string \<times> string) list" where
  "option_legacy_definitions =
    [(DUALBOY_OPTION_MODE, ''Display Mode; dual|player1|player2''),
     (DUALBOY_OPTION_LAYOUT, ''Dual-screen Layout; side_by_side|top_bottom''),
     (DUALBOY_OPTION_NDS_RENDERER, ''Nintendo DS Renderer; software|opengl''),
     (DUALBOY_OPTION_LINK, ''Local Link; enabled|disabled''),
     (DUALBOY_OPTION_PLAYER1_CONTROLLER, ''Player 1 Controller; port1|port2|port3|port4|port5''),
     (DUALBOY_OPTION_PLAYER2_CONTROLLER, ''Player 2 Controller; port2|port1|port3|port4|port5''),
     (DUALBOY_OPTION_SWAP_SCREENS, ''Swap Screens; disabled|enabled''),
     (DUALBOY_OPTION_AUDIO, ''Audio Source; player1|disabled'')]"

section \<open>Operations\<close>

definition dualboy_options_set_defaults :: dualboy_options where
  "dualboy_options_set_defaults =
     \<lparr>opt_mode = DUALBOY_MODE_DUAL, opt_layout = DUALBOY_LAYOUT_SIDE_BY_SIDE, opt_link_enabled = True,
      controller_ports = (0, 1), opt_swap_screens = False, audio_player1 = True,
      nds_renderer = DUALBOY_VIDEO_RENDERER_SOFTWARE\<rparr>"

datatype option_registration =
    SET_CORE_OPTIONS_V2 "(string \<times> string \<times> string) list" "retro_core_option_v2_definition list"
  | SET_CORE_OPTIONS "retro_core_option_definition list"
  | SET_VARIABLES "(string \<times> string) list"

text \<open>The table that is registered; \<open>None\<close> when the frontend does not tell its version.\<close>

definition dualboy_options_register :: "nat option \<Rightarrow> option_registration" where
  "dualboy_options_register answer =
     (let version = (case answer of None \<Rightarrow> 0 | Some v \<Rightarrow> v)
      in if version \<ge> 2 then SET_CORE_OPTIONS_V2 option_categories option_v2_definitions
         else if version \<ge> 1 then SET_CORE_OPTIONS option_v1_definitions
         else SET_VARIABLES option_legacy_definitions)"

type_synonym variables = "string \<Rightarrow> string option"

definition option_value :: "variables \<Rightarrow> string \<Rightarrow> string option" where
  "option_value environment key = environment key"

definition read_mode :: "variables \<Rightarrow> dualboy_options \<Rightarrow> dualboy_options" where
  "read_mode environment options =
     (case option_value environment DUALBOY_OPTION_MODE of
        None \<Rightarrow> options
      | Some v \<Rightarrow>
        if v = ''dual'' then options\<lparr>opt_mode := DUALBOY_MODE_DUAL\<rparr>
        else if v = ''player1'' then options\<lparr>opt_mode := DUALBOY_MODE_PLAYER1\<rparr>
        else if v = ''player2'' then options\<lparr>opt_mode := DUALBOY_MODE_PLAYER2\<rparr>
        else options)"

definition read_layout :: "variables \<Rightarrow> dualboy_options \<Rightarrow> dualboy_options" where
  "read_layout environment options =
     (case option_value environment DUALBOY_OPTION_LAYOUT of
        None \<Rightarrow> options
      | Some v \<Rightarrow>
        if v = ''side_by_side'' then options\<lparr>opt_layout := DUALBOY_LAYOUT_SIDE_BY_SIDE\<rparr>
        else if v = ''top_bottom'' then options\<lparr>opt_layout := DUALBOY_LAYOUT_TOP_BOTTOM\<rparr>
        else options)"

definition read_link :: "variables \<Rightarrow> dualboy_options \<Rightarrow> dualboy_options" where
  "read_link environment options =
     (case option_value environment DUALBOY_OPTION_LINK of
        None \<Rightarrow> options
      | Some v \<Rightarrow>
        if v = ''enabled'' then options\<lparr>opt_link_enabled := True\<rparr>
        else if v = ''disabled'' then options\<lparr>opt_link_enabled := False\<rparr>
        else options)"

definition read_nds_renderer :: "variables \<Rightarrow> dualboy_options \<Rightarrow> dualboy_options" where
  "read_nds_renderer environment options =
     (case option_value environment DUALBOY_OPTION_NDS_RENDERER of
        None \<Rightarrow> options
      | Some v \<Rightarrow>
        if v = ''software'' then options\<lparr>nds_renderer := DUALBOY_VIDEO_RENDERER_SOFTWARE\<rparr>
        else if v = ''opengl'' then options\<lparr>nds_renderer := DUALBOY_VIDEO_RENDERER_OPENGL\<rparr>
        else options)"

definition read_swap_screens :: "variables \<Rightarrow> dualboy_options \<Rightarrow> dualboy_options" where
  "read_swap_screens environment options =
     (case option_value environment DUALBOY_OPTION_SWAP_SCREENS of
        None \<Rightarrow> options
      | Some v \<Rightarrow>
        if v = ''enabled'' then options\<lparr>opt_swap_screens := True\<rparr>
        else if v = ''disabled'' then options\<lparr>opt_swap_screens := False\<rparr>
        else options)"

definition port_values :: "string list" where
  "port_values = [''port1'', ''port2'', ''port3'', ''port4'', ''port5'']"

text \<open>The search for the value among the candidates, from the given one on.\<close>

fun port_loop :: "string \<Rightarrow> string list \<Rightarrow> nat \<Rightarrow> nat \<Rightarrow> nat" where
  "port_loop v [] candidate port = port"
| "port_loop v (name # names) candidate port =
     (if v = name then candidate else port_loop v names (candidate + 1) port)"

definition read_controller_port :: "variables \<Rightarrow> string \<Rightarrow> nat \<Rightarrow> nat" where
  "read_controller_port environment key port =
     (case option_value environment key of None \<Rightarrow> port | Some v \<Rightarrow> port_loop v port_values 0 port)"

definition read_audio_source :: "variables \<Rightarrow> dualboy_options \<Rightarrow> dualboy_options" where
  "read_audio_source environment options =
     (case option_value environment DUALBOY_OPTION_AUDIO of
        None \<Rightarrow> options
      | Some v \<Rightarrow>
        if v = ''player1'' then options\<lparr>audio_player1 := True\<rparr>
        else if v = ''disabled'' then options\<lparr>audio_player1 := False\<rparr>
        else options)"

definition options_differ :: "dualboy_options \<Rightarrow> dualboy_options \<Rightarrow> bool" where
  "options_differ previous options \<longleftrightarrow>
     opt_mode previous \<noteq> opt_mode options \<or> opt_layout previous \<noteq> opt_layout options \<or>
     opt_link_enabled previous \<noteq> opt_link_enabled options \<or>
     fst (controller_ports previous) \<noteq> fst (controller_ports options) \<or>
     snd (controller_ports previous) \<noteq> snd (controller_ports options) \<or>
     opt_swap_screens previous \<noteq> opt_swap_screens options \<or>
     audio_player1 previous \<noteq> audio_player1 options \<or> nds_renderer previous \<noteq> nds_renderer options"

definition read_controller_ports :: "variables \<Rightarrow> dualboy_options \<Rightarrow> dualboy_options" where
  "read_controller_ports environment options = options\<lparr>controller_ports :=
     (read_controller_port environment DUALBOY_OPTION_PLAYER1_CONTROLLER (fst (controller_ports options)),
      read_controller_port environment DUALBOY_OPTION_PLAYER2_CONTROLLER (snd (controller_ports options)))\<rparr>"

text \<open>Whether a setting changed, and the settings.\<close>

definition dualboy_options_read :: "variables \<Rightarrow> dualboy_options \<Rightarrow> bool \<times> dualboy_options" where
  "dualboy_options_read environment previous =
     (let options = read_audio_source environment (read_swap_screens environment (read_controller_ports environment
            (read_link environment (read_nds_renderer environment (read_layout environment (read_mode environment previous))))))
      in (options_differ previous options, options))"

section \<open>The text of a setting\<close>

fun mode_text :: "dualboy_display_mode \<Rightarrow> string" where
  "mode_text DUALBOY_MODE_DUAL = ''dual''"
| "mode_text DUALBOY_MODE_PLAYER1 = ''player1''"
| "mode_text DUALBOY_MODE_PLAYER2 = ''player2''"

fun layout_text :: "dualboy_layout \<Rightarrow> string" where
  "layout_text DUALBOY_LAYOUT_SIDE_BY_SIDE = ''side_by_side''"
| "layout_text DUALBOY_LAYOUT_TOP_BOTTOM = ''top_bottom''"

fun renderer_text :: "dualboy_video_renderer \<Rightarrow> string" where
  "renderer_text DUALBOY_VIDEO_RENDERER_SOFTWARE = ''software''"
| "renderer_text DUALBOY_VIDEO_RENDERER_OPENGL = ''opengl''"

definition enabled_text :: "bool \<Rightarrow> string" where
  "enabled_text b = (if b then ''enabled'' else ''disabled'')"

text \<open>How a frontend shows the settings: a value for each key.\<close>

definition option_text :: "dualboy_options \<Rightarrow> variables" where
  "option_text options = map_of
     [(DUALBOY_OPTION_MODE, mode_text (opt_mode options)),
      (DUALBOY_OPTION_LAYOUT, layout_text (opt_layout options)),
      (DUALBOY_OPTION_NDS_RENDERER, renderer_text (nds_renderer options)),
      (DUALBOY_OPTION_LINK, enabled_text (opt_link_enabled options)),
      (DUALBOY_OPTION_PLAYER1_CONTROLLER, port_values ! fst (controller_ports options)),
      (DUALBOY_OPTION_PLAYER2_CONTROLLER, port_values ! snd (controller_ports options)),
      (DUALBOY_OPTION_SWAP_SCREENS, enabled_text (opt_swap_screens options)),
      (DUALBOY_OPTION_AUDIO, if audio_player1 options then ''player1'' else ''disabled'')]"

definition ports_valid :: "dualboy_options \<Rightarrow> bool" where
  "ports_valid options \<longleftrightarrow> fst (controller_ports options) < DUALBOY_CONTROLLER_PORT_COUNT \<and>
     snd (controller_ports options) < DUALBOY_CONTROLLER_PORT_COUNT"

lemmas option_keys = DUALBOY_OPTION_MODE_def DUALBOY_OPTION_LAYOUT_def DUALBOY_OPTION_NDS_RENDERER_def DUALBOY_OPTION_LINK_def
  DUALBOY_OPTION_PLAYER1_CONTROLLER_def DUALBOY_OPTION_PLAYER2_CONTROLLER_def DUALBOY_OPTION_SWAP_SCREENS_def DUALBOY_OPTION_AUDIO_def

lemma option_text_keys [simp]:
  "option_text options DUALBOY_OPTION_MODE = Some (mode_text (opt_mode options))"
  "option_text options DUALBOY_OPTION_LAYOUT = Some (layout_text (opt_layout options))"
  "option_text options DUALBOY_OPTION_NDS_RENDERER = Some (renderer_text (nds_renderer options))"
  "option_text options DUALBOY_OPTION_LINK = Some (enabled_text (opt_link_enabled options))"
  "option_text options DUALBOY_OPTION_PLAYER1_CONTROLLER = Some (port_values ! fst (controller_ports options))"
  "option_text options DUALBOY_OPTION_PLAYER2_CONTROLLER = Some (port_values ! snd (controller_ports options))"
  "option_text options DUALBOY_OPTION_SWAP_SCREENS = Some (enabled_text (opt_swap_screens options))"
  "option_text options DUALBOY_OPTION_AUDIO = Some (if audio_player1 options then ''player1'' else ''disabled'')"
  by (simp_all add: option_text_def option_keys)

text \<open>A value the frontend gives is taken when it is in the table, and ignored otherwise.\<close>

definition taken :: "string option \<Rightarrow> string list \<Rightarrow> string \<Rightarrow> string" where
  "taken answer listed old = (case answer of None \<Rightarrow> old | Some v \<Rightarrow> if v \<in> set listed then v else old)"

lemma read_fields:
  "mode_text (opt_mode (read_mode env o1)) = taken (env DUALBOY_OPTION_MODE) [''dual'', ''player1'', ''player2''] (mode_text (opt_mode o1))"
  "layout_text (opt_layout (read_layout env o1)) = taken (env DUALBOY_OPTION_LAYOUT) [''side_by_side'', ''top_bottom''] (layout_text (opt_layout o1))"
  "enabled_text (opt_link_enabled (read_link env o1)) = taken (env DUALBOY_OPTION_LINK) [''enabled'', ''disabled''] (enabled_text (opt_link_enabled o1))"
  "renderer_text (nds_renderer (read_nds_renderer env o1)) = taken (env DUALBOY_OPTION_NDS_RENDERER) [''software'', ''opengl''] (renderer_text (nds_renderer o1))"
  "enabled_text (opt_swap_screens (read_swap_screens env o1)) = taken (env DUALBOY_OPTION_SWAP_SCREENS) [''disabled'', ''enabled''] (enabled_text (opt_swap_screens o1))"
  "(if audio_player1 (read_audio_source env o1) then ''player1'' else ''disabled'') =
     taken (env DUALBOY_OPTION_AUDIO) [''player1'', ''disabled''] (if audio_player1 o1 then ''player1'' else ''disabled'')"
  by (auto simp: read_mode_def read_layout_def read_link_def read_nds_renderer_def read_swap_screens_def read_audio_source_def
      option_value_def taken_def enabled_text_def split: option.splits)

lemma read_controller_port_bound:
  "port < 5 \<Longrightarrow> read_controller_port env key port < 5"
  by (auto simp: read_controller_port_def option_value_def port_values_def split: option.splits)

lemma read_controller_port_text:
  "port_values ! read_controller_port env key port = taken (env key) port_values (port_values ! port)"
  by (auto simp: read_controller_port_def option_value_def port_values_def taken_def nth_Cons' split: option.splits)

text \<open>Each reader changes one setting only.\<close>

lemma read_other [simp]:
  "opt_layout (read_mode env o1) = opt_layout o1" "opt_link_enabled (read_mode env o1) = opt_link_enabled o1"
  "controller_ports (read_mode env o1) = controller_ports o1" "opt_swap_screens (read_mode env o1) = opt_swap_screens o1"
  "audio_player1 (read_mode env o1) = audio_player1 o1" "nds_renderer (read_mode env o1) = nds_renderer o1"
  "opt_mode (read_layout env o1) = opt_mode o1" "opt_link_enabled (read_layout env o1) = opt_link_enabled o1"
  "controller_ports (read_layout env o1) = controller_ports o1" "opt_swap_screens (read_layout env o1) = opt_swap_screens o1"
  "audio_player1 (read_layout env o1) = audio_player1 o1" "nds_renderer (read_layout env o1) = nds_renderer o1"
  "opt_mode (read_link env o1) = opt_mode o1" "opt_layout (read_link env o1) = opt_layout o1"
  "controller_ports (read_link env o1) = controller_ports o1" "opt_swap_screens (read_link env o1) = opt_swap_screens o1"
  "audio_player1 (read_link env o1) = audio_player1 o1" "nds_renderer (read_link env o1) = nds_renderer o1"
  "opt_mode (read_nds_renderer env o1) = opt_mode o1" "opt_layout (read_nds_renderer env o1) = opt_layout o1"
  "opt_link_enabled (read_nds_renderer env o1) = opt_link_enabled o1" "controller_ports (read_nds_renderer env o1) = controller_ports o1"
  "opt_swap_screens (read_nds_renderer env o1) = opt_swap_screens o1" "audio_player1 (read_nds_renderer env o1) = audio_player1 o1"
  "opt_mode (read_swap_screens env o1) = opt_mode o1" "opt_layout (read_swap_screens env o1) = opt_layout o1"
  "opt_link_enabled (read_swap_screens env o1) = opt_link_enabled o1" "controller_ports (read_swap_screens env o1) = controller_ports o1"
  "audio_player1 (read_swap_screens env o1) = audio_player1 o1" "nds_renderer (read_swap_screens env o1) = nds_renderer o1"
  "opt_mode (read_audio_source env o1) = opt_mode o1" "opt_layout (read_audio_source env o1) = opt_layout o1"
  "opt_link_enabled (read_audio_source env o1) = opt_link_enabled o1" "controller_ports (read_audio_source env o1) = controller_ports o1"
  "opt_swap_screens (read_audio_source env o1) = opt_swap_screens o1" "nds_renderer (read_audio_source env o1) = nds_renderer o1"
  by (simp_all add: read_mode_def read_layout_def read_link_def read_nds_renderer_def read_swap_screens_def
      read_audio_source_def split: option.splits)

lemma options_read_fields:
  assumes "dualboy_options_read env previous = (changed, current)"
  shows "opt_mode current = opt_mode (read_mode env previous)" (is ?mode)
    and "layout_text (opt_layout current) = taken (env DUALBOY_OPTION_LAYOUT) [''side_by_side'', ''top_bottom''] (layout_text (opt_layout previous))"
    and "renderer_text (nds_renderer current) = taken (env DUALBOY_OPTION_NDS_RENDERER) [''software'', ''opengl''] (renderer_text (nds_renderer previous))"
    and "enabled_text (opt_link_enabled current) = taken (env DUALBOY_OPTION_LINK) [''enabled'', ''disabled''] (enabled_text (opt_link_enabled previous))"
    and "controller_ports current =
      (read_controller_port env DUALBOY_OPTION_PLAYER1_CONTROLLER (fst (controller_ports previous)),
       read_controller_port env DUALBOY_OPTION_PLAYER2_CONTROLLER (snd (controller_ports previous)))"
    and "enabled_text (opt_swap_screens current) = taken (env DUALBOY_OPTION_SWAP_SCREENS) [''disabled'', ''enabled''] (enabled_text (opt_swap_screens previous))"
    and "(if audio_player1 current then ''player1'' else ''disabled'') =
      taken (env DUALBOY_OPTION_AUDIO) [''player1'', ''disabled''] (if audio_player1 previous then ''player1'' else ''disabled'')"
    and "changed \<longleftrightarrow> current \<noteq> previous"
proof -
  let ?ports = "(read_controller_port env DUALBOY_OPTION_PLAYER1_CONTROLLER (fst (controller_ports previous)),
    read_controller_port env DUALBOY_OPTION_PLAYER2_CONTROLLER (snd (controller_ports previous)))"
  have current: "current = read_audio_source env (read_swap_screens env (read_controller_ports env
      (read_link env (read_nds_renderer env (read_layout env (read_mode env previous))))))" "changed = options_differ previous current"
    using assms by (auto simp: dualboy_options_read_def Let_def)
  show ?mode "layout_text (opt_layout current) = taken (env DUALBOY_OPTION_LAYOUT) [''side_by_side'', ''top_bottom''] (layout_text (opt_layout previous))"
    "renderer_text (nds_renderer current) = taken (env DUALBOY_OPTION_NDS_RENDERER) [''software'', ''opengl''] (renderer_text (nds_renderer previous))"
    "enabled_text (opt_link_enabled current) = taken (env DUALBOY_OPTION_LINK) [''enabled'', ''disabled''] (enabled_text (opt_link_enabled previous))"
    "controller_ports current = ?ports"
    "enabled_text (opt_swap_screens current) = taken (env DUALBOY_OPTION_SWAP_SCREENS) [''disabled'', ''enabled''] (enabled_text (opt_swap_screens previous))"
    "(if audio_player1 current then ''player1'' else ''disabled'') =
      taken (env DUALBOY_OPTION_AUDIO) [''player1'', ''disabled''] (if audio_player1 previous then ''player1'' else ''disabled'')"
    by (simp_all add: current(1) read_controller_ports_def read_fields split del: if_split)
  show "changed \<longleftrightarrow> current \<noteq> previous"
    unfolding current(2) options_differ_def by (cases previous, cases current) (auto simp: prod_eq_iff)
qed


section \<open>Properties\<close>

definition listed_values :: "retro_core_option_v2_definition \<Rightarrow> string list" where
  "listed_values d = map fst (v2_values d)"

lemma listed_values_table:
  "map (\<lambda>d. (v2_key d, listed_values d)) option_v2_definitions =
     [(DUALBOY_OPTION_MODE, [''dual'', ''player1'', ''player2'']), (DUALBOY_OPTION_LAYOUT, [''side_by_side'', ''top_bottom'']),
      (DUALBOY_OPTION_NDS_RENDERER, [''software'', ''opengl'']), (DUALBOY_OPTION_LINK, [''enabled'', ''disabled'']),
      (DUALBOY_OPTION_PLAYER1_CONTROLLER, port_values), (DUALBOY_OPTION_PLAYER2_CONTROLLER, port_values),
      (DUALBOY_OPTION_SWAP_SCREENS, [''disabled'', ''enabled'']), (DUALBOY_OPTION_AUDIO, [''player1'', ''disabled''])]"
  by (simp add: option_v2_definitions_def listed_values_def port_values_def)

lemma option_text_inj:
  assumes "ports_valid o1" and "ports_valid o2" and "option_text o1 = option_text o2"
  shows "o1 = o2"
proof -
  have keys: "option_text o1 k = option_text o2 k" for k using assms(3) by simp
  have ports: "port_values ! i = port_values ! j \<longleftrightarrow> i = j" if "i < 5" "j < 5" for i j
    using that by (intro nth_eq_iff_index_eq) (simp_all add: port_values_def)
  have "mode_text (opt_mode o1) = mode_text (opt_mode o2)" "layout_text (opt_layout o1) = layout_text (opt_layout o2)"
    "renderer_text (nds_renderer o1) = renderer_text (nds_renderer o2)" "opt_link_enabled o1 = opt_link_enabled o2"
    "controller_ports o1 = controller_ports o2" "opt_swap_screens o1 = opt_swap_screens o2" "audio_player1 o1 = audio_player1 o2"
    using keys [of DUALBOY_OPTION_MODE] keys [of DUALBOY_OPTION_LAYOUT] keys [of DUALBOY_OPTION_NDS_RENDERER]
      keys [of DUALBOY_OPTION_LINK] keys [of DUALBOY_OPTION_PLAYER1_CONTROLLER] keys [of DUALBOY_OPTION_PLAYER2_CONTROLLER]
      keys [of DUALBOY_OPTION_SWAP_SCREENS] keys [of DUALBOY_OPTION_AUDIO] assms(1,2)
    by (auto simp: ports ports_valid_def DUALBOY_CONTROLLER_PORT_COUNT_def prod_eq_iff enabled_text_def split: if_splits)
  moreover have "opt_mode o1 = opt_mode o2" using calculation(1) by (cases "opt_mode o1"; cases "opt_mode o2") simp_all
  moreover have "opt_layout o1 = opt_layout o2" using calculation(2) by (cases "opt_layout o1"; cases "opt_layout o2") simp_all
  moreover have "nds_renderer o1 = nds_renderer o2" using calculation(3) by (cases "nds_renderer o1"; cases "nds_renderer o2") simp_all
  ultimately show ?thesis by (cases o1, cases o2) simp
qed

lemma options_read_text:
  assumes "dualboy_options_read environment previous = (changed, current)"
  shows "\<forall>(key, listed) \<in> set (map (\<lambda>d. (v2_key d, listed_values d)) option_v2_definitions).
    \<exists>old. option_text previous key = Some old \<and> option_text current key = Some (taken (environment key) listed old)"
  unfolding listed_values_table
  by (simp add: options_read_fields [OF assms] read_fields read_controller_port_text del: if_split)

text \<open>
  C40. Reading the options follows the registered table. Whatever the frontend answers, each option
  ends up with the answered value when the table lists it and keeps its old value when the answer
  is missing or not listed; controller ports stay in range, and the change report is exact. The
  text shown for the settings determines them.
\<close>

theorem options_read_correct:
  assumes "dualboy_options_read environment previous = (changed, current)" and "ports_valid previous"
  shows "ports_valid current \<and> changed = (current \<noteq> previous) \<and>
    (\<forall>d \<in> set option_v2_definitions. \<exists>old. option_text previous (v2_key d) = Some old \<and>
       option_text current (v2_key d) = Some (taken (environment (v2_key d)) (listed_values d) old)) \<and>
    (\<forall>other. ports_valid other \<and> option_text other = option_text current \<longrightarrow> other = current)"
proof -
  note fields = options_read_fields [OF assms(1)]
  have valid: "ports_valid current"
    using assms(2) read_controller_port_bound by (simp add: ports_valid_def fields(5) DUALBOY_CONTROLLER_PORT_COUNT_def)
  show ?thesis using options_read_text [OF assms(1)] valid fields(8) option_text_inj by auto
qed

theorem options_read_correct_witness:
  "\<exists>current. dualboy_options_read ((\<lambda>_. None)(DUALBOY_OPTION_LINK \<mapsto> ''disabled'', DUALBOY_OPTION_MODE \<mapsto> ''unknown''))
     dualboy_options_set_defaults = (True, current) \<and> ports_valid current \<and> current \<noteq> dualboy_options_set_defaults"
proof -
  let ?env = "(\<lambda>_. None)(DUALBOY_OPTION_LINK \<mapsto> ''disabled'', DUALBOY_OPTION_MODE \<mapsto> ''unknown'')"
  obtain changed current where read: "dualboy_options_read ?env dualboy_options_set_defaults = (changed, current)" by fastforce
  have "ports_valid dualboy_options_set_defaults"
    by (simp add: ports_valid_def dualboy_options_set_defaults_def DUALBOY_CONTROLLER_PORT_COUNT_def)
  note result = options_read_correct [OF read this]
  have "changed"
    using read by (auto simp: dualboy_options_read_def Let_def options_differ_def read_mode_def read_layout_def read_link_def
        read_nds_renderer_def read_swap_screens_def read_audio_source_def read_controller_ports_def option_value_def
        option_keys dualboy_options_set_defaults_def)
  with read result show ?thesis by auto
qed

text \<open>The values of a legacy entry: after the description, separated by bars.\<close>

fun bar_split :: "string \<Rightarrow> string \<Rightarrow> string list" where
  "bar_split [] word = [rev word]"
| "bar_split (c # cs) word = (if c = CHR ''|'' then rev word # bar_split cs [] else bar_split cs (c # word))"

definition legacy_values :: "string \<Rightarrow> string list" where
  "legacy_values entry = bar_split (drop 2 (dropWhile (\<lambda>c. c \<noteq> CHR '';'') entry)) []"

text \<open>
  What a frontend offers its user, from any of the three interfaces: for each key the selectable
  values and the initial one. The oldest interface takes the first value as the initial one.
\<close>

fun offered :: "option_registration \<Rightarrow> (string \<times> string set \<times> string) list" where
  "offered (SET_CORE_OPTIONS_V2 categories table) = map (\<lambda>d. (v2_key d, set (map fst (v2_values d)), v2_default d)) table"
| "offered (SET_CORE_OPTIONS table) = map (\<lambda>d. (v1_key d, set (map fst (v1_values d)), v1_default d)) table"
| "offered (SET_VARIABLES table) = map (\<lambda>(key, entry). (key, set (legacy_values entry), hd (legacy_values entry))) table"

lemma offered_table:
  "offered (dualboy_options_register answer) =
     map (\<lambda>d. (v2_key d, set (listed_values d), v2_default d)) option_v2_definitions"
proof -
  have "offered (SET_VARIABLES option_legacy_definitions) = offered (SET_CORE_OPTIONS option_v1_definitions)"
    by (simp add: option_v1_definitions_def option_legacy_definitions_def legacy_values_def insert_commute)
  moreover have "offered (SET_CORE_OPTIONS option_v1_definitions) =
      offered (SET_CORE_OPTIONS_V2 option_categories option_v2_definitions)"
    by (simp add: option_v1_definitions_def option_v2_definitions_def)
  ultimately have "offered (dualboy_options_register answer) =
      offered (SET_CORE_OPTIONS_V2 option_categories option_v2_definitions)"
    by (simp only: dualboy_options_register_def Let_def split: if_split) simp
  then show ?thesis by (simp add: listed_values_def)
qed

lemma offered_initial:
  "map (\<lambda>d. (v2_key d, v2_default d)) option_v2_definitions =
     [(DUALBOY_OPTION_MODE, ''dual''), (DUALBOY_OPTION_LAYOUT, ''side_by_side''),
      (DUALBOY_OPTION_NDS_RENDERER, ''software''), (DUALBOY_OPTION_LINK, ''enabled''),
      (DUALBOY_OPTION_PLAYER1_CONTROLLER, ''port1''), (DUALBOY_OPTION_PLAYER2_CONTROLLER, ''port2''),
      (DUALBOY_OPTION_SWAP_SCREENS, ''disabled''), (DUALBOY_OPTION_AUDIO, ''player1'')]"
  by (simp add: option_v2_definitions_def)

lemma offered_keys:
  "map v2_key option_v2_definitions =
     [DUALBOY_OPTION_MODE, DUALBOY_OPTION_LAYOUT, DUALBOY_OPTION_NDS_RENDERER, DUALBOY_OPTION_LINK,
      DUALBOY_OPTION_PLAYER1_CONTROLLER, DUALBOY_OPTION_PLAYER2_CONTROLLER, DUALBOY_OPTION_SWAP_SCREENS, DUALBOY_OPTION_AUDIO]"
  by (simp add: option_v2_definitions_def)

lemma initial_listed: "d \<in> set option_v2_definitions \<Longrightarrow> v2_default d \<in> set (listed_values d)"
proof -
  have "list_all (\<lambda>d. v2_default d \<in> set (listed_values d)) option_v2_definitions"
    by (simp add: option_v2_definitions_def listed_values_def)
  then show "d \<in> set option_v2_definitions \<Longrightarrow> v2_default d \<in> set (listed_values d)" by (simp add: list_all_iff)
qed

lemma listed_value_read:
  assumes "d \<in> set option_v2_definitions" and "v \<in> set (listed_values d)" and "environment (v2_key d) = Some v"
  shows "option_text (snd (dualboy_options_read environment previous)) (v2_key d) = Some v"
proof -
  obtain changed current where read: "dualboy_options_read environment previous = (changed, current)" by fastforce
  from assms(1) have "(v2_key d, listed_values d) \<in> set (map (\<lambda>d. (v2_key d, listed_values d)) option_v2_definitions)"
    by simp
  from bspec [OF options_read_text [OF read] this] obtain old where
    "option_text current (v2_key d) = Some (taken (environment (v2_key d)) (listed_values d) old)" by auto
  with assms(2,3) show ?thesis by (simp add: read taken_def)
qed

lemma initial_values_read:
  assumes "env DUALBOY_OPTION_MODE = Some ''dual''" and "env DUALBOY_OPTION_LAYOUT = Some ''side_by_side''"
    and "env DUALBOY_OPTION_NDS_RENDERER = Some ''software''" and "env DUALBOY_OPTION_LINK = Some ''enabled''"
    and "env DUALBOY_OPTION_PLAYER1_CONTROLLER = Some ''port1''" and "env DUALBOY_OPTION_PLAYER2_CONTROLLER = Some ''port2''"
    and "env DUALBOY_OPTION_SWAP_SCREENS = Some ''disabled''" and "env DUALBOY_OPTION_AUDIO = Some ''player1''"
  shows "snd (dualboy_options_read env previous) = dualboy_options_set_defaults"
  by (simp add: dualboy_options_read_def Let_def read_mode_def read_layout_def read_link_def
      read_nds_renderer_def read_swap_screens_def read_audio_source_def read_controller_ports_def
      read_controller_port_def option_value_def port_values_def dualboy_options_set_defaults_def assms)

text \<open>
  Whichever of the three interfaces a frontend has, its user is offered the same options: the
  same keys in the same order, each once, with the same values and initial values, and they are
  exactly the settings the core has. Every offered value can be selected: reading it back gives the
  setting that value. The initial values lead, from any settings, to the defaults of the core.
\<close>

theorem option_tables_agree:
  assumes "offer = offered (dualboy_options_register answer)"
  shows "offer = offered (dualboy_options_register other) \<and>
    distinct (map fst offer) \<and> (\<forall>options. set (map fst offer) = dom (option_text options)) \<and>
    (\<forall>(key, offered_values, initial) \<in> set offer. initial \<in> offered_values \<and>
       (\<forall>v \<in> offered_values. \<forall>environment previous. environment key = Some v \<longrightarrow>
          option_text (snd (dualboy_options_read environment previous)) key = Some v)) \<and>
    (\<forall>previous. snd (dualboy_options_read (map_of (map (\<lambda>(key, offered_values, initial). (key, initial)) offer)) previous) =
       dualboy_options_set_defaults)"
proof (intro conjI allI)
  note offer = assms [unfolded offered_table]
  show "offer = offered (dualboy_options_register other)"
    by (simp only: offer offered_table)
  have keys: "map fst offer = map v2_key option_v2_definitions"
    unfolding offer by simp
  show "distinct (map fst offer)" unfolding keys offered_keys by (simp add: option_keys)
  show "set (map fst offer) = dom (option_text options)" for options
    unfolding keys offered_keys option_text_def dom_map_of_conv_image_fst by simp
  show "\<forall>(key, offered_values, initial) \<in> set offer. initial \<in> offered_values \<and>
      (\<forall>v \<in> offered_values. \<forall>environment previous. environment key = Some v \<longrightarrow>
         option_text (snd (dualboy_options_read environment previous)) key = Some v)"
    unfolding offer using initial_listed listed_value_read by auto
  have "map (\<lambda>(key, offered_values, initial). (key, initial)) offer = map (\<lambda>d. (v2_key d, v2_default d)) option_v2_definitions"
    unfolding offer by simp
  note initial = this [unfolded offered_initial]
  show "snd (dualboy_options_read (map_of (map (\<lambda>(key, offered_values, initial). (key, initial)) offer)) previous) =
      dualboy_options_set_defaults" for previous
    by (rule initial_values_read) (simp_all add: initial option_keys)
qed

theorem option_tables_agree_witness:
  "offered (SET_VARIABLES option_legacy_definitions) =
     offered (SET_CORE_OPTIONS_V2 option_categories option_v2_definitions) \<and>
   option_text (snd (dualboy_options_read [DUALBOY_OPTION_LAYOUT \<mapsto> ''top_bottom''] dualboy_options_set_defaults))
     DUALBOY_OPTION_LAYOUT = Some ''top_bottom''"
proof -
  have tables: "dualboy_options_register None = SET_VARIABLES option_legacy_definitions"
    "dualboy_options_register (Some 2) = SET_CORE_OPTIONS_V2 option_categories option_v2_definitions"
    by (simp_all add: dualboy_options_register_def)
  note result = option_tables_agree [OF refl, of None "Some 2"]
  have "(DUALBOY_OPTION_LAYOUT, {''side_by_side'', ''top_bottom''}, ''side_by_side'') \<in> set (offered (dualboy_options_register None))"
    by (simp add: offered_table option_v2_definitions_def listed_values_def)
  with result have "\<forall>v \<in> {''side_by_side'', ''top_bottom''}. \<forall>environment previous. environment DUALBOY_OPTION_LAYOUT = Some v \<longrightarrow>
      option_text (snd (dualboy_options_read environment previous)) DUALBOY_OPTION_LAYOUT = Some v"
    by (elim conjE) (drule (1) bspec, simp only: prod.case, elim conjE, assumption)
  then have "option_text (snd (dualboy_options_read [DUALBOY_OPTION_LAYOUT \<mapsto> ''top_bottom''] dualboy_options_set_defaults))
      DUALBOY_OPTION_LAYOUT = Some ''top_bottom''" by simp
  moreover from result have "offered (dualboy_options_register None) = offered (dualboy_options_register (Some 2))"
    by (elim conjE)
  ultimately show ?thesis unfolding tables by (rule conjI [rotated])
qed

end
