(* ===== verification/Libretro.thy ===== *)
theory Libretro
  imports Options Touch_Cursor Content Playlist State Save_Manager
begin

text \<open>
  The libretro layer, \<open>src/libretro/libretro_core.c\<close>, first part: its context, the services of the
  frontend, and what a frame needs: reading controllers and touch contacts, publishing the
  picture, the sound and the geometry.

  The frontend calls the core and answers its questions; it is not part of the repository. Its
  answers during one call are a \<open>frontend\<close> record, an argument of the operations, and what the core
  tells it is appended to \<open>calls\<close>. The numbers of the libretro interface the code depends on are
  the \<open>libretro_abi\<close> argument. Log messages, and the flags that keep them from being repeated, are
  left out. An operation is \<open>None\<close> when it reads or writes outside a buffer, dereferences a null
  pointer or frees memory it does not own.
\<close>

section \<open>The frontend\<close>

record libretro_abi =
  device_none :: u32
  device_joypad :: u32
  device_analog :: u32
  device_mask :: u32
  joypad_r2 :: nat
  joypad_r3 :: nat
  memory_save_ram :: u32
  memory_rtc :: u32

text \<open>The questions to \<open>input_state\<close>; the answers are 16-bit integers.\<close>

datatype input_query =
    JOYPAD_BUTTON nat nat
  | JOYPAD_BITMASK nat
  | ANALOG_RIGHT_X nat
  | ANALOG_RIGHT_Y nat
  | POINTER_PRESSED nat
  | POINTER_X nat
  | POINTER_Y nat

record frontend =
  variable_answer :: variables
  variables_updated :: bool
  options_version :: "nat option"
  offers_bitmasks :: bool
  offers_clock :: bool
  clock :: u64
  accepts_xrgb8888 :: bool
  system_directory_answer :: "string option"
  save_directory_answer :: "string option"
  input_answer :: "input_query \<Rightarrow> u16"

datatype frontend_call =
    REGISTER_INTERFACES option_registration
  | SET_VARIABLE string string
  | SET_GEOMETRY dualboy_geometry
  | SET_PIXEL_FORMAT_XRGB8888
  | SET_FASTFORWARDING_OVERRIDE bool
  | SHUTDOWN
  | INPUT_POLL
  | VIDEO_REFRESH bytes u32 u32 nat
  | AUDIO_SAMPLE_BATCH "(u16 \<times> u16) list"
  | AUDIO_SAMPLE u16 u16

section \<open>The context\<close>

definition DUALBOY_SUBSYSTEM_ID :: u32 where "DUALBOY_SUBSYSTEM_ID = 0x44554232"
definition DUALBOY_SLOT1_SRAM_ID :: u32 where "DUALBOY_SLOT1_SRAM_ID = 0x100"
definition DUALBOY_SLOT1_RTC_ID :: u32 where "DUALBOY_SLOT1_RTC_ID = 0x101"
definition DUALBOY_SLOT2_SRAM_ID :: u32 where "DUALBOY_SLOT2_SRAM_ID = 0x200"
definition DUALBOY_SLOT2_RTC_ID :: u32 where "DUALBOY_SLOT2_RTC_ID = 0x201"
definition DUALBOY_AUDIO_BUFFER_FRAMES :: nat where "DUALBOY_AUDIO_BUFFER_FRAMES = 4096"
definition DUALBOY_AUDIO_DRAIN_LIMIT :: nat where "DUALBOY_AUDIO_DRAIN_LIMIT = 16"
definition DUALBOY_ROM_FILE_LIMIT :: nat where "DUALBOY_ROM_FILE_LIMIT = 512 * 1024 * 1024"
definition DUALBOY_DEFAULT_SAMPLE_RATE :: nat where "DUALBOY_DEFAULT_SAMPLE_RATE = 48000"
definition DUALBOY_NDS_SCREEN_WIDTH :: u32 where "DUALBOY_NDS_SCREEN_WIDTH = 256"
definition DUALBOY_NDS_SCREEN_HEIGHT :: u32 where "DUALBOY_NDS_SCREEN_HEIGHT = 192"
definition DUALBOY_POINTER_CONTACT_LIMIT :: nat where "DUALBOY_POINTER_CONTACT_LIMIT = 16"
definition DUALBOY_PLAYER1_CURSOR_COLOR :: u32 where "DUALBOY_PLAYER1_CURSOR_COLOR = 0x0000dfff"
definition DUALBOY_PLAYER2_CURSOR_COLOR :: u32 where "DUALBOY_PLAYER2_CURSOR_COLOR = 0x00ffb000"
definition DUALBOY_MAX_COMPOSITE_WIDTH :: u32 where "DUALBOY_MAX_COMPOSITE_WIDTH = 512"
definition DUALBOY_MAX_COMPOSITE_HEIGHT :: u32 where "DUALBOY_MAX_COMPOSITE_HEIGHT = 768"

text \<open>
  Callback pointers are only ever tested and called, so a flag tells whether one is set. The heap,
  the files and the lock files are the \<open>world\<close> of the save manager.
\<close>

record 'p dualboy_libretro_context =
  environment :: bool
  video :: bool
  audio :: bool
  audio_batch :: bool
  input_poll :: bool
  input_state :: bool
  core_session :: "'p dualboy_session"
  saves :: dualboy_save_manager
  options :: dualboy_options
  last_geometry :: dualboy_geometry
  touch_cursors :: "dualboy_touch_cursor \<times> dualboy_touch_cursor"
  port_devices :: "u32 list"
  core_system_directory :: string
  core_save_directory :: string
  audio_buffer :: "(u16 \<times> u16) list"
  presentation_buffer :: bytes
  get_time_usec :: bool
  frontend_link_value :: bool
  frontend_link_known :: bool
  pending_link_value :: bool
  link_request_pending :: bool
  input_bitmasks :: bool
  geometry_valid :: bool
  fastforward_override_known :: bool
  fastforward_inhibited :: bool
  core_initialized :: bool
  loaded_nds_renderer :: dualboy_video_renderer
  world :: save_world
  calls :: "frontend_call list"

definition emit :: "frontend_call \<Rightarrow> 'p dualboy_libretro_context \<Rightarrow> 'p dualboy_libretro_context" where
  "emit call core = core\<lparr>calls := calls core @ [call]\<rparr>"

definition environment_call :: "frontend_call \<Rightarrow> 'p dualboy_libretro_context \<Rightarrow> 'p dualboy_libretro_context" where
  "environment_call call core = (if environment core then emit call core else core)"

section \<open>Controllers\<close>

definition port_has_controller :: "libretro_abi \<Rightarrow> 'p dualboy_libretro_context \<Rightarrow> nat \<Rightarrow> bool" where
  "port_has_controller abi core port =
     (let device = (if port < DUALBOY_CONTROLLER_PORT_COUNT then port_devices core ! port AND device_mask abi else device_none abi)
      in device = device_joypad abi \<or> device = device_analog abi)"

definition read_port_button_mask :: "libretro_abi \<Rightarrow> frontend \<Rightarrow> 'p dualboy_libretro_context \<Rightarrow> nat \<Rightarrow> u16" where
  "read_port_button_mask abi f core port =
     (if \<not> input_state core \<or> \<not> port_has_controller abi core port then 0
      else if input_bitmasks core then input_answer f (JOYPAD_BITMASK port)
      else fold (\<lambda>id buttons. if input_answer f (JOYPAD_BUTTON port id) \<noteq> 0 then buttons OR push_bit id 1 else buttons)
             [0..<Suc (joypad_r3 abi)] 0)"

definition normalized_coordinate :: "u16 \<Rightarrow> u32 \<Rightarrow> u32" where
  "normalized_coordinate coordinate extent =
     (let scaled = scast coordinate + 0x8000 :: u32
      in if extent \<le> 1 then 0 else ucast (ucast scaled * ucast extent div 0x10000 :: u64))"

definition nds_session_loaded :: "'p dualboy_libretro_context \<Rightarrow> bool" where
  "nds_session_loaded core \<longleftrightarrow>
     loaded (core_session core) \<and> rom_platform (orom (fst (roms (core_session core)))) = DUALBOY_PLATFORM_NDS"

text \<open>The time when there is a clock and it is not negative.\<close>

definition touch_cursor_time :: "frontend \<Rightarrow> 'p dualboy_libretro_context \<Rightarrow> u64 option" where
  "touch_cursor_time f core =
     (if \<not> get_time_usec core then None
      else if sint (clock f) < 0 then None
      else Some (clock f))"

definition cursor_of :: "'p dualboy_libretro_context \<Rightarrow> nat \<Rightarrow> dualboy_touch_cursor" where
  "cursor_of core machine = (if machine = 0 then fst (touch_cursors core) else snd (touch_cursors core))"

definition set_cursor :: "nat \<Rightarrow> dualboy_touch_cursor \<Rightarrow> 'p dualboy_libretro_context \<Rightarrow> 'p dualboy_libretro_context" where
  "set_cursor machine cursor core =
     core\<lparr>touch_cursors := (if machine = 0 then (cursor, snd (touch_cursors core)) else (fst (touch_cursors core), cursor))\<rparr>"

definition reset_touch_cursors :: "'p dualboy_libretro_context \<Rightarrow> 'p dualboy_libretro_context" where
  "reset_touch_cursors core = set_cursor 1 zero_cursor (set_cursor 0 zero_cursor core)"

text \<open>Far enough from the centre to count as moved when the cursor is first seen.\<close>

definition initially_deflected :: "u16 \<Rightarrow> u16 \<Rightarrow> bool" where
  "initially_deflected x y \<longleftrightarrow>
     unat x + unat DUALBOY_TOUCH_CURSOR_MOTION_PIXELS \<le> unat DUALBOY_NDS_SCREEN_WIDTH div 2 \<or>
     unat x \<ge> unat DUALBOY_NDS_SCREEN_WIDTH div 2 + unat DUALBOY_TOUCH_CURSOR_MOTION_PIXELS \<or>
     unat y + unat DUALBOY_TOUCH_CURSOR_MOTION_PIXELS \<le> unat DUALBOY_NDS_SCREEN_HEIGHT div 2 \<or>
     unat y \<ge> unat DUALBOY_NDS_SCREEN_HEIGHT div 2 + unat DUALBOY_TOUCH_CURSOR_MOTION_PIXELS"

definition read_machine_input ::
  "libretro_abi \<Rightarrow> frontend \<Rightarrow> nat \<Rightarrow> nat \<Rightarrow> u64 option \<Rightarrow> 'p dualboy_libretro_context
   \<Rightarrow> dualboy_machine_input \<times> 'p dualboy_libretro_context" where
  "read_machine_input abi f machine port time core =
     (let button_mask = read_port_button_mask abi f core port;
          input = \<lparr>buttons = button_mask AND 0x0fff, touch_active = False, touch_x = 0, touch_y = 0\<rparr>
      in if nds_session_loaded core \<and> input_state core \<and> port_has_controller abi core port
         then let stick_pressed = bit button_mask (joypad_r3 abi);
                  trigger_pressed = bit button_mask (joypad_r2 abi);
                  x = ucast (normalized_coordinate (input_answer f (ANALOG_RIGHT_X port)) DUALBOY_NDS_SCREEN_WIDTH);
                  y = ucast (normalized_coordinate (input_answer f (ANALOG_RIGHT_Y port)) DUALBOY_NDS_SCREEN_HEIGHT);
                  cursor = update_cursor (cursor_of core machine) x y (initially_deflected x y) stick_pressed
                    (time \<noteq> None) (case time of None \<Rightarrow> 0 | Some now \<Rightarrow> now);
                  core' = set_cursor machine cursor core
              in if stick_pressed \<or> trigger_pressed \<and> visible cursor
                 then (input\<lparr>touch_active := True, touch_x := x, touch_y := y\<rparr>, core')
                 else (input, core')
         else (input, if machine < DUALBOY_MACHINE_COUNT then set_cursor machine zero_cursor core else core))"


section \<open>Touch contacts\<close>

type_synonym inputs = "dualboy_machine_input \<times> dualboy_machine_input"

definition touch_at :: "u32 \<Rightarrow> u32 \<Rightarrow> dualboy_machine_input \<Rightarrow> dualboy_machine_input" where
  "touch_at x y input = input\<lparr>touch_active := True, touch_x := ucast x, touch_y := ucast (y - DUALBOY_NDS_SCREEN_HEIGHT)\<rparr>"

fun contact_loop ::
  "frontend \<Rightarrow> frames \<Rightarrow> dualboy_compositor_config \<Rightarrow> dualboy_geometry \<Rightarrow> nat list \<Rightarrow> inputs \<Rightarrow> bool \<times> bool
   \<Rightarrow> inputs \<times> (bool \<times> bool)" where
  "contact_loop f frames config geometry [] inputs assigned = (inputs, assigned)"
| "contact_loop f frames config geometry (index # rest) inputs assigned =
     (if input_answer f (POINTER_PRESSED index) = 0 then (inputs, assigned)
      else let composite_x = normalized_coordinate (input_answer f (POINTER_X index)) (gwidth geometry);
               composite_y = normalized_coordinate (input_answer f (POINTER_Y index)) (gheight geometry);
               continue = contact_loop f frames config geometry rest
           in case dualboy_compositor_map_point frames config composite_x composite_y of
                None \<Rightarrow> continue inputs assigned
              | Some (machine, machine_x, machine_y) \<Rightarrow>
                if machine \<ge> DUALBOY_MACHINE_COUNT \<or> (if machine = 0 then fst assigned else snd assigned) \<or>
                   machine_x \<ge> DUALBOY_NDS_SCREEN_WIDTH \<or> machine_y < DUALBOY_NDS_SCREEN_HEIGHT \<or>
                   machine_y \<ge> DUALBOY_NDS_SCREEN_HEIGHT * 2
                then continue inputs assigned
                else if machine = 0
                then continue (touch_at machine_x machine_y (fst inputs), snd inputs) (True, snd assigned)
                else continue (fst inputs, touch_at machine_x machine_y (snd inputs)) (fst assigned, True))"

text \<open>The frames of both machines, and the pair after asking for them; \<open>None\<close> inside when there are none.\<close>

definition machine_frames :: "'p dualboy_session \<Rightarrow> (frames option \<times> 'p dualboy_session) option" where
  "machine_frames session =
     (case engine session of
        None \<Rightarrow> Some (None, session)
      | Some ops \<Rightarrow>
        if video_frame ops = None then Some (None, session)
        else do {
          (address, p) \<leftarrow> pair session;
          (frames, p') \<leftarrow> read_frames ops p;
          Some (frames, session\<lparr>pair := Some (address, p')\<rparr>)
        })"

definition apply_pointer_contacts ::
  "frontend \<Rightarrow> dualboy_compositor_config \<Rightarrow> inputs \<Rightarrow> 'p dualboy_libretro_context
   \<Rightarrow> (inputs \<times> (bool \<times> bool) \<times> 'p dualboy_libretro_context) option" where
  "apply_pointer_contacts f config inputs core =
     (if \<not> nds_session_loaded core \<or> \<not> input_state core then Some (inputs, (False, False), core)
      else do {
        (frames, session) \<leftarrow> machine_frames (core_session core);
        let core' = core\<lparr>core_session := session\<rparr>
        in case frames of
             None \<Rightarrow> Some (inputs, (False, False), core')
           | Some both \<Rightarrow>
             (case dualboy_compositor_geometry both config of
                None \<Rightarrow> Some (inputs, (False, False), core')
              | Some geometry \<Rightarrow>
                (case contact_loop f both config geometry [0..<DUALBOY_POINTER_CONTACT_LIMIT] inputs (False, False) of
                   (inputs', assigned) \<Rightarrow> Some (inputs', assigned, core')))
      })"

section \<open>Picture, sound and geometry\<close>

definition cursor_position ::
  "frames \<Rightarrow> 'p dualboy_libretro_context \<Rightarrow> nat \<Rightarrow> bool \<Rightarrow> (u32 \<times> u32) option" where
  "cursor_position frames core machine assigned =
     (if \<not> assigned \<and> visible (cursor_of core machine)
      then dualboy_compositor_project_point frames (display (core_session core)) machine
             (ucast (cx (cursor_of core machine))) (DUALBOY_NDS_SCREEN_HEIGHT + ucast (cy (cursor_of core machine)))
      else None)"

definition copy_presentation_row :: "bytes \<Rightarrow> dualboy_video_frame \<Rightarrow> nat \<Rightarrow> bytes \<Rightarrow> bytes option" where
  "copy_presentation_row source frame row buffer = do {
     content \<leftarrow> slice source (row * pitch frame) (unat (width frame) * 4);
     blit buffer (row * unat (width frame) * 4) content
   }"

definition draw_cursor_at :: "dualboy_video_frame \<Rightarrow> u32 \<Rightarrow> (u32 \<times> u32) option \<Rightarrow> bytes \<Rightarrow> bytes option" where
  "draw_cursor_at frame accent position buffer =
     (case position of
        None \<Rightarrow> Some buffer
      | Some (x, y) \<Rightarrow> do {
          (_, buffer') \<leftarrow> dualboy_compositor_draw_cursor (Some buffer) (width frame) (height frame)
            (unat (width frame) * 4) x y accent;
          buffer'
        })"

definition publish_video_with_touch_cursors ::
  "bool \<times> bool \<Rightarrow> 'p dualboy_libretro_context \<Rightarrow> 'p dualboy_libretro_context option" where
  "publish_video_with_touch_cursors pointer_assigned core =
     (case composite (core_session core) of
        None \<Rightarrow> Some core
      | Some frame \<Rightarrow>
        (case pixels frame of
           None \<Rightarrow> Some core
         | Some source \<Rightarrow>
           if \<not> video core \<or> width frame = 0 \<or> height frame = 0 \<or>
              width frame > DUALBOY_MAX_COMPOSITE_WIDTH \<or> height frame > DUALBOY_MAX_COMPOSITE_HEIGHT \<or>
              pitch frame < unat (width frame) * 4
           then Some core
           else let plain = (\<lambda>core. Some (emit (VIDEO_REFRESH source (width frame) (height frame) (pitch frame)) core))
                in if \<not> nds_session_loaded core then plain core
                   else do {
                     (frames, session) \<leftarrow> machine_frames (core_session core);
                     let core' = core\<lparr>core_session := session\<rparr>
                     in case frames of
                          None \<Rightarrow> plain core'
                        | Some both \<Rightarrow>
                          let position0 = cursor_position both core' 0 (fst pointer_assigned);
                              position1 = cursor_position both core' 1 (snd pointer_assigned)
                          in if position0 = None \<and> position1 = None then plain core'
                             else do {
                               copied \<leftarrow> fold_opt (copy_presentation_row source frame) [0..<unat (height frame)]
                                 (presentation_buffer core');
                               drawn0 \<leftarrow> draw_cursor_at frame DUALBOY_PLAYER1_CURSOR_COLOR position0 copied;
                               drawn1 \<leftarrow> draw_cursor_at frame DUALBOY_PLAYER2_CURSOR_COLOR position1 drawn0;
                               Some (emit (VIDEO_REFRESH drawn1 (width frame) (height frame) (unat (width frame) * 4))
                                 (core'\<lparr>presentation_buffer := drawn1\<rparr>))
                             }
                   }))"

definition publish_geometry :: "dualboy_geometry \<Rightarrow> 'p dualboy_libretro_context \<Rightarrow> 'p dualboy_libretro_context" where
  "publish_geometry geometry core =
     (if geometry_valid core \<and> geometry = last_geometry core then core
      else (environment_call (SET_GEOMETRY geometry) core)\<lparr>last_geometry := geometry, geometry_valid := True\<rparr>)"

definition fallback_geometry :: "'p dualboy_libretro_context \<Rightarrow> dualboy_geometry" where
  "fallback_geometry core =
     (let rom_kind = rom_platform (orom (fst (roms (core_session core))));
          (native_width, native_height) =
            (if loaded (core_session core) \<and> rom_kind = DUALBOY_PLATFORM_NDS
             then (DUALBOY_NDS_SCREEN_WIDTH, DUALBOY_NDS_SCREEN_HEIGHT * 2)
             else if loaded (core_session core) \<and> rom_kind = DUALBOY_PLATFORM_GBA then (240, 160)
             else (160, 144))
      in if opt_mode (options core) \<noteq> DUALBOY_MODE_DUAL then \<lparr>gwidth = native_width, gheight = native_height\<rparr>
         else if opt_layout (options core) = DUALBOY_LAYOUT_TOP_BOTTOM
         then \<lparr>gwidth = native_width, gheight = native_height * 2\<rparr>
         else \<lparr>gwidth = native_width * 2, gheight = native_height\<rparr>)"

text \<open>One pass fills the start of the audio buffer and hands on what it reports.\<close>

definition hand_on_audio :: "(u16 \<times> u16) list \<Rightarrow> 'p dualboy_libretro_context \<Rightarrow> 'p dualboy_libretro_context" where
  "hand_on_audio frames core =
     (if \<not> audio_player1 (options core) then core
      else if audio_batch core then emit (AUDIO_SAMPLE_BATCH frames) core
      else if audio core then core\<lparr>calls := calls core @ map (\<lambda>(l, r). AUDIO_SAMPLE l r) frames\<rparr>
      else core)"

fun drain_loop ::
  "('p \<Rightarrow> nat \<Rightarrow> (nat \<times> (u16 \<times> u16) list) \<times> 'p) \<Rightarrow> nat \<Rightarrow> 'p \<Rightarrow> 'p dualboy_libretro_context
   \<Rightarrow> ('p \<times> 'p dualboy_libretro_context) option" where
  "drain_loop reader 0 p core = Some (p, core)"
| "drain_loop reader (Suc passes) p core =
     (case reader p DUALBOY_AUDIO_BUFFER_FRAMES of
        ((reported, written), p') \<Rightarrow>
          if length written > DUALBOY_AUDIO_BUFFER_FRAMES then None
          else let buffer = written @ drop (length written) (audio_buffer core);
                   core1 = core\<lparr>audio_buffer := buffer\<rparr>;
                   frames = min reported DUALBOY_AUDIO_BUFFER_FRAMES
               in if reported = 0 then Some (p', core1)
                  else let core2 = hand_on_audio (take frames buffer) core1
                       in if frames < DUALBOY_AUDIO_BUFFER_FRAMES then Some (p', core2)
                          else drain_loop reader passes p' core2)"

definition drain_audio :: "'p dualboy_libretro_context \<Rightarrow> 'p dualboy_libretro_context option" where
  "drain_audio core =
     (case engine (core_session core) of
        None \<Rightarrow> Some core
      | Some ops \<Rightarrow>
        (case read_audio ops of
           None \<Rightarrow> Some core
         | Some reader \<Rightarrow> do {
             (address, p) \<leftarrow> pair (core_session core);
             (p', core') \<leftarrow> drain_loop reader DUALBOY_AUDIO_DRAIN_LIMIT p core;
             Some (core'\<lparr>core_session := (core_session core')\<lparr>pair := Some (address, p')\<rparr>\<rparr>)
           }))"

definition resolve_memory :: "libretro_abi \<Rightarrow> u32 \<Rightarrow> region option" where
  "resolve_memory abi memory_id =
     (if memory_id = memory_save_ram abi \<or> memory_id = DUALBOY_SLOT1_SRAM_ID then Some (0, DUALBOY_MEMORY_SAVE_RAM)
      else if memory_id = memory_rtc abi \<or> memory_id = DUALBOY_SLOT1_RTC_ID then Some (0, DUALBOY_MEMORY_RTC)
      else if memory_id = DUALBOY_SLOT2_SRAM_ID then Some (1, DUALBOY_MEMORY_SAVE_RAM)
      else if memory_id = DUALBOY_SLOT2_RTC_ID then Some (1, DUALBOY_MEMORY_RTC)
      else None)"

end
