(* ===== verification/Libretro_Core.thy ===== *)
theory Libretro_Core
  imports Libretro
begin

text \<open>
  The libretro layer, \<open>src/libretro/libretro_core.c\<close>, second part: changes of the link and of the
  renderer, loading and unloading of content, and the entry points the frontend calls.
\<close>

section \<open>Renderer\<close>

definition force_core_option :: "string \<Rightarrow> string \<Rightarrow> 'p dualboy_libretro_context \<Rightarrow> 'p dualboy_libretro_context" where
  "force_core_option key v core = environment_call (SET_VARIABLE key v) core"

definition melonds_loaded :: "'p dualboy_libretro_context \<Rightarrow> bool" where
  "melonds_loaded core \<longleftrightarrow> loaded (core_session core) \<and>
     (\<exists>ops \<in> set_option (engine (core_session core)). family ops = DUALBOY_ENGINE_MELONDS)"

definition set_loaded_renderer ::
  "dualboy_video_renderer \<Rightarrow> 'p dualboy_libretro_context \<Rightarrow> (bool \<times> 'p dualboy_libretro_context) option" where
  "set_loaded_renderer renderer core =
     (if \<not> melonds_loaded core then Some (True, core)
      else do {
        ops \<leftarrow> engine (core_session core);
        case set_video_renderer ops of
          None \<Rightarrow> Some (False, core)
        | Some change \<Rightarrow> do {
            (address, p) \<leftarrow> pair (core_session core);
            let (ok, p') = change p renderer
            in Some (ok, core\<lparr>core_session := (core_session core)\<lparr>pair := Some (address, p')\<rparr>\<rparr>)
          }
      })"

definition force_software_renderer :: "'p dualboy_libretro_context \<Rightarrow> 'p dualboy_libretro_context" where
  "force_software_renderer core =
     force_core_option DUALBOY_OPTION_NDS_RENDERER ''software''
       (core\<lparr>loaded_nds_renderer := DUALBOY_VIDEO_RENDERER_SOFTWARE,
             options := (options core)\<lparr>nds_renderer := DUALBOY_VIDEO_RENDERER_SOFTWARE\<rparr>\<rparr>)"

text \<open>The renderer the engine reports; \<open>None\<close> inside when it does not report one.\<close>

definition reported_renderer :: "'p dualboy_libretro_context \<Rightarrow> dualboy_video_renderer option option" where
  "reported_renderer core =
     (case engine (core_session core) of
        None \<Rightarrow> Some None
      | Some ops \<Rightarrow>
        (case video_renderer ops of
           None \<Rightarrow> Some None
         | Some report \<Rightarrow> do { (address, p) \<leftarrow> pair (core_session core); Some (Some (report p)) }))"

definition activate_loaded_gl_renderer :: "'p dualboy_libretro_context \<Rightarrow> (bool \<times> 'p dualboy_libretro_context) option" where
  "activate_loaded_gl_renderer core =
     (if \<not> melonds_loaded core \<or> nds_renderer (options core) \<noteq> DUALBOY_VIDEO_RENDERER_OPENGL then Some (True, core)
      else do {
        (ok, core1) \<leftarrow> set_loaded_renderer DUALBOY_VIDEO_RENDERER_OPENGL core;
        if ok then Some (True, core1\<lparr>loaded_nds_renderer := DUALBOY_VIDEO_RENDERER_OPENGL\<rparr>)
        else do {
          report \<leftarrow> reported_renderer core1;
          if report \<noteq> None \<and> report \<noteq> Some DUALBOY_VIDEO_RENDERER_SOFTWARE
          then Some (False, core1\<lparr>loaded_nds_renderer := DUALBOY_VIDEO_RENDERER_OPENGL\<rparr>)
          else Some (True, force_software_renderer core1)
        }
      })"

definition deactivate_loaded_gl_renderer :: "'p dualboy_libretro_context \<Rightarrow> (bool \<times> 'p dualboy_libretro_context) option" where
  "deactivate_loaded_gl_renderer core = do {
     report \<leftarrow> (if loaded (core_session core) then reported_renderer core else Some None);
     (released, core1) \<leftarrow>
       (if report = Some DUALBOY_VIDEO_RENDERER_OPENGL
        then do {
          (ok, core1) \<leftarrow> set_loaded_renderer DUALBOY_VIDEO_RENDERER_SOFTWARE core;
          report1 \<leftarrow> (if ok then Some (Some DUALBOY_VIDEO_RENDERER_SOFTWARE) else reported_renderer core1);
          Some (report1 = Some DUALBOY_VIDEO_RENDERER_SOFTWARE, core1)
        }
        else Some (True, core));
     Some (released, core1\<lparr>loaded_nds_renderer :=
       (if released then DUALBOY_VIDEO_RENDERER_SOFTWARE else DUALBOY_VIDEO_RENDERER_OPENGL)\<rparr>)
   }"

section \<open>Services and directories\<close>

definition refresh_frontend_services :: "frontend \<Rightarrow> 'p dualboy_libretro_context \<Rightarrow> 'p dualboy_libretro_context" where
  "refresh_frontend_services f core =
     core\<lparr>get_time_usec := environment core \<and> offers_clock f, input_bitmasks := environment core \<and> offers_bitmasks f\<rparr>"

definition register_environment_interfaces :: "frontend \<Rightarrow> 'p dualboy_libretro_context \<Rightarrow> 'p dualboy_libretro_context" where
  "register_environment_interfaces f core =
     environment_call (REGISTER_INTERFACES (dualboy_options_register (options_version f))) core"

definition copy_directory :: "nat \<Rightarrow> string option \<Rightarrow> string option" where
  "copy_directory capacity source =
     (case source of
        None \<Rightarrow> None
      | Some text \<Rightarrow> if capacity = 0 \<or> text = [] \<or> length text \<ge> capacity then None else Some text)"

definition given_directory :: "string option \<Rightarrow> string \<Rightarrow> string" where
  "given_directory answer otherwise = (case answer of None \<Rightarrow> otherwise | Some text \<Rightarrow> if text = [] then otherwise else text)"

definition query_directories :: "frontend \<Rightarrow> 'p dualboy_libretro_context \<Rightarrow> bool \<times> 'p dualboy_libretro_context" where
  "query_directories f core =
     (let ask = (\<lambda>answer. if environment core then answer else None);
          system = given_directory (ask (system_directory_answer f)) ''.'';
          save = given_directory (ask (save_directory_answer f)) system;
          core1 = core\<lparr>core_system_directory := '''', core_save_directory := ''''\<rparr>
      in case copy_directory DUALBOY_PATH_CAPACITY (Some system) of
           None \<Rightarrow> (False, core1)
         | Some system_copy \<Rightarrow>
           let core2 = core1\<lparr>core_system_directory := system_copy\<rparr>
           in (case copy_directory DUALBOY_PATH_CAPACITY (Some save) of
                 None \<Rightarrow> (False, core2)
               | Some save_copy \<Rightarrow> (True, core2\<lparr>core_save_directory := save_copy\<rparr>)))"

definition current_display :: "'p dualboy_libretro_context \<Rightarrow> dualboy_compositor_config" where
  "current_display core =
     \<lparr>mode = opt_mode (options core), layout = opt_layout (options core), swap_screens = opt_swap_screens (options core)\<rparr>"

definition read_initial_options :: "frontend \<Rightarrow> 'p dualboy_libretro_context \<Rightarrow> 'p dualboy_libretro_context" where
  "read_initial_options f core =
     (let options1 = (if frontend_link_known core
            then (options core)\<lparr>opt_link_enabled := frontend_link_value core\<rparr> else options core);
          options2 = (if environment core then snd (dualboy_options_read (variable_answer f) options1) else options1)
      in core\<lparr>options := options2, frontend_link_value := opt_link_enabled options2, frontend_link_known := True,
              link_request_pending := False\<rparr>)"

definition initialize_port_devices :: "libretro_abi \<Rightarrow> 'p dualboy_libretro_context \<Rightarrow> 'p dualboy_libretro_context" where
  "initialize_port_devices abi core = core\<lparr>port_devices := replicate DUALBOY_CONTROLLER_PORT_COUNT (device_joypad abi)\<rparr>"

definition ensure_initialized :: "libretro_abi \<Rightarrow> frontend \<Rightarrow> 'p dualboy_libretro_context \<Rightarrow> 'p dualboy_libretro_context" where
  "ensure_initialized abi f core =
     (if core_initialized core then core
      else let core1 = initialize_port_devices abi
             (core\<lparr>core_session := dualboy_session_init, options := dualboy_options_set_defaults\<rparr>)
           in (read_initial_options f (refresh_frontend_services f core1))\<lparr>core_initialized := True\<rparr>)"

section \<open>Fast-forward\<close>

definition transport_requires_realtime :: "'p dualboy_libretro_context \<Rightarrow> bool option" where
  "transport_requires_realtime core =
     (if \<not> loaded (core_session core) then Some False
      else case engine (core_session core) of
        None \<Rightarrow> Some False
      | Some ops \<Rightarrow>
        (case link_transport_active ops of
           None \<Rightarrow> Some False
         | Some active \<Rightarrow> do { (address, p) \<leftarrow> pair (core_session core); Some (active p) }))"

definition set_fastforward_inhibition :: "bool \<Rightarrow> 'p dualboy_libretro_context \<Rightarrow> 'p dualboy_libretro_context" where
  "set_fastforward_inhibition inhibit core =
     (if \<not> fastforward_override_known core \<and> \<not> inhibit then core
      else if fastforward_override_known core \<and> fastforward_inhibited core = inhibit then core
      else environment_call (SET_FASTFORWARDING_OVERRIDE inhibit)
             (core\<lparr>fastforward_override_known := True, fastforward_inhibited := inhibit\<rparr>))"

definition synchronize_fastforward_policy :: "'p dualboy_libretro_context \<Rightarrow> 'p dualboy_libretro_context option" where
  "synchronize_fastforward_policy core = do {
     inhibit \<leftarrow> transport_requires_realtime core;
     Some (if inhibit \<or> fastforward_override_known core \<and> fastforward_inhibited core
           then set_fastforward_inhibition inhibit core else core)
   }"

section \<open>Unloading\<close>

text \<open>Giving the saves and the session back to the world.\<close>

definition release_session :: "'p dualboy_libretro_context \<Rightarrow> 'p dualboy_libretro_context option" where
  "release_session core = do {
     (manager, w) \<leftarrow> dualboy_save_manager_deinit (saves core) (world core);
     (session, h) \<leftarrow> dualboy_session_unload (core_session core) (memory w);
     Some (core\<lparr>saves := manager, core_session := session, world := w\<lparr>memory := h\<rparr>\<rparr>)
   }"

definition flush_saves :: "'p dualboy_libretro_context \<Rightarrow> 'p dualboy_libretro_context option" where
  "flush_saves core = do {
     (ok, manager, session, w) \<leftarrow> dualboy_save_manager_flush (saves core) (core_session core) (world core);
     Some (core\<lparr>saves := manager, core_session := session, world := w\<rparr>)
   }"

definition unload_current :: "'p dualboy_libretro_context \<Rightarrow> 'p dualboy_libretro_context option" where
  "unload_current core =
     (let core1 = set_fastforward_inhibition False core in do {
       core2 \<leftarrow> (if initialized (saves core1) \<and> loaded (core_session core1) then flush_saves core1 else Some core1);
       (released, core3) \<leftarrow> deactivate_loaded_gl_renderer core2;
       core4 \<leftarrow> release_session core3;
       Some ((reset_touch_cursors core4)\<lparr>geometry_valid := False, loaded_nds_renderer := DUALBOY_VIDEO_RENDERER_SOFTWARE\<rparr>)
     })"

definition discard_current :: "'p dualboy_libretro_context \<Rightarrow> 'p dualboy_libretro_context option" where
  "discard_current core = do {
     (released, core1) \<leftarrow> deactivate_loaded_gl_renderer (set_fastforward_inhibition False core);
     core2 \<leftarrow> release_session core1;
     Some ((reset_touch_cursors core2)\<lparr>geometry_valid := False\<rparr>)
   }"


section \<open>Loading\<close>

definition set_pixel_format :: "frontend \<Rightarrow> 'p dualboy_libretro_context \<Rightarrow> bool \<times> 'p dualboy_libretro_context" where
  "set_pixel_format f core =
     (if \<not> environment core then (False, core) else (accepts_xrgb8888 f, emit SET_PIXEL_FORMAT_XRGB8888 core))"

definition content_identity :: "bytes \<Rightarrow> nat \<Rightarrow> u64 option" where
  "content_identity data n = fold_range fnv_step data 0 n fnv_offset"

definition hex_digit :: "u64 \<Rightarrow> char" where
  "hex_digit d = ''0123456789abcdef'' ! unat d"

text \<open>The conversion \<open>%016llx\<close>.\<close>

definition hex16 :: "u64 \<Rightarrow> string" where
  "hex16 v = map (\<lambda>i. hex_digit (drop_bit (4 * i) v AND 0xF)) (rev [0..<16])"

definition fallback_content_path :: "nat \<Rightarrow> dualboy_rom \<Rightarrow> (string option) option" where
  "fallback_content_path capacity rom =
     (if capacity = 0 then Some None
      else case rom_data rom of
        None \<Rightarrow> Some None
      | Some (address, data) \<Rightarrow>
        let extension = (if rom_platform rom = DUALBOY_PLATFORM_NDS then ''nds''
              else if rom_platform rom = DUALBOY_PLATFORM_GBA then ''gba''
              else if rom_platform rom = DUALBOY_PLATFORM_GBC then ''gbc'' else ''gb'')
        in do {
          hash \<leftarrow> content_identity data (rom_size rom);
          let text = ''dualboy-'' @ hex16 hash @ ''.'' @ extension
          in Some (if length text < capacity then Some text else None)
        })"

text \<open>The engines by family; the adapters are not modelled.\<close>

type_synonym 'p engines = "dualboy_engine_family \<Rightarrow> 'p dualboy_engine_ops option"

definition engine_for_family :: "'p engines \<Rightarrow> dualboy_engine_family \<Rightarrow> 'p dualboy_engine_ops option" where
  "engine_for_family engines kind =
     (if kind = DUALBOY_ENGINE_SAMEBOY then engines DUALBOY_ENGINE_SAMEBOY
      else if kind = DUALBOY_ENGINE_MGBA then engines DUALBOY_ENGINE_MGBA
      else if kind = DUALBOY_ENGINE_MELONDS then engines DUALBOY_ENGINE_MELONDS
      else None)"

definition path_missing :: "dualboy_rom \<Rightarrow> bool" where
  "path_missing rom \<longleftrightarrow> rom_path rom = None \<or> rom_path rom = Some []"

text \<open>Size limit and detection of one cartridge; \<open>None\<close> inside when it is rejected.\<close>

definition detect_rom :: "dualboy_rom \<Rightarrow> (dualboy_rom option) option" where
  "detect_rom rom =
     (if rom_size rom > DUALBOY_ROM_FILE_LIMIT then Some None
      else do {
        content \<leftarrow> (case rom_data rom of
            None \<Rightarrow> Some None
          | Some (address, data) \<Rightarrow> if rom_size rom \<le> length data then Some (Some (take (rom_size rom) data)) else None);
        detection \<leftarrow> dualboy_detect_content content;
        Some (if error detection \<noteq> DUALBOY_DETECT_OK then None else Some (rom\<lparr>rom_platform := platform detection\<rparr>))
      })"

definition same_cartridge :: "dualboy_rom \<Rightarrow> dualboy_rom \<Rightarrow> bool option" where
  "same_cartridge rom0 rom1 =
     (if rom_size rom0 \<noteq> rom_size rom1 then Some False
      else do {
        (address0, data0) \<leftarrow> rom_data rom0;
        (address1, data1) \<leftarrow> rom_data rom1;
        if address0 = address1 then Some True
        else do { a \<leftarrow> slice data0 0 (rom_size rom0); b \<leftarrow> slice data1 0 (rom_size rom0); Some (a = b) }
      })"

definition share_paths :: "bool \<Rightarrow> dualboy_rom \<times> dualboy_rom \<Rightarrow> dualboy_rom \<times> dualboy_rom" where
  "share_paths same both =
     (let (rom0, rom1) = both;
          rom0' = (if same \<and> path_missing rom0 \<and> \<not> path_missing rom1 then rom0\<lparr>rom_path := rom_path rom1\<rparr> else rom0);
          rom1' = (if same \<and> path_missing rom1 \<and> \<not> path_missing rom0' then rom1\<lparr>rom_path := rom_path rom0'\<rparr> else rom1)
      in (rom0', rom1'))"

definition ensure_path :: "dualboy_rom \<Rightarrow> (dualboy_rom option) option" where
  "ensure_path rom =
     (if \<not> path_missing rom then Some (Some rom)
      else do {
        path \<leftarrow> fallback_content_path 64 rom;
        Some (case path of None \<Rightarrow> None | Some text \<Rightarrow> Some (rom\<lparr>rom_path := Some text\<rparr>))
      })"

text \<open>OpenGL excludes the link.\<close>

definition prefer_renderer :: "dualboy_engine_family \<Rightarrow> 'p dualboy_libretro_context \<Rightarrow> 'p dualboy_libretro_context" where
  "prefer_renderer kind core =
     (let core1 = core\<lparr>loaded_nds_renderer := DUALBOY_VIDEO_RENDERER_SOFTWARE\<rparr>
      in if kind = DUALBOY_ENGINE_MELONDS \<and> nds_renderer (options core1) = DUALBOY_VIDEO_RENDERER_OPENGL \<and>
            opt_link_enabled (options core1)
         then force_core_option DUALBOY_OPTION_LINK ''disabled''
                (core1\<lparr>options := (options core1)\<lparr>opt_link_enabled := False\<rparr>, frontend_link_value := False,
                       frontend_link_known := True\<rparr>)
         else core1)"

text \<open>Loading of the session and its saves, with the cartridges ready.\<close>

definition start_session ::
  "'p dualboy_engine_ops \<Rightarrow> dualboy_rom \<times> dualboy_rom \<Rightarrow> bool \<times> bool \<Rightarrow> dualboy_load_kind
   \<Rightarrow> 'p dualboy_libretro_context \<Rightarrow> (bool \<times> 'p dualboy_libretro_context) option" where
  "start_session ops both missing kind core = do {
     (load_error, session, h) \<leftarrow> dualboy_session_load (core_session core) (Some ops)
       \<lparr>system_directory = Some (core_system_directory core), config_sample_rate = DUALBOY_DEFAULT_SAMPLE_RATE\<rparr>
       both kind (opt_link_enabled (options core)) (memory (world core));
     let core1 = core\<lparr>core_session := session, world := (world core)\<lparr>memory := h\<rparr>\<rparr>
     in if load_error \<noteq> None then Some (False, core1)
        else do {
          (ok, manager, session1, w) \<leftarrow> dualboy_save_manager_init (saves core1)
            (session\<lparr>content_path_missing := missing\<rparr>) (Some (core_save_directory core1)) (world core1);
          let core2 = core1\<lparr>core_session := session1, saves := manager, world := w\<rparr>
          in if ok then Some (True, core2)
             else do {
               (session2, h2) \<leftarrow> dualboy_session_unload session1 (memory w);
               (manager2, w2) \<leftarrow> dualboy_save_manager_deinit manager (w\<lparr>memory := h2\<rparr>);
               Some (False, core2\<lparr>core_session := session2, saves := manager2, world := w2\<rparr>)
             }
        }
   }"

definition load_detected_pair ::
  "'p engines \<Rightarrow> frontend \<Rightarrow> dualboy_rom \<times> dualboy_rom \<Rightarrow> dualboy_load_kind
   \<Rightarrow> 'p dualboy_libretro_context \<Rightarrow> (bool \<times> 'p dualboy_libretro_context) option" where
  "load_detected_pair engines f sources kind core = do {
     detected0 \<leftarrow> detect_rom (fst sources);
     case detected0 of None \<Rightarrow> Some (False, core) | Some rom0 \<Rightarrow> do {
     detected1 \<leftarrow> detect_rom (snd sources);
     case detected1 of None \<Rightarrow> Some (False, core) | Some rom1 \<Rightarrow> do {
     same \<leftarrow> same_cartridge rom0 rom1;
     let (shared0, shared1) = share_paths same (rom0, rom1) in do {
     named0 \<leftarrow> ensure_path shared0;
     case named0 of None \<Rightarrow> Some (False, core) | Some final0 \<Rightarrow> do {
     named1 \<leftarrow> ensure_path shared1;
     case named1 of None \<Rightarrow> Some (False, core) | Some final1 \<Rightarrow>
     if \<not> dualboy_platforms_compatible (rom_platform final0) (rom_platform final1) then Some (False, core)
     else let chosen = dualboy_engine_family_for_platform (rom_platform final0)
          in case engine_for_family engines chosen of
               None \<Rightarrow> Some (False, core)
             | Some ops \<Rightarrow>
               let core1 = prefer_renderer chosen core; (format_ok, core2) = set_pixel_format f core1
               in if \<not> format_ok then Some (False, core2)
                  else let (directories_ok, core3) = query_directories f core2
                       in if \<not> directories_ok then Some (False, core3)
                          else do {
                            (ok, core4) \<leftarrow> start_session ops (final0, final1) (path_missing (fst sources), path_missing (snd sources))
                              kind core3;
                            if \<not> ok then Some (False, core4)
                            else do {
                              (rendering, core5) \<leftarrow>
                                (if chosen = DUALBOY_ENGINE_MELONDS \<and> nds_renderer (options core4) = DUALBOY_VIDEO_RENDERER_OPENGL
                                 then activate_loaded_gl_renderer core4 else Some (True, core4));
                              if \<not> rendering then do { core6 \<leftarrow> discard_current core5; Some (False, core6) }
                              else Some (True, core5\<lparr>core_session := (core_session core5)\<lparr>display := current_display core5\<rparr>,
                                     geometry_valid := False\<rparr>)
                            }
                          }
     } } } }
   }"

section \<open>Playlists\<close>

definition lower :: "char \<Rightarrow> char" where
  "lower c = (if CHR ''A'' \<le> c \<and> c \<le> CHR ''Z'' then char_of (of_char c - of_char (CHR ''A'') + of_char (CHR ''a'') :: nat) else c)"

text \<open>What follows the last occurrence of a character; \<open>None\<close> when there is none.\<close>

fun after_last :: "char \<Rightarrow> string \<Rightarrow> string option" where
  "after_last c [] = None"
| "after_last c (x # xs) = (case after_last c xs of Some rest \<Rightarrow> Some rest | None \<Rightarrow> if x = c then Some xs else None)"

fun same_ignoring_case :: "string \<Rightarrow> string \<Rightarrow> bool" where
  "same_ignoring_case (x # xs) (y # ys) \<longleftrightarrow> lower x = lower y \<and> same_ignoring_case xs ys"
| "same_ignoring_case xs ys \<longleftrightarrow> xs = [] \<and> ys = []"

definition path_has_extension :: "string option \<Rightarrow> string option \<Rightarrow> bool" where
  "path_has_extension path extension =
     (case (path, extension) of
        (Some p, Some e) \<Rightarrow>
          let after_slash = (case after_last (CHR ''/'') p of None \<Rightarrow> p | Some rest \<Rightarrow> rest);
              basename = (case after_last (CHR 0x5C) p of
                None \<Rightarrow> after_slash
              | Some rest \<Rightarrow> if length rest < length after_slash then rest else after_slash)
          in (case after_last (CHR ''.'') basename of None \<Rightarrow> False | Some dot \<Rightarrow> same_ignoring_case dot e)
      | _ \<Rightarrow> False)"

text \<open>The answers of the C library for one cartridge file: the bytes \<open>fread\<close> delivers, up to the length.\<close>

record rom_calls =
  rom_opens :: bool
  rom_length :: "int option"
  rom_content :: bytes
  rom_closes :: bool

definition read_rom_file :: "rom_calls \<Rightarrow> string \<Rightarrow> heap \<Rightarrow> ((nat \<times> bytes) option \<times> heap) option" where
  "read_rom_file os path h =
     (if path = [] \<or> \<not> rom_opens os then Some (None, h)
      else case rom_length os of
        None \<Rightarrow> Some (None, h)
      | Some file_length \<Rightarrow>
        if file_length < 0 \<or> file_length = 0 \<or> nat file_length > DUALBOY_ROM_FILE_LIMIT then Some (None, h)
        else (case malloc h of
           (None, h1) \<Rightarrow> Some (None, h1)
         | (Some address, h1) \<Rightarrow>
           if length (rom_content os) > nat file_length then None
           else if length (rom_content os) \<noteq> nat file_length \<or> \<not> rom_closes os
           then do { h2 \<leftarrow> free (Some address) h1; Some (None, h2) }
           else Some (Some (address, rom_content os), h1)))"

definition playlist_rom :: "nat \<times> bytes \<Rightarrow> string \<Rightarrow> dualboy_rom" where
  "playlist_rom content path =
     \<lparr>rom_platform = DUALBOY_PLATFORM_INVALID, rom_data = Some content, rom_size = length (snd content), rom_path = Some path\<rparr>"

text \<open>The answers for the playlist and for both cartridges.\<close>

record load_files =
  playlist_answers :: playlist_calls
  first_rom :: rom_calls
  second_rom :: rom_calls

definition with_memory :: "heap \<Rightarrow> 'p dualboy_libretro_context \<Rightarrow> 'p dualboy_libretro_context" where
  "with_memory h core = core\<lparr>world := (world core)\<lparr>memory := h\<rparr>\<rparr>"

definition load_playlist ::
  "'p engines \<Rightarrow> frontend \<Rightarrow> load_files \<Rightarrow> string \<Rightarrow> 'p dualboy_libretro_context \<Rightarrow> (bool \<times> 'p dualboy_libretro_context) option" where
  "load_playlist engines f os playlist_path core = do {
     (result, playlist, h) \<leftarrow> dualboy_playlist_parse_file (playlist_answers os) (Some playlist_path) (Some []) (memory (world core));
     if result \<noteq> DUALBOY_PLAYLIST_OK then Some (False, with_memory h core)
     else do {
       entries \<leftarrow> playlist;
       (content0, h1) \<leftarrow> read_rom_file (first_rom os) (entries ! 0) h;
       case content0 of
         None \<Rightarrow> Some (False, with_memory h1 core)
       | Some bytes0 \<Rightarrow> do {
           (content1, h2) \<leftarrow> read_rom_file (second_rom os) (entries ! 1) h1;
           case content1 of
             None \<Rightarrow> do { h3 \<leftarrow> free (Some (fst bytes0)) h2; Some (False, with_memory h3 core) }
           | Some bytes1 \<Rightarrow> do {
               (ok, core1) \<leftarrow> load_detected_pair engines f
                 (playlist_rom bytes0 (entries ! 0), playlist_rom bytes1 (entries ! 1)) DUALBOY_LOAD_PLAYLIST (with_memory h2 core);
               h3 \<leftarrow> free (Some (fst bytes0)) (memory (world core1));
               h4 \<leftarrow> free (Some (fst bytes1)) h3;
               Some (ok, with_memory h4 core1)
             }
         }
     }
   }"


section \<open>Changed options\<close>

definition set_options :: "(dualboy_options \<Rightarrow> dualboy_options) \<Rightarrow> 'p dualboy_libretro_context \<Rightarrow> 'p dualboy_libretro_context" where
  "set_options change core = core\<lparr>options := change (options core)\<rparr>"

definition session_set_link :: "bool \<Rightarrow> 'p dualboy_libretro_context \<Rightarrow> (bool \<times> 'p dualboy_libretro_context) option" where
  "session_set_link enabled core = do {
     (ok, session) \<leftarrow> dualboy_session_set_link (core_session core) enabled;
     Some (ok, core\<lparr>core_session := session\<rparr>)
   }"

definition reflect_link_option :: "bool \<Rightarrow> 'p dualboy_libretro_context \<Rightarrow> 'p dualboy_libretro_context" where
  "reflect_link_option enabled core =
     (let frontend_change = (\<not> frontend_link_known core \<or> frontend_link_value core \<noteq> enabled);
          core1 = (set_options (\<lambda>o1. o1\<lparr>opt_link_enabled := enabled\<rparr>) core)
            \<lparr>frontend_link_value := enabled, frontend_link_known := True\<rparr>
      in if frontend_change then force_core_option DUALBOY_OPTION_LINK (if enabled then ''enabled'' else ''disabled'') core1
         else core1)"

definition reflect_renderer_option :: "dualboy_video_renderer \<Rightarrow> 'p dualboy_libretro_context \<Rightarrow> 'p dualboy_libretro_context" where
  "reflect_renderer_option renderer core =
     force_core_option DUALBOY_OPTION_NDS_RENDERER
       (if renderer = DUALBOY_VIDEO_RENDERER_OPENGL then ''opengl'' else ''software'')
       (set_options (\<lambda>o1. o1\<lparr>nds_renderer := renderer\<rparr>) core)"

definition retire_failed_renderer_session :: "'p dualboy_libretro_context \<Rightarrow> 'p dualboy_libretro_context option" where
  "retire_failed_renderer_session core = do { core1 \<leftarrow> discard_current core; Some (environment_call SHUTDOWN core1) }"

text \<open>OpenGL was asked for, or is still selected, while a DS session runs.\<close>

definition select_opengl :: "bool \<Rightarrow> 'p dualboy_libretro_context \<Rightarrow> 'p dualboy_libretro_context option" where
  "select_opengl old_link core = do {
     (unlinked, core1) \<leftarrow> (if old_link then session_set_link False core else Some (True, core));
     if \<not> unlinked then Some (reflect_renderer_option DUALBOY_VIDEO_RENDERER_SOFTWARE (reflect_link_option True core1))
     else let core2 = set_options (\<lambda>o1. o1\<lparr>opt_link_enabled := False, nds_renderer := DUALBOY_VIDEO_RENDERER_OPENGL\<rparr>) core1
          in do {
            (usable, core3) \<leftarrow> (if loaded_nds_renderer core2 \<noteq> DUALBOY_VIDEO_RENDERER_OPENGL
              then activate_loaded_gl_renderer core2 else Some (True, core2));
            if \<not> usable then retire_failed_renderer_session core3
            else if loaded_nds_renderer core3 = DUALBOY_VIDEO_RENDERER_OPENGL
            then Some (reflect_link_option False (set_options (\<lambda>o1. o1\<lparr>nds_renderer := DUALBOY_VIDEO_RENDERER_OPENGL\<rparr>) core3))
            else let core4 = reflect_renderer_option DUALBOY_VIDEO_RENDERER_SOFTWARE core3
                 in if old_link
                    then do { (relinked, core5) \<leftarrow> session_set_link True core4; Some (reflect_link_option relinked core5) }
                    else Some (reflect_link_option False core4)
          }
   }"

definition select_software :: "bool \<Rightarrow> 'p dualboy_libretro_context \<Rightarrow> 'p dualboy_libretro_context option" where
  "select_software requested_link core =
     (let rollback_to_gl = (loaded_nds_renderer core = DUALBOY_VIDEO_RENDERER_OPENGL)
      in do {
        (released, core1) \<leftarrow> (if rollback_to_gl then deactivate_loaded_gl_renderer core else Some (True, core));
        if \<not> released
        then retire_failed_renderer_session
               (reflect_renderer_option DUALBOY_VIDEO_RENDERER_OPENGL (reflect_link_option False core1))
        else let core2 = set_options (\<lambda>o1. o1\<lparr>nds_renderer := DUALBOY_VIDEO_RENDERER_SOFTWARE\<rparr>) core1
             in do {
               (linked, core3) \<leftarrow> (if requested_link \<noteq> opt_link_enabled (options core2)
                 then session_set_link requested_link core2 else Some (True, core2));
               if linked
               then Some ((set_options (\<lambda>o1. o1\<lparr>opt_link_enabled := requested_link,
                        nds_renderer := DUALBOY_VIDEO_RENDERER_SOFTWARE\<rparr>) core3)
                      \<lparr>frontend_link_value := requested_link, frontend_link_known := True\<rparr>)
               else if rollback_to_gl \<and> requested_link
               then do {
                 (usable, core4) \<leftarrow> activate_loaded_gl_renderer
                   (set_options (\<lambda>o1. o1\<lparr>nds_renderer := DUALBOY_VIDEO_RENDERER_OPENGL\<rparr>) core3);
                 if \<not> usable then retire_failed_renderer_session core4
                 else let core5 = reflect_renderer_option (loaded_nds_renderer core4) core4
                      in Some (reflect_link_option (link_enabled (core_session core5)) core5)
               }
               else let core4 = reflect_renderer_option DUALBOY_VIDEO_RENDERER_SOFTWARE core3
                    in Some (reflect_link_option (link_enabled (core_session core4)) core4)
             }
      })"

text \<open>A link request that could not be satisfied yet is tried again on every call.\<close>

definition retry_link :: "'p dualboy_libretro_context \<Rightarrow> 'p dualboy_libretro_context option" where
  "retry_link core =
     (if \<not> link_request_pending core then Some core
      else if \<not> loaded (core_session core)
      then Some ((set_options (\<lambda>o1. o1\<lparr>opt_link_enabled := pending_link_value core\<rparr>) core)\<lparr>link_request_pending := False\<rparr>)
      else do {
        (ok, core1) \<leftarrow> session_set_link (pending_link_value core) core;
        Some (if ok
              then (set_options (\<lambda>o1. o1\<lparr>opt_link_enabled := pending_link_value core\<rparr>) core1)\<lparr>link_request_pending := False\<rparr>
              else core1)
      })"

text \<open>
  The link and the renderer to aim for, given the settings the frontend shows, with the option
  that loses when both cannot be had forced back.
\<close>

definition settle_conflict ::
  "dualboy_options \<Rightarrow> 'p dualboy_libretro_context \<Rightarrow> bool \<times> dualboy_video_renderer \<times> 'p dualboy_libretro_context" where
  "settle_conflict candidate core =
     (let frontend_link_changed = (\<not> frontend_link_known core \<or> opt_link_enabled candidate \<noteq> frontend_link_value core);
          renderer_changed = (nds_renderer candidate \<noteq> nds_renderer (options core))
      in if nds_session_loaded core \<and> opt_link_enabled candidate \<and> nds_renderer candidate = DUALBOY_VIDEO_RENDERER_OPENGL
         then if frontend_link_changed \<and> \<not> renderer_changed
              then (True, DUALBOY_VIDEO_RENDERER_SOFTWARE, force_core_option DUALBOY_OPTION_NDS_RENDERER ''software'' core)
              else (False, DUALBOY_VIDEO_RENDERER_OPENGL, force_core_option DUALBOY_OPTION_LINK ''disabled'' core)
         else (opt_link_enabled candidate, nds_renderer candidate, core))"

definition reset_moved_cursors :: "dualboy_options \<Rightarrow> 'p dualboy_libretro_context \<Rightarrow> 'p dualboy_libretro_context" where
  "reset_moved_cursors candidate core =
     (let core1 = (if fst (controller_ports candidate) \<noteq> fst (controller_ports (options core)) then set_cursor 0 zero_cursor core else core)
      in if snd (controller_ports candidate) \<noteq> snd (controller_ports (options core)) then set_cursor 1 zero_cursor core1 else core1)"

definition update_options :: "frontend \<Rightarrow> 'p dualboy_libretro_context \<Rightarrow> 'p dualboy_libretro_context option" where
  "update_options f core =
     (if environment core \<and> variables_updated f
      then let shown = (if frontend_link_known core then (options core)\<lparr>opt_link_enabled := frontend_link_value core\<rparr> else options core);
               candidate = snd (dualboy_options_read (variable_answer f) shown);
               frontend_link_changed = (\<not> frontend_link_known core \<or> opt_link_enabled candidate \<noteq> frontend_link_value core);
               old_link = opt_link_enabled (options core);
               (requested_link, requested_renderer, core1) = settle_conflict candidate core;
               core2 = reset_moved_cursors candidate (core1\<lparr>frontend_link_value := requested_link, frontend_link_known := True\<rparr>);
               core3 = core2\<lparr>options := candidate\<lparr>opt_link_enabled := old_link, nds_renderer := nds_renderer (options core)\<rparr>\<rparr>
           in if nds_session_loaded core3
              then let core4 = core3\<lparr>link_request_pending := False\<rparr>
                   in if requested_renderer = DUALBOY_VIDEO_RENDERER_OPENGL then select_opengl old_link core4
                      else select_software requested_link core4
              else let core4 = set_options (\<lambda>o1. o1\<lparr>nds_renderer := requested_renderer\<rparr>) core3
                   in retry_link (if frontend_link_changed
                        then core4\<lparr>pending_link_value := requested_link, link_request_pending := True\<rparr> else core4)
      else retry_link core)"


section \<open>Entry points\<close>

definition tick_saves :: "'p dualboy_libretro_context \<Rightarrow> 'p dualboy_libretro_context option" where
  "tick_saves core = do {
     (ok, manager, session, w) \<leftarrow> dualboy_save_manager_tick (saves core) (core_session core) (world core);
     Some (core\<lparr>saves := manager, core_session := session, world := w\<rparr>)
   }"

text \<open>A context of zero bytes, and the callbacks that survive it.\<close>

definition zero_options :: dualboy_options where
  "zero_options = \<lparr>opt_mode = DUALBOY_MODE_DUAL, opt_layout = DUALBOY_LAYOUT_SIDE_BY_SIDE, opt_link_enabled = False,
     controller_ports = (0, 0), opt_swap_screens = False, audio_player1 = False, nds_renderer = DUALBOY_VIDEO_RENDERER_SOFTWARE\<rparr>"

definition zero_context :: "save_world \<Rightarrow> frontend_call list \<Rightarrow> 'p dualboy_libretro_context" where
  "zero_context w made =
     \<lparr>environment = False, video = False, audio = False, audio_batch = False, input_poll = False, input_state = False,
      core_session = dualboy_session_init, saves = zero_manager, options = zero_options,
      last_geometry = \<lparr>gwidth = 0, gheight = 0\<rparr>, touch_cursors = (zero_cursor, zero_cursor),
      port_devices = replicate DUALBOY_CONTROLLER_PORT_COUNT 0, core_system_directory = '''', core_save_directory = '''',
      audio_buffer = replicate DUALBOY_AUDIO_BUFFER_FRAMES (0, 0),
      presentation_buffer = replicate (4 * DUALBOY_MAX_COMPOSITE_PIXELS) 0,
      get_time_usec = False, frontend_link_value = False, frontend_link_known = False, pending_link_value = False,
      link_request_pending = False, input_bitmasks = False, geometry_valid = False, fastforward_override_known = False,
      fastforward_inhibited = False, core_initialized = False, loaded_nds_renderer = DUALBOY_VIDEO_RENDERER_SOFTWARE,
      world = w, calls = made\<rparr>"

definition retro_set_environment :: "frontend \<Rightarrow> 'p dualboy_libretro_context \<Rightarrow> 'p dualboy_libretro_context" where
  "retro_set_environment f core =
     refresh_frontend_services f (register_environment_interfaces f (core\<lparr>environment := True\<rparr>))"

definition retro_set_video_refresh :: "'p dualboy_libretro_context \<Rightarrow> 'p dualboy_libretro_context" where
  "retro_set_video_refresh core = core\<lparr>video := True\<rparr>"

definition retro_set_audio_sample :: "'p dualboy_libretro_context \<Rightarrow> 'p dualboy_libretro_context" where
  "retro_set_audio_sample core = core\<lparr>audio := True\<rparr>"

definition retro_set_audio_sample_batch :: "'p dualboy_libretro_context \<Rightarrow> 'p dualboy_libretro_context" where
  "retro_set_audio_sample_batch core = core\<lparr>audio_batch := True\<rparr>"

definition retro_set_input_poll :: "'p dualboy_libretro_context \<Rightarrow> 'p dualboy_libretro_context" where
  "retro_set_input_poll core = core\<lparr>input_poll := True\<rparr>"

definition retro_set_input_state :: "'p dualboy_libretro_context \<Rightarrow> 'p dualboy_libretro_context" where
  "retro_set_input_state core = core\<lparr>input_state := True\<rparr>"

definition retro_init :: "libretro_abi \<Rightarrow> frontend \<Rightarrow> 'p dualboy_libretro_context \<Rightarrow> 'p dualboy_libretro_context option" where
  "retro_init abi f core = do {
     core1 \<leftarrow> unload_current core;
     let core2 = (zero_context (world core1) (calls core1))
           \<lparr>environment := environment core, video := video core, audio := audio core, audio_batch := audio_batch core,
            input_poll := input_poll core, input_state := input_state core\<rparr>;
         core3 = (initialize_port_devices abi core2)\<lparr>core_session := dualboy_session_init, options := dualboy_options_set_defaults\<rparr>
     in Some ((read_initial_options f (refresh_frontend_services f core3))\<lparr>core_initialized := True\<rparr>)
   }"

definition retro_deinit :: "'p dualboy_libretro_context \<Rightarrow> 'p dualboy_libretro_context option" where
  "retro_deinit core = do { core1 \<leftarrow> unload_current core; Some (zero_context (world core1) (calls core1)) }"

text \<open>Geometry and sample rate; the frame rate is a floating-point number and left out.\<close>

definition retro_get_system_av_info ::
  "'p dualboy_libretro_context \<Rightarrow> ((dualboy_geometry \<times> nat) \<times> 'p dualboy_libretro_context) option" where
  "retro_get_system_av_info core = do {
     (measured, session) \<leftarrow> dualboy_session_geometry (core_session core) (current_display core);
     let core1 = core\<lparr>core_session := session\<rparr>;
         geometry = (case measured of Some g \<Rightarrow> g | None \<Rightarrow> fallback_geometry core1)
     in do {
       rate \<leftarrow> (if \<not> loaded session then Some 0
                else case engine session of
                  None \<Rightarrow> Some 0
                | Some ops \<Rightarrow>
                  (case audio_sample_rate ops of
                     None \<Rightarrow> Some 0
                   | Some report \<Rightarrow> do { (address, p) \<leftarrow> pair session; Some (report p) }));
       Some ((geometry, if rate \<noteq> 0 then unat rate else DUALBOY_DEFAULT_SAMPLE_RATE), core1)
     }
   }"

definition retro_set_controller_port_device ::
  "libretro_abi \<Rightarrow> nat \<Rightarrow> u32 \<Rightarrow> 'p dualboy_libretro_context \<Rightarrow> 'p dualboy_libretro_context" where
  "retro_set_controller_port_device abi port device core =
     (let base_device = device AND device_mask abi
      in if port \<ge> DUALBOY_CONTROLLER_PORT_COUNT then core
         else core\<lparr>port_devices := (port_devices core)[port :=
                (if base_device = device_joypad abi \<or> base_device = device_analog abi \<or> base_device = device_none abi
                 then base_device else device_none abi)]\<rparr>)"

definition retro_reset :: "'p dualboy_libretro_context \<Rightarrow> 'p dualboy_libretro_context option" where
  "retro_reset core = do {
     session \<leftarrow> dualboy_session_reset (core_session core);
     synchronize_fastforward_policy ((reset_touch_cursors core)\<lparr>core_session := session\<rparr>)
   }"

text \<open>The part of a frame after the options: inputs, emulation, and publication.\<close>

definition run_frame_step ::
  "libretro_abi \<Rightarrow> frontend \<Rightarrow> u64 option \<Rightarrow> 'p dualboy_libretro_context \<Rightarrow> 'p dualboy_libretro_context option" where
  "run_frame_step abi f time core =
     (let config = current_display core
      in do {
        core1 \<leftarrow> synchronize_fastforward_policy core;
        let (input0, core2) = read_machine_input abi f 0 (fst (controller_ports (options core1))) time core1;
            (input1, core3) = read_machine_input abi f 1 (snd (controller_ports (options core2))) time core2
        in do {
          (inputs, assigned, core4) \<leftarrow> apply_pointer_contacts f config (input0, input1) core3;
          (failure, session) \<leftarrow> dualboy_session_run (core_session core4) inputs config;
          let core5 = core4\<lparr>core_session := session\<rparr>
          in if failure \<noteq> None
             then do { core6 \<leftarrow> publish_video_with_touch_cursors assigned core5; synchronize_fastforward_policy core6 }
             else do {
               core6 \<leftarrow> synchronize_fastforward_policy core5;
               frame \<leftarrow> composite (core_session core6);
               core7 \<leftarrow> publish_video_with_touch_cursors assigned
                 (publish_geometry \<lparr>gwidth = width frame, gheight = height frame\<rparr> core6);
               core8 \<leftarrow> drain_audio core7;
               tick_saves core8
             }
        }
      })"

definition retro_run :: "libretro_abi \<Rightarrow> frontend \<Rightarrow> 'p dualboy_libretro_context \<Rightarrow> 'p dualboy_libretro_context option" where
  "retro_run abi f core =
     (let time = touch_cursor_time f core;
          core1 = (if input_poll core then emit INPUT_POLL core else core)
      in if \<not> loaded (core_session core1) then Some core1
         else do {
           core2 \<leftarrow> update_options f core1;
           if \<not> loaded (core_session core2) then Some core2 else run_frame_step abi f time core2
         })"

definition retro_serialize_size :: "'p dualboy_libretro_context \<Rightarrow> nat" where
  "retro_serialize_size core = dualboy_state_size (core_session core)"

definition retro_serialize ::
  "bytes option \<Rightarrow> 'p dualboy_libretro_context \<Rightarrow> (bool \<times> bytes option \<times> 'p dualboy_libretro_context) option" where
  "retro_serialize data core = do {
     (ok, data', session) \<leftarrow> dualboy_state_serialize (core_session core) data;
     Some (ok, data', core\<lparr>core_session := session\<rparr>)
   }"

definition retro_unserialize :: "bytes option \<Rightarrow> 'p dualboy_libretro_context \<Rightarrow> (bool \<times> 'p dualboy_libretro_context) option" where
  "retro_unserialize data core = do {
     (result, session, h) \<leftarrow> dualboy_state_unserialize_ex (core_session core) data (memory (world core));
     let core1 = with_memory h (core\<lparr>core_session := session\<rparr>)
     in if result = DUALBOY_STATE_RESTORE_FATAL
        then do { core2 \<leftarrow> discard_current core1; Some (False, environment_call SHUTDOWN core2) }
        else if result \<noteq> DUALBOY_STATE_RESTORE_OK then Some (False, core1)
        else do {
          core2 \<leftarrow> synchronize_fastforward_policy
            ((set_options (\<lambda>o1. o1\<lparr>opt_link_enabled := link_enabled session\<rparr>) core1)\<lparr>link_request_pending := False, geometry_valid := False\<rparr>);
          Some (True, core2)
        }
   }"

record retro_game_info =
  game_path :: "string option"
  game_data :: "rom_pointer option"
  game_size :: nat

definition game_rom :: "retro_game_info \<Rightarrow> dualboy_rom" where
  "game_rom game =
     \<lparr>rom_platform = DUALBOY_PLATFORM_INVALID, rom_data = game_data game, rom_size = game_size game, rom_path = game_path game\<rparr>"

text \<open>What both ways of loading start with.\<close>

definition begin_load :: "libretro_abi \<Rightarrow> frontend \<Rightarrow> 'p dualboy_libretro_context \<Rightarrow> 'p dualboy_libretro_context option" where
  "begin_load abi f core = do { core1 \<leftarrow> unload_current (ensure_initialized abi f core); Some (read_initial_options f core1) }"

definition retro_load_game ::
  "libretro_abi \<Rightarrow> 'p engines \<Rightarrow> frontend \<Rightarrow> load_files \<Rightarrow> retro_game_info option \<Rightarrow> 'p dualboy_libretro_context
   \<Rightarrow> (bool \<times> 'p dualboy_libretro_context) option" where
  "retro_load_game abi engines f os game core = do {
     core1 \<leftarrow> begin_load abi f core;
     case game of
       None \<Rightarrow> Some (False, core1)
     | Some info \<Rightarrow>
       if path_has_extension (game_path info) (Some ''m3u'')
       then (case game_path info of
               None \<Rightarrow> Some (False, core1)
             | Some path \<Rightarrow> if path = [] then Some (False, core1) else load_playlist engines f os path core1)
       else if game_data info = None \<or> game_size info = 0 then Some (False, core1)
       else load_detected_pair engines f (game_rom info, game_rom info) DUALBOY_LOAD_NORMAL core1
   }"

definition retro_load_game_special ::
  "libretro_abi \<Rightarrow> 'p engines \<Rightarrow> frontend \<Rightarrow> u32 \<Rightarrow> retro_game_info list option \<Rightarrow> 'p dualboy_libretro_context
   \<Rightarrow> (bool \<times> 'p dualboy_libretro_context) option" where
  "retro_load_game_special abi engines f game_type infos core = do {
     core1 \<leftarrow> begin_load abi f core;
     if game_type \<noteq> DUALBOY_SUBSYSTEM_ID then Some (False, core1)
     else case infos of
       None \<Rightarrow> Some (False, core1)
     | Some games \<Rightarrow>
       if length games \<noteq> DUALBOY_MACHINE_COUNT then Some (False, core1)
       else if list_ex (\<lambda>game. game_data game = None \<or> game_size game = 0) games then Some (False, core1)
       else load_detected_pair engines f (game_rom (games ! 0), game_rom (games ! 1)) DUALBOY_LOAD_SUBSYSTEM core1
   }"

definition retro_unload_game :: "'p dualboy_libretro_context \<Rightarrow> 'p dualboy_libretro_context option" where
  "retro_unload_game core = unload_current core"

definition retro_get_memory_data :: "libretro_abi \<Rightarrow> u32 \<Rightarrow> 'p dualboy_libretro_context \<Rightarrow> bytes option" where
  "retro_get_memory_data abi memory_id core =
     (case (resolve_memory abi memory_id, pair (core_session core)) of
        (Some region, Some (address, p)) \<Rightarrow> dualboy_save_manager_frontend_memory (saves core) (core_session core) p region
      | _ \<Rightarrow> None)"

definition retro_get_memory_size :: "libretro_abi \<Rightarrow> u32 \<Rightarrow> 'p dualboy_libretro_context \<Rightarrow> nat" where
  "retro_get_memory_size abi memory_id core =
     (case retro_get_memory_data abi memory_id core of None \<Rightarrow> 0 | Some data \<Rightarrow> length data)"

end
