(* ===== verification/Libretro_Frame.thy ===== *)
theory Libretro_Frame
  imports Libretro_Core Save_Demo
begin

text \<open>
  Input and output of one frame: touch positions always lie on the touch screen, the first contact
  on each screen wins, and publication stays inside its buffers.
\<close>

section \<open>Coordinates\<close>

lemma unat_scaled: "unat (scast (c :: u16) + 0x8000 :: u32) = nat (sint c + 0x8000)"
proof -
  have range: "- 32768 \<le> sint c" "sint c < 32768"
    using sint_greater_eq [of c] sint_less [of c] by simp_all
  have "(scast c + 0x8000 :: u32) = word_of_int (sint c + 0x8000)" by (simp only: scast_eq of_int_add of_int_numeral)
  then have "uint (scast c + 0x8000 :: u32) = take_bit 32 (sint c + 0x8000)" by (simp only: unsigned_of_int) simp
  also have "\<dots> = sint c + 0x8000" using range by (intro take_bit_int_eq_self) simp_all
  finally show ?thesis by (simp add: unat_eq_nat_uint)
qed

lemma scaled_bound: "unat (scast (c :: u16) + 0x8000 :: u32) < 0x10000"
  using sint_less [of c] by (simp add: unat_scaled)

lemma unat_normalized:
  "unat (normalized_coordinate c extent) = (if extent \<le> 1 then 0 else nat (sint c + 0x8000) * unat extent div 0x10000)"
proof (cases "extent \<le> 1")
  case True
  then show ?thesis by (simp add: normalized_coordinate_def)
next
  case False
  define t where "t = (scast c + 0x8000 :: u32)"
  have s: "unat t < 2 ^ 16" using scaled_bound [of c] by (simp add: t_def)
  have e: "unat extent < 2 ^ 32" using unsigned_less [of extent, where 'a = nat] by simp
  have "unat t * unat extent \<le> 2 ^ 16 * unat extent" using s by simp
  also have "\<dots> < 2 ^ 16 * 2 ^ 32" using e by simp
  finally have fits: "unat t * unat extent < 2 ^ 48" by simp
  have wide: "unat (ucast w :: u64) = unat w" for w :: u32
  proof -
    have "unat w < 2 ^ 32" using unsigned_less [of w, where 'a = nat] by simp
    then show ?thesis by (simp add: unsigned_ucast_eq take_bit_nat_eq_self)
  qed
  have product: "unat (ucast t * ucast extent :: u64) = unat t * unat extent"
    unfolding unat_word_ariths wide using fits by simp
  have "unat t * unat extent div 2 ^ 16 \<le> 2 ^ 16 * unat extent div 2 ^ 16" using s by (intro div_le_mono) simp
  then have "unat t * unat extent div 2 ^ 16 \<le> unat extent" by simp
  then have "unat (ucast (ucast t * ucast extent div 0x10000 :: u64) :: u32) = unat t * unat extent div 0x10000"
    using e by (simp add: unsigned_ucast_eq unat_div product take_bit_nat_eq_self)
  moreover have "unat t = nat (sint c + 0x8000)" unfolding t_def by (rule unat_scaled)
  ultimately show ?thesis using False by (simp add: normalized_coordinate_def t_def [symmetric])
qed

lemma normalized_inside: "extent \<noteq> 0 \<Longrightarrow> normalized_coordinate c extent < extent"
proof -
  assume "extent \<noteq> 0"
  then have pos: "0 < unat extent" by (simp add: unat_gt_0)
  have "nat (sint c + 0x8000) \<le> 0xFFFF" using sint_less [of c] by simp
  then have "nat (sint c + 0x8000) * unat extent \<le> 0xFFFF * unat extent" by simp
  also have "\<dots> < 0x10000 * unat extent" using pos by simp
  finally have "nat (sint c + 0x8000) * unat extent div 0x10000 < unat extent" by (simp add: less_mult_imp_div_less mult.commute)
  with pos show ?thesis by (simp add: word_less_nat_alt unat_normalized)
qed

section \<open>Contacts\<close>

definition touch_inside :: "dualboy_machine_input \<Rightarrow> bool" where
  "touch_inside input \<longleftrightarrow> (touch_active input \<longrightarrow> touch_x input < 256 \<and> touch_y input < 192)"

text \<open>Where a contact touches a machine: a point of the lower screen.\<close>

definition contact_hit ::
  "frontend \<Rightarrow> frames \<Rightarrow> dualboy_compositor_config \<Rightarrow> dualboy_geometry \<Rightarrow> nat \<Rightarrow> nat \<Rightarrow> (u32 \<times> u32) option" where
  "contact_hit f frames config geometry machine index =
     (case dualboy_compositor_map_point frames config (normalized_coordinate (input_answer f (POINTER_X index)) (gwidth geometry))
             (normalized_coordinate (input_answer f (POINTER_Y index)) (gheight geometry)) of
        None \<Rightarrow> None
      | Some (m, x, y) \<Rightarrow>
        if m = machine \<and> x < DUALBOY_NDS_SCREEN_WIDTH \<and> DUALBOY_NDS_SCREEN_HEIGHT \<le> y \<and> y < DUALBOY_NDS_SCREEN_HEIGHT * 2
        then Some (x, y) else None)"

definition contact_hits ::
  "frontend \<Rightarrow> frames \<Rightarrow> dualboy_compositor_config \<Rightarrow> dualboy_geometry \<Rightarrow> nat \<Rightarrow> nat list \<Rightarrow> (u32 \<times> u32) list" where
  "contact_hits f frames config geometry machine indices =
     List.map_filter (contact_hit f frames config geometry machine)
       (takeWhile (\<lambda>index. input_answer f (POINTER_PRESSED index) \<noteq> 0) indices)"

text \<open>The input of a machine after its hits, unless it was assigned before.\<close>

definition first_hit :: "bool \<Rightarrow> (u32 \<times> u32) list \<Rightarrow> dualboy_machine_input \<Rightarrow> dualboy_machine_input" where
  "first_hit assigned hits input = (if assigned then input else case hits of [] \<Rightarrow> input | (x, y) # _ \<Rightarrow> touch_at x y input)"

lemma first_hit_simps [simp]:
  "first_hit assigned [] input = input" "first_hit True hits input = input"
  "first_hit False ((x, y) # hits) input = touch_at x y input"
  by (simp_all add: first_hit_def)

lemma contact_hits_Nil [simp]: "contact_hits f frames config geometry machine [] = []"
  by (simp add: contact_hits_def List.map_filter_def)

lemma contact_hits_Cons:
  "contact_hits f frames config geometry machine (index # indices) =
     (if input_answer f (POINTER_PRESSED index) = 0 then []
      else case contact_hit f frames config geometry machine index of
        None \<Rightarrow> contact_hits f frames config geometry machine indices
      | Some hit \<Rightarrow> hit # contact_hits f frames config geometry machine indices)"
  by (simp add: contact_hits_def List.map_filter_def split: option.splits)

lemma contact_loop_first:
  "contact_loop f frames config geometry indices inputs assigned =
     (let hits0 = contact_hits f frames config geometry 0 indices; hits1 = contact_hits f frames config geometry 1 indices
      in ((first_hit (fst assigned) hits0 (fst inputs), first_hit (snd assigned) hits1 (snd inputs)),
          (fst assigned \<or> hits0 \<noteq> [], snd assigned \<or> hits1 \<noteq> [])))"
proof (induction indices arbitrary: inputs assigned)
  case (Cons index indices)
  show ?case
  proof (cases "input_answer f (POINTER_PRESSED index) = 0")
    case True
    then show ?thesis by (simp add: contact_hits_Cons)
  next
    case pressed: False
    let ?x = "normalized_coordinate (input_answer f (POINTER_X index)) (gwidth geometry)"
    let ?y = "normalized_coordinate (input_answer f (POINTER_Y index)) (gheight geometry)"
    show ?thesis
    proof (cases "dualboy_compositor_map_point frames config ?x ?y")
      case None
      with pressed show ?thesis by (simp add: contact_hits_Cons contact_hit_def Cons.IH)
    next
      case (Some point)
      obtain m x y where point: "point = (m, x, y)" by (cases point)
      show ?thesis
        using pressed Some point Cons.IH
        by (cases "m = 0"; cases "m = 1"; cases "fst assigned"; cases "snd assigned")
          (auto simp: contact_hits_Cons contact_hit_def DUALBOY_MACHINE_COUNT_def Let_def not_le not_less split: list.splits)
    qed
  qed
qed simp

lemma machine_input_inside:
  assumes "read_machine_input abi f machine port time core = (input, core')"
  shows "touch_inside input" and "core_session core' = core_session core" and "input_state core' = input_state core"
proof -
  have small: "ucast (normalized_coordinate c extent) < (ucast extent :: u16)" if "extent \<noteq> 0" "unat extent < 2 ^ 16" for c extent
  proof -
    have "unat (normalized_coordinate c extent) < unat extent" using normalized_inside [OF that(1), of c] by (simp add: word_less_nat_alt)
    with that(2) show ?thesis by (simp add: word_less_nat_alt unsigned_ucast_eq take_bit_nat_eq_self)
  qed
  from small [of DUALBOY_NDS_SCREEN_WIDTH] small [of DUALBOY_NDS_SCREEN_HEIGHT]
  show "touch_inside input" using assms
    by (auto simp: read_machine_input_def touch_inside_def Let_def DUALBOY_NDS_SCREEN_WIDTH_def DUALBOY_NDS_SCREEN_HEIGHT_def
        split: if_splits)
  show "core_session core' = core_session core" "input_state core' = input_state core"
    using assms by (auto simp: read_machine_input_def set_cursor_def Let_def split: if_splits)
qed

lemma touch_at_inside:
  "contact_hit f frames config geometry machine index = Some (x, y) \<Longrightarrow> touch_inside (touch_at x y input)"
proof -
  assume "contact_hit f frames config geometry machine index = Some (x, y)"
  then have "unat x < 256" "192 \<le> unat y" "unat y < 384"
    by (auto simp: contact_hit_def word_less_nat_alt word_le_nat_alt DUALBOY_NDS_SCREEN_WIDTH_def DUALBOY_NDS_SCREEN_HEIGHT_def
        split: option.splits if_splits)
  moreover from this have "unat (y - 192) = unat y - 192" by (simp add: unat_sub word_le_nat_alt)
  ultimately show ?thesis
    by (simp add: touch_inside_def touch_at_def word_less_nat_alt unsigned_ucast_eq take_bit_nat_eq_self DUALBOY_NDS_SCREEN_HEIGHT_def)
qed

lemma first_hit_inside:
  assumes "touch_inside input"
  shows "touch_inside (first_hit assigned (contact_hits f frames config geometry machine indices) input)"
proof (cases "contact_hits f frames config geometry machine indices")
  case (Cons hit hits)
  then have "hit \<in> set (contact_hits f frames config geometry machine indices)" by simp
  then obtain index where "contact_hit f frames config geometry machine index = Some hit"
    by (auto simp: contact_hits_def List.map_filter_def)
  with touch_at_inside Cons assms show ?thesis by (cases hit, cases assigned) auto
qed (simp add: assms)

text \<open>
  C39. Touch input is always on the touch screen, and the first contact on each screen decides it.
  Whatever the controllers, the analogue sticks and the pointer report, the inputs read for the two
  machines carry touch positions inside 256 by 192 pixels. When there are frames to map
  contacts with, each machine gets the position of the first reported contact that falls on its own
  lower screen in the composed picture, relative to that screen, and keeps its controller input
  when there is none.
\<close>

theorem touch_inputs_correct:
  assumes "read_machine_input abi f 0 port0 time core = (input0, core1)"
    and "read_machine_input abi f 1 port1 time core1 = (input1, core2)"
    and "apply_pointer_contacts f config (input0, input1) core2 = Some (inputs, assigned, core3)"
  shows "touch_inside (fst inputs) \<and> touch_inside (snd inputs) \<and>
    (\<forall>frames session geometry. nds_session_loaded core \<and> input_state core \<and>
       machine_frames (core_session core) = Some (Some frames, session) \<and>
       dualboy_compositor_geometry frames config = Some geometry \<longrightarrow>
       (let hits0 = contact_hits f frames config geometry 0 [0..<16]; hits1 = contact_hits f frames config geometry 1 [0..<16]
        in inputs = (first_hit False hits0 input0, first_hit False hits1 input1) \<and> assigned = (hits0 \<noteq> [], hits1 \<noteq> [])))"
proof -
  note in0 = machine_input_inside [OF assms(1)] and in1 = machine_input_inside [OF assms(2)]
  have same: "core_session core2 = core_session core" "input_state core2 = input_state core" using in0 in1 by simp_all
  have nds: "nds_session_loaded core2 = nds_session_loaded core" by (simp add: nds_session_loaded_def same)
  have "touch_inside (fst inputs) \<and> touch_inside (snd inputs)"
    using assms(3) in0(1) in1(1) first_hit_inside
    by (auto simp: apply_pointer_contacts_def contact_loop_first Let_def split: if_splits Option.bind_splits option.splits)
  moreover have "let hits0 = contact_hits f frames config geometry 0 [0..<16]; hits1 = contact_hits f frames config geometry 1 [0..<16]
      in inputs = (first_hit False hits0 input0, first_hit False hits1 input1) \<and> assigned = (hits0 \<noteq> [], hits1 \<noteq> [])"
    if "nds_session_loaded core" "input_state core" "machine_frames (core_session core) = Some (Some frames, session)"
      "dualboy_compositor_geometry frames config = Some geometry" for frames session geometry
    using assms(3) that same nds
    by (simp add: apply_pointer_contacts_def contact_loop_first DUALBOY_POINTER_CONTACT_LIMIT_def Let_def)
  ultimately show ?thesis by blast
qed

text \<open>
  A DS session side by side on which one contact is reported, at the horizontal centre and three
  quarters down, that is on the touch screen of the second machine.
\<close>

definition ds_frame :: dualboy_video_frame where
  "ds_frame = \<lparr>pixels = Some [], width = 256, height = 384, pitch = 1024\<rparr>"

definition ds_engine :: "demo_pair dualboy_engine_ops" where
  "ds_engine = demo_engine\<lparr>family := DUALBOY_ENGINE_MELONDS, video_frame := Some (\<lambda>p m. (Some ds_frame, p))\<rparr>"

definition ds_core :: "demo_pair dualboy_libretro_context" where
  "ds_core = (zero_context saving_world [])\<lparr>input_state := True,
     core_session := dualboy_session_init\<lparr>engine := Some ds_engine, loaded := True,
       pair := Some (1, \<lparr>register0 = 0, register1 = 0, ram0 = 0, ram1 = 0, cable = False\<rparr>),
       roms := (zero_rom\<lparr>orom := demo_rom\<lparr>rom_platform := DUALBOY_PLATFORM_NDS\<rparr>\<rparr>, zero_rom)\<rparr>\<rparr>"

definition pointing_frontend :: frontend where
  "pointing_frontend = \<lparr>variable_answer = (\<lambda>_. None), variables_updated = False, options_version = None, offers_bitmasks = False,
     offers_clock = False, clock = 0, accepts_xrgb8888 = True, system_directory_answer = None, save_directory_answer = None,
     input_answer = (\<lambda>query. if query = POINTER_PRESSED 0 then 1 else if query = POINTER_Y 0 then 0x4000 else 0)\<rparr>"

definition some_abi :: libretro_abi where
  "some_abi = \<lparr>device_none = 0, device_joypad = 1, device_analog = 5, device_mask = 0xFF, joypad_r2 = 13, joypad_r3 = 15,
     memory_save_ram = 0, memory_rtc = 1\<rparr>"

theorem touch_inputs_correct_witness:
  "\<exists>input0 input1 inputs assigned core1 core2 core3.
     read_machine_input some_abi pointing_frontend 0 0 None ds_core = (input0, core1) \<and>
     read_machine_input some_abi pointing_frontend 1 1 None core1 = (input1, core2) \<and>
     apply_pointer_contacts pointing_frontend (display (core_session ds_core)) (input0, input1) core2 = Some (inputs, assigned, core3) \<and>
     touch_inside (fst inputs) \<and> touch_inside (snd inputs) \<and> assigned = (False, True) \<and>
     touch_active (snd inputs) \<and> touch_x (snd inputs) = 0 \<and> touch_y (snd inputs) = 96"
proof -
  obtain input0 core1 input1 core2 where
    r0: "read_machine_input some_abi pointing_frontend 0 0 None ds_core = (input0, core1)" and
    r1: "read_machine_input some_abi pointing_frontend 1 1 None core1 = (input1, core2)"
    by (metis surj_pair)
  let ?config = "display (core_session ds_core)"
  have frames: "machine_frames (core_session ds_core) = Some (Some (ds_frame, ds_frame), core_session ds_core)"
    by (simp add: machine_frames_def ds_core_def ds_engine_def read_frames_def demo_engine_def)
  have geometry: "dualboy_compositor_geometry (ds_frame, ds_frame) ?config = Some \<lparr>gwidth = 512, gheight = 384\<rparr>"
    by (simp add: dualboy_compositor_geometry_def ds_frame_def valid_frame_def frame_at_def ds_core_def dualboy_session_init_def
        dualboy_machine_for_screen_def DUALBOY_MACHINE_COUNT_def)
  have nds: "nds_session_loaded ds_core" "input_state ds_core" by (simp_all add: nds_session_loaded_def ds_core_def)
  obtain inputs assigned core3 where contacts:
    "apply_pointer_contacts pointing_frontend ?config (input0, input1) core2 = Some (inputs, assigned, core3)"
    using machine_input_inside(2) [OF r0] machine_input_inside(2) [OF r1] frames geometry
    by (cases "\<not> nds_session_loaded core2 \<or> \<not> input_state core2") (auto simp: apply_pointer_contacts_def contact_loop_first Let_def)
  have hit: "contact_hits pointing_frontend (ds_frame, ds_frame) ?config \<lparr>gwidth = 512, gheight = 384\<rparr> m [0..<16] =
      (if m = 1 then [(0, 288)] else [])" if "m < 2" for m
  proof -
    have upt: "[0..<16] = (0 :: nat) # 1 # [2..<16]" by (simp add: upt_rec)
    have x: "normalized_coordinate 0 512 = 256" and y: "normalized_coordinate 0x4000 384 = 288"
      by (simp_all add: normalized_coordinate_def word_le_nat_alt)
    have "\<not> swap_screens ?config" "mode ?config = DUALBOY_MODE_DUAL" "layout ?config = DUALBOY_LAYOUT_SIDE_BY_SIDE"
      by (simp_all add: ds_core_def dualboy_session_init_def)
    then have point: "dualboy_compositor_map_point (ds_frame, ds_frame) ?config 256 288 = Some (1, 0, 288)"
      using geometry by (simp add: dualboy_compositor_map_point_def dualboy_machine_for_screen_def DUALBOY_MACHINE_COUNT_def
          frame_at_def ds_frame_def)
    show ?thesis using that unfolding upt
      by (simp add: contact_hits_Cons contact_hit_def pointing_frontend_def x y point
          DUALBOY_NDS_SCREEN_WIDTH_def DUALBOY_NDS_SCREEN_HEIGHT_def)
  qed
  from touch_inputs_correct [OF r0 r1 contacts] nds frames geometry hit
  have "touch_inside (fst inputs) \<and> touch_inside (snd inputs) \<and> assigned = (False, True) \<and> snd inputs = touch_at 0 288 input1"
    by auto
  moreover have "touch_active (touch_at 0 288 input1) \<and> touch_x (touch_at 0 288 input1) = 0 \<and> touch_y (touch_at 0 288 input1) = 96"
    by (simp add: touch_at_def DUALBOY_NDS_SCREEN_HEIGHT_def)
  ultimately show ?thesis using r0 r1 contacts by metis
qed

end
