(* ===== verification/Session_Moves.thy ===== *)
theory Session_Moves
  imports State_Restore Save_Life
begin

text \<open>
  What a running session keeps. The calls of a session, of the savestates and of the save manager
  change the pair of machines by engine operations only; the engine, the cartridges and the
  addresses of the buffers stay. \<open>engine_move\<close> is the relation of single operations, \<open>evolves\<close> the
  relation between the session before and after any number of calls.
\<close>

section \<open>Engine operations\<close>

inductive engine_move :: "'p dualboy_engine_ops \<Rightarrow> 'p \<Rightarrow> 'p \<Rightarrow> bool" for ops :: "'p dualboy_engine_ops" where
  store: "engine_move ops p (memory_store ops p machine kind data)"
| clear: "clear_memory_dirty ops = Some f \<Longrightarrow> engine_move ops p (f p machine)"
| notify: "persistent_memory_loaded ops = Some f \<Longrightarrow> engine_move ops p (f p)"
| reset: "engine_reset ops = Some f \<Longrightarrow> engine_move ops p (f p)"
| link: "set_link ops = Some f \<Longrightarrow> f p enabled = (ok, p') \<Longrightarrow> engine_move ops p p'"
| input: "set_input ops = Some f \<Longrightarrow> engine_move ops p (f p machine pressed)"
| machine_input: "set_machine_input ops = Some f \<Longrightarrow> engine_move ops p (f p machine value_read)"
| frame: "run_frame ops = Some f \<Longrightarrow> f p = (ok, p') \<Longrightarrow> engine_move ops p p'"
| picture: "video_frame ops = Some f \<Longrightarrow> f p machine = (shown, p') \<Longrightarrow> engine_move ops p p'"
| sound: "read_audio ops = Some f \<Longrightarrow> f p capacity = (heard, p') \<Longrightarrow> engine_move ops p p'"
| serialize: "serialize_machine ops = Some f \<Longrightarrow> f p machine capacity = (answer, p') \<Longrightarrow> engine_move ops p p'"
| unserialize: "unserialize_machine ops = Some f \<Longrightarrow> f p machine data = (ok, p') \<Longrightarrow> engine_move ops p p'"
| unserialize_cable: "unserialize_link ops = Some f \<Longrightarrow> f p data = (ok, p') \<Longrightarrow> engine_move ops p p'"
| renderer: "set_video_renderer ops = Some f \<Longrightarrow> f p chosen = (ok, p') \<Longrightarrow> engine_move ops p p'"

abbreviation engine_moves :: "'p dualboy_engine_ops \<Rightarrow> 'p \<Rightarrow> 'p \<Rightarrow> bool" where
  "engine_moves ops \<equiv> (engine_move ops)\<^sup>*\<^sup>*"

lemmas move_after = rtranclp.rtrancl_into_rtrancl

lemma moves_store: "engine_moves ops p q \<Longrightarrow> engine_moves ops p (memory_store ops q machine kind data)"
  by (rule move_after) (auto intro: engine_move.store)

lemma moves_clear: "engine_moves ops p q \<Longrightarrow> engine_moves ops p (clear_dirty ops machine q)"
  by (auto simp: clear_dirty_def split: option.split intro: move_after engine_move.clear)

lemma read_frames_moves:
  assumes "read_frames ops p = Some (frames, q)"
  shows "engine_moves ops p q"
proof -
  obtain video where video: "video_frame ops = Some video"
    using assms by (auto simp: read_frames_def split: Option.bind_splits)
  obtain shown0 p1 shown1 p2 where step: "video p 0 = (shown0, p1)" "video p1 1 = (shown1, p2)" by fastforce
  have "engine_move ops p p1" "engine_move ops p1 p2" using video step by (auto intro: engine_move.picture)
  moreover have "q = p1 \<or> q = p2" using assms video step by (auto simp: read_frames_def split: option.splits)
  ultimately show ?thesis by (auto intro: move_after)
qed

lemma set_port_input_moves: "set_port_input ops machine input p = Some q \<Longrightarrow> engine_move ops p q"
  by (auto simp: set_port_input_def split: option.splits intro: engine_move.intros)

lemma snapshot_machine_moves:
  "snapshot_machine ops capacity machine p h = Some (part, q, h') \<Longrightarrow> engine_moves ops p q"
  by (auto simp: snapshot_machine_def split: if_splits prod.splits option.splits Option.bind_splits
      intro: engine_move.serialize)

lemma snapshot_state_moves:
  assumes "snapshot_state session ops p h = Some (parts, q, h')"
  shows "engine_moves ops p q"
proof -
  from assms obtain ok0 part0 p1 h1 where
    first: "snapshot_machine ops (fst (machine_state_capacity session)) 0 p h = Some ((ok0, part0), p1, h1)"
    and rest: "q = p1 \<or> (\<exists>answer h2. snapshot_machine ops (snd (machine_state_capacity session)) 1 p1 h1 = Some (answer, q, h2))"
    by (auto simp: snapshot_state_def Let_def split: Option.bind_splits if_splits)
  from rest snapshot_machine_moves [OF first] snapshot_machine_moves show ?thesis
    by (metis rtranclp_trans)
qed

lemma moves_chain:
  assumes "engine_move ops p p1" and "engine_move ops p1 p2" and "engine_move ops p2 p3" and "engine_move ops p3 p4"
  shows "engine_moves ops p p1" and "engine_moves ops p p2" and "engine_moves ops p p3" and "engine_moves ops p p4"
  using assms by (meson move_after rtranclp.rtrancl_refl)+

lemma apply_state_moves:
  assumes "apply_state ops bytes saved_link n0 n1 n2 p = Some (ok, q)"
  shows "engine_moves ops p q"
proof -
  from assms obtain set_l restore restore_l payload0 payload1 payload2 where
    ops: "set_link ops = Some set_l" "unserialize_machine ops = Some restore" "unserialize_link ops = Some restore_l"
    and payloads: "slice bytes DUALBOY_STATE_HEADER_SIZE n0 = Some payload0"
      "slice bytes (DUALBOY_STATE_HEADER_SIZE + n0) n1 = Some payload1"
      "slice bytes (DUALBOY_STATE_HEADER_SIZE + n0 + n1) n2 = Some payload2"
    by (auto simp: apply_state_def split: Option.bind_splits)
  obtain ok1 p1 where p1: "set_l p saved_link = (ok1, p1)" by fastforce
  obtain ok2 p2 where p2: "restore p1 0 payload0 = (ok2, p2)" by fastforce
  obtain ok3 p3 where p3: "restore p2 1 payload1 = (ok3, p3)" by fastforce
  obtain ok4 p4 where p4: "restore_l p3 payload2 = (ok4, p4)" by fastforce
  have "q = p1 \<or> q = p2 \<or> q = p3 \<or> q = p4"
    using assms p3 by (auto simp: apply_state_def ops payloads p1 p2 p4 split: if_splits)
  with moves_chain [OF engine_move.link [OF ops(1) p1] engine_move.unserialize [OF ops(2) p2]
      engine_move.unserialize [OF ops(2) p3] engine_move.unserialize_cable [OF ops(3) p4]] show ?thesis by blast
qed

lemma rollback_state_moves:
  assumes "rollback_state ops snapshot link p = Some (ok, q)"
  shows "engine_moves ops p q"
proof -
  from assms obtain set_l restore restore_l where ops: "set_link ops = Some set_l" "unserialize_machine ops = Some restore"
    "unserialize_link ops = Some restore_l" by (auto simp: rollback_state_def split: Option.bind_splits)
  obtain ok1 p1 where p1: "set_l p link = (ok1, p1)" by fastforce
  obtain ok2 p2 where p2: "restore p1 0 (snd (part_machine0 snapshot)) = (ok2, p2)" by fastforce
  obtain ok3 p3 where p3: "restore p2 1 (snd (part_machine1 snapshot)) = (ok3, p3)" by fastforce
  obtain ok4 p4 where p4: "restore_l p3 (snd (part_link snapshot)) = (ok4, p4)" by fastforce
  have "q = p4" using assms p3 by (auto simp: rollback_state_def ops p1 p2 p4)
  with moves_chain [OF engine_move.link [OF ops(1) p1] engine_move.unserialize [OF ops(2) p2]
      engine_move.unserialize [OF ops(2) p3] engine_move.unserialize_cable [OF ops(3) p4]] show ?thesis by blast
qed

lemma restore_battery_moves: "restore_and_free_battery ops battery p h = Some (q, h') \<Longrightarrow> engine_moves ops p q"
proof (induction battery arbitrary: p h)
  case (Cons copy battery)
  obtain machine kind a data where "copy = (machine, kind, a, data)" by (cases copy)
  with Cons.prems Cons.IH show ?case
    by (auto split: Option.bind_splits) (meson converse_rtranclp_into_rtranclp engine_move.store)
qed simp

section \<open>Sessions\<close>

fun pair_moves :: "'p dualboy_engine_ops option \<Rightarrow> (nat \<times> 'p) option \<Rightarrow> (nat \<times> 'p) option \<Rightarrow> bool" where
  "pair_moves user None later \<longleftrightarrow> later = None"
| "pair_moves user (Some (address, p)) later \<longleftrightarrow>
     (\<exists>q. later = Some (address, q) \<and> (\<forall>ops. user = Some ops \<longrightarrow> engine_moves ops p q))"

definition evolves :: "'p dualboy_session \<Rightarrow> 'p dualboy_session \<Rightarrow> bool" where
  "evolves s s' \<longleftrightarrow> engine s' = engine s \<and> loaded s' = loaded s \<and> roms s' = roms s \<and>
     map_option fst (composite_pixels s') = map_option fst (composite_pixels s) \<and> pair_moves (engine s) (pair s) (pair s')"

lemma pair_moves_refl [simp]: "pair_moves user x x"
  by (cases "(user, x, x)" rule: pair_moves.cases) auto

lemma pair_moves_trans: "pair_moves user x y \<Longrightarrow> pair_moves user y z \<Longrightarrow> pair_moves user x z"
  by (cases "(user, x, y)" rule: pair_moves.cases) (fastforce intro: rtranclp_trans)+

lemma pair_moves_address: "pair_moves user x y \<Longrightarrow> map_option fst y = map_option fst x"
  by (cases "(user, x, y)" rule: pair_moves.cases) auto

lemma evolves_refl [simp]: "evolves s s"
  by (simp add: evolves_def)

lemma evolves_trans: "evolves s s' \<Longrightarrow> evolves s' s'' \<Longrightarrow> evolves s s''"
  by (auto simp: evolves_def intro: pair_moves_trans)

lemma evolves_fields [simp]:
  "evolves s (s'\<lparr>link_enabled := b\<rparr>) = evolves s s'" "evolves s (s'\<lparr>display := d\<rparr>) = evolves s s'"
  "evolves s (s'\<lparr>composite := c\<rparr>) = evolves s s'"
  by (simp_all add: evolves_def)

lemma evolves_pixels:
  "composite_pixels s' = Some (address, old) \<Longrightarrow> evolves s s' \<Longrightarrow> evolves s (s'\<lparr>composite_pixels := Some (address, new)\<rparr>)"
  by (simp add: evolves_def)

lemma evolves_pair:
  "pair s = Some (address, p) \<Longrightarrow> engine s = Some ops \<Longrightarrow> engine_moves ops p q \<Longrightarrow> evolves s (s\<lparr>pair := Some (address, q)\<rparr>)"
  by (simp add: evolves_def)

lemma evolves_pointers: "evolves s s' \<Longrightarrow> session_pointers s' = session_pointers s"
  by (auto simp: evolves_def session_pointers_def dest: pair_moves_address)

lemma reset_evolves: "dualboy_session_reset s = Some s' \<Longrightarrow> evolves s s'"
  by (auto simp: dualboy_session_reset_def split: if_splits Option.bind_splits option.splits
      intro!: evolves_pair engine_move.reset)

lemma set_link_evolves: "dualboy_session_set_link s enabled = Some (ok, s') \<Longrightarrow> evolves s s'"
  by (auto simp: dualboy_session_set_link_def Let_def split: bool.splits option.splits Option.bind_splits prod.splits if_splits
      intro!: evolves_pair engine_move.link)

lemma geometry_evolves: "dualboy_session_geometry s config = Some (geometry, s') \<Longrightarrow> evolves s s'"
  by (auto simp: dualboy_session_geometry_def Let_def split: if_splits Option.bind_splits option.splits
      intro!: evolves_pair dest!: read_frames_moves)

lemma run_evolves:
  assumes "dualboy_session_run s inputs config = Some (failure, s')"
  shows "evolves s s'"
proof (cases "\<exists>ops frame. loaded s \<and> engine s = Some ops \<and> \<not> (set_machine_input ops = None \<and> set_input ops = None) \<and>
    run_frame ops = Some frame \<and> video_frame ops \<noteq> None")
  case False
  then have "s' = s" using assms by (cases "loaded s"; cases "engine s") (auto simp: dualboy_session_run_def split: if_splits)
  then show ?thesis by simp
next
  case True
  then obtain ops frame where ops: "loaded s" "engine s = Some ops" "\<not> (set_machine_input ops = None \<and> set_input ops = None)"
    "run_frame ops = Some frame" "video_frame ops \<noteq> None" by blast
  from assms ops obtain address p0 p1 p2 where pair: "pair s = Some (address, p0)"
    and p1: "set_port_input ops 0 (fst inputs) p0 = Some p1" and p2: "set_port_input ops 1 (snd inputs) p1 = Some p2"
    by (auto simp: dualboy_session_run_def split: Option.bind_splits)
  obtain ran p3 where p3: "frame p2 = (ran, p3)" by fastforce
  have moved: "engine_moves ops p0 p3"
    using set_port_input_moves [OF p1] set_port_input_moves [OF p2] engine_move.frame [OF ops(4) p3]
    by (meson move_after rtranclp.rtrancl_refl)
  show ?thesis
  proof (cases ran)
    case False
    then have "s' = s\<lparr>pair := Some (address, p3)\<rparr>"
      using assms ops pair p1 p2 p3 by (simp add: dualboy_session_run_def)
    with evolves_pair [OF pair ops(2) moved] show ?thesis by simp
  next
    case True
    with assms ops pair p1 p2 p3 obtain shown p4 where frames: "read_frames ops p3 = Some (shown, p4)"
      by (auto simp: dualboy_session_run_def split: Option.bind_splits)
    note evolved = evolves_pair [OF pair ops(2) rtranclp_trans [OF moved read_frames_moves [OF frames]]]
    show ?thesis
    proof (cases "\<exists>both buffer old. shown = Some both \<and> composite_pixels s = Some (buffer, old)")
      case False
      then have "s' = s\<lparr>pair := Some (address, p4)\<rparr>"
        using assms ops pair p1 p2 p3 frames \<open>ran\<close>
        by (cases shown; cases "composite_pixels s") (auto simp: dualboy_session_run_def)
      with evolved show ?thesis by simp
    next
      case True
      then obtain both buffer old where "shown = Some both" and pixels: "composite_pixels s = Some (buffer, old)" by blast
      with assms ops pair p1 p2 p3 frames \<open>ran\<close> obtain new composed where
        "dualboy_compose_frame old DUALBOY_MAX_COMPOSITE_PIXELS both config = Some (new, composed)"
        by (auto simp: dualboy_session_run_def split: Option.bind_splits)
      with assms ops pair p1 p2 p3 frames \<open>ran\<close> \<open>shown = Some both\<close> pixels
      have "s' = s\<lparr>pair := Some (address, p4), composite_pixels := Some (buffer, new)\<rparr> \<or>
          (\<exists>frame. s' = s\<lparr>pair := Some (address, p4), composite_pixels := Some (buffer, new), composite := frame, display := config\<rparr>)"
        by (cases composed) (auto simp: dualboy_session_run_def)
      with evolved evolves_pixels [OF _ evolved, of buffer old new] pixels show ?thesis by auto
    qed
  qed
qed

lemma serialize_evolves:
  assumes "dualboy_state_serialize s data = Some (ok, data', s')"
  shows "evolves s s'"
proof (cases "s' = s")
  case False
  from assms False obtain ops address p0 where s: "engine s = Some ops" "pair s = Some (address, p0)"
    by (auto simp: dualboy_state_serialize_def split: if_splits option.splits Option.bind_splits)
  from assms False s obtain serialize where serialize: "serialize_machine ops = Some serialize"
    by (auto simp: dualboy_state_serialize_def split: if_splits option.splits Option.bind_splits)
  obtain cap0 cap1 where caps: "machine_state_capacity s = (cap0, cap1)" by fastforce
  obtain ok0 written0 used0 p1 where p1: "serialize p0 0 cap0 = ((ok0, written0, used0), p1)" by (metis prod_cases3 surj_pair)
  obtain ok1 written1 used1 p2 where p2: "serialize p1 1 cap1 = ((ok1, written1, used1), p2)" by (metis prod_cases3 surj_pair)
  have "s' = s\<lparr>pair := Some (address, p1)\<rparr> \<or> s' = s\<lparr>pair := Some (address, p2)\<rparr>"
    using assms False p2
    by (auto simp: dualboy_state_serialize_def s serialize caps p1 Let_def
        split: if_splits option.splits Option.bind_splits prod.splits)
  moreover have "engine_moves ops p0 p1" "engine_moves ops p0 p2"
    using engine_move.serialize [OF serialize p1] engine_move.serialize [OF serialize p2] by (auto intro: move_after)
  ultimately show ?thesis using evolves_pair [OF s(2,1)] by blast
qed simp

lemma unserialize_evolves:
  assumes "dualboy_state_unserialize_ex s data h = Some (result, s', h')"
  shows "evolves s s'"
proof (cases "s' = s")
  case False
  from assms False obtain bytes saved_link n0 n1 n2 where data: "data = Some bytes"
    "check_state s bytes = Some (Some (saved_link, n0, n1, n2))"
    by (cases data) (auto simp: dualboy_state_unserialize_ex_def split: Option.bind_splits option.splits)
  from assms data obtain ops address p0 snapshot p1 h1 where s: "engine s = Some ops" "pair s = Some (address, p0)"
    and snap: "snapshot_state s ops p0 h = Some (snapshot, p1, h1)"
    by (auto simp: dualboy_state_unserialize_ex_def split: Option.bind_splits)
  note moved = snapshot_state_moves [OF snap]
  obtain protected battery h2 where copy: "copy_battery ops p1 h1 = (protected, battery, h2)" by (metis prod_cases3)
  have same: "s\<lparr>pair := x\<rparr> = s\<lparr>pair := x, link_enabled := link_enabled s\<rparr>" for x by (cases s) simp
  have "\<exists>p4 link. s' = s\<lparr>pair := Some (address, p4), link_enabled := link\<rparr> \<and> engine_moves ops p0 p4"
  proof (cases snapshot)
    case None
    then have "s' = s\<lparr>pair := Some (address, p1)\<rparr>"
      using assms by (simp add: dualboy_state_unserialize_ex_def data s snap)
    with moved same show ?thesis by metis
  next
    case (Some parts)
    show ?thesis
    proof (cases protected)
      case False
      with assms Some obtain p2 h3 where "restore_and_free_battery ops battery p1 h2 = Some (p2, h3)"
        "s' = s\<lparr>pair := Some (address, p2)\<rparr>"
        by (auto simp: dualboy_state_unserialize_ex_def data s snap copy split: Option.bind_splits)
      with rtranclp_trans [OF moved restore_battery_moves] same show ?thesis by metis
    next
      case True
      with assms Some obtain applied p2 rollback_ok p3 p4 h3 where
        steps: "apply_state ops bytes saved_link n0 n1 n2 p1 = Some (applied, p2)"
        "(if applied then Some (True, p2) else rollback_state ops parts (link_enabled s) p2) = Some (rollback_ok, p3)"
        "restore_and_free_battery ops battery p3 h2 = Some (p4, h3)"
        and s': "s' = s\<lparr>pair := Some (address, p4), link_enabled := (if applied then saved_link else link_enabled s)\<rparr>"
        by (auto simp: dualboy_state_unserialize_ex_def data s snap copy split del: if_split split: Option.bind_splits)
      have "engine_moves ops p2 p3" using steps(2) rollback_state_moves by (cases applied) auto
      with moved apply_state_moves [OF steps(1)] restore_battery_moves [OF steps(3)] have "engine_moves ops p0 p4"
        by (meson rtranclp_trans)
      with s' show ?thesis by blast
    qed
  qed
  with evolves_pair [OF s(2,1)] show ?thesis by auto
qed simp

section \<open>Saves\<close>

lemma flush_evolves:
  assumes "dualboy_save_manager_flush m s w = Some (ok, m', s', w')"
  shows "evolves s s'"
proof (cases "\<exists>ops address p. engine s = Some ops \<and> pair s = Some (address, p)")
  case True
  then obtain ops address p where s: "engine s = Some ops" "pair s = Some (address, p)" by blast
  with assms have "s' = s \<or> s' = s\<lparr>pair := Some (address, clear_dirty ops 0 p)\<rparr> \<or>
      s' = s\<lparr>pair := Some (address, clear_dirty ops 1 (clear_dirty ops 0 p))\<rparr>"
    by (auto simp: dualboy_save_manager_flush_def Let_def split: if_splits Option.bind_splits)
  moreover have "engine_moves ops p (clear_dirty ops 0 p)" "engine_moves ops p (clear_dirty ops 1 (clear_dirty ops 0 p))"
    by (intro moves_clear rtranclp.rtrancl_refl)+
  ultimately show ?thesis using evolves_pair [OF s(2,1)] evolves_refl by metis
qed (use assms in \<open>auto simp: dualboy_save_manager_flush_def split: if_splits Option.bind_splits\<close>)

lemma tick_evolves: "dualboy_save_manager_tick m s w = Some (ok, m', s', w') \<Longrightarrow> evolves s s'"
  by (auto simp: dualboy_save_manager_tick_def Let_def dest: flush_evolves split: if_splits)

lemma init_pointers:
  assumes "dualboy_save_manager_init m s directory w = Some (ok, m', s', w')"
  shows "s' = s \<or> (\<exists>address p q. pair s = Some (address, p) \<and> s' = s\<lparr>pair := Some (address, q)\<rparr>)"
proof (cases "\<exists>address p. pair s = Some (address, p)")
  case True
  then obtain address p where pair: "pair s = Some (address, p)" by blast
  with assms have "s' = s \<or> (\<exists>q. s' = s\<lparr>pair := Some (address, q)\<rparr>)"
    by (auto simp: dualboy_save_manager_init_def Let_def split: option.splits sum.splits if_splits Option.bind_splits prod.splits)
  with pair show ?thesis by blast
next
  case False
  then have "pair s = None" by (cases "pair s") auto
  with assms show ?thesis
    by (auto simp: dualboy_save_manager_init_def Let_def split: option.splits sum.splits if_splits)
qed

lemma write_file_locks: "write_file w path data = Some (result, w') \<Longrightarrow> lock_answers w' = lock_answers w"
  by (auto simp: write_file_def split: list.splits Option.bind_splits)

lemma replace_baseline_locks: "replace_baseline t data n w = Some (ok, t', w') \<Longrightarrow> lock_answers w' = lock_answers w"
  by (auto simp: replace_baseline_def allocate_def release_def slice_def Let_def split: if_splits Option.bind_splits prod.splits)

lemma flush_region_locks:
  "flush_region session ops p region m w = Some (ok, m', w') \<Longrightarrow> lock_answers w' = lock_answers w"
  by (erule flush_region_cases) (auto dest!: write_file_locks replace_baseline_locks)

lemma flush_regions_locks:
  "flush_regions session ops p regions m w = Some (ok, m', w') \<Longrightarrow> lock_answers w' = lock_answers w"
proof (induction regions arbitrary: m w)
  case (Cons region regions)
  then show ?case by (auto dest!: flush_region_locks split: Option.bind_splits if_splits)
qed simp

lemma flush_locks: "dualboy_save_manager_flush m s w = Some (ok, m', s', w') \<Longrightarrow> lock_answers w' = lock_answers w"
  by (auto simp: dualboy_save_manager_flush_def Let_def dest!: flush_regions_locks split: if_splits Option.bind_splits)

lemma release_baselines_locks:
  "release_baselines regions m w = Some (m', w') \<Longrightarrow> lock_answers w' = lock_answers w"
  by (induction regions arbitrary: m w) (auto simp: release_def split: Option.bind_splits)

lemma deinit_locks: "dualboy_save_manager_deinit m w = Some (m', w') \<Longrightarrow> lock_answers w' = lock_answers w"
  by (auto simp: dualboy_save_manager_deinit_def release_tracking_baselines_def release_write_ownership_def
      dest!: release_baselines_locks split: if_splits Option.bind_splits)

section \<open>Sizes of the battery regions\<close>

text \<open>
  What \<open>engine.h\<close> promises about the battery regions of a loaded pair: no operation changes which
  regions there are and how many bytes they have.
\<close>

definition same_sizes :: "'p dualboy_engine_ops \<Rightarrow> 'p \<Rightarrow> 'p \<Rightarrow> bool" where
  "same_sizes ops p q \<longleftrightarrow> (\<forall>info machine kind. memory_info ops = Some info \<longrightarrow>
     map_option (map_prod (\<lambda>present. present) length) (info q machine kind) =
     map_option (map_prod (\<lambda>present. present) length) (info p machine kind))"

definition steady_memory :: "'p dualboy_engine_ops \<Rightarrow> bool" where
  "steady_memory ops \<longleftrightarrow> (\<forall>p q. engine_move ops p q \<longrightarrow> same_sizes ops p q)"

lemma same_sizes_moves:
  assumes "steady_memory ops" and "engine_moves ops p q"
  shows "same_sizes ops p q"
  using assms(2)
proof induction
  case (step q r)
  then show ?case using assms(1) unfolding steady_memory_def same_sizes_def by metis
qed (simp add: same_sizes_def)

lemma same_sizes_kept:
  assumes "engine session = Some ops" and "same_sizes ops p q"
  shows "sizes_kept session p q"
proof (cases "memory_info ops")
  case (Some info)
  have "map_option length (engine_memory session q r) = map_option length (engine_memory session p r)" for r
  proof -
    from assms(2) Some have "map_option (map_prod (\<lambda>present. present) length) (info q (fst r) (snd r)) =
        map_option (map_prod (\<lambda>present. present) length) (info p (fst r) (snd r))" by (simp add: same_sizes_def)
    then show ?thesis
      using assms(1) Some
      by (cases "info q (fst r) (snd r)"; cases "info p (fst r) (snd r)") (auto simp: engine_memory_def)
  qed
  then show ?thesis by (simp add: sizes_kept_def)
qed (use assms in \<open>simp add: sizes_kept_def engine_memory_def\<close>)

lemma steady_memory_law:
  assumes "steady_memory ops" and "engine session = Some ops"
  shows "memory_law session ops"
proof -
  have kept: "sizes_kept session p q" if "engine_moves ops p q" for p q
    by (rule same_sizes_kept [OF assms(2) same_sizes_moves [OF assms(1) that]])
  have "sizes_kept session p (memory_store ops p machine kind data)" "sizes_kept session p (clear_dirty ops machine p)"
    for p machine kind data
    by (rule kept, rule moves_store, simp) (rule kept, rule moves_clear, simp)
  moreover have "sizes_kept session p (f p)" if "persistent_memory_loaded ops = Some f" for p f
    by (rule kept) (rule r_into_rtranclp, rule engine_move.notify, rule that)
  ultimately show ?thesis by (simp add: memory_law_def)
qed

lemma evolves_stable:
  assumes "evolves s s'" and "engine s = Some ops" and "pair s = Some (address, p)" and "steady_memory ops"
    and "stable_memory s capacity p"
  shows "\<exists>q. pair s' = Some (address, q) \<and> engine s' = Some ops \<and> stable_memory s' capacity q"
proof -
  from assms(1-3) obtain q where q: "pair s' = Some (address, q)" "engine_moves ops p q"
    and same: "engine s' = Some ops" "loaded s' = loaded s" by (auto simp: evolves_def)
  have "stable_memory s capacity q"
    using sizes_kept_stable [OF same_sizes_kept [OF assms(2) same_sizes_moves [OF assms(4) q(2)]] assms(5)] .
  moreover have "engine_memory s' = engine_memory s" using same assms(2) by (auto simp: engine_memory_def fun_eq_iff)
  ultimately show ?thesis using q same by (simp add: stable_memory_def)
qed

section \<open>The heap under a restore\<close>

lemma restore_heap:
  assumes "dualboy_state_unserialize_ex s data h = Some (result, s', h')" and "owns_beside base [] h"
    and "engine s = Some ops" and "serializer_contract ops" and "set_link ops \<noteq> None"
  shows "owns_beside base [] h'"
proof (cases "\<exists>bytes saved_link n0 n1 n2. data = Some bytes \<and> check_state s bytes = Some (Some (saved_link, n0, n1, n2))")
  case False
  then have "h' = h" using assms(1)
    by (cases data) (auto simp: dualboy_state_unserialize_ex_def split: Option.bind_splits option.splits)
  with assms(2) show ?thesis by simp
next
  case True
  then obtain bytes saved_link n0 n1 n2 where data: "data = Some bytes"
    and check: "check_state s bytes = Some (Some (saved_link, n0, n1, n2))" by blast
  from assms(1) data check obtain address p0 where "pair s = Some (address, p0)"
    by (auto simp: dualboy_state_unserialize_ex_def split: Option.bind_splits)
  from check assms(3) this assms(2,4,5) show ?thesis
    by (cases rule: restore_cases) (use assms(1) data in simp_all)
qed

end
