(* ===== verification/Libretro_Life.thy ===== *)
theory Libretro_Life
  imports Session_Moves Libretro_Core
begin

text \<open>
  The life of the core under the frontend: whatever sequence of calls the frontend makes, the heap
  holds exactly the loaded session and the copies of its save manager, the lock files held are those
  of the manager, and unloading gives all of it back.
\<close>

section \<open>What the core holds\<close>

text \<open>Whether the core is initialized, and the save manager, the session and the world.\<close>

definition holdings :: "'p dualboy_libretro_context \<Rightarrow> bool \<times> 'p save_state" where
  "holdings core = (core_initialized core, saves core, core_session core, world core)"

definition addresses :: "'p dualboy_session \<Rightarrow> nat set" where
  "addresses s = set (somes (session_pointers s))"

text \<open>What is expected of an engine: \<open>engine.h\<close> asks for a link switch and for serializers within their buffers.\<close>

definition engine_promise :: "'p dualboy_engine_ops \<Rightarrow> bool" where
  "engine_promise ops \<longleftrightarrow> steady_memory ops \<and> serializer_contract ops \<and> set_link ops \<noteq> None"

text \<open>
  The invariant. \<open>base\<close> and \<open>locks\<close> are the allocations and the descriptors of the rest of the program.
\<close>

definition core_inv :: "nat set \<Rightarrow> nat set \<Rightarrow> 'p save_state \<Rightarrow> bool" where
  "core_inv base locks = (\<lambda>(m, s, w).
     if loaded s
     then distinct (somes (session_pointers s)) \<and> addresses s \<inter> base = {} \<and>
       (\<exists>ops capacity. engine s = Some ops \<and> destroy_pair ops \<noteq> None \<and> engine_promise ops \<and>
          life_inv (base \<union> addresses s) locks capacity (m, s, w))
     else session_unloaded s \<and> m = zero_manager \<and> owns_beside base [] (memory w) \<and> held_locks w = locks)"

lemma core_invE:
  assumes "core_inv base locks (m, s, w)"
  obtains (unloaded) "\<not> loaded s" "session_unloaded s" "m = zero_manager" "owns_beside base [] (memory w)" "held_locks w = locks"
    | (loaded) ops address p capacity where "loaded s" "distinct (somes (session_pointers s))" "addresses s \<inter> base = {}"
      "engine s = Some ops" "pair s = Some (address, p)" "destroy_pair ops \<noteq> None" "engine_promise ops"
      "stable_memory s capacity p" "life_inv (base \<union> addresses s) locks capacity (m, s, w)"
  using assms by (cases "loaded s") (auto simp: core_inv_def life_inv_def)

lemma evolves_addresses: "evolves s s' \<Longrightarrow> addresses s' = addresses s"
  by (simp add: addresses_def evolves_pointers)

lemma core_inv_evolves:
  assumes "core_inv base locks (m, s, w)" and "evolves s s'"
  shows "core_inv base locks (m, s', w)"
  using assms(1)
proof (cases rule: core_invE)
  case unloaded
  with assms(2) show ?thesis by (auto simp: core_inv_def session_unloaded_def evolves_def)
next
  case (loaded ops address p capacity)
  then have steady: "steady_memory ops" by (simp add: engine_promise_def)
  from evolves_stable [OF assms(2) loaded(4,5) steady loaded(8)] obtain q where
    q: "pair s' = Some (address, q)" "engine s' = Some ops" "stable_memory s' capacity q" by blast
  have "loaded s'" using assms(2) loaded(1) by (simp add: evolves_def)
  moreover have "life_inv (base \<union> addresses s') locks capacity (m, s', w)"
    using loaded(9) q steady_memory_law [OF steady q(2)] by (simp add: life_inv_def evolves_addresses [OF assms(2)])
  ultimately show ?thesis
    using loaded q by (auto simp: core_inv_def evolves_addresses [OF assms(2)] evolves_pointers [OF assms(2)])
qed

lemma core_inv_flush:
  assumes "core_inv base locks (m, s, w)" and "dualboy_save_manager_flush m s w = Some (ok, m', s', w')"
  shows "core_inv base locks (m', s', w')"
  using assms(1)
proof (cases rule: core_invE)
  case unloaded
  with assms show ?thesis by (simp add: dualboy_save_manager_flush_def)
next
  case (loaded ops address p capacity)
  note evolved = flush_evolves [OF assms(2)]
  from flush_life_inv [OF assms(2) loaded(9)] loaded evolved show ?thesis
    by (auto simp: core_inv_def evolves_addresses [OF evolved] evolves_pointers [OF evolved]) (auto simp: evolves_def)
qed

lemma core_inv_tick:
  assumes "core_inv base locks (m, s, w)" and "dualboy_save_manager_tick m s w = Some (ok, m', s', w')"
  shows "core_inv base locks (m', s', w')"
  using assms(1)
proof (cases rule: core_invE)
  case unloaded
  then have "\<not> initialized m" by (simp add: zero_manager_def)
  with assms show ?thesis by (simp add: dualboy_save_manager_tick_def)
next
  case (loaded ops address p capacity)
  note evolved = tick_evolves [OF assms(2)]
  from tick_life_inv [OF assms(2) loaded(9)] loaded evolved show ?thesis
    by (auto simp: core_inv_def evolves_addresses [OF evolved] evolves_pointers [OF evolved]) (auto simp: evolves_def)
qed

text \<open>Moving what a session owns between the base and the session.\<close>

lemma owns_beside_addresses:
  "owns_beside (base \<union> addresses s) [] h \<and> distinct (somes (session_pointers s)) \<and> addresses s \<inter> base = {} \<longleftrightarrow>
   owns_beside base (session_pointers s) h"
  by (auto simp: owns_beside_def addresses_def)

lemma core_inv_release:
  assumes "core_inv base locks (m, s, w)"
  shows "\<exists>w' s' h. dualboy_save_manager_deinit m w = Some (zero_manager, w') \<and>
    dualboy_session_unload s (memory w') = Some (s', h) \<and>
    core_inv base locks (zero_manager, s', w'\<lparr>memory := h\<rparr>) \<and> \<not> loaded s'"
  using assms
proof (cases rule: core_invE)
  case unloaded
  then have "session_owns base s (memory w)"
    by (simp add: session_owns_def session_unloaded_def session_pointers_def rom_pointers_def)
  from unload_owned [OF this] obtain s' h where unload: "dualboy_session_unload s (memory w) = Some (s', h)"
    "session_unloaded s'" "session_owns base s' h" by blast
  moreover have "dualboy_save_manager_deinit m w = Some (zero_manager, w)"
    using unloaded(3) by (simp add: dualboy_save_manager_deinit_def) (simp add: zero_manager_def)
  ultimately show ?thesis using unloaded
    by (auto simp: core_inv_def session_owns_def session_unloaded_def session_pointers_def rom_pointers_def)
next
  case (loaded ops address p capacity)
  from deinit_life_inv [OF loaded(9)] obtain w' where deinit: "dualboy_save_manager_deinit m w = Some (zero_manager, w')"
    "owns_beside (base \<union> addresses s) [] (memory w')" "held_locks w' = locks" by blast
  have "session_owns base s (memory w')"
    using loaded deinit(2) owns_beside_addresses [of base s "memory w'"] by (simp add: session_owns_def)
  from unload_owned [OF this] obtain s' h where unload: "dualboy_session_unload s (memory w') = Some (s', h)"
    "session_unloaded s'" "session_owns base s' h" by blast
  with deinit show ?thesis
    by (auto simp: core_inv_def session_owns_def session_unloaded_def session_pointers_def rom_pointers_def)
qed

section \<open>Calls that only touch the rest of the context\<close>

lemma holdings_update [simp]:
  "holdings (core\<lparr>environment := b\<rparr>) = holdings core" "holdings (core\<lparr>video := b\<rparr>) = holdings core"
  "holdings (core\<lparr>audio := b\<rparr>) = holdings core" "holdings (core\<lparr>audio_batch := b\<rparr>) = holdings core"
  "holdings (core\<lparr>input_poll := b\<rparr>) = holdings core" "holdings (core\<lparr>input_state := b\<rparr>) = holdings core"
  "holdings (core\<lparr>options := opts\<rparr>) = holdings core" "holdings (core\<lparr>last_geometry := g\<rparr>) = holdings core"
  "holdings (core\<lparr>touch_cursors := cs\<rparr>) = holdings core" "holdings (core\<lparr>port_devices := ds\<rparr>) = holdings core"
  "holdings (core\<lparr>core_system_directory := text\<rparr>) = holdings core" "holdings (core\<lparr>core_save_directory := text\<rparr>) = holdings core"
  "holdings (core\<lparr>audio_buffer := au\<rparr>) = holdings core" "holdings (core\<lparr>presentation_buffer := bs\<rparr>) = holdings core"
  "holdings (core\<lparr>get_time_usec := b\<rparr>) = holdings core" "holdings (core\<lparr>frontend_link_value := b\<rparr>) = holdings core"
  "holdings (core\<lparr>frontend_link_known := b\<rparr>) = holdings core" "holdings (core\<lparr>pending_link_value := b\<rparr>) = holdings core"
  "holdings (core\<lparr>link_request_pending := b\<rparr>) = holdings core" "holdings (core\<lparr>input_bitmasks := b\<rparr>) = holdings core"
  "holdings (core\<lparr>geometry_valid := b\<rparr>) = holdings core" "holdings (core\<lparr>fastforward_override_known := b\<rparr>) = holdings core"
  "holdings (core\<lparr>fastforward_inhibited := b\<rparr>) = holdings core"
  "holdings (core\<lparr>loaded_nds_renderer := r\<rparr>) = holdings core" "holdings (core\<lparr>calls := cl\<rparr>) = holdings core"
  by (simp_all add: holdings_def)

lemma holdings_session [simp]: "holdings (core\<lparr>core_session := s\<rparr>) = (core_initialized core, saves core, s, world core)"
  by (simp add: holdings_def)

lemma holdings_calls [simp]:
  "holdings (emit call core) = holdings core"
  "holdings (environment_call call core) = holdings core"
  "holdings (set_cursor machine cursor core) = holdings core"
  "holdings (reset_touch_cursors core) = holdings core"
  "holdings (publish_geometry g core) = holdings core"
  "holdings (hand_on_audio frames core) = holdings core"
  "holdings (force_core_option key v core) = holdings core"
  "holdings (force_software_renderer core) = holdings core"
  "holdings (refresh_frontend_services f core) = holdings core"
  "holdings (register_environment_interfaces f core) = holdings core"
  "holdings (read_initial_options f core) = holdings core"
  "holdings (initialize_port_devices abi core) = holdings core"
  "holdings (set_fastforward_inhibition b core) = holdings core"
  "holdings (prefer_renderer kind core) = holdings core"
  "holdings (set_options change core) = holdings core"
  "holdings (reflect_link_option b core) = holdings core"
  "holdings (reflect_renderer_option r core) = holdings core"
  "holdings (reset_moved_cursors opts core) = holdings core"
  "holdings (snd (snd (settle_conflict opts core))) = holdings core"
  "holdings (snd (query_directories f core)) = holdings core"
  "holdings (snd (set_pixel_format f core)) = holdings core"
  "holdings (snd (read_machine_input abi f machine port time core)) = holdings core"
  by (simp_all add: emit_def environment_call_def set_cursor_def reset_touch_cursors_def publish_geometry_def hand_on_audio_def
      force_core_option_def force_software_renderer_def refresh_frontend_services_def register_environment_interfaces_def
      read_initial_options_def initialize_port_devices_def set_fastforward_inhibition_def prefer_renderer_def set_options_def
      reflect_link_option_def reflect_renderer_option_def reset_moved_cursors_def settle_conflict_def query_directories_def
      set_pixel_format_def read_machine_input_def Let_def split: option.split)

lemma holdings_eqD:
  "holdings a = holdings b \<Longrightarrow> core_initialized a = core_initialized b \<and> saves a = saves b \<and> core_session a = core_session b \<and> world a = world b"
  by (simp add: holdings_def)

lemmas context_fields [simp] = holdings_calls [THEN holdings_eqD, THEN conjunct1]
  holdings_calls [THEN holdings_eqD, THEN conjunct2, THEN conjunct1]
  holdings_calls [THEN holdings_eqD, THEN conjunct2, THEN conjunct2, THEN conjunct1]
  holdings_calls [THEN holdings_eqD, THEN conjunct2, THEN conjunct2, THEN conjunct2]

lemma synchronize_holdings: "synchronize_fastforward_policy core = Some core' \<Longrightarrow> holdings core' = holdings core"
  by (auto simp: synchronize_fastforward_policy_def split: Option.bind_splits)

section \<open>Calls that move the pair\<close>

definition still :: "bool \<times> 'p save_state \<Rightarrow> bool \<times> 'p save_state \<Rightarrow> bool" where
  "still = (\<lambda>(ready, m, s, w) (ready', m', s', w'). ready' = ready \<and> m' = m \<and> w' = w \<and> evolves s s')"

lemma still_refl [simp]: "still x x"
  by (cases x) (simp add: still_def)

lemma still_trans: "still x y \<Longrightarrow> still y z \<Longrightarrow> still x z"
  by (cases x; cases y; cases z) (auto simp: still_def intro: evolves_trans)

lemma still_session [simp]: "still (holdings core) (core_initialized core, saves core, s, world core) \<longleftrightarrow> evolves (core_session core) s"
  by (simp add: still_def holdings_def)

text \<open>The invariant of the context: besides, only an initialized core has a session loaded.\<close>

definition tallied :: "nat set \<Rightarrow> nat set \<Rightarrow> bool \<times> 'p save_state \<Rightarrow> bool" where
  "tallied base locks = (\<lambda>(ready, m, s, w). core_inv base locks (m, s, w) \<and> (loaded s \<longrightarrow> ready))"

lemma still_inv: "still x y \<Longrightarrow> tallied base locks x \<Longrightarrow> tallied base locks y"
  by (cases x; cases y) (auto simp: still_def tallied_def intro: core_inv_evolves simp: evolves_def)

abbreviation accounted :: "nat set \<Rightarrow> nat set \<Rightarrow> 'p dualboy_libretro_context \<Rightarrow> bool" where
  "accounted base locks core \<equiv> tallied base locks (holdings core)"

lemma accounted_iff:
  "accounted base locks core \<longleftrightarrow> core_inv base locks (saves core, core_session core, world core) \<and>
     (loaded (core_session core) \<longrightarrow> core_initialized core)"
  by (simp add: tallied_def holdings_def)

abbreviation quiet :: "'p dualboy_libretro_context \<Rightarrow> 'p dualboy_libretro_context \<Rightarrow> bool" where
  "quiet core core' \<equiv> still (holdings core) (holdings core')"

lemma machine_frames_evolves: "machine_frames s = Some (frames, s') \<Longrightarrow> evolves s s'"
  by (auto simp: machine_frames_def split: option.splits if_splits Option.bind_splits
      intro!: evolves_pair dest!: read_frames_moves)

lemma apply_pointer_contacts_quiet:
  "apply_pointer_contacts f config inputs core = Some (inputs', assigned, core') \<Longrightarrow> quiet core core'"
  by (auto simp: apply_pointer_contacts_def Let_def dest!: machine_frames_evolves
      split: if_splits Option.bind_splits option.splits prod.splits)

lemma publish_video_quiet: "publish_video_with_touch_cursors assigned core = Some core' \<Longrightarrow> quiet core core'"
  by (auto simp: publish_video_with_touch_cursors_def Let_def dest!: machine_frames_evolves
      split: if_splits Option.bind_splits option.splits prod.splits)

lemma drain_loop_moves:
  assumes "read_audio ops = Some reader" and "drain_loop reader n p core = Some (q, core')"
  shows "engine_moves ops p q \<and> holdings core' = holdings core"
  using assms(2)
proof (induction n arbitrary: p core)
  case (Suc n)
  obtain reported written p1 where step: "reader p DUALBOY_AUDIO_BUFFER_FRAMES = ((reported, written), p1)" by (metis surj_pair)
  have move: "engine_move ops p p1" by (rule engine_move.sound [OF assms(1) step])
  from Suc.prems step have "q = p1 \<and> holdings core' = holdings core \<or>
      (\<exists>core1. holdings core1 = holdings core \<and> drain_loop reader n p1 core1 = Some (q, core'))"
    by (auto simp: Let_def split: if_splits)
  with Suc.IH move show ?case by (metis converse_rtranclp_into_rtranclp r_into_rtranclp)
qed simp

lemma drain_audio_quiet:
  assumes "drain_audio core = Some core'"
  shows "quiet core core'"
proof (cases "\<exists>ops reader. engine (core_session core) = Some ops \<and> read_audio ops = Some reader")
  case False
  with assms have "core' = core" by (auto simp: drain_audio_def split: option.splits)
  then show ?thesis by simp
next
  case True
  then obtain ops reader where ops: "engine (core_session core) = Some ops" "read_audio ops = Some reader" by blast
  with assms obtain address p q core1 where pair: "pair (core_session core) = Some (address, p)"
    and drain: "drain_loop reader DUALBOY_AUDIO_DRAIN_LIMIT p core = Some (q, core1)"
    and core': "core' = core1\<lparr>core_session := (core_session core1)\<lparr>pair := Some (address, q)\<rparr>\<rparr>"
    by (auto simp: drain_audio_def split: Option.bind_splits)
  note moved = drain_loop_moves [OF ops(2) drain]
  from holdings_eqD [OF conjunct2 [OF moved]] have "holdings core' =
      (core_initialized core, saves core, (core_session core)\<lparr>pair := Some (address, q)\<rparr>, world core)" by (simp add: core')
  with evolves_pair [OF pair ops(1)] moved show ?thesis by simp
qed

lemma session_set_link_quiet: "session_set_link b core = Some (ok, core') \<Longrightarrow> quiet core core'"
  by (auto simp: session_set_link_def dest: set_link_evolves split: Option.bind_splits)

lemma set_loaded_renderer_quiet:
  assumes "set_loaded_renderer chosen core = Some (ok, core')"
  shows "quiet core core'"
  using assms
  by (auto simp: set_loaded_renderer_def split: if_splits Option.bind_splits option.splits prod.splits
      intro!: evolves_pair engine_move.renderer)

lemma activate_quiet:
  assumes "activate_loaded_gl_renderer core = Some (ok, core')"
  shows "quiet core core'"
proof (cases "core' = core")
  case False
  with assms obtain changed core1 where step: "set_loaded_renderer DUALBOY_VIDEO_RENDERER_OPENGL core = Some (changed, core1)"
    and same: "holdings core' = holdings core1"
    by (auto simp: activate_loaded_gl_renderer_def split: if_splits Option.bind_splits)
  from set_loaded_renderer_quiet [OF step] same show ?thesis by simp
qed simp

lemma deactivate_quiet:
  assumes "deactivate_loaded_gl_renderer core = Some (ok, core')"
  shows "quiet core core'"
proof (cases "holdings core' = holdings core")
  case False
  with assms obtain changed core1 where step: "set_loaded_renderer DUALBOY_VIDEO_RENDERER_SOFTWARE core = Some (changed, core1)"
    and same: "holdings core' = holdings core1"
    by (auto simp: deactivate_loaded_gl_renderer_def split: if_splits Option.bind_splits)
  from set_loaded_renderer_quiet [OF step] same show ?thesis by simp
qed simp

text \<open>Taking OpenGL down always comes back when a loaded session has its pair.\<close>

lemma deactivate_returns:
  assumes "loaded (core_session core) \<Longrightarrow> pair (core_session core) \<noteq> None"
  shows "\<exists>ok core'. deactivate_loaded_gl_renderer core = Some (ok, core')"
proof -
  have report: "\<exists>answer. reported_renderer c = Some answer" if "pair (core_session c) \<noteq> None" for c :: "'a dualboy_libretro_context"
    using that by (auto simp: reported_renderer_def split: option.splits)
  have change: "\<exists>ok c'. set_loaded_renderer r core = Some (ok, c')" if "loaded (core_session core)" for r
    using assms [OF that] by (auto simp: set_loaded_renderer_def melonds_loaded_def split: option.splits prod.splits)
  have still_there: "pair (core_session c') \<noteq> None"
    if "set_loaded_renderer r core = Some (ok, c')" "loaded (core_session core)" for r ok c'
    using that assms by (auto simp: set_loaded_renderer_def split: if_splits option.splits Option.bind_splits prod.splits)
  show ?thesis
  proof (cases "loaded (core_session core)")
    case True
    from report [OF assms [OF True]] obtain answer where answer: "reported_renderer core = Some answer" by blast
    from change [OF True] obtain ok c' where c': "set_loaded_renderer DUALBOY_VIDEO_RENDERER_SOFTWARE core = Some (ok, c')" by blast
    from report [OF still_there [OF c' True]] obtain answer1 where "reported_renderer c' = Some answer1" by blast
    with True answer c' show ?thesis by (auto simp: deactivate_loaded_gl_renderer_def)
  qed (auto simp: deactivate_loaded_gl_renderer_def)
qed

section \<open>Giving the session back\<close>

text \<open>Nothing is loaded, and nothing is held.\<close>

definition emptied :: "nat set \<Rightarrow> nat set \<Rightarrow> 'p dualboy_libretro_context \<Rightarrow> bool" where
  "emptied base locks core \<longleftrightarrow> accounted base locks core \<and> \<not> loaded (core_session core)"

lemma emptied_holdings: "emptied base locks core \<Longrightarrow> live (memory (world core)) = base \<and> held_locks (world core) = locks"
  by (auto simp: emptied_def accounted_iff core_inv_def owns_beside_def)

lemma emptied_cong: "holdings a = holdings b \<Longrightarrow> emptied base locks a = emptied base locks b"
  by (auto simp: emptied_def dest: holdings_eqD)

lemma emptied_update [simp]:
  "emptied base locks (core\<lparr>geometry_valid := b\<rparr>) = emptied base locks core"
  "emptied base locks (core\<lparr>loaded_nds_renderer := r\<rparr>) = emptied base locks core"
  "emptied base locks (reset_touch_cursors core) = emptied base locks core"
  "emptied base locks (environment_call call core) = emptied base locks core"
  "emptied base locks (read_initial_options f core) = emptied base locks core"
  by (rule emptied_cong, simp)+

lemma accounted_pair: "accounted base locks core \<Longrightarrow> loaded (core_session core) \<Longrightarrow> pair (core_session core) \<noteq> None"
  by (auto simp: accounted_iff elim!: core_invE)

lemma release_session_empties:
  assumes "accounted base locks core"
  shows "\<exists>core'. release_session core = Some core' \<and> emptied base locks core' \<and> lock_answers (world core') = lock_answers (world core)"
  using core_inv_release [of base locks "saves core" "core_session core" "world core"] assms deinit_locks
  by (fastforce simp: release_session_def accounted_iff emptied_def)

lemma still_locks: "quiet core core' \<Longrightarrow> world core' = world core"
  by (simp add: still_def holdings_def)

lemma teardown_empties:
  assumes "accounted base locks core"
  shows "\<exists>ok core1 core2. deactivate_loaded_gl_renderer core = Some (ok, core1) \<and> release_session core1 = Some core2 \<and>
    emptied base locks core2 \<and> lock_answers (world core2) = lock_answers (world core)"
proof -
  from deactivate_returns [of core] accounted_pair [OF assms] obtain ok core1 where
    down: "deactivate_loaded_gl_renderer core = Some (ok, core1)" by blast
  note still = deactivate_quiet [OF down]
  from release_session_empties [OF still_inv [OF still assms]] still_locks [OF still] down show ?thesis by auto
qed

lemma discard_empties:
  assumes "accounted base locks core"
  shows "\<exists>core'. discard_current core = Some core' \<and> emptied base locks core' \<and> lock_answers (world core') = lock_answers (world core)"
proof -
  have "accounted base locks (set_fastforward_inhibition False core)" using assms by simp
  from teardown_empties [OF this] show ?thesis
    by (auto simp: discard_current_def)
qed

lemma flush_saves_accounted:
  assumes "flush_saves core = Some core'" and "accounted base locks core"
  shows "accounted base locks core' \<and> lock_answers (world core') = lock_answers (world core)"
proof -
  from assms(1) obtain ok m s w where flush: "dualboy_save_manager_flush (saves core) (core_session core) (world core) = Some (ok, m, s, w)"
    and core': "core' = core\<lparr>saves := m, core_session := s, world := w\<rparr>" by (auto simp: flush_saves_def split: Option.bind_splits)
  from assms(2) have inv: "core_inv base locks (saves core, core_session core, world core)" "loaded s \<Longrightarrow> core_initialized core"
    using flush_evolves [OF flush] by (simp_all add: accounted_iff evolves_def)
  from core_inv_flush [OF inv(1) flush] inv(2) flush_locks [OF flush] show ?thesis by (simp add: core' accounted_iff)
qed

lemma unload_empties:
  assumes "unload_current core = Some core'" and "accounted base locks core"
  shows "emptied base locks core' \<and> lock_answers (world core') = lock_answers (world core)"
proof -
  let ?core1 = "set_fastforward_inhibition False core"
  from assms(1) obtain core2 where flushed: "(if initialized (saves ?core1) \<and> loaded (core_session ?core1) then flush_saves ?core1
      else Some ?core1) = Some core2" and rest: "deactivate_loaded_gl_renderer core2 \<bind> (\<lambda>(released, core3). release_session core3 \<bind>
        (\<lambda>core4. Some ((reset_touch_cursors core4)\<lparr>geometry_valid := False, loaded_nds_renderer := DUALBOY_VIDEO_RENDERER_SOFTWARE\<rparr>))) =
      Some core'"
    unfolding unload_current_def Let_def by (auto simp del: context_fields split del: if_split split: Option.bind_splits)
  have "accounted base locks ?core1" using assms(2) by simp
  with flushed flush_saves_accounted [of ?core1 core2] have "accounted base locks core2 \<and> lock_answers (world core2) = lock_answers (world core)"
    by (auto split: if_splits)
  with teardown_empties [of base locks core2] rest show ?thesis by auto
qed

lemma unload_returns:
  assumes "accounted base locks core" and "answering (core_session core) (saves core) (write_answers (world core))"
    and "length all_regions \<le> length (write_answers (world core))"
  shows "\<exists>core'. unload_current core = Some core'"
proof -
  let ?core1 = "set_fastforward_inhibition False core"
  have inv1: "accounted base locks ?core1" using assms(1) by simp
  have "\<exists>core2. (if initialized (saves ?core1) \<and> loaded (core_session ?core1) then flush_saves ?core1 else Some ?core1) = Some core2 \<and>
      accounted base locks core2"
  proof (cases "initialized (saves ?core1) \<and> loaded (core_session ?core1)")
    case True
    with assms(1) obtain owned capacity where "life_inv owned locks capacity (saves core, core_session core, world core)"
      by (auto simp: accounted_iff elim!: core_invE)
    from flush_returns [OF this assms(2,3)] obtain core2 where "flush_saves ?core1 = Some core2"
      by (auto simp: flush_saves_def)
    with True flush_saves_accounted [OF this inv1] show ?thesis by auto
  qed (use inv1 in \<open>auto simp del: holdings_calls context_fields\<close>)
  then obtain core2 where "(if initialized (saves ?core1) \<and> loaded (core_session ?core1) then flush_saves ?core1 else Some ?core1) = Some core2"
    "accounted base locks core2" by blast
  with teardown_empties [of base locks core2] show ?thesis
    unfolding unload_current_def Let_def by (auto simp del: context_fields split del: if_split)
qed

section \<open>Options\<close>

lemma emptied_accounted: "emptied base locks core \<Longrightarrow> accounted base locks core"
  by (simp add: emptied_def)

lemma discard_accounted: "discard_current core = Some core' \<Longrightarrow> accounted base locks core \<Longrightarrow> accounted base locks core'"
  using discard_empties [of base locks core] by (auto dest: emptied_accounted)

lemma retire_accounted:
  "retire_failed_renderer_session core = Some core' \<Longrightarrow> accounted base locks core \<Longrightarrow> accounted base locks core'"
  by (auto simp: retire_failed_renderer_session_def dest: discard_accounted split: Option.bind_splits)

lemma quiet_accounted: "quiet core core' \<Longrightarrow> accounted base locks core \<Longrightarrow> accounted base locks core'"
  by (rule still_inv)

lemma select_opengl_accounted:
  assumes "select_opengl old_link core = Some core'" and "accounted base locks core"
  shows "accounted base locks core'"
proof -
  from assms(1) obtain unlinked core1 where unlink: "(if old_link then session_set_link False core else Some (True, core)) = Some (unlinked, core1)"
    by (auto simp: select_opengl_def split del: if_split split: Option.bind_splits)
  with assms(2) session_set_link_quiet [THEN quiet_accounted] have inv1: "accounted base locks core1" by (auto split: if_splits)
  let ?core2 = "set_options (\<lambda>o1. o1\<lparr>opt_link_enabled := False, nds_renderer := DUALBOY_VIDEO_RENDERER_OPENGL\<rparr>) core1"
  show ?thesis
  proof (cases unlinked)
    case False
    with assms(1) unlink inv1 show ?thesis by (auto simp: select_opengl_def)
  next
    case True
    with assms(1) unlink obtain usable core3 where
      activate: "(if loaded_nds_renderer ?core2 \<noteq> DUALBOY_VIDEO_RENDERER_OPENGL then activate_loaded_gl_renderer ?core2
        else Some (True, ?core2)) = Some (usable, core3)"
      by (auto simp: select_opengl_def Let_def split del: if_split split: Option.bind_splits)
    then have inv3: "accounted base locks core3"
      using inv1 activate_quiet [of ?core2 usable core3, THEN quiet_accounted] by (auto split: if_splits)
    have relink: "accounted base locks (reflect_link_option relinked core5)"
      if "session_set_link True (reflect_renderer_option DUALBOY_VIDEO_RENDERER_SOFTWARE core3) = Some (relinked, core5)" for relinked core5
      using session_set_link_quiet [OF that, THEN quiet_accounted] inv3 by simp
    from assms(1) unlink True activate inv3 retire_accounted relink show ?thesis
      by (auto simp: select_opengl_def Let_def split: if_splits Option.bind_splits)
  qed
qed

lemma select_software_accounted:
  assumes "select_software requested core = Some core'" and "accounted base locks core"
  shows "accounted base locks core'"
proof -
  let ?gl = "loaded_nds_renderer core = DUALBOY_VIDEO_RENDERER_OPENGL"
  from assms(1) obtain released core1 where down: "(if ?gl then deactivate_loaded_gl_renderer core else Some (True, core)) = Some (released, core1)"
    by (auto simp: select_software_def Let_def split del: if_split split: Option.bind_splits)
  with assms(2) deactivate_quiet [THEN quiet_accounted] have inv1: "accounted base locks core1" by (auto split: if_splits)
  show ?thesis
  proof (cases released)
    case False
    have "accounted base locks (reflect_renderer_option DUALBOY_VIDEO_RENDERER_OPENGL (reflect_link_option False core1))"
      using inv1 by simp
    with False assms(1) down retire_accounted show ?thesis
      by (auto simp: select_software_def Let_def split del: if_split simp del: holdings_calls)
  next
    case True
    let ?core2 = "set_options (\<lambda>o1. o1\<lparr>nds_renderer := DUALBOY_VIDEO_RENDERER_SOFTWARE\<rparr>) core1"
    from True assms(1) down obtain linked core3 where
      link: "(if requested \<noteq> opt_link_enabled (options ?core2) then session_set_link requested ?core2 else Some (True, ?core2)) = Some (linked, core3)"
      by (auto simp: select_software_def Let_def split del: if_split split: Option.bind_splits)
    with inv1 session_set_link_quiet [of requested ?core2 linked core3, THEN quiet_accounted] have inv3: "accounted base locks core3"
      by (auto split: if_splits)
    let ?again = "set_options (\<lambda>o1. o1\<lparr>nds_renderer := DUALBOY_VIDEO_RENDERER_OPENGL\<rparr>) core3"
    have rolled: "accounted base locks core4" if "activate_loaded_gl_renderer ?again = Some (usable, core4)" for usable core4
      using activate_quiet [OF that, THEN quiet_accounted] inv3 by simp
    show ?thesis
    proof (cases "\<not> linked \<and> ?gl \<and> requested")
      case True
      with \<open>released\<close> assms(1) down link rolled retire_accounted show ?thesis
        by (auto simp: select_software_def Let_def split del: if_split split: Option.bind_splits)
          (auto split: if_splits)
    next
      case False
      with \<open>released\<close> assms(1) down link inv3 show ?thesis
        by (auto simp: select_software_def Let_def split del: if_split split: Option.bind_splits)
          (auto split: if_splits)
    qed
  qed
qed

lemma retry_link_accounted:
  assumes "retry_link core = Some core'" and "accounted base locks core"
  shows "accounted base locks core'"
proof (cases "link_request_pending core \<and> loaded (core_session core)")
  case True
  with assms(1) obtain ok core1 where "session_set_link (pending_link_value core) core = Some (ok, core1)"
    and same: "holdings core' = holdings core1" by (auto simp: retry_link_def split: Option.bind_splits if_splits)
  from session_set_link_quiet [OF this(1), THEN quiet_accounted] same assms(2) show ?thesis by simp
next
  case False
  with assms show ?thesis by (auto simp: retry_link_def split: if_splits)
qed

lemma tuple_holdings:
  "settle_conflict opts core = (l, r, core1) \<Longrightarrow> holdings core1 = holdings core"
  "read_machine_input abi f machine port time core = (input, core1) \<Longrightarrow> holdings core1 = holdings core"
  "query_directories f core = (ok, core1) \<Longrightarrow> holdings core1 = holdings core"
  "set_pixel_format f core = (ok, core1) \<Longrightarrow> holdings core1 = holdings core"
  using holdings_calls(19) [of opts core] holdings_calls(22) [of abi f machine port time core]
    holdings_calls(20) [of f core] holdings_calls(21) [of f core] by simp_all

lemma update_options_accounted:
  assumes "update_options f core = Some core'" and "accounted base locks core"
  shows "accounted base locks core'"
proof (cases "environment core \<and> variables_updated f")
  case False
  with assms retry_link_accounted show ?thesis by (simp add: update_options_def)
next
  case True
  let ?shown = "if frontend_link_known core then (options core)\<lparr>opt_link_enabled := frontend_link_value core\<rparr> else options core"
  let ?candidate = "snd (dualboy_options_read (variable_answer f) ?shown)"
  obtain requested_link requested_renderer core1 where settled: "settle_conflict ?candidate core = (requested_link, requested_renderer, core1)"
    by (metis prod_cases3)
  define core3 where "core3 = (reset_moved_cursors ?candidate (core1\<lparr>frontend_link_value := requested_link, frontend_link_known := True\<rparr>))
    \<lparr>options := ?candidate\<lparr>opt_link_enabled := opt_link_enabled (options core), nds_renderer := nds_renderer (options core)\<rparr>\<rparr>"
  have same: "holdings core3 = holdings core" using tuple_holdings(1) [OF settled] by (simp add: core3_def)
  show ?thesis
  proof (cases "nds_session_loaded core3")
    case nds: True
    have inv4: "accounted base locks (core3\<lparr>link_request_pending := False\<rparr>)" using same assms(2) by simp
    from assms(1) True settled nds have "select_opengl (opt_link_enabled (options core)) (core3\<lparr>link_request_pending := False\<rparr>) = Some core' \<or>
        select_software requested_link (core3\<lparr>link_request_pending := False\<rparr>) = Some core'"
      unfolding update_options_def Let_def by (simp add: core3_def split: if_splits)
    with inv4 select_opengl_accounted select_software_accounted show ?thesis by blast
  next
    case False
    with assms(1) True settled obtain core4 where "retry_link core4 = Some core'" "holdings core4 = holdings core3"
      unfolding update_options_def Let_def by (simp add: core3_def split: if_splits)
    with retry_link_accounted same assms(2) show ?thesis by metis
  qed
qed

section \<open>Entry points that do not load\<close>

lemma tick_saves_accounted:
  assumes "tick_saves core = Some core'" and "accounted base locks core"
  shows "accounted base locks core'"
proof -
  from assms(1) obtain ok m s w where tick: "dualboy_save_manager_tick (saves core) (core_session core) (world core) = Some (ok, m, s, w)"
    and core': "core' = core\<lparr>saves := m, core_session := s, world := w\<rparr>" by (auto simp: tick_saves_def split: Option.bind_splits)
  from assms(2) have inv: "core_inv base locks (saves core, core_session core, world core)" "loaded s \<Longrightarrow> core_initialized core"
    using tick_evolves [OF tick] by (simp_all add: accounted_iff evolves_def)
  from core_inv_tick [OF inv(1) tick] inv(2) show ?thesis by (simp add: core' accounted_iff)
qed

lemma synchronize_accounted:
  "synchronize_fastforward_policy core = Some core' \<Longrightarrow> accounted base locks core \<Longrightarrow> accounted base locks core'"
  by (drule synchronize_holdings) simp

lemma session_accounted:
  "accounted base locks core \<Longrightarrow> evolves (core_session core) s \<Longrightarrow> accounted base locks (core\<lparr>core_session := s\<rparr>)"
  by (erule still_inv [rotated]) simp

lemma frame_accounted:
  assumes "run_frame_step abi f time core = Some core'" and "accounted base locks core"
  shows "accounted base locks core'"
proof -
  from assms(1) obtain core1 input0 core2 input1 core3 inputs assigned core4 failure session where
    core1: "synchronize_fastforward_policy core = Some core1"
    and core2: "read_machine_input abi f 0 (fst (controller_ports (options core1))) time core1 = (input0, core2)"
    and core3: "read_machine_input abi f 1 (snd (controller_ports (options core2))) time core2 = (input1, core3)"
    and core4: "apply_pointer_contacts f (current_display core) (input0, input1) core3 = Some (inputs, assigned, core4)"
    and run: "dualboy_session_run (core_session core4) inputs (current_display core) = Some (failure, session)"
    by (auto simp: run_frame_step_def Let_def split: Option.bind_splits prod.splits)
  have "holdings core3 = holdings core"
    using synchronize_holdings [OF core1] tuple_holdings(2) [OF core2] tuple_holdings(2) [OF core3] by simp
  with apply_pointer_contacts_quiet [OF core4, THEN quiet_accounted] assms(2) have "accounted base locks core4" by simp
  from session_accounted [OF this run_evolves [OF run]] have inv5: "accounted base locks (core4\<lparr>core_session := session\<rparr>)" .
  show ?thesis
  proof (cases failure)
    case None
    with assms(1) core1 core2 core3 core4 run obtain core6 and frame :: dualboy_video_frame and core7 core8 where
      core6: "synchronize_fastforward_policy (core4\<lparr>core_session := session\<rparr>) = Some core6"
      and core7: "publish_video_with_touch_cursors assigned (publish_geometry \<lparr>gwidth = width frame, gheight = height frame\<rparr> core6) = Some core7"
      and core8: "drain_audio core7 = Some core8" and core': "tick_saves core8 = Some core'"
      by (auto simp: run_frame_step_def Let_def split: Option.bind_splits)
    from synchronize_accounted [OF core6 inv5]
    have "accounted base locks (publish_geometry \<lparr>gwidth = width frame, gheight = height frame\<rparr> core6)" by simp
    with publish_video_quiet [OF core7] drain_audio_quiet [OF core8] tick_saves_accounted [OF core'] quiet_accounted
    show ?thesis by blast
  next
    case (Some e)
    with assms(1) core1 core2 core3 core4 run obtain core6 where
      core6: "publish_video_with_touch_cursors assigned (core4\<lparr>core_session := session\<rparr>) = Some core6"
      "synchronize_fastforward_policy core6 = Some core'"
      by (auto simp: run_frame_step_def Let_def split: Option.bind_splits)
    show ?thesis by (rule synchronize_accounted [OF core6(2) quiet_accounted [OF publish_video_quiet [OF core6(1)] inv5]])
  qed
qed

lemma run_accounted:
  assumes "retro_run abi f core = Some core'" and "accounted base locks core"
  shows "accounted base locks core'"
proof -
  let ?core1 = "if input_poll core then emit INPUT_POLL core else core"
  have inv1: "accounted base locks ?core1" using assms(2) by simp
  show ?thesis
  proof (cases "loaded (core_session ?core1)")
    case False
    with assms(1) inv1 show ?thesis by (simp add: retro_run_def Let_def)
  next
    case True
    with assms(1) obtain core2 where update: "update_options f ?core1 = Some core2"
      and rest: "core' = core2 \<or> run_frame_step abi f (touch_cursor_time f core) core2 = Some core'"
      by (auto simp: retro_run_def Let_def split del: if_split split: Option.bind_splits) (auto split: if_splits)
    from update_options_accounted [OF update inv1] rest frame_accounted [of abi f _ core2 core' base locks] show ?thesis by blast
  qed
qed

lemma reset_accounted: "retro_reset core = Some core' \<Longrightarrow> accounted base locks core \<Longrightarrow> accounted base locks core'"
proof -
  assume reset: "retro_reset core = Some core'" and inv: "accounted base locks core"
  from reset obtain session where session: "dualboy_session_reset (core_session core) = Some session"
    and policy: "synchronize_fastforward_policy ((reset_touch_cursors core)\<lparr>core_session := session\<rparr>) = Some core'"
    by (auto simp: retro_reset_def split: Option.bind_splits)
  have "accounted base locks ((reset_touch_cursors core)\<lparr>core_session := session\<rparr>)"
    by (rule session_accounted) (use inv reset_evolves [OF session] in simp_all)
  from synchronize_accounted [OF policy this] show ?thesis .
qed

lemma av_info_accounted:
  assumes "retro_get_system_av_info core = Some (info, core')" and "accounted base locks core"
  shows "accounted base locks core'"
  using assms session_accounted [OF assms(2) geometry_evolves]
  by (auto simp: retro_get_system_av_info_def Let_def split: Option.bind_splits)

lemma serialize_accounted:
  assumes "retro_serialize data core = Some (ok, data', core')" and "accounted base locks core"
  shows "accounted base locks core'"
  using assms session_accounted [OF assms(2) serialize_evolves]
  by (auto simp: retro_serialize_def split: Option.bind_splits)

section \<open>Changes of the heap\<close>

text \<open>A change that gives everything back, and one that holds one more allocation for a while.\<close>

definition heap_still :: "heap \<Rightarrow> heap \<Rightarrow> bool" where
  "heap_still h h' \<longleftrightarrow> heap_ok h' \<and> live h' = live h"

lemma owns_beside_still: "owns_beside base ps h \<Longrightarrow> heap_still h h' \<Longrightarrow> owns_beside base ps h'"
  by (simp add: owns_beside_def heap_still_def)

lemma owns_beside_heap_ok: "owns_beside base ps h \<Longrightarrow> heap_ok h"
  by (simp add: owns_beside_def)

lemma core_inv_memory_change:
  assumes "core_inv base locks (m, s, w)" and "addresses s \<inter> base' = {}"
    and "\<And>ps. owns_beside base ps (memory w) \<Longrightarrow> owns_beside base' ps h'"
    and "\<And>ps. owns_beside (base \<union> addresses s) ps (memory w) \<Longrightarrow> owns_beside (base' \<union> addresses s) ps h'"
  shows "core_inv base' locks (m, s, w\<lparr>memory := h'\<rparr>)"
  using assms(1)
proof (cases rule: core_invE)
  case unloaded
  with assms(3) show ?thesis by (simp add: core_inv_def)
next
  case (loaded ops address p capacity)
  from loaded(9) assms(4) have "life_inv (base' \<union> addresses s) locks capacity (m, s, w\<lparr>memory := h'\<rparr>)"
    by (simp add: life_inv_def save_inv_def save_owns_def locks_inv_def)
  with loaded assms(2) show ?thesis by (auto simp: core_inv_def)
qed

lemma core_inv_addresses: "core_inv base locks (m, s, w) \<Longrightarrow> addresses s \<inter> base = {} \<and> base \<union> addresses s \<subseteq> live (memory w) \<and> heap_ok (memory w)"
  by (erule core_invE)
    (auto simp: addresses_def session_unloaded_def session_pointers_def rom_pointers_def owns_beside_def
      life_inv_def save_inv_def save_owns_def)

lemma core_inv_still:
  "core_inv base locks (m, s, w) \<Longrightarrow> heap_still (memory w) h' \<Longrightarrow> core_inv base locks (m, s, w\<lparr>memory := h'\<rparr>)"
  by (rule core_inv_memory_change) (auto dest: core_inv_addresses intro: owns_beside_still)

lemma core_inv_malloc:
  assumes "core_inv base locks (m, s, w)" and "malloc (memory w) = (Some a, h')"
  shows "core_inv (insert a base) locks (m, s, w\<lparr>memory := h'\<rparr>)" and "a \<notin> base"
proof -
  note facts = core_inv_addresses [OF assms(1)]
  have "a \<notin> live (memory w)" using facts assms(2) by (auto simp: malloc_def heap_ok_def split: if_splits)
  with facts show "a \<notin> base" by blast
  have fresh: "a \<notin> base \<union> addresses s" using facts \<open>a \<notin> live (memory w)\<close> by blast
  have grow: "owns_beside (insert a b) ps h'" if "owns_beside b ps (memory w)" for b ps
    using malloc_owned [OF that assms(2)] by (auto simp: owns_beside_def)
  show "core_inv (insert a base) locks (m, s, w\<lparr>memory := h'\<rparr>)"
    by (rule core_inv_memory_change [OF assms(1)]) (use fresh facts grow [of base] grow [of "base \<union> addresses s"] in auto)
qed

lemma core_inv_free:
  assumes "core_inv (insert a base) locks (m, s, w)" and "a \<notin> base"
  shows "\<exists>h'. free (Some a) (memory w) = Some h' \<and> core_inv base locks (m, s, w\<lparr>memory := h'\<rparr>)"
proof -
  note facts = core_inv_addresses [OF assms(1)]
  then have live: "a \<in> live (memory w)" by blast
  define h' where "h' = (memory w)\<lparr>live := live (memory w) - {a}\<rparr>"
  have shrink: "owns_beside b ps h'" if "owns_beside (insert a b) ps (memory w)" "a \<notin> b" for b ps
    using that by (auto simp: owns_beside_def heap_ok_def h'_def)
  have apart: "a \<notin> base \<union> addresses s" using facts assms(2) by blast
  have "core_inv base locks (m, s, w\<lparr>memory := h'\<rparr>)"
    by (rule core_inv_memory_change [OF assms(1)]) (use facts apart shrink [of base] shrink [of "base \<union> addresses s"] in auto)
  with live show ?thesis by (simp add: free_def h'_def)
qed

lemma core_inv_unserialize:
  assumes "core_inv base locks (m, s, w)" and "dualboy_state_unserialize_ex s data (memory w) = Some (result, s', h')"
  shows "core_inv base locks (m, s', w\<lparr>memory := h'\<rparr>)"
  using assms(1)
proof (cases rule: core_invE)
  case unloaded
  then have "s' = s" "h' = memory w" using assms(2)
    by (auto simp: dualboy_state_unserialize_ex_def session_unloaded_def split: option.splits Option.bind_splits)
  with assms(1) show ?thesis by simp
next
  case (loaded ops address p capacity)
  have "owns_beside (live (memory w)) [] (memory w)" using core_inv_addresses [OF assms(1)] by (simp add: owns_beside_def)
  from restore_heap [OF assms(2) this loaded(4)] loaded(7) have "heap_still (memory w) h'"
    by (auto simp: engine_promise_def owns_beside_def heap_still_def)
  from core_inv_evolves [OF core_inv_still [OF assms(1) this] unserialize_evolves [OF assms(2)]] show ?thesis .
qed

lemma unserialize_accounted:
  assumes "retro_unserialize data core = Some (ok, core')" and "accounted base locks core"
  shows "accounted base locks core'"
proof -
  from assms(1) obtain result session h where
    restore: "dualboy_state_unserialize_ex (core_session core) data (memory (world core)) = Some (result, session, h)"
    by (auto simp: retro_unserialize_def split: Option.bind_splits)
  let ?core1 = "with_memory h (core\<lparr>core_session := session\<rparr>)"
  have "loaded session = loaded (core_session core)" using unserialize_evolves [OF restore] by (simp add: evolves_def)
  with assms(2) core_inv_unserialize [OF _ restore] have inv1: "accounted base locks ?core1"
    by (simp add: accounted_iff with_memory_def)
  note run = assms(1) [unfolded retro_unserialize_def Let_def restore Option.bind.bind_lunit prod.case]
  show ?thesis
  proof (cases result)
    case DUALBOY_STATE_RESTORE_FATAL
    with run discard_accounted [OF _ inv1] show ?thesis by (auto split: Option.bind_splits)
  next
    case DUALBOY_STATE_RESTORE_REJECTED
    with run inv1 show ?thesis by simp
  next
    case DUALBOY_STATE_RESTORE_OK
    let ?core2 = "(set_options (\<lambda>o1. o1\<lparr>opt_link_enabled := link_enabled session\<rparr>) ?core1)
        \<lparr>link_request_pending := False, geometry_valid := False\<rparr>"
    have "accounted base locks ?core2" using inv1 by simp
    moreover have "synchronize_fastforward_policy ?core2 = Some core'"
      using DUALBOY_STATE_RESTORE_OK run by (auto split: Option.bind_splits)
    ultimately show ?thesis by (rule synchronize_accounted [rotated])
  qed
qed

section \<open>Loading\<close>

lemma session_owns_addresses:
  "session_owns base s h \<longleftrightarrow> owns_beside (base \<union> addresses s) [] h \<and> distinct (somes (session_pointers s)) \<and>
     addresses s \<inter> base = {} \<and> (pair s \<noteq> None \<longrightarrow> (\<exists>ops. engine s = Some ops \<and> destroy_pair ops \<noteq> None))"
  using owns_beside_addresses [of base s h] by (auto simp: session_owns_def)

lemma unloaded_inv:
  "session_unloaded s \<Longrightarrow> session_owns base s (memory w) \<Longrightarrow> held_locks w = locks \<Longrightarrow> core_inv base locks (zero_manager, s, w)"
  by (simp add: core_inv_def session_unloaded_def session_owns_def session_pointers_def rom_pointers_def)

lemma deinit_zero: "dualboy_save_manager_deinit zero_manager w = Some (zero_manager, w)"
  by (simp add: dualboy_save_manager_deinit_def) (simp add: zero_manager_def)

lemma start_saves_accounted:
  assumes "session_owns base s (memory w)" and "loaded s" and "engine s = Some ops" and "pair s = Some (address, p)"
    and "engine_promise ops" and "new_descriptors (held_locks w) (lock_answers w)"
    and "dualboy_save_manager_init zero_manager s directory w = Some (ok, m, s1, w1)"
  shows "(ok \<longrightarrow> loaded s1 \<and> core_inv base (held_locks w) (m, s1, w1)) \<and>
    (\<not> ok \<longrightarrow> m = zero_manager \<and> session_owns base s1 (memory w1) \<and> held_locks w1 = held_locks w)"
proof -
  have law: "memory_law s ops" by (rule steady_memory_law) (use assms(3,5) in \<open>simp_all add: engine_promise_def\<close>)
  from assms(1) have own: "owns_beside (base \<union> addresses s) [] (memory w)" by (simp add: session_owns_addresses)
  note start = init_life_inv [OF assms(7) own assms(6,3,4) law region_sizes_stable]
  from init_pointers [OF assms(7)] assms(2-4) have same: "session_pointers s1 = session_pointers s" "engine s1 = Some ops" "loaded s1"
    by (auto simp: session_pointers_def)
  then have "addresses s1 = addresses s" by (simp add: addresses_def)
  with start same assms show ?thesis
    by (auto simp: core_inv_def session_owns_addresses)
qed

lemma start_session_accounted:
  assumes "start_session ops both missing kind core = Some (ok, core')" and "emptied base locks core"
    and "core_initialized core" and "engine_promise ops" and "rom_readable (fst both)" and "rom_readable (snd both)"
    and "new_descriptors locks (lock_answers (world core))"
  shows "accounted base locks core' \<and> (ok = loaded (core_session core'))"
proof -
  let ?config = "\<lparr>system_directory = Some (core_system_directory core), config_sample_rate = DUALBOY_DEFAULT_SAMPLE_RATE\<rparr>"
  from assms(2) have empty: "session_unloaded (core_session core)" "saves core = zero_manager"
    "owns_beside base [] (memory (world core))" "held_locks (world core) = locks"
    by (auto simp: emptied_def accounted_iff core_inv_def)
  then have own: "session_owns base (core_session core) (memory (world core))"
    by (simp add: session_owns_def session_unloaded_def session_pointers_def rom_pointers_def)
  obtain rom0 rom1 where both: "both = (rom0, rom1)" by fastforce
  from session_load_owned [OF own assms(5,6) [unfolded both fst_conv snd_conv], of "Some ops" ?config kind "opt_link_enabled (options core)"]
  obtain error s h where load: "dualboy_session_load (core_session core) (Some ops) ?config both kind (opt_link_enabled (options core))
      (memory (world core)) = Some (error, s, h)" and owned: "session_owns base s h"
    and failed: "error \<noteq> None \<Longrightarrow> session_unloaded s" using both empty(1) by auto
  let ?w = "(world core)\<lparr>memory := h\<rparr>"
  show ?thesis
  proof (cases error)
    case (Some e)
    with assms(1) load have "\<not> ok" "core' = core\<lparr>core_session := s, world := ?w\<rparr>" by (auto simp: start_session_def)
    with Some failed unloaded_inv [of s base ?w locks] owned empty show ?thesis
      by (simp add: accounted_iff session_unloaded_def)
  next
    case None
    let ?s = "s\<lparr>content_path_missing := missing\<rparr>"
    note running = session_load_running [OF load [unfolded None]]
    from running(3) obtain address p where pair: "pair s = Some (address, p)" by blast
    from assms(1) load None empty(2) obtain started m s1 w1 where
      start: "dualboy_save_manager_init zero_manager ?s (Some (core_save_directory core)) ?w = Some (started, m, s1, w1)"
      by (auto simp: start_session_def Let_def split: Option.bind_splits)
    have "session_owns base ?s (memory ?w)" using owned by (simp add: session_owns_def session_pointers_def)
    from start_saves_accounted [OF this _ _ _ assms(4) _ start, of address p] running(1,2) pair empty(4) assms(7)
    have saved: "started \<Longrightarrow> loaded s1 \<and> core_inv base locks (m, s1, w1)"
      "\<not> started \<Longrightarrow> m = zero_manager \<and> session_owns base s1 (memory w1) \<and> held_locks w1 = locks" by auto
    show ?thesis
    proof (cases started)
      case True
      with assms(1) load None start empty(2) have "ok" "core' = core\<lparr>core_session := s1, saves := m, world := w1\<rparr>"
        by (auto simp: start_session_def)
      with saved(1) [OF True] assms(3) show ?thesis by (simp add: accounted_iff)
    next
      case False
      from saved(2) [OF False] unload_owned obtain s2 h2 where
        gone: "dualboy_session_unload s1 (memory w1) = Some (s2, h2)" "session_unloaded s2" "session_owns base s2 h2" by blast
      with False assms(1) load None start empty(2) saved(2) [OF False]
      have "\<not> ok" "core' = core\<lparr>core_session := s2, saves := zero_manager, world := w1\<lparr>memory := h2\<rparr>\<rparr>"
        by (auto simp: start_session_def deinit_zero)
      with gone saved(2) [OF False] unloaded_inv [of s2 base "w1\<lparr>memory := h2\<rparr>" locks] show ?thesis
        by (simp add: accounted_iff session_unloaded_def)
    qed
  qed
qed

lemma detect_rom_readable: "detect_rom rom = Some (Some rom') \<Longrightarrow> rom_readable rom'"
  by (auto simp: detect_rom_def rom_readable_def split: if_splits option.splits Option.bind_splits)

lemma share_paths_readable:
  "share_paths same (rom0, rom1) = (rom0', rom1') \<Longrightarrow> rom_readable rom0 \<Longrightarrow> rom_readable rom1 \<Longrightarrow>
   rom_readable rom0' \<and> rom_readable rom1'"
  by (auto simp: share_paths_def rom_readable_def Let_def split: if_splits option.splits)

lemma ensure_path_readable: "ensure_path rom = Some (Some rom') \<Longrightarrow> rom_readable rom \<Longrightarrow> rom_readable rom'"
  by (auto simp: ensure_path_def rom_readable_def split: if_splits option.splits Option.bind_splits)

lemma engine_for_family_member: "engine_for_family engines kind = Some ops \<Longrightarrow> engines kind = Some ops"
  by (auto simp: engine_for_family_def split: if_splits)

lemma rendered_tail:
  assumes "(if \<not> started then Some (False, c4)
      else do { (usable, c5) \<leftarrow> r; if \<not> usable then do { c6 \<leftarrow> d c5; Some (False, c6) } else Some (True, g c5) }) = Some (ok, c')"
  shows "if started then \<exists>usable c5. r = Some (usable, c5) \<and> (if usable then ok \<and> c' = g c5 else \<not> ok \<and> d c5 = Some c')
      else \<not> ok \<and> c' = c4"
proof (cases started)
  case False
  with assms show ?thesis by simp
next
  case True
  show ?thesis
  proof (cases r)
    case None
    with assms True show ?thesis by simp
  next
    case (Some pair)
    obtain usable c5 where pair: "pair = (usable, c5)" by fastforce
    note run = assms [unfolded Some pair if_P [OF True] Option.bind.bind_lunit prod.case]
    show ?thesis
    proof (cases usable)
      case True
      with run Some pair \<open>started\<close> show ?thesis by auto
    next
      case False
      with run Some pair \<open>started\<close> show ?thesis by (cases "d c5") auto
    qed
  qed
qed

text \<open>A load is refused with nothing changed that is held, or it starts a session with readable images.\<close>

lemma load_detected_cases:
  assumes "load_detected_pair engines f sources kind core = Some (ok, core')"
  obtains (refused) "\<not> ok" "holdings core' = holdings core"
    | (started) ops both missing core3 started core4 chosen where "engines chosen = Some ops"
      "rom_readable (fst both)" "rom_readable (snd both)" "holdings core3 = holdings core"
      "start_session ops both missing kind core3 = Some (started, core4)"
      "\<not> started \<Longrightarrow> \<not> ok \<and> core' = core4"
      "started \<Longrightarrow> \<exists>usable core5. (core5 = core4 \<and> usable \<or> activate_loaded_gl_renderer core4 = Some (usable, core5)) \<and>
         (if usable then ok \<and> core' = core5\<lparr>core_session := (core_session core5)\<lparr>display := current_display core5\<rparr>, geometry_valid := False\<rparr>
          else \<not> ok \<and> discard_current core5 = Some core')"
proof (cases "holdings core' = holdings core \<and> \<not> ok")
  case True
  then show thesis by (intro refused) auto
next
  case False
  have unchanged: False if "core' = core" "\<not> ok" using False that by simp
  from assms False obtain rom0 rom1 where detected: "detect_rom (fst sources) = Some (Some rom0)" "detect_rom (snd sources) = Some (Some rom1)"
    by (auto simp: load_detected_pair_def split: Option.bind_splits option.splits)
  from assms detected obtain same where same: "same_cartridge rom0 rom1 = Some same"
    by (auto simp: load_detected_pair_def split: Option.bind_splits)
  obtain shared0 shared1 where shared: "share_paths same (rom0, rom1) = (shared0, shared1)" by fastforce
  from assms False detected same shared obtain final0 where final0: "ensure_path shared0 = Some (Some final0)"
    by (auto simp: load_detected_pair_def split: Option.bind_splits option.splits)
  from assms False detected same shared final0 obtain final1 where final1: "ensure_path shared1 = Some (Some final1)"
    by (auto simp: load_detected_pair_def split: Option.bind_splits option.splits)
  note readable = share_paths_readable [OF shared detected [THEN detect_rom_readable]]
  let ?chosen = "dualboy_engine_family_for_platform (rom_platform final0)"
  note run = assms [unfolded load_detected_pair_def detected same shared final0 final1 Option.bind.bind_lunit option.case prod.case Let_def]
  have compatible: "\<not> \<not> dualboy_platforms_compatible (rom_platform final0) (rom_platform final1)"
    using run unchanged by (metis option.inject prod.inject)
  note run = run [unfolded if_not_P [OF compatible]]
  from run unchanged obtain ops where ops: "engine_for_family engines ?chosen = Some ops"
    by (cases "engine_for_family engines ?chosen") auto
  let ?core1 = "prefer_renderer ?chosen core"
  obtain format_ok core2 where core2: "set_pixel_format f ?core1 = (format_ok, core2)" by fastforce
  obtain directories_ok core3 where core3: "query_directories f core2 = (directories_ok, core3)" by fastforce
  have kept: "holdings core2 = holdings core" "holdings core3 = holdings core"
    using tuple_holdings(4) [OF core2] tuple_holdings(3) [OF core3] by simp_all
  note run = run [unfolded ops core2 core3 option.case prod.case]
  have format_ok: "\<not> \<not> format_ok" using run False kept by (cases format_ok) auto
  note run = run [unfolded if_not_P [OF format_ok]]
  have directories_ok: "\<not> \<not> directories_ok" using run False kept by (cases directories_ok) auto
  note run = run [unfolded if_not_P [OF directories_ok]]
  let ?start = "start_session ops (final0, final1) (path_missing (fst sources), path_missing (snd sources)) kind core3"
  obtain started core4 where start: "?start = Some (started, core4)"
    using run by (cases ?start) auto
  note run = run [unfolded start Option.bind.bind_lunit prod.case]
  have result: "if started then \<exists>usable core5. (core5 = core4 \<and> usable \<or> activate_loaded_gl_renderer core4 = Some (usable, core5)) \<and>
         (if usable then ok \<and> core' = core5\<lparr>core_session := (core_session core5)\<lparr>display := current_display core5\<rparr>, geometry_valid := False\<rparr>
          else \<not> ok \<and> discard_current core5 = Some core')
      else \<not> ok \<and> core' = core4"
  proof (cases started)
    case True
    with rendered_tail [OF run] show ?thesis by (fastforce split: if_splits)
  next
    case False
    with rendered_tail [OF run] show ?thesis by simp
  qed
  show thesis
    by (rule started [of ?chosen ops "(final0, final1)" core3 _ started core4])
      (use engine_for_family_member [OF ops] readable ensure_path_readable [OF final0] ensure_path_readable [OF final1] kept start result
        in \<open>simp_all split: if_splits\<close>)
qed

end
