(* ===== verification/Lockstep.thy ===== *)
theory Lockstep
  imports Prelude
begin

text \<open>
  The scheduler of the Game Boy Advance link, \<open>engines/mgba/mgba_lockstep.c\<close>. A coordinator keeps one
  player per attached serial driver; players exchange timestamped events through bounded queues and
  put each other to sleep and awake, so that machines that run one after the other observe each
  other's transfers at consistent times. The callbacks that block and release a machine are those of
  \<open>mgba_adapter.c\<close>.

  A \<open>calloc\<close>ed player is an entry of the table \<open>players\<close>; a pointer to it is its key. Following a null
  pointer, leaving an array or failing an \<open>mASSERT\<close> is \<open>None\<close>. The linked lists \<open>queue\<close> and \<open>freeList\<close>
  through the eight slots of a player are a list of events and a number of free slots. Signed 32-bit
  integers are \<open>int\<close>; the operations that may wrap go through \<open>u32\<close> as in the code.
\<close>


section \<open>What mGBA provides\<close>

datatype sio_mode = GBA_SIO_NONE | GBA_SIO_NORMAL_8 | GBA_SIO_NORMAL_32 | GBA_SIO_MULTI | GBA_SIO_UART
  | GBA_SIO_GPIO | GBA_SIO_JOYBUS

text \<open>The two timing events the code schedules: its own and the completion of a transfer.\<close>

datatype timing_event = Lockstep_Event | Complete_Event

text \<open>
  The functions of mGBA's timing, register and table modules that the code calls. \<open>mode_value\<close> is the
  number of a mode in mGBA's enumeration and \<open>zeroed_mode\<close> the one that zeroed memory holds.
\<close>

record 'g mgba =
  mTimingCurrentTime :: "'g \<Rightarrow> int"
  mTimingIsScheduled :: "timing_event \<Rightarrow> 'g \<Rightarrow> bool"
  event_when :: "timing_event \<Rightarrow> 'g \<Rightarrow> u32"
  mTimingSchedule :: "timing_event \<Rightarrow> int \<Rightarrow> 'g \<Rightarrow> 'g"
  mTimingDeschedule :: "timing_event \<Rightarrow> 'g \<Rightarrow> 'g"
  mTimingInterrupt :: "'g \<Rightarrow> 'g"
  GBASIOMultiplayerSetReady :: "u16 \<Rightarrow> bool \<Rightarrow> u16"
  GBASIORegisterRCNTSetSd :: "u16 \<Rightarrow> bool \<Rightarrow> u16"
  GBASIOMultiplayerClearSlave :: "u16 \<Rightarrow> u16"
  GBASIOMultiplayerSetId :: "u16 \<Rightarrow> int \<Rightarrow> u16"
  GBASIOMultiplayerSetSlave :: "u16 \<Rightarrow> bool \<Rightarrow> u16"
  GBASIOTransferCycles :: "sio_mode \<Rightarrow> u16 \<Rightarrow> int \<Rightarrow> int"
  table_iteration :: "u32 list \<Rightarrow> u32 list"
  mode_value :: "sio_mode \<Rightarrow> u32"
  zeroed_mode :: sio_mode

text \<open>The fields of a machine the code reads and writes directly; \<open>timing\<close> is mGBA's own.\<close>

record 'g machine =
  timing :: 'g
  sio_mode :: sio_mode
  siocnt :: u16
  rcnt :: u16
  SIOMLT_SEND :: u16
  SIODATA8 :: u16
  SIODATA32_LO :: u16
  SIODATA32_HI :: u16
  cpu_nextEvent :: int
  earlyExit :: bool


section \<open>The state\<close>

definition MAX_GBAS :: nat where
  "MAX_GBAS = 4"

definition DUALBOY_MAX_LOCKSTEP_EVENTS :: nat where
  "DUALBOY_MAX_LOCKSTEP_EVENTS = 8"

definition LOCKSTEP_INTERVAL :: int where
  "LOCKSTEP_INTERVAL = 4096"

definition UNLOCKED_INTERVAL :: int where
  "UNLOCKED_INTERVAL = 4096"

definition HARD_SYNC_INTERVAL :: int where
  "HARD_SYNC_INTERVAL = 0x80000"

text \<open>The event type with the member of the union it carries.\<close>

datatype event_type = DUALBOY_SIO_EV_ATTACH | DUALBOY_SIO_EV_DETACH | DUALBOY_SIO_EV_HARD_SYNC
  | DUALBOY_SIO_EV_MODE_SET sio_mode | DUALBOY_SIO_EV_TRANSFER_START int

record lockstep_event =
  ev_type :: event_type
  timestamp :: int
  ev_player :: int

record player =
  driver :: nat
  playerId :: int
  mode :: sio_mode
  otherModes :: "sio_mode list"
  asleep :: bool
  cycleOffset :: int
  queue :: "lockstep_event list"
  dataReceived :: bool
  queueDepth :: nat
  maxQueueDepth :: nat
  freeList :: nat

record lockstep_user =
  machine_index :: nat
  blocked :: bool

record 'g driver =
  coordinated :: bool
  lockstepId :: u32
  loadingMachineState :: bool
  gba :: "'g machine"
  user :: lockstep_user

record coordinator =
  players :: "(u32 \<times> player) list"
  nextId :: u32
  attachedPlayers :: "u32 list"
  nAttached :: nat
  waiting :: u32
  transferActive :: bool
  syncArmed :: bool
  transferMode :: sio_mode
  cycle :: int
  nextHardSync :: int
  highWater :: nat
  droppedEvents :: u32
  multiData :: "u16 list"
  normalData :: "u32 list"

text \<open>The coordinator with the drivers attached to it; \<open>ready\<close> is the adapter's \<open>pair_ready\<close>.\<close>

record 'g lockstep = coordinator +
  drivers :: "nat \<Rightarrow> 'g driver"
  ready :: bool

definition lookup :: "u32 \<Rightarrow> 'g lockstep \<Rightarrow> player option" where
  "lookup pid s = map_of (players s) pid"

definition update_player :: "u32 \<Rightarrow> (player \<Rightarrow> player) \<Rightarrow> 'g lockstep \<Rightarrow> 'g lockstep" where
  "update_player pid f s = s\<lparr>players := map (\<lambda>(key, p). (key, if key = pid then f p else p)) (players s)\<rparr>"

definition update_driver :: "nat \<Rightarrow> ('g driver \<Rightarrow> 'g driver) \<Rightarrow> 'g lockstep \<Rightarrow> 'g lockstep" where
  "update_driver d f s = s\<lparr>drivers := (drivers s)(d := f (drivers s d))\<rparr>"

definition update_machine :: "nat \<Rightarrow> ('g machine \<Rightarrow> 'g machine) \<Rightarrow> 'g lockstep \<Rightarrow> 'g lockstep" where
  "update_machine d f = update_driver d (\<lambda>dr. dr\<lparr>gba := f (gba dr)\<rparr>)"

definition update_timing :: "nat \<Rightarrow> ('g \<Rightarrow> 'g) \<Rightarrow> 'g lockstep \<Rightarrow> 'g lockstep" where
  "update_timing d f = update_machine d (\<lambda>m. m\<lparr>timing := f (timing m)\<rparr>)"

abbreviation machine_of :: "nat \<Rightarrow> 'g lockstep \<Rightarrow> 'g machine" where
  "machine_of d s \<equiv> gba (drivers s d)"


section \<open>Cycle arithmetic\<close>

definition INT32_MAX :: int where
  "INT32_MAX = 2 ^ 31 - 1"

definition INT32_MIN :: int where
  "INT32_MIN = - (2 ^ 31)"

definition cycleFromBits :: "u32 \<Rightarrow> int" where
  "cycleFromBits v = (if v \<le> word_of_int INT32_MAX then uint v else -1 - uint (0xFFFFFFFF - v))"

definition cycleDelta :: "int \<Rightarrow> int \<Rightarrow> int" where
  "cycleDelta later earlier = cycleFromBits (word_of_int later - word_of_int earlier)"

definition cycleAdd :: "int \<Rightarrow> int \<Rightarrow> int" where
  "cycleAdd c offset = cycleFromBits (word_of_int c + word_of_int offset)"

definition delayAddSaturated :: "int \<Rightarrow> int \<Rightarrow> int" where
  "delayAddSaturated delay adjustment =
     (let result = delay + adjustment
      in if result > INT32_MAX then INT32_MAX else if result < INT32_MIN then INT32_MIN else result)"

definition delayAfterLateness :: "int \<Rightarrow> u32 \<Rightarrow> int" where
  "delayAfterLateness delay cyclesLate =
     (if delay \<le> 0 \<or> cyclesLate \<ge> word_of_int delay then 0 else delay - uint cyclesLate)"

definition sanitizeDelay :: "int \<Rightarrow> int" where
  "sanitizeDelay delay = (if delay > 0 then delay else 1)"

text \<open>\<open>TARGET(P)\<close> shifts a signed one, which C defines for the bits 0 to 30 only.\<close>

definition TARGET :: "int \<Rightarrow> u32 option" where
  "TARGET p = (if 0 \<le> p \<and> p < 31 then Some (push_bit (nat p) 1) else None)"

definition TARGET_ALL :: u32 where
  "TARGET_ALL = 0xF"

definition TARGET_PRIMARY :: u32 where
  "TARGET_PRIMARY = 1"

definition TARGET_SECONDARY :: u32 where
  "TARGET_SECONDARY = TARGET_ALL AND NOT TARGET_PRIMARY"

definition lockstep_time :: "'g mgba \<Rightarrow> player \<Rightarrow> 'g lockstep \<Rightarrow> int" where
  "lockstep_time ops p s = cycleDelta (mTimingCurrentTime ops (timing (machine_of (driver p) s))) (cycleOffset p)"


section \<open>Sleeping and waking\<close>

definition lockstep_sleep :: "bool \<Rightarrow> lockstep_user \<Rightarrow> lockstep_user" where
  "lockstep_sleep pair_ready u = (if pair_ready then u\<lparr>blocked := True\<rparr> else u)"

definition lockstep_wake :: "lockstep_user \<Rightarrow> lockstep_user" where
  "lockstep_wake u = u\<lparr>blocked := False\<rparr>"

definition lockstep_requested_id :: "lockstep_user \<Rightarrow> int" where
  "lockstep_requested_id u = int (machine_index u)"

definition stop_cpu :: "nat \<Rightarrow> 'g lockstep \<Rightarrow> 'g lockstep" where
  "stop_cpu d = update_machine d (\<lambda>m. m\<lparr>cpu_nextEvent := 0, earlyExit := True\<rparr>)"

definition PlayerWake :: "u32 \<Rightarrow> 'g lockstep \<Rightarrow> 'g lockstep option" where
  "PlayerWake pid s = do {
     p \<leftarrow> lookup pid s;
     if \<not> asleep p then Some s
     else Some (update_driver (driver p) (\<lambda>d. d\<lparr>user := lockstep_wake (user d)\<rparr>)
            (update_player pid (\<lambda>p. p\<lparr>asleep := False\<rparr>) s))
   }"

definition PlayerSleep :: "u32 \<Rightarrow> 'g lockstep \<Rightarrow> 'g lockstep option" where
  "PlayerSleep pid s = do {
     p \<leftarrow> lookup pid s;
     if asleep p then Some s
     else Some (stop_cpu (driver p)
            (update_driver (driver p) (\<lambda>d. d\<lparr>user := lockstep_sleep (ready s) (user d)\<rparr>)
              (update_player pid (\<lambda>p. p\<lparr>asleep := True\<rparr>) s)))
   }"

definition wake_attached :: "nat \<Rightarrow> 'g lockstep \<Rightarrow> 'g lockstep option" where
  "wake_attached i s = do { pid \<leftarrow> rd (attachedPlayers s) i; if pid = 0 then Some s else PlayerWake pid s }"

definition WakePlayers :: "'g lockstep \<Rightarrow> 'g lockstep option" where
  "WakePlayers s = fold_opt wake_attached [1..<nAttached s] s"

definition set_received :: "nat \<Rightarrow> 'g lockstep \<Rightarrow> 'g lockstep option" where
  "set_received i s = do {
     pid \<leftarrow> rd (attachedPlayers s) i;
     if pid = 0 then Some s
     else do { p \<leftarrow> lookup pid s; Some (update_player pid (\<lambda>p. p\<lparr>dataReceived := True\<rparr>) s) }
   }"

definition AckPlayer :: "u32 \<Rightarrow> 'g lockstep \<Rightarrow> 'g lockstep option" where
  "AckPlayer pid s = do {
     p \<leftarrow> lookup pid s;
     if playerId p = 0 then Some s
     else do {
       bit \<leftarrow> TARGET (playerId p);
       if waiting s AND bit = 0 then Some s
       else let s1 = s\<lparr>waiting := waiting s AND NOT bit\<rparr> in do {
         s2 \<leftarrow> (if waiting s1 = 0
                then do {
                  s2 \<leftarrow> (if transferActive s1
                         then do { s2 \<leftarrow> fold_opt set_received [0..<nAttached s1] s1; Some (s2\<lparr>transferActive := False\<rparr>) }
                         else Some s1);
                  runner \<leftarrow> rd (attachedPlayers s2) 0;
                  PlayerWake runner s2
                }
                else Some s1);
         PlayerSleep pid s2
       }
     }
   }"


section \<open>The event queues\<close>

text \<open>A new event goes behind every event that is not later.\<close>

fun insert_event :: "lockstep_event \<Rightarrow> lockstep_event list \<Rightarrow> lockstep_event list" where
  "insert_event e [] = [e]"
| "insert_event e (n # q) =
     (if cycleDelta (timestamp e) (timestamp n) < 0 then e # n # q else n # insert_event e q)"

definition rescheduleForQueueHead :: "'g mgba \<Rightarrow> u32 \<Rightarrow> 'g lockstep \<Rightarrow> 'g lockstep option" where
  "rescheduleForQueueHead ops pid s = do {
     p \<leftarrow> lookup pid s;
     let t = timing (machine_of (driver p) s) in
     case queue p of
       [] \<Rightarrow> Some s
     | head # _ \<Rightarrow>
         if \<not> mTimingIsScheduled ops Lockstep_Event t then Some s
         else let scheduledDelay = cycleFromBits (event_when ops Lockstep_Event t - word_of_int (mTimingCurrentTime ops t))
              in if scheduledDelay \<le> 0 then Some s
                 else let queuedDelay = sanitizeDelay (cycleDelta (timestamp head) (lockstep_time ops p s))
                      in if queuedDelay \<ge> scheduledDelay then Some s
                         else Some (update_timing (driver p)
                                (mTimingSchedule ops Lockstep_Event queuedDelay \<circ> mTimingDeschedule ops Lockstep_Event) s)
   }"

definition put_event :: "lockstep_event \<Rightarrow> player \<Rightarrow> player" where
  "put_event e p = p\<lparr>freeList := freeList p - 1, queue := insert_event e (queue p), queueDepth := queueDepth p + 1,
     maxQueueDepth := max (maxQueueDepth p) (queueDepth p + 1)\<rparr>"

definition enqueue_for ::
  "'g mgba \<Rightarrow> lockstep_event \<Rightarrow> u32 \<Rightarrow> nat \<Rightarrow> bool \<times> 'g lockstep \<Rightarrow> (bool \<times> 'g lockstep) option" where
  "enqueue_for ops e target i = (\<lambda>(success, s). do {
     bit \<leftarrow> TARGET (int i);
     if target AND bit = 0 then Some (success, s)
     else do {
       pid \<leftarrow> rd (attachedPlayers s) i;
       case lookup pid s of
         None \<Rightarrow> Some (False, s)
       | Some p \<Rightarrow>
           if freeList p = 0 then Some (False, s\<lparr>droppedEvents := droppedEvents s + 1\<rparr>)
           else let raised = queueDepth p + 1 > maxQueueDepth p;
                    s1 = update_player pid (put_event e) s;
                    s2 = (if raised then s1\<lparr>highWater := max (highWater s1) (queueDepth p + 1)\<rparr> else s1)
                in do { s3 \<leftarrow> rescheduleForQueueHead ops pid s2; Some (success, s3) }
     }
   })"

definition enqueueEvent ::
  "'g mgba \<Rightarrow> lockstep_event \<Rightarrow> u32 \<Rightarrow> 'g lockstep \<Rightarrow> (bool \<times> 'g lockstep) option" where
  "enqueueEvent ops e target s = fold_opt (enqueue_for ops e target) [0..<nAttached s] (True, s)"



section \<open>The shared clock, barriers and modes\<close>

definition untilNextSync :: "'g mgba \<Rightarrow> u32 \<Rightarrow> 'g lockstep \<Rightarrow> int option" where
  "untilNextSync ops pid s =
     (if \<not> syncArmed s then Some UNLOCKED_INTERVAL
      else do {
        p \<leftarrow> lookup pid s;
        let c = cycleDelta (cycle s) (lockstep_time ops p s) in
        Some (if playerId p = 0
              then (if nAttached s < 2 then delayAddSaturated c UNLOCKED_INTERVAL else delayAddSaturated c LOCKSTEP_INTERVAL)
              else c)
      })"

definition advanceCycle :: "'g mgba \<Rightarrow> u32 \<Rightarrow> 'g lockstep \<Rightarrow> 'g lockstep option" where
  "advanceCycle ops pid s = do {
     p \<leftarrow> lookup pid s;
     let newCycle = lockstep_time ops p s; elapsed = cycleDelta newCycle (cycle s) in
     Some (if elapsed < 0 then s
           else s\<lparr>nextHardSync := delayAddSaturated (nextHardSync s) (- elapsed), cycle := newCycle\<rparr>)
   }"

text \<open>Three assertions guard a barrier: none may be active, and the caller is the primary and awake.\<close>

definition WaitOnPlayers :: "'g mgba \<Rightarrow> u32 \<Rightarrow> 'g lockstep \<Rightarrow> 'g lockstep option" where
  "WaitOnPlayers ops pid s = do {
     p \<leftarrow> lookup pid s;
     if waiting s \<noteq> 0 \<or> asleep p \<or> playerId p \<noteq> 0 then None
     else if nAttached s < 2 then Some s
     else do {
       s1 \<leftarrow> advanceCycle ops pid s;
       bit \<leftarrow> TARGET (playerId p);
       s2 \<leftarrow> PlayerSleep pid (s1\<lparr>waiting := (push_bit (nAttached s1) 1 - 1) AND NOT bit\<rparr>);
       WakePlayers s2
     }
   }"

text \<open>The loop that compares the known modes stops at the first difference.\<close>

fun modes_agree :: "sio_mode list \<Rightarrow> sio_mode \<Rightarrow> nat list \<Rightarrow> bool option" where
  "modes_agree known m [] = Some True"
| "modes_agree known m (i # is) = do { k \<leftarrow> rd known i; if k = m then modes_agree known m is else Some False }"

definition setReady :: "'g mgba \<Rightarrow> u32 \<Rightarrow> int \<Rightarrow> sio_mode \<Rightarrow> 'g lockstep \<Rightarrow> 'g lockstep option" where
  "setReady ops pid player_id m s = do {
     p \<leftarrow> lookup pid s;
     if player_id < 0 \<or> nat player_id \<ge> length (otherModes p) then None
     else let known = (otherModes p)[nat player_id := m]; s1 = update_player pid (\<lambda>p. p\<lparr>otherModes := known\<rparr>) s in do {
       agreed \<leftarrow> modes_agree known (mode p) [0..<nAttached s];
       Some (if mode p = GBA_SIO_MULTI
             then update_machine (driver p) (\<lambda>sio. sio\<lparr>siocnt := GBASIOMultiplayerSetReady ops (siocnt sio) agreed,
                    rcnt := GBASIORegisterRCNTSetSd ops (rcnt sio) agreed\<rparr>) s1
             else s1)
     }
   }"

text \<open>The value a machine contributes to the transfer; an unsupported mode contributes nothing.\<close>

definition setData :: "nat \<Rightarrow> nat \<Rightarrow> 'g lockstep \<Rightarrow> 'g lockstep option" where
  "setData i d s =
     (let sio = machine_of d s; multi = multiData s; normal = normalData s
      in case transferMode s of
           GBA_SIO_MULTI \<Rightarrow> if i < length multi then Some (s\<lparr>multiData := multi[i := SIOMLT_SEND sio]\<rparr>) else None
         | GBA_SIO_NORMAL_8 \<Rightarrow>
             if i < length normal then Some (s\<lparr>normalData := normal[i := ucast (SIODATA8 sio)]\<rparr>) else None
         | GBA_SIO_NORMAL_32 \<Rightarrow>
             if i < length normal
             then Some (s\<lparr>normalData := normal[i := ucast (SIODATA32_LO sio) OR push_bit 16 (ucast (SIODATA32_HI sio))]\<rparr>)
             else None
         | _ \<Rightarrow> Some s)"

definition hardSync :: "'g mgba \<Rightarrow> u32 \<Rightarrow> 'g lockstep \<Rightarrow> 'g lockstep option" where
  "hardSync ops pid s = do {
     p \<leftarrow> lookup pid s;
     (queued, s1) \<leftarrow> enqueueEvent ops \<lparr>ev_type = DUALBOY_SIO_EV_HARD_SYNC, timestamp = lockstep_time ops p s, ev_player = 0\<rparr>
       TARGET_SECONDARY s;
     if queued then WaitOnPlayers ops pid s1 else Some s1
   }"


section \<open>Attaching and detaching\<close>

text \<open>Collecting the requested numbers visits the table until four players are seen.\<close>

fun collect_preferences :: "u32 list \<Rightarrow> nat \<Rightarrow> 'g lockstep \<Rightarrow> u32 list list \<Rightarrow> u32 list list option" where
  "collect_preferences [] seen s prefs = Some prefs"
| "collect_preferences (pid # rest) seen s prefs =
     (if seen \<ge> MAX_GBAS then Some prefs
      else do {
        p \<leftarrow> lookup pid s;
        let requested = lockstep_requested_id (user (drivers s (driver p))) in
        if requested < 0 then collect_preferences rest seen s prefs
        else let slot = nat (if requested \<ge> int MAX_GBAS then int MAX_GBAS - 1 else requested)
             in collect_preferences rest (seen + 1) s (prefs[slot := prefs ! slot @ [pid]])
      })"

fun assign_ids :: "u32 list \<Rightarrow> nat \<times> 'g lockstep \<Rightarrow> u32 list \<times> nat \<times> 'g lockstep" where
  "assign_ids [] (seen, s) = ([], seen, s)"
| "assign_ids (pid # rest) (seen, s) =
     (if seen \<ge> MAX_GBAS then (pid # rest, seen, s)
      else case lookup pid s of
             None \<Rightarrow> assign_ids rest (seen, s)
           | Some p \<Rightarrow> assign_ids rest (seen + 1,
               update_player pid (\<lambda>p. p\<lparr>playerId := int seen\<rparr>) (s\<lparr>attachedPlayers := (attachedPlayers s)[seen := pid]\<rparr>)))"

definition assign_slot :: "nat \<Rightarrow> u32 list list \<times> nat \<times> 'g lockstep \<Rightarrow> u32 list list \<times> nat \<times> 'g lockstep" where
  "assign_slot j = (\<lambda>(prefs, seen, s). let (rest, seen1, s1) = assign_ids (prefs ! j) (seen, s) in (prefs[j := rest], seen1, s1))"

definition sort_players :: "u32 list list \<Rightarrow> 'g lockstep \<Rightarrow> 'g lockstep" where
  "sort_players prefs s =
     snd (snd (fold assign_slot (concat (map (\<lambda>i. [0..<Suc i]) [0..<MAX_GBAS])) (prefs, 0, s)))"

definition count_attached :: "nat \<Rightarrow> nat \<times> 'g lockstep \<Rightarrow> nat \<times> 'g lockstep" where
  "count_attached i = (\<lambda>(n, s). let pid = attachedPlayers s ! i in
     if pid = 0 then (n, s)
     else if lookup pid s = None then (n, s\<lparr>attachedPlayers := (attachedPlayers s)[i := 0]\<rparr>) else (n + 1, s))"

definition reconfigPlayers :: "'g mgba \<Rightarrow> 'g lockstep \<Rightarrow> 'g lockstep option" where
  "reconfigPlayers ops s =
     (let s1 = s\<lparr>attachedPlayers := replicate MAX_GBAS 0\<rparr>; keys = table_iteration ops (map fst (players s)) in do {
        s2 \<leftarrow> (if length (players s) = 0 then Some s1
               else if length (players s) = 1
               then do {
                 p0 \<leftarrow> rd keys 0;
                 p \<leftarrow> lookup p0 s1;
                 Some (update_player p0 (\<lambda>p. p\<lparr>playerId := 0\<rparr>)
                   (s1\<lparr>attachedPlayers := (attachedPlayers s1)[0 := p0],
                      cycle := mTimingCurrentTime ops (timing (machine_of (driver p) s1)), nextHardSync := HARD_SYNC_INTERVAL,
                      transferMode := (if transferActive s1 then transferMode s1 else mode p)\<rparr>))
               }
               else do { prefs \<leftarrow> collect_preferences keys 0 s1 (replicate MAX_GBAS []); Some (sort_players prefs s1) });
        let (n, s3) = fold count_attached [0..<MAX_GBAS] (0, s2) in Some (s3\<lparr>nAttached := n\<rparr>)
      })"

definition removePlayer :: "'g mgba \<Rightarrow> u32 \<Rightarrow> 'g lockstep \<Rightarrow> 'g lockstep option" where
  "removePlayer ops pid s = do {
     p \<leftarrow> lookup pid s;
     bit \<leftarrow> TARGET (playerId p);
     (queued, s1) \<leftarrow> enqueueEvent ops
       \<lparr>ev_type = DUALBOY_SIO_EV_DETACH, timestamp = lockstep_time ops p s, ev_player = playerId p\<rparr> (TARGET_ALL AND NOT bit) s;
     s2 \<leftarrow> reconfigPlayers ops (s1\<lparr>waiting := 0, transferActive := False, syncArmed := False,
       players := filter (\<lambda>(key, _). key \<noteq> lockstepId (drivers s1 (driver p))) (players s1)\<rparr>);
     runner \<leftarrow> rd (attachedPlayers s2) 0;
     if lookup runner s2 = None then Some s2 else PlayerWake runner s2
   }"

text \<open>A new player: all slots free, no number yet.\<close>

definition new_player :: "'g mgba \<Rightarrow> nat \<Rightarrow> sio_mode \<Rightarrow> player" where
  "new_player ops d m = \<lparr>driver = d, playerId = -1, mode = m, otherModes = replicate MAX_GBAS (zeroed_mode ops), asleep = False,
     cycleOffset = 0, queue = [], dataReceived = False, queueDepth = 0, maxQueueDepth = 0,
     freeList = DUALBOY_MAX_LOCKSTEP_EVENTS\<rparr>"

text \<open>The search for an unused key wraps at \<open>UINT_MAX\<close>; the first argument bounds its turns.\<close>

fun fresh_id :: "nat \<Rightarrow> u32 list \<Rightarrow> u32 \<Rightarrow> u32 option" where
  "fresh_id 0 used n = None"
| "fresh_id (Suc turns) used n =
     (let n1 = (if n = 0xFFFFFFFF then 0 else n) + 1 in if n1 \<in> set used then fresh_id turns used n1 else Some n1)"

definition attach_player :: "'g mgba \<Rightarrow> nat \<Rightarrow> 'g lockstep \<Rightarrow> (u32 \<times> 'g lockstep) option" where
  "attach_player ops d s = do {
     key \<leftarrow> fresh_id (Suc (length (players s))) (map fst (players s)) (nextId s);
     s1 \<leftarrow> reconfigPlayers ops (update_driver d (\<lambda>dr. dr\<lparr>lockstepId := key\<rparr>)
       (s\<lparr>nextId := key, players := players s @ [(key, new_player ops d (sio_mode (machine_of d s)))]\<rparr>));
     let s2 = update_player key (\<lambda>p. p\<lparr>cycleOffset := cycleDelta (mTimingCurrentTime ops (timing (machine_of d s1))) (cycle s1)\<rparr>) s1
     in do {
       p \<leftarrow> lookup key s2;
       if playerId p = 0 then Some (key, s2)
       else do {
         bit \<leftarrow> TARGET (playerId p);
         (queued, s3) \<leftarrow> enqueueEvent ops
           \<lparr>ev_type = DUALBOY_SIO_EV_ATTACH, timestamp = lockstep_time ops p s2, ev_player = playerId p\<rparr> (TARGET_ALL AND NOT bit) s2;
         Some (key, s3)
       }
     }
   }"

definition reset_schedule :: "'g mgba \<Rightarrow> nat \<Rightarrow> u32 \<Rightarrow> 'g lockstep \<Rightarrow> 'g lockstep option" where
  "reset_schedule ops d pid s =
     (if mTimingIsScheduled ops Lockstep_Event (timing (machine_of d s)) then Some s
      else do {
        p \<leftarrow> lookup pid s;
        s1 \<leftarrow> setReady ops pid (playerId p) (mode p) s;
        (nextEvent, s2) \<leftarrow>
          (if length (players s1) = 1
           then Some (LOCKSTEP_INTERVAL, s1\<lparr>cycle := mTimingCurrentTime ops (timing (machine_of d s1))\<rparr>)
           else do {
             s2 \<leftarrow> setReady ops pid 0 (transferMode s1) s1;
             n \<leftarrow> untilNextSync ops pid s2;
             Some (n, s2)
           });
        Some (update_timing d (mTimingSchedule ops Lockstep_Event (sanitizeDelay nextEvent)) s2)
      })"

text \<open>\<open>memory\<close> is the answer of \<open>calloc\<close>; without memory the driver stays detached.\<close>

definition DriverReset :: "'g mgba \<Rightarrow> bool \<Rightarrow> nat \<Rightarrow> 'g lockstep \<Rightarrow> 'g lockstep option" where
  "DriverReset ops memory d s =
     (if \<not> coordinated (drivers s d) then None
      else let s0 = s\<lparr>syncArmed := False\<rparr> in
      if lockstepId (drivers s d) = 0
      then (if \<not> memory then Some s0
            else do { (key, s1) \<leftarrow> attach_player ops d s0; reset_schedule ops d key s1 })
      else let key = lockstepId (drivers s d) in do {
        p \<leftarrow> lookup key s0;
        reset_schedule ops d key
          (update_player key (\<lambda>p. p\<lparr>cycleOffset := cycleDelta (mTimingCurrentTime ops (timing (machine_of d s0))) (cycle s0)\<rparr>) s0)
      })"

definition DriverInit :: "'g mgba \<Rightarrow> bool \<Rightarrow> nat \<Rightarrow> 'g lockstep \<Rightarrow> (bool \<times> 'g lockstep) option" where
  "DriverInit ops memory d s = do { s1 \<leftarrow> DriverReset ops memory d s; Some (True, s1) }"

definition DriverDeinit :: "'g mgba \<Rightarrow> nat \<Rightarrow> 'g lockstep \<Rightarrow> 'g lockstep option" where
  "DriverDeinit ops d s =
     (if \<not> coordinated (drivers s d) then None
      else do {
        s1 \<leftarrow> (if lookup (lockstepId (drivers s d)) s = None then Some s else removePlayer ops (lockstepId (drivers s d)) s);
        Some (update_driver d (\<lambda>dr. dr\<lparr>lockstepId := 0\<rparr>) (update_timing d (mTimingDeschedule ops Lockstep_Event) s1))
      })"

definition CoordinatorInit :: "'g mgba \<Rightarrow> 'g lockstep \<Rightarrow> 'g lockstep" where
  "CoordinatorInit ops s = s\<lparr>players := [], nextId := 0, attachedPlayers := replicate MAX_GBAS 0, nAttached := 0, waiting := 0,
     transferActive := False, syncArmed := False, transferMode := zeroed_mode ops, cycle := 0, nextHardSync := 0, highWater := 0,
     droppedEvents := 0, multiData := replicate 4 0, normalData := replicate 4 0\<rparr>"

definition CoordinatorDeinit :: "'g lockstep \<Rightarrow> 'g lockstep" where
  "CoordinatorDeinit s = s\<lparr>players := []\<rparr>"

text \<open>There is one coordinator in this model, so a driver is attached to it or to none.\<close>

definition CoordinatorAttach :: "nat \<Rightarrow> 'g lockstep \<Rightarrow> 'g lockstep" where
  "CoordinatorAttach d = update_driver d (\<lambda>dr. dr\<lparr>coordinated := True\<rparr>)"

definition CoordinatorDetach :: "'g mgba \<Rightarrow> nat \<Rightarrow> 'g lockstep \<Rightarrow> 'g lockstep option" where
  "CoordinatorDetach ops d s =
     (if \<not> coordinated (drivers s d) then None
      else do {
        s1 \<leftarrow> (if lookup (lockstepId (drivers s d)) s = None then Some s else removePlayer ops (lockstepId (drivers s d)) s);
        Some (update_driver d (\<lambda>dr. dr\<lparr>coordinated := False\<rparr>) s1)
      })"

definition CoordinatorAttached :: "'g lockstep \<Rightarrow> nat" where
  "CoordinatorAttached s = length (players s)"

text \<open>\<open>memset\<close> and the callbacks; the machine \<open>d.p\<close> is set by mGBA when the driver is plugged in.\<close>

definition DriverCreate :: "nat \<Rightarrow> lockstep_user \<Rightarrow> 'g lockstep \<Rightarrow> 'g lockstep" where
  "DriverCreate d u = update_driver d (\<lambda>dr. dr\<lparr>coordinated := False, lockstepId := 0, loadingMachineState := False, user := u\<rparr>)"



section \<open>The serial driver\<close>

definition DriverId :: u32 where
  "DriverId = 0x6B636F4C"

definition DriverSetMode :: "'g mgba \<Rightarrow> sio_mode \<Rightarrow> nat \<Rightarrow> 'g lockstep \<Rightarrow> 'g lockstep option" where
  "DriverSetMode ops m d s =
     (if loadingMachineState (drivers s d) then Some s
      else if \<not> coordinated (drivers s d) then None
      else let pid = lockstepId (drivers s d) in do {
        p \<leftarrow> lookup pid s;
        if m = mode p then Some s
        else let s1 = update_player pid (\<lambda>p. p\<lparr>mode := m\<rparr>) s;
                 e = \<lparr>ev_type = DUALBOY_SIO_EV_MODE_SET m, timestamp = lockstep_time ops p s1, ev_player = playerId p\<rparr>;
                 waitOnPlayers = (playerId p = 0 \<and> waiting s1 = 0);
                 s2 = (if playerId p = 0 then s1\<lparr>transferMode := m\<rparr> else s1)
             in do {
               s3 \<leftarrow> setReady ops pid (playerId p) m s2;
               bit \<leftarrow> TARGET (playerId p);
               (queued, s4) \<leftarrow> enqueueEvent ops e (TARGET_ALL AND NOT bit) s3;
               let s5 = (if queued then stop_cpu (driver p) s4 else s4) in
               if waitOnPlayers \<and> queued then WaitOnPlayers ops pid s5 else Some s5
             }
      })"

definition DriverHandlesMode :: "sio_mode \<Rightarrow> bool" where
  "DriverHandlesMode m = True"

definition DriverConnectedDevices :: "nat \<Rightarrow> 'g lockstep \<Rightarrow> int" where
  "DriverConnectedDevices d s = (if lockstepId (drivers s d) = 0 then 0 else int (nAttached s) - 1)"

definition DriverDeviceId :: "nat \<Rightarrow> 'g lockstep \<Rightarrow> int option" where
  "DriverDeviceId d s =
     (if \<not> coordinated (drivers s d) then None
      else Some (case lookup (lockstepId (drivers s d)) s of
                   None \<Rightarrow> 0
                 | Some p \<Rightarrow> if playerId p \<ge> 0 then playerId p else 0))"

definition DriverWriteSIOCNT :: "u16 \<Rightarrow> u16" where
  "DriverWriteSIOCNT v = v"

definition DriverWriteRCNT :: "u16 \<Rightarrow> u16" where
  "DriverWriteRCNT v = v"

definition DriverStart :: "'g mgba \<Rightarrow> nat \<Rightarrow> 'g lockstep \<Rightarrow> (bool \<times> 'g lockstep) option" where
  "DriverStart ops d s =
     (if \<not> coordinated (drivers s d) then None
      else if transferActive s then Some (False, s)
      else let pid = lockstepId (drivers s d) in do {
        p \<leftarrow> lookup pid s;
        if playerId p \<noteq> 0 then Some (False, s)
        else do {
          s1 \<leftarrow> setData 0 (driver p) (s\<lparr>multiData := replicate (length (multiData s)) 0xFFFF\<rparr>);
          let now = lockstep_time ops p s1;
              cycles = GBASIOTransferCycles ops (mode p) (siocnt (machine_of (driver p) s1)) (int (nAttached s1) - 1);
              e = \<lparr>ev_type = DUALBOY_SIO_EV_TRANSFER_START (cycleAdd now cycles), timestamp = now, ev_player = 0\<rparr>
          in do {
            (queued, s2) \<leftarrow> enqueueEvent ops e TARGET_SECONDARY s1;
            if \<not> queued then Some (False, s2)
            else let s3 = s2\<lparr>transferActive := True\<rparr>;
                     s4 = (if mode p = GBA_SIO_MULTI \<and> \<not> syncArmed s3
                           then s3\<lparr>syncArmed := True, nextHardSync := HARD_SYNC_INTERVAL\<rparr> else s3)
                 in do {
                   s5 \<leftarrow> (if waiting s4 \<noteq> 0 then Some s4 else WaitOnPlayers ops pid s4);
                   Some (True, s5)
                 }
          }
        }
      })"

text \<open>The end of a transfer: the primary starts a hard synchronization, or defers it behind a barrier.\<close>

definition finish_barrier :: "'g mgba \<Rightarrow> u32 \<Rightarrow> 'g lockstep \<Rightarrow> 'g lockstep option" where
  "finish_barrier ops pid s = do {
     p \<leftarrow> lookup pid s;
     if playerId p \<noteq> 0 \<or> \<not> syncArmed s then Some s
     else if waiting s \<noteq> 0 then Some (s\<lparr>nextHardSync := -1\<rparr>)
     else hardSync ops pid s
   }"

definition DriverFinishMultiplayer ::
  "'g mgba \<Rightarrow> u16 list \<Rightarrow> nat \<Rightarrow> 'g lockstep \<Rightarrow> (u16 list \<times> 'g lockstep) option" where
  "DriverFinishMultiplayer ops data d s =
     (if \<not> coordinated (drivers s d) then None
      else if transferMode s \<noteq> GBA_SIO_MULTI then Some (data, s)
      else let pid = lockstepId (drivers s d) in do {
        p \<leftarrow> lookup pid s;
        let received = (if dataReceived p then multiData s else replicate 4 0xFFFF) in do {
        s1 \<leftarrow> finish_barrier ops pid (update_player pid (\<lambda>p. p\<lparr>dataReceived := False\<rparr>) s);
        Some (received, s1) }
      })"

text \<open>What a player reads at the end of a normal transfer: the value of the player before it.\<close>

definition previous_data :: "player \<Rightarrow> 'g lockstep \<Rightarrow> u32 \<Rightarrow> u32 option" where
  "previous_data p s missing = (if playerId p > 0 \<and> dataReceived p then rd (normalData s) (nat (playerId p - 1)) else Some missing)"

definition DriverFinishNormal8 :: "'g mgba \<Rightarrow> nat \<Rightarrow> 'g lockstep \<Rightarrow> (u8 \<times> 'g lockstep) option" where
  "DriverFinishNormal8 ops d s =
     (if \<not> coordinated (drivers s d) then None
      else if transferMode s \<noteq> GBA_SIO_NORMAL_8 then Some (0xFF, s)
      else let pid = lockstepId (drivers s d) in do {
        p \<leftarrow> lookup pid s;
        data \<leftarrow> previous_data p s 0xFF;
        s1 \<leftarrow> finish_barrier ops pid (update_player pid (\<lambda>p. p\<lparr>dataReceived := False\<rparr>) s);
        Some (ucast data, s1)
      })"

definition DriverFinishNormal32 :: "'g mgba \<Rightarrow> nat \<Rightarrow> 'g lockstep \<Rightarrow> (u32 \<times> 'g lockstep) option" where
  "DriverFinishNormal32 ops d s =
     (if \<not> coordinated (drivers s d) then None
      else if transferMode s \<noteq> GBA_SIO_NORMAL_32 then Some (0xFFFFFFFF, s)
      else let pid = lockstepId (drivers s d) in do {
        p \<leftarrow> lookup pid s;
        data \<leftarrow> previous_data p s 0xFFFFFFFF;
        s1 \<leftarrow> finish_barrier ops pid (update_player pid (\<lambda>p. p\<lparr>dataReceived := False\<rparr>) s);
        Some (data, s1)
      })"


section \<open>The timing callback\<close>

text \<open>The answer of a player that sees another one come or go: its own mode.\<close>

definition mode_reply :: "'g mgba \<Rightarrow> player \<Rightarrow> 'g lockstep \<Rightarrow> lockstep_event" where
  "mode_reply ops p s = \<lparr>ev_type = DUALBOY_SIO_EV_MODE_SET (mode p), timestamp = lockstep_time ops p s, ev_player = playerId p\<rparr>"

definition receive_attach :: "'g mgba \<Rightarrow> u32 \<Rightarrow> lockstep_event \<Rightarrow> 'g lockstep \<Rightarrow> 'g lockstep option" where
  "receive_attach ops pid e s = do {
     p \<leftarrow> lookup pid s;
     s1 \<leftarrow> setReady ops pid (ev_player e) GBA_SIO_NONE s;
     let s2 = (if playerId p = 0
               then update_machine (driver p) (\<lambda>m. m\<lparr>siocnt := GBASIOMultiplayerClearSlave ops (siocnt m)\<rparr>) s1 else s1) in do {
       bit \<leftarrow> TARGET (ev_player e);
       (queued, s3) \<leftarrow> enqueueEvent ops (mode_reply ops p s) bit s2;
       Some s3
     }
   }"

definition receive_transfer :: "'g mgba \<Rightarrow> u32 \<Rightarrow> int \<Rightarrow> u32 \<Rightarrow> 'g lockstep \<Rightarrow> (int \<times> 'g lockstep) option" where
  "receive_transfer ops pid finishCycle cyclesLate s = do {
     p \<leftarrow> lookup pid s;
     s1 \<leftarrow> setData (nat (playerId p)) (driver p) s;
     let next = sanitizeDelay (delayAfterLateness (cycleDelta finishCycle (lockstep_time ops p s1)) cyclesLate);
         s2 = update_machine (driver p) (\<lambda>m. m\<lparr>siocnt := siocnt m OR 0x80,
                timing := mTimingSchedule ops Complete_Event next (mTimingDeschedule ops Complete_Event (timing m))\<rparr>) s1 in do {
       s3 \<leftarrow> AckPlayer pid s2;
       Some (next, s3)
     }
   }"

definition receive_mode :: "'g mgba \<Rightarrow> u32 \<Rightarrow> int \<Rightarrow> sio_mode \<Rightarrow> 'g lockstep \<Rightarrow> 'g lockstep option" where
  "receive_mode ops pid from m s = do {
     s1 \<leftarrow> setReady ops pid from m s;
     if from = 0 then AckPlayer pid s1 else Some s1
   }"

definition receive_detach :: "'g mgba \<Rightarrow> u32 \<Rightarrow> lockstep_event \<Rightarrow> 'g lockstep \<Rightarrow> 'g lockstep option" where
  "receive_detach ops pid e s = do {
     p \<leftarrow> lookup pid s;
     s1 \<leftarrow> setReady ops pid (ev_player e) GBA_SIO_NONE s;
     s2 \<leftarrow> setReady ops pid (playerId p) (mode p) s1;
     bit \<leftarrow> TARGET (ev_player e);
     (queued, s3) \<leftarrow> enqueueEvent ops (mode_reply ops p s) (NOT bit) s2;
     Some (if mode p = GBA_SIO_MULTI
           then update_machine (driver p) (\<lambda>m. m\<lparr>siocnt := GBASIOMultiplayerSetSlave ops
                  (GBASIOMultiplayerSetId ops (siocnt m) (playerId p)) (playerId p \<noteq> 0 \<or> nAttached s3 < 2)\<rparr>) s3
           else s3)
   }"

text \<open>One due event; the result carries the delay to the next callback and whether it was a detachment.\<close>

definition receive_event ::
  "'g mgba \<Rightarrow> u32 \<Rightarrow> u32 \<Rightarrow> lockstep_event \<Rightarrow> int \<times> bool \<times> 'g lockstep \<Rightarrow> (int \<times> bool \<times> 'g lockstep) option" where
  "receive_event ops pid cyclesLate e = (\<lambda>(nextEvent, wasDetach, s).
     case ev_type e of
       DUALBOY_SIO_EV_ATTACH \<Rightarrow> do { s1 \<leftarrow> receive_attach ops pid e s; Some (nextEvent, wasDetach, s1) }
     | DUALBOY_SIO_EV_HARD_SYNC \<Rightarrow> do { s1 \<leftarrow> AckPlayer pid s; Some (nextEvent, wasDetach, s1) }
     | DUALBOY_SIO_EV_TRANSFER_START finishCycle \<Rightarrow> do {
         (next, s1) \<leftarrow> receive_transfer ops pid finishCycle cyclesLate s;
         Some (next, wasDetach, s1)
       }
     | DUALBOY_SIO_EV_MODE_SET m \<Rightarrow> do { s1 \<leftarrow> receive_mode ops pid (ev_player e) m s; Some (nextEvent, wasDetach, s1) }
     | DUALBOY_SIO_EV_DETACH \<Rightarrow> do { s1 \<leftarrow> receive_detach ops pid e s; Some (nextEvent, True, s1) })"

text \<open>The slot of a received event goes back to the free ones after it has been handled.\<close>

definition recycle :: "player \<Rightarrow> player" where
  "recycle p = p\<lparr>freeList := freeList p + 1, queueDepth := queueDepth p - 1\<rparr>"

text \<open>The loop over the due events; the first argument bounds its turns.\<close>

fun receive_due ::
  "nat \<Rightarrow> 'g mgba \<Rightarrow> u32 \<Rightarrow> u32 \<Rightarrow> int \<times> bool \<times> 'g lockstep \<Rightarrow> (int \<times> bool \<times> 'g lockstep) option" where
  "receive_due 0 ops pid cyclesLate st = None"
| "receive_due (Suc turns) ops pid cyclesLate (nextEvent, wasDetach, s) = do {
     p \<leftarrow> lookup pid s;
     case queue p of
       [] \<Rightarrow> Some (nextEvent, wasDetach, s)
     | e # later \<Rightarrow>
         if cycleDelta (timestamp e) (lockstep_time ops p s) > 0 then Some (nextEvent, wasDetach, s)
         else do {
           (next1, wasDetach1, s1) \<leftarrow>
             receive_event ops pid cyclesLate e (nextEvent, wasDetach, update_player pid (\<lambda>p. p\<lparr>queue := later\<rparr>) s);
           receive_due turns ops pid cyclesLate (next1, wasDetach1, update_player pid recycle s1)
         }
   }"

text \<open>The primary owns the clock: it advances it, wakes the others and may start a hard synchronization.\<close>

definition own_clock :: "'g mgba \<Rightarrow> u32 \<Rightarrow> 'g lockstep \<Rightarrow> 'g lockstep option" where
  "own_clock ops pid s = do {
     p \<leftarrow> lookup pid s;
     if playerId p \<noteq> 0 \<or> cycleDelta (lockstep_time ops p s) (cycle s) < 0 then Some s
     else do {
       s1 \<leftarrow> advanceCycle ops pid s;
       s2 \<leftarrow> (if \<not> transferActive s1 then WakePlayers s1 else Some s1);
       if syncArmed s2 \<and> nextHardSync s2 < 0
       then do {
         s3 \<leftarrow> (if waiting s2 = 0 then hardSync ops pid s2 else Some s2);
         Some (s3\<lparr>nextHardSync := delayAddSaturated (nextHardSync s3) HARD_SYNC_INTERVAL\<rparr>)
       }
       else Some s2
     }
   }"

definition event_weight :: "lockstep_event \<Rightarrow> nat" where
  "event_weight e = (case ev_type e of DUALBOY_SIO_EV_ATTACH \<Rightarrow> 2 | DUALBOY_SIO_EV_DETACH \<Rightarrow> 2 | _ \<Rightarrow> 1)"

definition receive_turns :: "player \<Rightarrow> nat" where
  "receive_turns p = Suc (sum_list (map event_weight (queue p)))"

definition lockstepEvent :: "'g mgba \<Rightarrow> u32 \<Rightarrow> nat \<Rightarrow> 'g lockstep \<Rightarrow> 'g lockstep option" where
  "lockstepEvent ops cyclesLate d s =
     (if \<not> coordinated (drivers s d) then None
      else let pid = lockstepId (drivers s d) in do {
        p \<leftarrow> lookup pid s;
        if playerId p < 0 \<or> playerId p \<ge> 4 then None
        else let wasDetach = (case queue p of [] \<Rightarrow> False | e # _ \<Rightarrow> ev_type e = DUALBOY_SIO_EV_DETACH) in do {
          s1 \<leftarrow> own_clock ops pid s;
          sync \<leftarrow> untilNextSync ops pid s1;
          (next2, wasDetach2, s2) \<leftarrow> receive_due (receive_turns p) ops pid cyclesLate (sync, wasDetach, s1);
          q \<leftarrow> lookup pid s2;
          let next3 = (case queue q of
                [] \<Rightarrow> next2
              | e # _ \<Rightarrow> min next2 (cycleDelta (timestamp e) (lockstep_time ops q s2))) in do {
            (next4, s3) \<leftarrow>
              (if syncArmed s2 \<and> playerId q \<noteq> 0 \<and> next3 \<le> LOCKSTEP_INTERVAL \<and> (queue q = [] \<or> wasDetach2)
               then do { s3 \<leftarrow> PlayerSleep pid s2; Some (max next3 4, s3) }
               else Some (next3, s2));
            Some (update_timing d (mTimingSchedule ops Lockstep_Event (sanitizeDelay next4)) s3)
          }
        }
      })"

end
