(* ===== verification/Lockstep_Sync.thy ===== *)
theory Lockstep_Sync
  imports Lockstep
begin

text \<open>
  The synchronization of the link. \<open>settled\<close> is the invariant of a group of attached players: their
  queues account for every slot, a player that owes an acknowledgement is awake and has the event
  that makes it acknowledge in its queue, and the primary sleeps only behind a barrier. With it no
  assertion of the code fails, every operation returns, and never do all players sleep.
\<close>


section \<open>Reading and updating players\<close>

lemma lookup_update_player [simp]:
  "lookup k (update_player pid f s) = (if k = pid then map_option f (lookup k s) else lookup k s)"
proof -
  have "map_of (map (\<lambda>(key, p). (key, if key = pid then f p else p)) ps) k
      = (if k = pid then map_option f (map_of ps k) else map_of ps k)" for ps
    by (induction ps) auto
  then show ?thesis by (simp add: lookup_def update_player_def)
qed

lemma lookup_other [simp]:
  "lookup k (s\<lparr>waiting := w\<rparr>) = lookup k s" "lookup k (s\<lparr>cycle := c\<rparr>) = lookup k s"
  "lookup k (s\<lparr>nextHardSync := h\<rparr>) = lookup k s" "lookup k (s\<lparr>transferActive := a\<rparr>) = lookup k s"
  "lookup k (s\<lparr>syncArmed := a\<rparr>) = lookup k s" "lookup k (s\<lparr>transferMode := m\<rparr>) = lookup k s"
  "lookup k (s\<lparr>highWater := n\<rparr>) = lookup k s" "lookup k (s\<lparr>droppedEvents := u\<rparr>) = lookup k s"
  "lookup k (s\<lparr>multiData := md\<rparr>) = lookup k s" "lookup k (s\<lparr>normalData := nd\<rparr>) = lookup k s"
  "lookup k (s\<lparr>drivers := ds\<rparr>) = lookup k s" "lookup k (s\<lparr>attachedPlayers := ps\<rparr>) = lookup k s"
  "lookup k (s\<lparr>nAttached := n\<rparr>) = lookup k s" "lookup k (s\<lparr>nextId := i\<rparr>) = lookup k s"
  by (simp_all add: lookup_def)

lemma lookup_update_driver [simp]:
  "lookup k (update_driver d f s) = lookup k s" "lookup k (update_machine d g s) = lookup k s"
  "lookup k (update_timing d h s) = lookup k s" "lookup k (stop_cpu d s) = lookup k s"
  by (simp_all add: update_timing_def stop_cpu_def update_machine_def update_driver_def)

text \<open>What the synchronization depends on; everything else may change freely.\<close>

definition watched :: "player \<Rightarrow> nat \<times> int \<times> bool \<times> lockstep_event list \<times> nat \<times> nat \<times> nat" where
  "watched p = (driver p, playerId p, asleep p, queue p, freeList p, queueDepth p, length (otherModes p))"

definition watch where
  "watch s = (nAttached s, attachedPlayers s, waiting s, (\<lambda>pid. map_option watched (lookup pid s)),
     (\<lambda>d. (coordinated (drivers s d), lockstepId (drivers s d), blocked (user (drivers s d)))), length (multiData s),
     length (normalData s), ready s, map fst (players s))"

lemma watch_other [simp]:
  "watch (s\<lparr>cycle := c\<rparr>) = watch s" "watch (s\<lparr>nextHardSync := h\<rparr>) = watch s" "watch (s\<lparr>transferActive := a\<rparr>) = watch s"
  "watch (s\<lparr>syncArmed := a\<rparr>) = watch s" "watch (s\<lparr>transferMode := m\<rparr>) = watch s" "watch (s\<lparr>highWater := n\<rparr>) = watch s"
  "watch (s\<lparr>droppedEvents := u\<rparr>) = watch s"
  by (simp_all add: watch_def)

lemma watch_machine [simp]:
  "watch (update_machine d g s) = watch s" "watch (update_timing d h s) = watch s" "watch (stop_cpu d s) = watch s"
  "watch (update_driver d (\<lambda>dr. dr\<lparr>loadingMachineState := b\<rparr>) s) = watch s"
  by (auto simp: watch_def update_timing_def stop_cpu_def update_machine_def update_driver_def fun_eq_iff)

lemma watch_update_player:
  assumes "\<And>p. lookup pid s = Some p \<Longrightarrow> watched (f p) = watched p"
  shows "watch (update_player pid f s) = watch s"
proof -
  have "map_option watched (lookup k (update_player pid f s)) = map_option watched (lookup k s)" for k
    using assms by (cases "lookup k s") auto
  moreover have "map fst (players (update_player pid f s)) = map fst (players s)" by (auto simp: update_player_def)
  ultimately show ?thesis by (simp add: watch_def update_player_def lookup_def)
qed

lemma watch_fields:
  "nAttached (update_player pid f s) = nAttached s" "attachedPlayers (update_player pid f s) = attachedPlayers s"
  "waiting (update_player pid f s) = waiting s" "drivers (update_player pid f s) = drivers s"
  "multiData (update_player pid f s) = multiData s" "normalData (update_player pid f s) = normalData s"
  "ready (update_player pid f s) = ready s" "syncArmed (update_player pid f s) = syncArmed s"
  "transferActive (update_player pid f s) = transferActive s" "transferMode (update_player pid f s) = transferMode s"
  "nAttached (update_driver d g s) = nAttached s" "attachedPlayers (update_driver d g s) = attachedPlayers s"
  "waiting (update_driver d g s) = waiting s" "multiData (update_driver d g s) = multiData s"
  "normalData (update_driver d g s) = normalData s" "ready (update_driver d g s) = ready s"
  "syncArmed (update_driver d g s) = syncArmed s" "transferActive (update_driver d g s) = transferActive s"
  "drivers (update_driver d g s) = (drivers s)(d := g (drivers s d))"
  by (simp_all add: update_player_def update_driver_def)

declare watch_fields [simp]

lemma machine_fields [simp]:
  "nAttached (update_machine d f s) = nAttached s" "attachedPlayers (update_machine d f s) = attachedPlayers s"
  "waiting (update_machine d f s) = waiting s" "multiData (update_machine d f s) = multiData s"
  "normalData (update_machine d f s) = normalData s" "syncArmed (update_machine d f s) = syncArmed s"
  "transferActive (update_machine d f s) = transferActive s" "transferMode (update_machine d f s) = transferMode s"
  "transferMode (stop_cpu d s) = transferMode s"
  "nAttached (stop_cpu d s) = nAttached s" "attachedPlayers (stop_cpu d s) = attachedPlayers s"
  "waiting (stop_cpu d s) = waiting s" "multiData (stop_cpu d s) = multiData s" "normalData (stop_cpu d s) = normalData s"
  "syncArmed (stop_cpu d s) = syncArmed s" "transferActive (stop_cpu d s) = transferActive s"
  by (simp_all add: stop_cpu_def update_machine_def update_driver_def)

text \<open>Operations that only touch what is not watched.\<close>

lemma setReady_watch: "setReady ops pid player_id m s = Some s' \<Longrightarrow> watch s' = watch s"
  by (auto simp: setReady_def Let_def watched_def split: Option.bind_splits if_splits intro!: watch_update_player)

lemma setData_watch: "setData i d s = Some s' \<Longrightarrow> watch s' = watch s"
  by (auto simp: setData_def Let_def watch_def split: sio_mode.splits if_splits)

lemma advanceCycle_watch: "advanceCycle ops pid s = Some s' \<Longrightarrow> watch s' = watch s"
  by (auto simp: advanceCycle_def Let_def split: Option.bind_splits if_splits)

lemma reschedule_watch: "rescheduleForQueueHead ops pid s = Some s' \<Longrightarrow> watch s' = watch s"
  by (auto simp: rescheduleForQueueHead_def Let_def split: Option.bind_splits if_splits list.splits)

lemma set_received_watch: "set_received i s = Some s' \<Longrightarrow> watch s' = watch s"
  by (auto simp: set_received_def watched_def split: Option.bind_splits if_splits intro!: watch_update_player)

lemma all_received_watch: "fold_opt set_received is s = Some s' \<Longrightarrow> watch s' = watch s"
  by (induction "is" arbitrary: s) (auto split: Option.bind_splits dest!: set_received_watch)



section \<open>The invariant\<close>

text \<open>
  While an event is handled, it has left its queue but its slot is not free yet. The argument
  \<open>flight\<close> names the player and this event, and \<open>pending\<close> counts it.
\<close>

definition pending :: "(u32 \<times> lockstep_event) option \<Rightarrow> u32 \<Rightarrow> player \<Rightarrow> lockstep_event list" where
  "pending flight pid p = (case flight of Some (owner, e) \<Rightarrow> if owner = pid then e # queue p else queue p | None \<Rightarrow> queue p)"

lemma pending_update [simp]:
  "pending flight k (p\<lparr>asleep := b\<rparr>) = pending flight k p" "pending flight k (p\<lparr>freeList := n\<rparr>) = pending flight k p"
  "pending flight k (p\<lparr>queueDepth := n\<rparr>) = pending flight k p" "pending flight k (p\<lparr>maxQueueDepth := n\<rparr>) = pending flight k p"
  by (simp_all add: pending_def split: option.split)

definition acking :: "lockstep_event \<Rightarrow> bool" where
  "acking e = (case ev_type e of DUALBOY_SIO_EV_HARD_SYNC \<Rightarrow> True | DUALBOY_SIO_EV_TRANSFER_START _ \<Rightarrow> True
     | DUALBOY_SIO_EV_MODE_SET _ \<Rightarrow> ev_player e = 0 | _ \<Rightarrow> False)"

definition event_ok :: "nat \<Rightarrow> lockstep_event \<Rightarrow> bool" where
  "event_ok n e \<longleftrightarrow> 0 \<le> ev_player e \<and> ev_player e < int n \<and>
     (case ev_type e of DUALBOY_SIO_EV_DETACH \<Rightarrow> False | DUALBOY_SIO_EV_HARD_SYNC \<Rightarrow> ev_player e = 0
      | DUALBOY_SIO_EV_TRANSFER_START _ \<Rightarrow> ev_player e = 0 | _ \<Rightarrow> True)"

definition accounted_queue :: "(u32 \<times> lockstep_event) option \<Rightarrow> u32 \<Rightarrow> player \<Rightarrow> bool" where
  "accounted_queue flight pid p \<longleftrightarrow>
     length (pending flight pid p) + freeList p = DUALBOY_MAX_LOCKSTEP_EVENTS \<and> queueDepth p = length (pending flight pid p)"

definition seat_ok :: "(u32 \<times> lockstep_event) option \<Rightarrow> 'g lockstep \<Rightarrow> u32 \<Rightarrow> player \<Rightarrow> bool" where
  "seat_ok flight s pid p \<longleftrightarrow>
     0 \<le> playerId p \<and> playerId p < int (nAttached s) \<and> attachedPlayers s ! nat (playerId p) = pid \<and> pid \<noteq> 0 \<and>
     length (otherModes p) = MAX_GBAS \<and> accounted_queue flight pid p \<and> list_all (event_ok (nAttached s)) (pending flight pid p) \<and>
     driver p < DUALBOY_MACHINE_COUNT \<and> coordinated (drivers s (driver p)) \<and> lockstepId (drivers s (driver p)) = pid \<and>
     (blocked (user (drivers s (driver p))) \<longrightarrow> asleep p)"

definition seated :: "(u32 \<times> lockstep_event) option \<Rightarrow> 'g lockstep \<Rightarrow> bool" where
  "seated flight s \<longleftrightarrow>
     1 \<le> nAttached s \<and> nAttached s \<le> MAX_GBAS \<and> length (attachedPlayers s) = MAX_GBAS \<and>
     length (multiData s) = 4 \<and> length (normalData s) = 4 \<and>
     (\<forall>i < nAttached s. \<exists>p. lookup (attachedPlayers s ! i) s = Some p \<and> playerId p = int i) \<and>
     (\<forall>pid p. lookup pid s = Some p \<longrightarrow> seat_ok flight s pid p)"

definition owes :: "'g lockstep \<Rightarrow> player \<Rightarrow> bool" where
  "owes s p \<longleftrightarrow> bit (waiting s) (nat (playerId p))"

definition barrier :: "(u32 \<times> lockstep_event) option \<Rightarrow> 'g lockstep \<Rightarrow> bool" where
  "barrier flight s \<longleftrightarrow> (\<forall>i. bit (waiting s) i \<longrightarrow> 1 \<le> i \<and> i < nAttached s) \<and>
     (\<forall>pid p. lookup pid s = Some p \<and> owes s p \<longrightarrow> \<not> asleep p \<and> list_ex acking (pending flight pid p))"

definition primary_asleep :: "'g lockstep \<Rightarrow> bool" where
  "primary_asleep s \<longleftrightarrow> (\<exists>p. lookup (attachedPlayers s ! 0) s = Some p \<and> asleep p)"

definition settled :: "(u32 \<times> lockstep_event) option \<Rightarrow> 'g lockstep \<Rightarrow> bool" where
  "settled flight s \<longleftrightarrow> seated flight s \<and> barrier flight s \<and> (primary_asleep s \<longrightarrow> waiting s \<noteq> 0)"

text \<open>Equal views, equal invariants.\<close>

lemma watch_watched:
  "watch s' = watch s \<Longrightarrow> map_option watched (lookup pid s') = map_option watched (lookup pid s)"
  by (simp add: watch_def fun_eq_iff)

lemma lookup_same_view:
  assumes "watch s' = watch s" "lookup pid s' = Some p'"
  obtains p where "lookup pid s = Some p" "watched p' = watched p"
  using watch_watched [OF assms(1), of pid] assms(2) by (cases "lookup pid s") auto

lemma watch_driver:
  "watch s' = watch s \<Longrightarrow> coordinated (drivers s' d) = coordinated (drivers s d) \<and>
     lockstepId (drivers s' d) = lockstepId (drivers s d) \<and> blocked (user (drivers s' d)) = blocked (user (drivers s d))"
  by (simp add: watch_def fun_eq_iff)

lemma watch_simps:
  assumes "watch s' = watch s"
  shows "nAttached s' = nAttached s" "attachedPlayers s' = attachedPlayers s" "waiting s' = waiting s"
    "length (multiData s') = length (multiData s)" "length (normalData s') = length (normalData s)" "ready s' = ready s"
    "map fst (players s') = map fst (players s)"
  using assms by (simp_all add: watch_def)

lemma watched_pending: "watched p' = watched p \<Longrightarrow> pending flight pid p' = pending flight pid p"
  by (auto simp: watched_def pending_def split: option.splits prod.splits)

lemma seat_ok_view:
  assumes "watch s' = watch s" "watched p' = watched p"
  shows "seat_ok flight s' pid p' = seat_ok flight s pid p"
  using watch_driver [OF assms(1)] watch_simps [OF assms(1)] watched_pending [OF assms(2)] assms(2)
  by (simp add: seat_ok_def accounted_queue_def watched_def)

lemma seated_view_imp:
  assumes "watch s' = watch s" "seated flight s"
  shows "seated flight s'"
proof -
  note same = watch_simps [OF assms(1)]
  have "\<exists>p. lookup (attachedPlayers s' ! i) s' = Some p \<and> playerId p = int i" if "i < nAttached s'" for i
  proof -
    from that assms(2) same obtain p where "lookup (attachedPlayers s' ! i) s = Some p" "playerId p = int i"
      by (auto simp: seated_def)
    with lookup_same_view [OF assms(1) [symmetric]] show ?thesis by (metis watched_def prod.inject)
  qed
  moreover have "seat_ok flight s' pid p'" if looked: "lookup pid s' = Some p'" for pid p'
  proof -
    obtain p where p: "lookup pid s = Some p" "watched p' = watched p"
      by (rule lookup_same_view [OF assms(1) looked])
    with seat_ok_view [OF assms(1) p(2)] assms(2) show ?thesis by (auto simp: seated_def)
  qed
  ultimately show ?thesis using assms(2) same by (auto simp: seated_def)
qed

lemma seated_view: "watch s' = watch s \<Longrightarrow> seated flight s' = seated flight s"
  using seated_view_imp [of s' s flight] seated_view_imp [of s s' flight] by metis

lemma barrier_view_imp:
  assumes "watch s' = watch s" "barrier flight s"
  shows "barrier flight s'"
  unfolding barrier_def
proof (intro conjI allI impI)
  fix i assume "bit (waiting s') i"
  then show "1 \<le> i" "i < nAttached s'" using assms(2) watch_simps [OF assms(1)] by (auto simp: barrier_def)
next
  fix pid p' assume owing: "lookup pid s' = Some p' \<and> owes s' p'"
  then obtain p where p: "lookup pid s = Some p" "watched p' = watched p"
    using lookup_same_view [OF assms(1)] by metis
  with owing watch_simps [OF assms(1)] have "owes s p" by (simp add: owes_def watched_def)
  with p assms(2) watched_pending [OF p(2)] show "\<not> asleep p'" "list_ex acking (pending flight pid p')"
    by (auto simp: barrier_def watched_def)
qed

lemma barrier_view: "watch s' = watch s \<Longrightarrow> barrier flight s' = barrier flight s"
  using barrier_view_imp [of s' s flight] barrier_view_imp [of s s' flight] by metis

lemma primary_asleep_view: "watch s' = watch s \<Longrightarrow> primary_asleep s' = primary_asleep s"
proof -
  assume same: "watch s' = watch s"
  have "map_option asleep (lookup (attachedPlayers s ! 0) s') = map_option asleep (lookup (attachedPlayers s ! 0) s)"
    using watch_watched [OF same, of "attachedPlayers s ! 0"]
    by (cases "lookup (attachedPlayers s ! 0) s'"; cases "lookup (attachedPlayers s ! 0) s") (auto simp: watched_def)
  with watch_simps [OF same] show ?thesis
    by (cases "lookup (attachedPlayers s ! 0) s'"; cases "lookup (attachedPlayers s ! 0) s") (auto simp: primary_asleep_def)
qed

lemma settled_view:
  assumes "watch s' = watch s"
  shows "settled flight s' = settled flight s"
  using seated_view [OF assms] barrier_view [OF assms] primary_asleep_view [OF assms] watch_simps [OF assms]
  by (simp add: settled_def)



section \<open>Steps of one player\<close>

lemma seated_seat: "seated flight s \<Longrightarrow> lookup pid s = Some p \<Longrightarrow> seat_ok flight s pid p"
  by (simp add: seated_def)

lemma seated_attached:
  assumes "seated flight s" "i < nAttached s"
  obtains p where "lookup (attachedPlayers s ! i) s = Some p" "playerId p = int i"
    "seat_ok flight s (attachedPlayers s ! i) p"
  using assms by (auto simp: seated_def)

lemma seated_bounds:
  assumes "seated flight s"
  shows "1 \<le> nAttached s" "nAttached s \<le> 4" "length (attachedPlayers s) = 4" "length (multiData s) = 4" "length (normalData s) = 4"
  using assms by (auto simp: seated_def MAX_GBAS_def)

text \<open>Players sit at different drivers, because a driver knows its player.\<close>

lemma seated_drivers_differ:
  assumes "seated flight s" "lookup pid s = Some p" "lookup k s = Some q" "k \<noteq> pid"
  shows "driver q \<noteq> driver p"
  using seated_seat [OF assms(1,2)] seated_seat [OF assms(1,3)] assms(4) by (auto simp: seat_ok_def)

text \<open>An operation on one player that keeps its seat keeps the group seated.\<close>

lemma seated_step:
  assumes "seated flight s" "lookup pid s = Some p"
    and shape: "nAttached s' = nAttached s" "attachedPlayers s' = attachedPlayers s"
      "length (multiData s') = length (multiData s)" "length (normalData s') = length (normalData s)"
    and looked: "\<And>k. lookup k s' = (if k = pid then Some p' else lookup k s)"
    and seat: "playerId p' = playerId p" "driver p' = driver p" "length (otherModes p') = length (otherModes p)"
      "accounted_queue flight' pid p'" "list_all (event_ok (nAttached s)) (pending flight' pid p')"
    and others: "\<And>k q. k \<noteq> pid \<Longrightarrow> pending flight' k q = pending flight k q"
    and linked: "\<And>d. coordinated (drivers s' d) = coordinated (drivers s d)" "\<And>d. lockstepId (drivers s' d) = lockstepId (drivers s d)"
      "\<And>d. d \<noteq> driver p \<Longrightarrow> blocked (user (drivers s' d)) = blocked (user (drivers s d))"
    and block: "blocked (user (drivers s' (driver p))) \<longrightarrow> asleep p'"
  shows "seated flight' s'"
proof -
  have "\<exists>q. lookup (attachedPlayers s' ! i) s' = Some q \<and> playerId q = int i" if "i < nAttached s'" for i
  proof -
    from that assms(1) shape obtain q where "lookup (attachedPlayers s ! i) s = Some q" "playerId q = int i"
      by (auto simp: seated_def)
    with assms(2) shape seat looked show ?thesis by (cases "attachedPlayers s ! i = pid") auto
  qed
  moreover have "seat_ok flight' s' k q" if "lookup k s' = Some q" for k q
  proof (cases "k = pid")
    case True
    with that looked have q: "q = p'" by simp
    from seated_seat [OF assms(1,2)] show ?thesis unfolding True q
      using seat shape linked block by (simp add: seat_ok_def)
  next
    case False
    with that looked have q: "lookup k s = Some q" by simp
    from seated_drivers_differ [OF assms(1,2) q False] linked
    have "blocked (user (drivers s' (driver q))) = blocked (user (drivers s (driver q)))" by simp
    with seated_seat [OF assms(1) q] show ?thesis
      using others [OF False] shape linked by (simp add: seat_ok_def accounted_queue_def)
  qed
  ultimately show ?thesis using assms(1) shape by (auto simp: seated_def)
qed

text \<open>Waking and sleeping change nothing but \<open>asleep\<close> and the user's \<open>blocked\<close>.\<close>

definition slumber :: "bool \<Rightarrow> u32 \<Rightarrow> 'g lockstep \<Rightarrow> 'g lockstep \<Rightarrow> bool" where
  "slumber b pid s s' \<longleftrightarrow>
     (\<forall>k. lookup k s' = (if k = pid then map_option (\<lambda>p. p\<lparr>asleep := b\<rparr>) (lookup k s) else lookup k s)) \<and>
     nAttached s' = nAttached s \<and> attachedPlayers s' = attachedPlayers s \<and> waiting s' = waiting s \<and>
     multiData s' = multiData s \<and> normalData s' = normalData s \<and> syncArmed s' = syncArmed s"

lemma asleep_same: "asleep p = b \<Longrightarrow> p\<lparr>asleep := b\<rparr> = p"
  by (cases p) simp

lemma wake_returns:
  assumes "seated flight s" "lookup pid s = Some p"
  shows "\<exists>s'. PlayerWake pid s = Some s' \<and> seated flight s' \<and> slumber False pid s s'"
proof (cases "asleep p")
  case False
  with assms have "PlayerWake pid s = Some s" by (simp add: PlayerWake_def)
  moreover have "slumber False pid s s" using assms False by (auto simp: slumber_def asleep_same)
  ultimately show ?thesis using assms by blast
next
  case True
  let ?s = "update_driver (driver p) (\<lambda>d. d\<lparr>user := lockstep_wake (user d)\<rparr>) (update_player pid (\<lambda>p. p\<lparr>asleep := False\<rparr>) s)"
  have "seated flight ?s"
    by (rule seated_step [OF assms, of _ "p\<lparr>asleep := False\<rparr>"])
      (use seated_seat [OF assms] assms in \<open>auto simp: lockstep_wake_def seat_ok_def accounted_queue_def\<close>)
  moreover have "slumber False pid s ?s" by (simp add: slumber_def)
  ultimately show ?thesis using True assms by (simp add: PlayerWake_def)
qed

lemma sleep_returns:
  assumes "seated flight s" "lookup pid s = Some p"
  shows "\<exists>s'. PlayerSleep pid s = Some s' \<and> seated flight s' \<and> slumber True pid s s'"
proof (cases "asleep p")
  case True
  with assms have "PlayerSleep pid s = Some s" by (simp add: PlayerSleep_def)
  moreover have "slumber True pid s s" using assms True by (auto simp: slumber_def asleep_same)
  ultimately show ?thesis using assms by blast
next
  case False
  let ?s = "update_driver (driver p) (\<lambda>d. d\<lparr>user := lockstep_sleep (ready s) (user d)\<rparr>) (update_player pid (\<lambda>p. p\<lparr>asleep := True\<rparr>) s)"
  have "seated flight ?s"
    by (rule seated_step [OF assms, of _ "p\<lparr>asleep := True\<rparr>"])
      (use seated_seat [OF assms] assms in \<open>auto simp: seat_ok_def accounted_queue_def\<close>)
  then have "seated flight (stop_cpu (driver p) ?s)" using seated_view watch_machine(3) by blast
  moreover have "slumber True pid s (stop_cpu (driver p) ?s)" by (simp add: slumber_def)
  ultimately show ?thesis using False assms by (simp add: PlayerSleep_def)
qed

text \<open>After \<open>WakePlayers\<close> every player but the primary is awake.\<close>

definition rested :: "u32 set \<Rightarrow> 'g lockstep \<Rightarrow> 'g lockstep \<Rightarrow> bool" where
  "rested woken s s' \<longleftrightarrow>
     (\<forall>k. lookup k s' = (if k \<in> woken then map_option (\<lambda>p. p\<lparr>asleep := False\<rparr>) (lookup k s) else lookup k s)) \<and>
     nAttached s' = nAttached s \<and> attachedPlayers s' = attachedPlayers s \<and> waiting s' = waiting s \<and>
     multiData s' = multiData s \<and> normalData s' = normalData s \<and> syncArmed s' = syncArmed s"

lemma wake_attached_returns:
  assumes "seated flight s" "i < nAttached s"
  shows "\<exists>s'. wake_attached i s = Some s' \<and> seated flight s' \<and> rested {attachedPlayers s ! i} s s'"
proof -
  obtain p where p: "lookup (attachedPlayers s ! i) s = Some p" "seat_ok flight s (attachedPlayers s ! i) p"
    by (rule seated_attached [OF assms])
  from wake_returns [OF assms(1) p(1)] obtain s' where
    "PlayerWake (attachedPlayers s ! i) s = Some s'" "seated flight s'" "slumber False (attachedPlayers s ! i) s s'" by blast
  then show ?thesis using p(2) assms seated_bounds [OF assms(1)]
    by (auto simp: wake_attached_def rd_def seat_ok_def slumber_def rested_def)
qed

lemma wake_list_returns:
  assumes "seated flight s" "\<forall>i \<in> set is. i < nAttached s"
  shows "\<exists>s'. fold_opt wake_attached is s = Some s' \<and> seated flight s' \<and> rested ((\<lambda>i. attachedPlayers s ! i) ` set is) s s'"
  using assms
proof (induction "is" arbitrary: s)
  case Nil
  then show ?case by (auto simp: rested_def)
next
  case (Cons i "is")
  obtain s1 where s1: "wake_attached i s = Some s1" "seated flight s1" "rested {attachedPlayers s ! i} s s1"
    using wake_attached_returns [of flight s i] Cons.prems by auto
  from s1(3) Cons.prems have "\<forall>j \<in> set is. j < nAttached s1" by (auto simp: rested_def)
  from Cons.IH [OF s1(2) this] obtain s' where s': "fold_opt wake_attached is s1 = Some s'" "seated flight s'"
    "rested ((\<lambda>j. attachedPlayers s1 ! j) ` set is) s1 s'" by blast
  have "rested ((\<lambda>j. attachedPlayers s ! j) ` set (i # is)) s s'"
    using s1(3) s'(3) by (auto simp: rested_def option.map_comp o_def)
  with s1(1) s'(1,2) show ?case by simp
qed



section \<open>Target bits\<close>

lemma bit_target: "(w AND 2 ^ i = 0) = (\<not> bit (w :: u32) i)"
  by (rule and_exp_eq_0_iff_not_bit)

lemma TARGET_seat: "i < 4 \<Longrightarrow> TARGET (int i) = Some (2 ^ i)"
  by (simp add: TARGET_def)

lemma bit_TARGET_ALL: "bit TARGET_ALL i = (i < 4)"
proof -
  have "TARGET_ALL = mask 4" by (simp add: TARGET_ALL_def mask_eq_exp_minus_1)
  then have "bit TARGET_ALL i = bit (mask 4 :: u32) i" by simp
  also have "\<dots> = (i < 4)" unfolding bit_mask_iff by auto
  finally show ?thesis .
qed

lemma bit_TARGET_SECONDARY: "bit TARGET_SECONDARY i = (1 \<le> i \<and> i < 4)"
  by (auto simp: TARGET_SECONDARY_def TARGET_PRIMARY_def bit_and_iff bit_not_iff bit_TARGET_ALL bit_1_iff)

lemma bit_all_but: "bit (TARGET_ALL AND NOT (2 ^ j)) i = (i < 4 \<and> i \<noteq> j)"
  by (auto simp: bit_and_iff bit_not_iff bit_TARGET_ALL bit_exp_iff)


section \<open>Posting an event\<close>

lemma insert_event_length [simp]: "length (insert_event e q) = Suc (length q)"
  by (induction q) auto

lemma insert_event_set [simp]: "set (insert_event e q) = insert e (set q)"
  by (induction q) auto

lemma insert_event_all [simp]: "list_all P (insert_event e q) = (P e \<and> list_all P q)"
  by (auto simp: list_all_iff)

lemma insert_event_weights: "sum_list (map event_weight (insert_event e q)) = event_weight e + sum_list (map event_weight q)"
  by (induction q) auto

lemma pending_set: "set (queue p) \<subseteq> set (pending flight k p)"
  by (auto simp: pending_def split: option.split)

text \<open>The players in \<open>accepted\<close> got the event; nothing else a player has is changed.\<close>

definition posted :: "lockstep_event \<Rightarrow> u32 set \<Rightarrow> 'g lockstep \<Rightarrow> 'g lockstep \<Rightarrow> bool" where
  "posted e accepted s s' \<longleftrightarrow>
     (\<forall>k. rel_option (\<lambda>p p'. driver p' = driver p \<and> playerId p' = playerId p \<and> asleep p' = asleep p \<and> mode p' = mode p \<and>
        queue p' = (if k \<in> accepted then insert_event e (queue p) else queue p)) (lookup k s) (lookup k s')) \<and>
     nAttached s' = nAttached s \<and> attachedPlayers s' = attachedPlayers s \<and> waiting s' = waiting s \<and>
     transferMode s' = transferMode s \<and> transferActive s' = transferActive s \<and> syncArmed s' = syncArmed s"

lemma posted_none: "posted e {} s (s\<lparr>droppedEvents := u\<rparr>)" "posted e {} s s"
  by (auto simp: posted_def intro: option.rel_refl)

lemma posted_lookup:
  assumes "posted e accepted s s'" "lookup k s = Some p"
  obtains p' where "lookup k s' = Some p'" "driver p' = driver p" "playerId p' = playerId p" "asleep p' = asleep p" "mode p' = mode p"
    "queue p' = (if k \<in> accepted then insert_event e (queue p) else queue p)"
proof -
  from assms(1) have "rel_option (\<lambda>p p'. driver p' = driver p \<and> playerId p' = playerId p \<and> asleep p' = asleep p \<and> mode p' = mode p \<and>
      queue p' = (if k \<in> accepted then insert_event e (queue p) else queue p)) (lookup k s) (lookup k s')"
    by (simp add: posted_def)
  with assms(2) that show thesis by (cases "lookup k s'") auto
qed

lemma posted_lookup_back:
  assumes "posted e accepted s s'" "lookup k s' = Some p'"
  obtains p where "lookup k s = Some p" "driver p' = driver p" "playerId p' = playerId p" "asleep p' = asleep p" "mode p' = mode p"
    "queue p' = (if k \<in> accepted then insert_event e (queue p) else queue p)"
proof -
  from assms(1) have "rel_option (\<lambda>p p'. driver p' = driver p \<and> playerId p' = playerId p \<and> asleep p' = asleep p \<and> mode p' = mode p \<and>
      queue p' = (if k \<in> accepted then insert_event e (queue p) else queue p)) (lookup k s) (lookup k s')"
    by (simp add: posted_def)
  with assms(2) that show thesis by (cases "lookup k s") auto
qed

lemma posted_trans:
  assumes first: "posted e a1 s s1" and second: "posted e a2 s1 s2" and apart: "a1 \<inter> a2 = {}"
  shows "posted e (a1 \<union> a2) s s2"
proof -
  have "rel_option (\<lambda>p p'. driver p' = driver p \<and> playerId p' = playerId p \<and> asleep p' = asleep p \<and> mode p' = mode p \<and>
      queue p' = (if k \<in> a1 \<union> a2 then insert_event e (queue p) else queue p)) (lookup k s) (lookup k s2)" for k
  proof (cases "lookup k s")
    case None
    with first have "lookup k s1 = None" by (auto simp: posted_def dest: spec [of _ k])
    with second have "lookup k s2 = None" by (auto simp: posted_def dest: spec [of _ k])
    with None show ?thesis by simp
  next
    case (Some p)
    obtain p1 where p1: "lookup k s1 = Some p1" "driver p1 = driver p" "playerId p1 = playerId p" "asleep p1 = asleep p"
      "mode p1 = mode p" "queue p1 = (if k \<in> a1 then insert_event e (queue p) else queue p)"
      by (rule posted_lookup [OF first Some])
    obtain p2 where "lookup k s2 = Some p2" "driver p2 = driver p1" "playerId p2 = playerId p1" "asleep p2 = asleep p1"
      "mode p2 = mode p1" "queue p2 = (if k \<in> a2 then insert_event e (queue p1) else queue p1)"
      by (rule posted_lookup [OF second p1(1)])
    with p1 Some apart show ?thesis by auto
  qed
  with first second show ?thesis by (simp add: posted_def)
qed

lemma reschedule_returns:
  assumes "lookup pid s = Some p"
  obtains s' where "rescheduleForQueueHead ops pid s = Some s'" "watch s' = watch s" "players s' = players s"
    "transferMode s' = transferMode s" "transferActive s' = transferActive s" "syncArmed s' = syncArmed s"
proof -
  have "\<exists>s'. rescheduleForQueueHead ops pid s = Some s' \<and> players s' = players s \<and>
      transferMode s' = transferMode s \<and> transferActive s' = transferActive s \<and> syncArmed s' = syncArmed s"
    using assms by (auto simp: rescheduleForQueueHead_def Let_def update_timing_def update_machine_def update_driver_def split: list.split)
  with that reschedule_watch show thesis by blast
qed

lemma lookup_players: "players s' = players s \<Longrightarrow> lookup k s' = lookup k s"
  by (simp add: lookup_def)

lemma put_event_seated:
  assumes "seated flight s" "lookup pid s = Some p" "event_ok (nAttached s) e" "freeList p \<noteq> 0"
  shows "seated flight (update_player pid (put_event e) s)"
proof (rule seated_step [OF assms(1,2), of _ "put_event e p"])
  show "accounted_queue flight pid (put_event e p)" "list_all (event_ok (nAttached s)) (pending flight pid (put_event e p))"
    using seated_seat [OF assms(1,2)] assms(3,4)
    by (auto simp: seat_ok_def accounted_queue_def put_event_def pending_def split: option.splits)
  show "blocked (user (drivers (update_player pid (put_event e) s) (driver p))) \<longrightarrow> asleep (put_event e p)"
    using seated_seat [OF assms(1,2)] by (simp add: seat_ok_def put_event_def)
qed (use assms(2) in \<open>simp_all add: put_event_def\<close>)

lemma enqueue_for_returns:
  assumes "seated flight s" "i < nAttached s" "event_ok (nAttached s) e"
  shows "\<exists>ok s' accepted. enqueue_for ops e target i (b, s) = Some (ok, s') \<and> seated flight s' \<and> posted e accepted s s' \<and>
     accepted \<subseteq> (if bit target i then {attachedPlayers s ! i} else {}) \<and>
     (ok \<longrightarrow> b \<and> (bit target i \<longrightarrow> attachedPlayers s ! i \<in> accepted))"
proof -
  let ?pid = "attachedPlayers s ! i"
  obtain p where p: "lookup ?pid s = Some p" by (rule seated_attached [OF assms(1,2)])
  have i: "i < 4" "i < length (attachedPlayers s)" using assms(2) seated_bounds [OF assms(1)] by simp_all
  show ?thesis
  proof (cases "bit target i")
    case False
    with i assms show ?thesis by (auto simp: enqueue_for_def TARGET_seat bit_target intro: posted_none(2))
  next
    case True
    show ?thesis
    proof (cases "freeList p = 0")
      case full: True
      have "seated flight (s\<lparr>droppedEvents := droppedEvents s + 1\<rparr>)"
        using seated_view watch_other(7) assms(1) by blast
      with True i p full show ?thesis
        by (auto simp: enqueue_for_def TARGET_seat bit_target rd_def intro!: posted_none(1))
    next
      case room: False
      let ?s1 = "update_player ?pid (put_event e) s"
      let ?s2 = "if queueDepth p + 1 > maxQueueDepth p then ?s1\<lparr>highWater := max (highWater ?s1) (queueDepth p + 1)\<rparr> else ?s1"
      have "seated flight ?s1" by (rule put_event_seated [OF assms(1) p assms(3) room])
      then have two: "seated flight ?s2" by (simp add: seated_view [OF watch_other(6)])
      have looked: "lookup ?pid ?s2 = Some (put_event e p)" using p by simp
      obtain s3 where s3: "rescheduleForQueueHead ops ?pid ?s2 = Some s3" "watch s3 = watch ?s2" "players s3 = players ?s2"
        "transferMode s3 = transferMode ?s2" "transferActive s3 = transferActive ?s2" "syncArmed s3 = syncArmed ?s2"
        by (rule reschedule_returns [OF looked])
      have "rel_option (\<lambda>p p'. driver p' = driver p \<and> playerId p' = playerId p \<and> asleep p' = asleep p \<and> mode p' = mode p \<and>
          queue p' = (if k \<in> {?pid} then insert_event e (queue p) else queue p)) (lookup k s) (lookup k s3)" for k
        using lookup_players [OF s3(3), of k] by (cases "lookup k s") (auto simp: put_event_def)
      then have "posted e {?pid} s s3"
        using watch_simps [OF s3(2)] s3(4-6) by (auto simp: posted_def update_player_def)
      moreover have "seated flight s3" using two seated_view [OF s3(2)] by blast
      moreover have "enqueue_for ops e target i (b, s) = Some (b, s3)"
        using True i p room s3(1) by (simp add: enqueue_for_def TARGET_seat bit_target rd_def Let_def)
      ultimately show ?thesis using True by auto
    qed
  qed
qed



definition seats :: "nat list \<Rightarrow> 'g lockstep \<Rightarrow> u32 set" where
  "seats is s = (\<lambda>i. attachedPlayers s ! i) ` set is"

lemma seats_distinct:
  assumes "seated flight s" "i < nAttached s" "j < nAttached s" "attachedPlayers s ! i = attachedPlayers s ! j"
  shows "i = j"
  using seated_attached [OF assms(1,2)] seated_attached [OF assms(1,3)] assms(4)
  by (metis of_nat_eq_iff option.inject)

lemma enqueue_list_returns:
  assumes "seated flight s" "\<forall>i \<in> set is. i < nAttached s" "distinct is" "event_ok (nAttached s) e"
  shows "\<exists>ok s' accepted. fold_opt (enqueue_for ops e target) is (b, s) = Some (ok, s') \<and> seated flight s' \<and> posted e accepted s s' \<and>
     accepted \<subseteq> seats (filter (bit target) is) s \<and>
     (ok \<longrightarrow> b \<and> accepted = seats (filter (bit target) is) s)"
  using assms
proof (induction "is" arbitrary: s b)
  case Nil
  then show ?case by (auto simp: seats_def intro: posted_none)
next
  case (Cons i "is")
  obtain ok1 s1 a1 where one: "enqueue_for ops e target i (b, s) = Some (ok1, s1)" "seated flight s1" "posted e a1 s s1"
    "a1 \<subseteq> (if bit target i then {attachedPlayers s ! i} else {})"
    "ok1 \<longrightarrow> b \<and> (bit target i \<longrightarrow> attachedPlayers s ! i \<in> a1)"
    using enqueue_for_returns [of flight s i e ops target b] Cons.prems by auto
  have same: "nAttached s1 = nAttached s" "attachedPlayers s1 = attachedPlayers s" using one(3) by (simp_all add: posted_def)
  with Cons.prems have "\<forall>i \<in> set is. i < nAttached s1" "distinct is" "event_ok (nAttached s1) e" by simp_all
  from Cons.IH [OF one(2) this, of ok1] obtain ok s' a2 where two: "fold_opt (enqueue_for ops e target) is (ok1, s1) = Some (ok, s')"
    "seated flight s'" "posted e a2 s1 s'" "a2 \<subseteq> seats (filter (bit target) is) s"
    "ok \<longrightarrow> ok1 \<and> a2 = seats (filter (bit target) is) s"
    using same by (auto simp: seats_def)
  have "attachedPlayers s ! i \<notin> seats (filter (bit target) is) s"
  proof
    assume "attachedPlayers s ! i \<in> seats (filter (bit target) is) s"
    then obtain j where "j \<in> set is" "attachedPlayers s ! i = attachedPlayers s ! j" by (auto simp: seats_def)
    with seats_distinct [OF Cons.prems(1), of i j] Cons.prems(2,3) show False by auto
  qed
  with one(4) two(4) have apart: "a1 \<inter> a2 = {}" by (auto split: if_splits)
  have "posted e (a1 \<union> a2) s s'" by (rule posted_trans [OF one(3) two(3) apart])
  moreover have "a1 \<union> a2 \<subseteq> seats (filter (bit target) (i # is)) s" using one(4) two(4) by (auto simp: seats_def split: if_splits)
  moreover have "ok \<longrightarrow> b \<and> a1 \<union> a2 = seats (filter (bit target) (i # is)) s"
    using one(4,5) two(4,5) by (auto simp: seats_def split: if_splits)
  moreover have "fold_opt (enqueue_for ops e target) (i # is) (b, s) = Some (ok, s')" using one(1) two(1) by simp
  ultimately show ?case using two(2) by blast
qed

definition targets :: "u32 \<Rightarrow> 'g lockstep \<Rightarrow> u32 set" where
  "targets target s = {attachedPlayers s ! i |i. i < nAttached s \<and> bit target i}"

lemma enqueue_returns:
  assumes "seated flight s" "event_ok (nAttached s) e"
  obtains ok s' accepted where "enqueueEvent ops e target s = Some (ok, s')" "seated flight s'" "posted e accepted s s'"
    "accepted \<subseteq> targets target s" "ok \<Longrightarrow> accepted = targets target s"
proof -
  have all: "seats (filter (bit target) [0..<nAttached s]) s = targets target s"
    by (auto simp: seats_def targets_def)
  have "\<forall>i \<in> set [0..<nAttached s]. i < nAttached s" by simp
  from enqueue_list_returns [OF assms(1) this distinct_upt assms(2), of ops target True]
  obtain ok s' accepted where "fold_opt (enqueue_for ops e target) [0..<nAttached s] (True, s) = Some (ok, s')" "seated flight s'"
    "posted e accepted s s'" "accepted \<subseteq> targets target s" "ok \<longrightarrow> accepted = targets target s"
    unfolding all by blast
  then show thesis using that unfolding enqueueEvent_def by metis
qed

lemma posted_barrier:
  assumes "posted e accepted s s'" "barrier flight s"
  shows "barrier flight s'"
  unfolding barrier_def
proof (intro conjI allI impI)
  fix i assume "bit (waiting s') i"
  then show "1 \<le> i" "i < nAttached s'" using assms by (auto simp: barrier_def posted_def)
next
  fix pid p' assume owing: "lookup pid s' = Some p' \<and> owes s' p'"
  then obtain p where p: "lookup pid s = Some p" "playerId p' = playerId p" "asleep p' = asleep p"
    "queue p' = (if pid \<in> accepted then insert_event e (queue p) else queue p)"
    using posted_lookup_back [OF assms(1)] by metis
  with owing assms(1) have "owes s p" by (simp add: owes_def posted_def)
  with p(1) assms(2) have "\<not> asleep p" "list_ex acking (pending flight pid p)" unfolding barrier_def by blast+
  moreover have "set (pending flight pid p) \<subseteq> set (pending flight pid p')"
    using p(4) by (auto simp: pending_def split: option.splits if_splits)
  ultimately show "\<not> asleep p'" "list_ex acking (pending flight pid p')"
    using p(3) by (auto simp: list_ex_iff)
qed

lemma posted_primary:
  assumes "posted e accepted s s'"
  shows "primary_asleep s' = primary_asleep s"
proof -
  have same: "attachedPlayers s' = attachedPlayers s" using assms by (simp add: posted_def)
  show ?thesis
  proof
    assume "primary_asleep s'"
    with same obtain p' where "lookup (attachedPlayers s ! 0) s' = Some p'" "asleep p'" by (auto simp: primary_asleep_def)
    with posted_lookup_back [OF assms this(1)] show "primary_asleep s" by (auto simp: primary_asleep_def)
  next
    assume "primary_asleep s"
    then obtain p where "lookup (attachedPlayers s ! 0) s = Some p" "asleep p" by (auto simp: primary_asleep_def)
    with posted_lookup [OF assms this(1)] same show "primary_asleep s'" by (auto simp: primary_asleep_def)
  qed
qed

lemma posted_settled:
  assumes "posted e accepted s s'" "seated flight s'" "settled flight s"
  shows "settled flight s'"
  using assms posted_barrier [OF assms(1)] posted_primary [OF assms(1)] by (simp add: settled_def posted_def)

text \<open>What was put into the queue of a player is there.\<close>

lemma posted_arrived:
  assumes "posted e accepted s s'" "k \<in> accepted" "lookup k s' = Some p'"
  shows "e \<in> set (queue p')"
  using posted_lookup_back [OF assms(1,3)] assms(2) by (metis insert_event_set insertI1)


section \<open>Operations that always return\<close>

lemma setReady_returns:
  assumes "seated flight s" "lookup pid s = Some p" "0 \<le> i" "i < int (nAttached s)"
  obtains s' p' where "setReady ops pid i m s = Some s'" "watch s' = watch s" "lookup pid s' = Some p'" "mode p' = mode p"
    "transferMode s' = transferMode s" "transferActive s' = transferActive s" "syncArmed s' = syncArmed s"
proof -
  have long: "length (otherModes p) = 4" using seated_seat [OF assms(1,2)] by (simp add: seat_ok_def MAX_GBAS_def)
  have agree: "\<exists>b. modes_agree known x is = Some b" if "\<forall>i \<in> set is. i < length known" for known x "is"
    using that by (induction "is") (auto simp: rd_def)
  have inside: "nat i < 4" using assms(3,4) seated_bounds [OF assms(1)] by linarith
  then obtain b where "modes_agree ((otherModes p)[nat i := m]) (mode p) [0..<nAttached s] = Some b"
    using agree [of "[0..<nAttached s]" "(otherModes p)[nat i := m]"] long seated_bounds [OF assms(1)] by fastforce
  then have "\<exists>s'. setReady ops pid i m s = Some s' \<and> (\<exists>p'. lookup pid s' = Some p' \<and> mode p' = mode p) \<and>
      transferMode s' = transferMode s \<and> transferActive s' = transferActive s \<and> syncArmed s' = syncArmed s"
    using assms(2,3) long inside by (auto simp: setReady_def Let_def)
  with that setReady_watch show thesis by blast
qed



lemma seated_waiting [simp]: "seated flight (s\<lparr>waiting := w\<rparr>) = seated flight s"
  by (simp add: seated_def seat_ok_def)

lemma setData_returns:
  assumes "seated flight s" "i < 4"
  obtains s' where "setData i d s = Some s'" "watch s' = watch s" "transferMode s' = transferMode s"
    "transferActive s' = transferActive s" "syncArmed s' = syncArmed s"
proof -
  have "\<exists>s'. setData i d s = Some s' \<and> transferMode s' = transferMode s \<and> transferActive s' = transferActive s \<and>
      syncArmed s' = syncArmed s"
    using assms(2) seated_bounds [OF assms(1)] by (cases "transferMode s") (simp_all add: setData_def Let_def)
  with that setData_watch show thesis by blast
qed

lemma advanceCycle_returns:
  assumes "lookup pid s = Some p"
  obtains s' where "advanceCycle ops pid s = Some s'" "watch s' = watch s" "players s' = players s" "drivers s' = drivers s"
    "transferMode s' = transferMode s" "transferActive s' = transferActive s" "syncArmed s' = syncArmed s"
proof -
  have "\<exists>s'. advanceCycle ops pid s = Some s' \<and> players s' = players s \<and> drivers s' = drivers s \<and>
      transferMode s' = transferMode s \<and> transferActive s' = transferActive s \<and> syncArmed s' = syncArmed s"
    using assms by (simp add: advanceCycle_def Let_def)
  with that advanceCycle_watch show thesis by blast
qed

lemma untilNextSync_returns: "lookup pid s = Some p \<Longrightarrow> \<exists>n. untilNextSync ops pid s = Some n"
  by (simp add: untilNextSync_def Let_def)

lemma all_received_returns:
  assumes "seated flight s" "\<forall>i \<in> set is. i < nAttached s"
  obtains s' where "fold_opt set_received is s = Some s'" "watch s' = watch s"
proof -
  have "\<exists>s'. fold_opt set_received is s = Some s'"
    using assms
  proof (induction "is" arbitrary: s)
    case (Cons i "is")
    then obtain p where "lookup (attachedPlayers s ! i) s = Some p" by (auto elim: seated_attached)
    with Cons.prems seated_bounds [OF Cons.prems(1)] obtain s1 where s1: "set_received i s = Some s1"
      by (cases "attachedPlayers s ! i = 0") (auto simp: set_received_def rd_def)
    note same = set_received_watch [OF s1]
    from seated_view [OF same] watch_simps(1) [OF same] Cons.prems have "seated flight s1" "\<forall>i \<in> set is. i < nAttached s1" by auto
    from Cons.IH [OF this] s1 show ?case by simp
  qed simp
  with that all_received_watch show thesis by blast
qed


section \<open>Acknowledging\<close>

text \<open>What the barrier depends on, per player.\<close>

definition face :: "'g lockstep \<Rightarrow> u32 \<Rightarrow> (int \<times> lockstep_event list \<times> bool) option" where
  "face s k = map_option (\<lambda>p. (playerId p, queue p, asleep p)) (lookup k s)"

lemma face_lookup: "lookup k s = Some p \<Longrightarrow> face s k = Some (playerId p, queue p, asleep p)"
  by (simp add: face_def)

lemma face_SomeE:
  assumes "face s k = Some (i, q, a)"
  obtains p where "lookup k s = Some p" "playerId p = i" "queue p = q" "asleep p = a"
  using assms by (auto simp: face_def)

lemma face_watch:
  assumes "watch s' = watch s"
  shows "face s' k = face s k"
proof -
  have "map_option (\<lambda>(d, i, a, q, _). (i, q, a)) (map_option watched (lookup k s')) =
      map_option (\<lambda>(d, i, a, q, _). (i, q, a)) (map_option watched (lookup k s))"
    using watch_watched [OF assms, of k] by (rule arg_cong)
  then show ?thesis by (simp add: face_def option.map_comp o_def watched_def)
qed

lemma face_slumber:
  "slumber b pid s s' \<Longrightarrow> face s' k = (if k = pid then map_option (\<lambda>(i, q, a). (i, q, b)) (face s k) else face s k)"
  by (simp add: slumber_def face_def option.map_comp o_def)

lemma face_rested:
  "rested woken s s' \<Longrightarrow> face s' k = (if k \<in> woken then map_option (\<lambda>(i, q, a). (i, q, False)) (face s k) else face s k)"
  by (simp add: rested_def face_def option.map_comp o_def)

definition in_flight :: "(u32 \<times> lockstep_event) option \<Rightarrow> u32 \<Rightarrow> lockstep_event list" where
  "in_flight flight k = (case flight of Some (owner, e) \<Rightarrow> if owner = k then [e] else [] | None \<Rightarrow> [])"

lemma pending_in_flight: "pending flight k p = in_flight flight k @ queue p"
  by (simp add: pending_def in_flight_def split: option.split)

lemma barrier_face:
  "barrier flight s \<longleftrightarrow> (\<forall>i. bit (waiting s) i \<longrightarrow> 1 \<le> i \<and> i < nAttached s) \<and>
     (\<forall>k i q a. face s k = Some (i, q, a) \<and> bit (waiting s) (nat i) \<longrightarrow> \<not> a \<and> list_ex acking (in_flight flight k @ q))"
  unfolding barrier_def owes_def pending_in_flight
  by (fastforce simp: face_def)

lemma barrier_owes:
  "barrier flight s \<Longrightarrow> face s k = Some (i, q, a) \<Longrightarrow> bit (waiting s) (nat i) \<Longrightarrow> \<not> a \<and> list_ex acking (in_flight flight k @ q)"
  unfolding barrier_face by blast

lemma primary_face: "primary_asleep s \<longleftrightarrow> (\<exists>i q. face s (attachedPlayers s ! 0) = Some (i, q, True))"
  by (auto simp: primary_asleep_def face_def)

text \<open>The players, their numbers and queues.\<close>

definition roster where
  "roster s = (nAttached s, attachedPlayers s, (\<lambda>k. map_option (\<lambda>(i, q, a). (i, q)) (face s k)))"

lemma roster_watch:
  assumes "watch s' = watch s"
  shows "roster s' = roster s"
  using watch_simps(1,2) [OF assms] face_watch [OF assms] by (simp add: roster_def)

lemma roster_slumber: "slumber b pid s s' \<Longrightarrow> roster s' = roster s"
proof -
  assume sl: "slumber b pid s s'"
  have "map_option (\<lambda>(i, q, a). (i, q)) (face s' k) = map_option (\<lambda>(i, q, a). (i, q)) (face s k)" for k
    using face_slumber [OF sl, of k] by (cases "face s k") auto
  with sl show ?thesis by (simp add: roster_def slumber_def)
qed

lemma roster_rested: "rested woken s s' \<Longrightarrow> roster s' = roster s"
proof -
  assume re: "rested woken s s'"
  have "map_option (\<lambda>(i, q, a). (i, q)) (face s' k) = map_option (\<lambda>(i, q, a). (i, q)) (face s k)" for k
    using face_rested [OF re, of k] by (cases "face s k") auto
  with re show ?thesis by (simp add: roster_def rested_def)
qed

lemma roster_lookup:
  assumes "roster s' = roster s" "lookup k s = Some p"
  obtains p' where "lookup k s' = Some p'" "playerId p' = playerId p" "queue p' = queue p"
  using assms by (cases "lookup k s'") (auto simp: roster_def face_def fun_eq_iff dest: spec [of _ k])

lemma roster_other [simp]: "roster (s\<lparr>waiting := w\<rparr>) = roster s" "face (s\<lparr>waiting := w\<rparr>) k = face s k"
  by (simp_all add: roster_def face_def fun_eq_iff)

lemma bit_dropped: "bit (w AND NOT (2 ^ j :: u32)) i = (bit w i \<and> i \<noteq> j)"
  by (auto simp: bit_and_iff bit_not_iff bit_exp_iff dest: bit_imp_possible_bit)

lemma waiting_zero: "(w :: u32) = 0 \<longleftrightarrow> (\<forall>i. \<not> bit w i)"
  using bit_word_eqI [of w 0] by auto

lemma AckPlayer_returns:
  assumes "settled flight s" "lookup pid s = Some p"
  shows "\<exists>s'. AckPlayer pid s = Some s' \<and> settled flight s' \<and> roster s' = roster s \<and> \<not> bit (waiting s') (nat (playerId p))"
proof -
  have seated: "seated flight s" and bar: "barrier flight s" using assms(1) by (simp_all add: settled_def)
  note seat = seated_seat [OF seated assms(2)]
  have i: "0 \<le> playerId p" "nat (playerId p) < 4" "attachedPlayers s ! nat (playerId p) = pid"
    using seat seated_bounds [OF seated] by (auto simp: seat_ok_def)
  have below: "nat (playerId p) < nAttached s" using seat by (simp add: seat_ok_def nat_less_iff)
  show ?thesis
  proof (cases "playerId p = 0 \<or> \<not> bit (waiting s) (nat (playerId p))")
    case True
    have "\<not> bit (waiting s) 0" using bar by (auto simp: barrier_def)
    with True assms i TARGET_seat [of "nat (playerId p)"] show ?thesis by (auto simp: AckPlayer_def bit_target)
  next
    case False
    let ?s1 = "s\<lparr>waiting := waiting s AND NOT (2 ^ nat (playerId p))\<rparr>"
    have one: "seated flight ?s1" "lookup pid ?s1 = Some p" using seated assms(2) by simp_all
    let ?release = "do {
        s2 \<leftarrow> (if transferActive ?s1 then do { s2 \<leftarrow> fold_opt set_received [0..<nAttached ?s1] ?s1; Some (s2\<lparr>transferActive := False\<rparr>) }
               else Some ?s1);
        runner \<leftarrow> rd (attachedPlayers s2) 0;
        PlayerWake runner s2 }"
    have ack: "AckPlayer pid s = do { s2 \<leftarrow> (if waiting ?s1 = 0 then ?release else Some ?s1); PlayerSleep pid s2 }"
      using False assms(2) i TARGET_seat [of "nat (playerId p)"] by (simp add: AckPlayer_def bit_target Let_def)
    have "\<exists>s2. (if waiting ?s1 = 0 then ?release else Some ?s1) = Some s2 \<and> seated flight s2 \<and> roster s2 = roster s \<and>
        waiting s2 = waiting ?s1 \<and>
        (\<forall>k. face s2 k = (if waiting ?s1 = 0 \<and> k = attachedPlayers s ! 0 then map_option (\<lambda>(i, q, a). (i, q, False)) (face s k)
          else face s k))"
    proof (cases "waiting ?s1 = 0")
      case True
      obtain sr where "fold_opt set_received [0..<nAttached ?s1] ?s1 = Some sr" "watch sr = watch ?s1"
        by (rule all_received_returns [OF one(1), of "[0..<nAttached ?s1]"]) auto
      then obtain s2 where s2: "(if transferActive ?s1 then do { s2 \<leftarrow> fold_opt set_received [0..<nAttached ?s1] ?s1;
          Some (s2\<lparr>transferActive := False\<rparr>) } else Some ?s1) = Some s2" "watch s2 = watch ?s1"
        by (cases "transferActive ?s1") auto
      have sat: "seated flight s2" using one(1) seated_view [OF s2(2)] by blast
      note bounds = seated_bounds [OF sat] watch_simps(1-3) [OF s2(2)]
      obtain r where r: "lookup (attachedPlayers s2 ! 0) s2 = Some r" using seated_attached [OF sat, of 0] bounds by auto
      from wake_returns [OF sat r] obtain s3 where s3: "PlayerWake (attachedPlayers s2 ! 0) s2 = Some s3" "seated flight s3"
        "slumber False (attachedPlayers s2 ! 0) s2 s3" by blast
      have "?release = Some s3" unfolding s2(1) using s3(1) bounds by (simp add: rd_inside del: length_0_conv length_greater_0_conv)
      moreover have "roster s3 = roster s" using roster_slumber [OF s3(3)] roster_watch [OF s2(2)] by simp
      moreover have "waiting s3 = waiting ?s1" using s3(3) bounds by (simp add: slumber_def)
      moreover have "face s3 k = (if k = attachedPlayers s ! 0 then map_option (\<lambda>(i, q, a). (i, q, False)) (face s k) else face s k)" for k
        using face_slumber [OF s3(3), of k] face_watch [OF s2(2), of k] bounds by (cases "k = attachedPlayers s ! 0") auto
      ultimately show ?thesis using True s3(2) by auto
    qed (use one in auto)
    then obtain s2 where s2: "(if waiting ?s1 = 0 then ?release else Some ?s1) = Some s2" "seated flight s2" "roster s2 = roster s"
      "waiting s2 = waiting ?s1" and faces2: "\<And>k. face s2 k = (if waiting ?s1 = 0 \<and> k = attachedPlayers s ! 0
          then map_option (\<lambda>(i, q, a). (i, q, False)) (face s k) else face s k)" by blast
    obtain p2 where p2: "lookup pid s2 = Some p2" by (rule roster_lookup [OF s2(3) assms(2)])
    from sleep_returns [OF s2(2) p2] obtain s' where s': "PlayerSleep pid s2 = Some s'" "seated flight s'" "slumber True pid s2 s'" by blast
    have same: "roster s' = roster s" using roster_slumber [OF s'(3)] s2(3) by simp
    then have att: "attachedPlayers s' = attachedPlayers s" "nAttached s' = nAttached s" by (simp_all add: roster_def)
    have bits: "bit (waiting s') i = (bit (waiting s) i \<and> i \<noteq> nat (playerId p))" for i
      using s'(3) s2(4) bit_dropped [of "waiting s"] by (simp add: slumber_def)
    have faces: "face s' k = (if k = pid then map_option (\<lambda>(i, q, a). (i, q, True)) (face s2 k) else face s2 k)" for k
      by (rule face_slumber [OF s'(3)])
    have "barrier flight s'"
      unfolding barrier_face
    proof (intro conjI allI impI)
      fix i assume "bit (waiting s') i"
      then show "1 \<le> i" "i < nAttached s'" using bits bar att by (auto simp: barrier_def)
    next
      fix k i q a assume owing: "face s' k = Some (i, q, a) \<and> bit (waiting s') (nat i)"
      have "k \<noteq> pid"
      proof
        assume "k = pid"
        with owing same assms(2) have "i = playerId p" by (auto simp: roster_def face_def fun_eq_iff dest: spec [of _ pid])
        with owing bits show False by simp
      qed
      with faces owing have two: "face s2 k = Some (i, q, a)" by simp
      then obtain a0 where "face s k = Some (i, q, a0)" "a \<longrightarrow> a0" using faces2 [of k] by (cases "face s k") (auto split: if_splits)
      with bar owing bits show "\<not> a" "list_ex acking (in_flight flight k @ q)" unfolding barrier_face by blast+
    qed
    moreover have "waiting s' \<noteq> 0" if "primary_asleep s'"
    proof
      assume none: "waiting s' = 0"
      from that obtain i0 q0 where zero: "face s' (attachedPlayers s ! 0) = Some (i0, q0, True)" using primary_face [of s'] att by auto
      have "attachedPlayers s ! 0 \<noteq> pid" using seats_distinct [OF seated _ below, of 0] below i False by auto
      with zero faces have "face s2 (attachedPlayers s ! 0) = Some (i0, q0, True)" by simp
      moreover have "waiting ?s1 = 0" using none s'(3) s2(4) by (simp add: slumber_def)
      ultimately show False using faces2 [of "attachedPlayers s ! 0"] by (cases "face s (attachedPlayers s ! 0)") auto
    qed
    ultimately have "settled flight s'" using s'(2) by (auto simp: settled_def)
    with ack s2(1) s'(1) same bits show ?thesis by auto
  qed
qed



section \<open>Barriers\<close>

lemma bit_others: "n \<le> 4 \<Longrightarrow> bit ((push_bit n 1 - 1) AND NOT (2 ^ 0 :: u32)) i = (1 \<le> i \<and> i < n)"
proof -
  assume n: "n \<le> 4"
  have "push_bit n 1 - 1 = (mask n :: u32)" by (simp add: mask_eq_exp_minus_1)
  then show ?thesis unfolding bit_dropped using n by (auto simp: bit_mask_iff)
qed

lemma seated_primary:
  assumes "seated flight s" "lookup pid s = Some p" "playerId p = 0"
  shows "attachedPlayers s ! 0 = pid"
  using seated_seat [OF assms(1,2)] assms(3) by (simp add: seat_ok_def)

text \<open>Every secondary has an event to acknowledge.\<close>

definition prompted :: "'g lockstep \<Rightarrow> bool" where
  "prompted s \<longleftrightarrow> (\<forall>k i q a. face s k = Some (i, q, a) \<and> i \<noteq> 0 \<longrightarrow> list_ex acking q)"

lemma prompted_view: "watch s' = watch s \<Longrightarrow> prompted s' = prompted s"
  using face_watch [of s' s] by (simp add: prompted_def)

lemma WaitOnPlayers_returns:
  assumes settled: "settled flight s" and p: "lookup pid s = Some p" "playerId p = 0" and free: "waiting s = 0"
    and pending: "prompted s"
  shows "\<exists>s'. WaitOnPlayers ops pid s = Some s' \<and> settled flight s' \<and> roster s' = roster s"
proof -
  have seated: "seated flight s" using settled by (simp add: settled_def)
  note first = seated_primary [OF seated p]
  have awake: "\<not> asleep p" using settled free p first by (auto simp: settled_def primary_asleep_def)
  show ?thesis
  proof (cases "nAttached s < 2")
    case True
    with settled p free awake show ?thesis by (auto simp: WaitOnPlayers_def)
  next
    case False
    obtain s1 where s1: "advanceCycle ops pid s = Some s1" "watch s1 = watch s" by (rule advanceCycle_returns [OF p(1)])
    let ?s1 = "s1\<lparr>waiting := (push_bit (nAttached s1) 1 - 1) AND NOT (2 ^ 0)\<rparr>"
    have one: "seated flight ?s1" using seated seated_view [OF s1(2)] by simp
    have "face s1 pid = Some (0, queue p, asleep p)" using face_watch [OF s1(2), of pid] face_lookup [OF p(1)] p(2) by simp
    then obtain p1 where p1: "lookup pid ?s1 = Some p1" by (auto elim: face_SomeE)
    from sleep_returns [OF one p1] obtain s2 where s2: "PlayerSleep pid ?s1 = Some s2" "seated flight s2" "slumber True pid ?s1 s2" by blast
    have "\<forall>i \<in> set [1..<nAttached s2]. i < nAttached s2" by simp
    from wake_list_returns [OF s2(2) this] obtain s' where s': "WakePlayers s2 = Some s'" "seated flight s'"
      "rested ((\<lambda>i. attachedPlayers s2 ! i) ` set [1..<nAttached s2]) s2 s'" unfolding WakePlayers_def by blast
    have wait: "WaitOnPlayers ops pid s = Some s'"
      using False p free awake s1(1) s2(1) s'(1) by (simp add: WaitOnPlayers_def TARGET_def)
    have same: "nAttached s2 = nAttached s" "attachedPlayers s2 = attachedPlayers s" "nAttached s' = nAttached s" "attachedPlayers s' = attachedPlayers s"
      using watch_simps(1,2) [OF s1(2)] s2(3) s'(3) by (simp_all add: slumber_def rested_def)
    have roster: "roster s' = roster s"
      using roster_rested [OF s'(3)] roster_slumber [OF s2(3)] roster_watch [OF s1(2)] by simp
    have "waiting s' = (push_bit (nAttached s) 1 - 1) AND NOT (2 ^ 0)"
      using watch_simps(1) [OF s1(2)] s2(3) s'(3) by (simp add: slumber_def rested_def)
    then have bits: "bit (waiting s') i = (1 \<le> i \<and> i < nAttached s)" for i
      using bit_others [of "nAttached s" i] seated_bounds [OF seated] by simp
    have "barrier flight s'"
      unfolding barrier_face
    proof (intro conjI allI impI)
      fix i assume "bit (waiting s') i"
      then show "1 \<le> i" "i < nAttached s'" using bits same by auto
    next
      fix k i q a assume owing: "face s' k = Some (i, q, a) \<and> bit (waiting s') (nat i)"
      with bits have i: "1 \<le> nat i" "nat i < nAttached s" by auto
      from owing obtain r where r: "lookup k s' = Some r" "playerId r = i" "asleep r = a" by (auto elim: face_SomeE)
      from seated_seat [OF s'(2) r(1)] r(2) same have "attachedPlayers s ! nat i = k" by (simp add: seat_ok_def)
      with i same have "k \<in> (\<lambda>i. attachedPlayers s2 ! i) ` set [1..<nAttached s2]" by auto
      with face_rested [OF s'(3), of k] owing show "\<not> a" by (cases "face s2 k") auto
      from owing roster obtain a0 where "face s k = Some (i, q, a0)"
        by (cases "face s k") (auto simp: roster_def fun_eq_iff dest: spec [of _ k])
      with pending i have "list_ex acking q" unfolding prompted_def by fastforce
      then show "list_ex acking (in_flight flight k @ q)" by simp
    qed
    moreover have "waiting s' \<noteq> 0" using bits [of 1] False by (auto simp: waiting_zero)
    ultimately have "settled flight s'" using s'(2) by (simp add: settled_def)
    with wait roster show ?thesis by blast
  qed
qed

text \<open>An event the secondaries acknowledge, once posted to all of them, allows a barrier.\<close>

lemma posted_to_all:
  assumes "seated flight s" "posted e accepted s s'" "targets TARGET_SECONDARY s \<subseteq> accepted" "acking e"
    and "face s' k = Some (i, q, a)" "i \<noteq> 0"
  shows "list_ex acking q"
proof -
  obtain p' where p': "lookup k s' = Some p'" "playerId p' = i" "queue p' = q" by (rule face_SomeE [OF assms(5)])
  obtain p where p: "lookup k s = Some p" "playerId p' = playerId p" by (rule posted_lookup_back [OF assms(2) p'(1)])
  note seat = seated_seat [OF assms(1) p(1)]
  have "k \<in> targets TARGET_SECONDARY s"
    unfolding targets_def
    using seat p p' assms(6) seated_bounds [OF assms(1)] bit_TARGET_SECONDARY [of "nat i"]
    by (auto simp: seat_ok_def intro!: exI [of _ "nat i"])
  with posted_arrived [OF assms(2) _ p'(1)] assms(3,4) p'(3) show ?thesis by (auto simp: list_ex_iff)
qed

lemma posted_prompted:
  "seated flight s \<Longrightarrow> posted e accepted s s' \<Longrightarrow> targets TARGET_SECONDARY s \<subseteq> accepted \<Longrightarrow> acking e \<Longrightarrow> prompted s'"
  using posted_to_all unfolding prompted_def by metis

lemma primary_untouched:
  assumes "seated flight s" "accepted \<subseteq> targets target s" "\<not> bit target 0" "lookup pid s = Some p" "playerId p = 0"
  shows "pid \<notin> accepted"
proof
  assume "pid \<in> accepted"
  with assms(2) obtain i where i: "pid = attachedPlayers s ! i" "i < nAttached s" "bit target i" by (auto simp: targets_def)
  obtain p' where "lookup (attachedPlayers s ! i) s = Some p'" "playerId p' = int i" by (rule seated_attached [OF assms(1) i(2)])
  with i assms show False by auto
qed

lemma hardSync_returns:
  assumes settled: "settled flight s" and p: "lookup pid s = Some p" "playerId p = 0" and free: "waiting s = 0"
  obtains s' p' where "hardSync ops pid s = Some s'" "settled flight s'" "lookup pid s' = Some p'" "playerId p' = 0" "queue p' = queue p"
proof -
  have seated: "seated flight s" using settled by (simp add: settled_def)
  let ?e = "\<lparr>ev_type = DUALBOY_SIO_EV_HARD_SYNC, timestamp = lockstep_time ops p s, ev_player = 0\<rparr>"
  have ok: "event_ok (nAttached s) ?e" using seated_bounds [OF seated] by (simp add: event_ok_def)
  obtain queued s1 accepted where s1: "enqueueEvent ops ?e TARGET_SECONDARY s = Some (queued, s1)" "seated flight s1"
    "posted ?e accepted s s1" "accepted \<subseteq> targets TARGET_SECONDARY s" "queued \<Longrightarrow> accepted = targets TARGET_SECONDARY s"
    by (rule enqueue_returns [OF seated ok]) blast
  have one: "settled flight s1" by (rule posted_settled [OF s1(3,2) settled])
  have "pid \<notin> accepted" by (rule primary_untouched [OF seated s1(4) _ p]) (simp add: bit_TARGET_SECONDARY)
  with posted_lookup [OF s1(3) p(1)] p(2) obtain p1 where p1: "lookup pid s1 = Some p1" "playerId p1 = 0" "queue p1 = queue p" by metis
  show thesis
  proof (cases queued)
    case False
    with s1(1) p that [OF _ one p1] show thesis by (simp add: hardSync_def)
  next
    case True
    have "waiting s1 = 0" using s1(3) free by (simp add: posted_def)
    moreover have "prompted s1" by (rule posted_prompted [OF seated s1(3)]) (simp_all add: s1(5) [OF True] acking_def)
    ultimately obtain s2 where s2: "WaitOnPlayers ops pid s1 = Some s2" "settled flight s2" "roster s2 = roster s1"
      using WaitOnPlayers_returns [OF one p1(1,2)] by blast
    obtain p2 where "lookup pid s2 = Some p2" "playerId p2 = playerId p1" "queue p2 = queue p1" by (rule roster_lookup [OF s2(3) p1(1)])
    with that [OF _ s2(2)] s2(1) True s1(1) p p1 show thesis by (simp add: hardSync_def)
  qed
qed



section \<open>Receiving events\<close>

abbreviation weight :: "lockstep_event list \<Rightarrow> nat" where
  "weight q \<equiv> sum_list (map event_weight q)"

lemma event_weight_pos: "0 < event_weight e"
  by (simp add: event_weight_def split: event_type.split)

lemma seated_number:
  assumes "seated flight s" "lookup pid s = Some p"
  shows "0 \<le> playerId p" "playerId p < int (nAttached s)" "nat (playerId p) < 4" "playerId p < 4" "playerId p < 31"
  using seated_seat [OF assms] seated_bounds [OF assms(1)] by (auto simp: seat_ok_def)

lemma reply_ok: "seated flight s \<Longrightarrow> lookup pid s = Some p \<Longrightarrow> event_ok (nAttached s) (mode_reply ops p s)"
  using seated_number by (fastforce simp: event_ok_def mode_reply_def)

lemma receive_attach_returns:
  assumes settled: "settled flight s" and p: "lookup pid s = Some p" and e: "0 \<le> ev_player e" "ev_player e < int (nAttached s)"
  obtains s' p' where "receive_attach ops pid e s = Some s'" "settled flight s'" "lookup pid s' = Some p'"
    "weight (queue p') \<le> weight (queue p) + 1"
proof -
  have seated: "seated flight s" using settled by (simp add: settled_def)
  obtain s1 p1 where s1: "setReady ops pid (ev_player e) GBA_SIO_NONE s = Some s1" "watch s1 = watch s" "lookup pid s1 = Some p1"
    by (rule setReady_returns [OF seated p e])
  let ?s2 = "if playerId p = 0 then update_machine (driver p) (\<lambda>m. m\<lparr>siocnt := GBASIOMultiplayerClearSlave ops (siocnt m)\<rparr>) s1 else s1"
  have w2: "watch ?s2 = watch s" using s1(2) by simp
  have two: "settled flight ?s2" "seated flight ?s2" using settled_view [OF w2] seated_view [OF w2] settled seated by simp_all
  have p2: "lookup pid ?s2 = Some p1" using s1(3) by simp
  have q: "queue p1 = queue p" using face_watch [OF s1(2), of pid] p s1(3) by (simp add: face_def)
  have bit: "TARGET (ev_player e) = Some (2 ^ nat (ev_player e))"
    using e seated_bounds [OF seated] TARGET_seat [of "nat (ev_player e)"] by simp
  have ok: "event_ok (nAttached ?s2) (mode_reply ops p s)" using reply_ok [OF seated p] watch_simps(1) [OF w2] by simp
  obtain queued s3 accepted where s3: "enqueueEvent ops (mode_reply ops p s) (2 ^ nat (ev_player e)) ?s2 = Some (queued, s3)"
    "seated flight s3" "posted (mode_reply ops p s) accepted ?s2 s3"
    by (rule enqueue_returns [OF two(2) ok]) blast
  obtain p3 where p3: "lookup pid s3 = Some p3"
    "queue p3 = (if pid \<in> accepted then insert_event (mode_reply ops p s) (queue p1) else queue p1)"
    by (rule posted_lookup [OF s3(3) p2])
  have "weight (queue p3) \<le> weight (queue p) + 1"
    using p3(2) q by (simp add: insert_event_weights event_weight_def mode_reply_def)
  with that posted_settled [OF s3(3,2) two(1)] p3(1) s3(1) s1(1) bit p show thesis by (simp add: receive_attach_def Let_def)
qed

lemma receive_transfer_returns:
  assumes settled: "settled flight s" and p: "lookup pid s = Some p"
  obtains n s' where "receive_transfer ops pid finishCycle cyclesLate s = Some (n, s')" "settled flight s'" "roster s' = roster s"
    "\<not> bit (waiting s') (nat (playerId p))"
proof -
  have seated: "seated flight s" using settled by (simp add: settled_def)
  obtain s1 where s1: "setData (nat (playerId p)) (driver p) s = Some s1" "watch s1 = watch s"
    by (rule setData_returns [OF seated seated_number(3) [OF seated p]])
  define n where "n = sanitizeDelay (delayAfterLateness (cycleDelta finishCycle (lockstep_time ops p s1)) cyclesLate)"
  let ?s2 = "update_machine (driver p) (\<lambda>m. m\<lparr>siocnt := siocnt m OR 0x80,
      timing := mTimingSchedule ops Complete_Event n (mTimingDeschedule ops Complete_Event (timing m))\<rparr>) s1"
  have w2: "watch ?s2 = watch s" using s1(2) by simp
  obtain p2 where p2: "lookup pid ?s2 = Some p2" "playerId p2 = playerId p" "queue p2 = queue p"
    by (rule roster_lookup [OF roster_watch [OF w2] p])
  have "settled flight ?s2" using settled settled_view [OF w2] by simp
  from AckPlayer_returns [OF this p2(1)] obtain s' where s': "AckPlayer pid ?s2 = Some s'" "settled flight s'" "roster s' = roster ?s2"
    "\<not> bit (waiting s') (nat (playerId p2))" by blast
  with that [of n s'] s1(1) p p2(2) roster_watch [OF w2] show thesis by (simp add: receive_transfer_def Let_def n_def)
qed

lemma receive_mode_returns:
  assumes settled: "settled flight s" and p: "lookup pid s = Some p" and from_ok: "0 \<le> i" "i < int (nAttached s)"
  obtains s' where "receive_mode ops pid i m s = Some s'" "settled flight s'" "roster s' = roster s"
    "i = 0 \<longrightarrow> \<not> bit (waiting s') (nat (playerId p))"
proof -
  have seated: "seated flight s" using settled by (simp add: settled_def)
  obtain s1 p1 where s1: "setReady ops pid i m s = Some s1" "watch s1 = watch s" "lookup pid s1 = Some p1"
    by (rule setReady_returns [OF seated p from_ok])
  have one: "settled flight s1" using settled settled_view [OF s1(2)] by blast
  have same: "playerId p1 = playerId p" using face_watch [OF s1(2), of pid] p s1(3) by (simp add: face_def)
  show thesis
  proof (cases "i = 0")
    case False
    with that [of s1] s1(1) one roster_watch [OF s1(2)] show thesis by (simp add: receive_mode_def)
  next
    case True
    from AckPlayer_returns [OF one s1(3)] obtain s' where "AckPlayer pid s1 = Some s'" "settled flight s'" "roster s' = roster s1"
      "\<not> bit (waiting s') (nat (playerId p1))" by blast
    with that [of s'] s1(1) True same roster_watch [OF s1(2)] show thesis by (simp add: receive_mode_def)
  qed
qed

text \<open>Handling an event that is in flight: it settles what the player owed for it, and the queue gets lighter.\<close>

lemma receive_event_returns:
  assumes settled: "settled flight s" and p: "lookup pid s = Some p" and ok: "event_ok (nAttached s) e"
  obtains n s' p' where "receive_event ops pid cyclesLate e (nextEvent, wasDetach, s) = Some (n, wasDetach, s')" "settled flight s'"
    "lookup pid s' = Some p'" "acking e \<longrightarrow> \<not> bit (waiting s') (nat (playerId p'))"
    "weight (queue p') < event_weight e + weight (queue p)"
proof (cases "ev_type e")
  case DUALBOY_SIO_EV_ATTACH
  from ok have from_ok: "0 \<le> ev_player e" "ev_player e < int (nAttached s)" by (simp_all add: event_ok_def)
  obtain s' p' where "receive_attach ops pid e s = Some s'" "settled flight s'"
    "lookup pid s' = Some p'" "weight (queue p') \<le> weight (queue p) + 1" by (rule receive_attach_returns [OF settled p from_ok])
  with that [of nextEvent s' p'] DUALBOY_SIO_EV_ATTACH show thesis by (simp add: receive_event_def acking_def event_weight_def)
next
  case DUALBOY_SIO_EV_DETACH
  with ok show thesis by (simp add: event_ok_def)
next
  case DUALBOY_SIO_EV_HARD_SYNC
  from AckPlayer_returns [OF settled p] obtain s' where s': "AckPlayer pid s = Some s'" "settled flight s'" "roster s' = roster s"
    "\<not> bit (waiting s') (nat (playerId p))" by blast
  obtain p' where "lookup pid s' = Some p'" "playerId p' = playerId p" "queue p' = queue p" by (rule roster_lookup [OF s'(3) p])
  with that [of nextEvent s' p'] s' DUALBOY_SIO_EV_HARD_SYNC show thesis by (simp add: receive_event_def event_weight_def)
next
  case (DUALBOY_SIO_EV_MODE_SET m)
  from ok have from_ok: "0 \<le> ev_player e" "ev_player e < int (nAttached s)" by (simp_all add: event_ok_def)
  obtain s' where s': "receive_mode ops pid (ev_player e) m s = Some s'" "settled flight s'"
    "roster s' = roster s" "ev_player e = 0 \<longrightarrow> \<not> bit (waiting s') (nat (playerId p))"
    by (rule receive_mode_returns [OF settled p from_ok])
  obtain p' where "lookup pid s' = Some p'" "playerId p' = playerId p" "queue p' = queue p" by (rule roster_lookup [OF s'(3) p])
  with that [of nextEvent s' p'] s' DUALBOY_SIO_EV_MODE_SET show thesis by (simp add: receive_event_def event_weight_def acking_def)
next
  case (DUALBOY_SIO_EV_TRANSFER_START f)
  obtain n s' where s': "receive_transfer ops pid f cyclesLate s = Some (n, s')" "settled flight s'" "roster s' = roster s"
    "\<not> bit (waiting s') (nat (playerId p))" by (rule receive_transfer_returns [OF settled p])
  obtain p' where "lookup pid s' = Some p'" "playerId p' = playerId p" "queue p' = queue p" by (rule roster_lookup [OF s'(3) p])
  with that [of n s' p'] s' DUALBOY_SIO_EV_TRANSFER_START show thesis by (simp add: receive_event_def event_weight_def)
qed

lemma face_update_player:
  "face (update_player pid f s) k = (if k = pid then map_option (\<lambda>p. (playerId (f p), queue (f p), asleep (f p))) (lookup k s) else face s k)"
  by (simp add: face_def option.map_comp o_def)

lemma take_settled:
  assumes "settled None s" "lookup pid s = Some p" "queue p = e # later"
  shows "settled (Some (pid, e)) (update_player pid (\<lambda>p. p\<lparr>queue := later\<rparr>) s)"
proof -
  let ?s = "update_player pid (\<lambda>p. p\<lparr>queue := later\<rparr>) s" and ?flight = "Some (pid, e)"
  have seated: "seated None s" and bar: "barrier None s" using assms(1) by (simp_all add: settled_def)
  have "seated ?flight ?s"
    by (rule seated_step [OF seated assms(2), of _ "p\<lparr>queue := later\<rparr>"])
      (use seated_seat [OF seated assms(2)] assms(2,3) in \<open>simp_all add: seat_ok_def accounted_queue_def pending_def\<close>)
  moreover have "barrier ?flight ?s"
    unfolding barrier_face
  proof (intro conjI allI impI)
    fix i assume "bit (waiting ?s) i"
    then show "1 \<le> i" "i < nAttached ?s" using bar by (auto simp: barrier_def)
  next
    fix k i q a assume owing: "face ?s k = Some (i, q, a) \<and> bit (waiting ?s) (nat i)"
    have "face s k = Some (i, in_flight ?flight k @ q, a)"
      using owing assms(2,3) by (cases "k = pid") (auto simp: face_update_player in_flight_def face_def)
    from barrier_owes [OF bar this] owing show "\<not> a" "list_ex acking (in_flight ?flight k @ q)"
      by (auto simp: in_flight_def split: if_splits)
  qed
  moreover have "primary_asleep ?s = primary_asleep s"
    using assms(2) by (auto simp: primary_asleep_def)
  ultimately show ?thesis using assms(1) by (simp add: settled_def)
qed

lemma recycle_settled:
  assumes "settled (Some (pid, e)) s" "lookup pid s = Some p" "acking e \<longrightarrow> \<not> bit (waiting s) (nat (playerId p))"
  shows "settled None (update_player pid recycle s)"
proof -
  let ?s = "update_player pid recycle s" and ?flight = "Some (pid, e)"
  have seated: "seated ?flight s" and bar: "barrier ?flight s" using assms(1) by (simp_all add: settled_def)
  have "seated None ?s"
    by (rule seated_step [OF seated assms(2), of _ "recycle p"])
      (use seated_seat [OF seated assms(2)] assms(2) in \<open>simp_all add: seat_ok_def accounted_queue_def pending_def recycle_def\<close>)
  moreover have "barrier None ?s"
    unfolding barrier_face
  proof (intro conjI allI impI)
    fix i assume "bit (waiting ?s) i"
    then show "1 \<le> i" "i < nAttached ?s" using bar by (auto simp: barrier_def)
  next
    fix k i q a assume owing: "face ?s k = Some (i, q, a) \<and> bit (waiting ?s) (nat i)"
    then have face: "face s k = Some (i, q, a)" by (auto simp: face_update_player face_def recycle_def split: if_splits)
    have owed: "bit (waiting s) (nat i)" using owing by simp
    from barrier_owes [OF bar face owed] have old: "\<not> a" "list_ex acking (in_flight ?flight k @ q)" by simp_all
    from old show "\<not> a" by simp
    show "list_ex acking (in_flight None k @ q)"
    proof (cases "k = pid")
      case True
      with face assms(2) have "i = playerId p" by (simp add: face_def)
      with assms(3) owing have "\<not> acking e" by auto
      with old True show ?thesis by (simp add: in_flight_def)
    qed (use old in \<open>simp add: in_flight_def\<close>)
  qed
  moreover have "primary_asleep ?s = primary_asleep s"
    using assms(2) by (auto simp: primary_asleep_def recycle_def)
  ultimately show ?thesis using assms(1) by (simp add: settled_def)
qed

lemma receive_due_returns:
  assumes "settled None s" "lookup pid s = Some p" "weight (queue p) < turns"
  shows "\<exists>n s' p'. receive_due turns ops pid cyclesLate (nextEvent, wasDetach, s) = Some (n, wasDetach, s') \<and> settled None s' \<and>
     lookup pid s' = Some p'"
  using assms
proof (induction turns arbitrary: s p nextEvent)
  case (Suc turns)
  show ?case
  proof (cases "queue p")
    case Nil
    with Suc.prems show ?thesis by simp
  next
    case (Cons e later)
    show ?thesis
    proof (cases "cycleDelta (timestamp e) (lockstep_time ops p s) > 0")
      case True
      with Suc.prems Cons show ?thesis by simp
    next
      case False
      let ?s0 = "update_player pid (\<lambda>p. p\<lparr>queue := later\<rparr>) s"
      have taken: "settled (Some (pid, e)) ?s0" by (rule take_settled [OF Suc.prems(1,2) Cons])
      have looked: "lookup pid ?s0 = Some (p\<lparr>queue := later\<rparr>)" using Suc.prems(2) by simp
      have "seated None s" using Suc.prems(1) by (simp add: settled_def)
      from seated_seat [OF this Suc.prems(2)] have ok: "event_ok (nAttached ?s0) e" by (simp add: seat_ok_def pending_def Cons)
      obtain n s1 p1 where s1: "receive_event ops pid cyclesLate e (nextEvent, wasDetach, ?s0) = Some (n, wasDetach, s1)"
        "settled (Some (pid, e)) s1" "lookup pid s1 = Some p1" "acking e \<longrightarrow> \<not> bit (waiting s1) (nat (playerId p1))"
        "weight (queue p1) < event_weight e + weight (queue (p\<lparr>queue := later\<rparr>))"
        by (rule receive_event_returns [OF taken looked ok, where ops = ops and cyclesLate = cyclesLate and nextEvent = nextEvent
              and wasDetach = wasDetach])
      have two: "settled None (update_player pid recycle s1)" by (rule recycle_settled [OF s1(2,3,4)])
      have p2: "lookup pid (update_player pid recycle s1) = Some (recycle p1)" using s1(3) by simp
      have "weight (queue (recycle p1)) < turns" using s1(5) Suc.prems(3) Cons by (simp add: recycle_def)
      from Suc.IH [OF two p2 this, of n] show ?thesis using False Cons Suc.prems(2) s1(1) by simp
    qed
  qed
qed simp



section \<open>The timing callback\<close>

lemma WakePlayers_returns:
  assumes settled: "settled flight s"
  obtains s' where "WakePlayers s = Some s'" "settled flight s'" "roster s' = roster s" "waiting s' = waiting s" "syncArmed s' = syncArmed s"
proof -
  have seated: "seated flight s" and bar: "barrier flight s" using settled by (simp_all add: settled_def)
  let ?woken = "(\<lambda>i. attachedPlayers s ! i) ` set [1..<nAttached s]"
  have "\<forall>i \<in> set [1..<nAttached s]. i < nAttached s" by simp
  from wake_list_returns [OF seated this] obtain s' where s': "WakePlayers s = Some s'" "seated flight s'" "rested ?woken s s'"
    unfolding WakePlayers_def by blast
  have same: "waiting s' = waiting s" "nAttached s' = nAttached s" "attachedPlayers s' = attachedPlayers s" "syncArmed s' = syncArmed s"
    using s'(3) by (simp_all add: rested_def)
  have faces: "\<exists>a0. face s k = Some (i, q, a0) \<and> (a \<longrightarrow> a0)" if "face s' k = Some (i, q, a)" for k i q a
    using that face_rested [OF s'(3), of k] by (cases "face s k") (auto split: if_splits)
  have "barrier flight s'"
    unfolding barrier_face
  proof (intro conjI allI impI)
    fix i assume "bit (waiting s') i"
    then show "1 \<le> i" "i < nAttached s'" using same bar by (auto simp: barrier_def)
  next
    fix k i q a assume owing: "face s' k = Some (i, q, a) \<and> bit (waiting s') (nat i)"
    then obtain a0 where "face s k = Some (i, q, a0)" "a \<longrightarrow> a0" using faces by blast
    with barrier_owes [OF bar this(1)] owing same show "\<not> a" "list_ex acking (in_flight flight k @ q)" by auto
  qed
  moreover have "primary_asleep s' \<longrightarrow> primary_asleep s"
    unfolding primary_face [of s'] primary_face [of s] same using faces by metis
  ultimately have "settled flight s'" using s'(2) settled same by (auto simp: settled_def)
  with that s' roster_rested [OF s'(3)] same show thesis by blast
qed

lemma own_clock_returns:
  assumes settled: "settled flight s" and p: "lookup pid s = Some p"
  obtains s' p' where "own_clock ops pid s = Some s'" "settled flight s'" "lookup pid s' = Some p'" "queue p' = queue p"
    "playerId p' = playerId p"
proof (cases "playerId p \<noteq> 0 \<or> cycleDelta (lockstep_time ops p s) (cycle s) < 0")
  case True
  with that [OF _ settled p] p show thesis by (simp add: own_clock_def)
next
  case False
  obtain s1 where s1: "advanceCycle ops pid s = Some s1" "watch s1 = watch s" by (rule advanceCycle_returns [OF p])
  have one: "settled flight s1" using settled settled_view [OF s1(2)] by simp
  have "\<exists>s2. (if \<not> transferActive s1 then WakePlayers s1 else Some s1) = Some s2 \<and> settled flight s2 \<and> roster s2 = roster s1"
    using WakePlayers_returns [OF one] one by metis
  then obtain s2 where s2: "(if \<not> transferActive s1 then WakePlayers s1 else Some s1) = Some s2" "settled flight s2" "roster s2 = roster s1"
    by blast
  have "roster s2 = roster s" using s2(3) roster_watch [OF s1(2)] by simp
  then obtain p2 where p2: "lookup pid s2 = Some p2" "playerId p2 = playerId p" "queue p2 = queue p" by (rule roster_lookup [OF _ p])
  have run: "own_clock ops pid s = (if syncArmed s2 \<and> nextHardSync s2 < 0
      then do {
        s3 \<leftarrow> (if waiting s2 = 0 then hardSync ops pid s2 else Some s2);
        Some (s3\<lparr>nextHardSync := delayAddSaturated (nextHardSync s3) HARD_SYNC_INTERVAL\<rparr>)
      } else Some s2)"
    using False p s1(1) s2(1) by (simp add: own_clock_def)
  have zero: "playerId p2 = 0" using False p2(2) by simp
  show thesis
  proof (cases "syncArmed s2 \<and> nextHardSync s2 < 0")
    case due: False
    have "own_clock ops pid s = Some s2" unfolding run if_not_P [OF due] by (rule refl)
    with that s2(2) p2 show thesis by blast
  next
    case due: True
    have "\<exists>s3 p3. (if waiting s2 = 0 then hardSync ops pid s2 else Some s2) = Some s3 \<and> settled flight s3 \<and> lookup pid s3 = Some p3 \<and>
        queue p3 = queue p \<and> playerId p3 = playerId p"
    proof (cases "waiting s2 = 0")
      case True
      obtain s3 p3 where "hardSync ops pid s2 = Some s3" "settled flight s3" "lookup pid s3 = Some p3" "playerId p3 = 0" "queue p3 = queue p2"
        by (rule hardSync_returns [OF s2(2) p2(1) zero True])
      with True p2 zero show ?thesis by auto
    qed (use s2(2) p2 in auto)
    then obtain s3 p3 where s3: "(if waiting s2 = 0 then hardSync ops pid s2 else Some s2) = Some s3" "settled flight s3"
      "lookup pid s3 = Some p3" "queue p3 = queue p" "playerId p3 = playerId p" by blast
    let ?s = "s3\<lparr>nextHardSync := delayAddSaturated (nextHardSync s3) HARD_SYNC_INTERVAL\<rparr>"
    have w: "watch ?s = watch s3" by simp
    have "own_clock ops pid s = Some ?s" unfolding run s3(1) using due by simp
    moreover have "settled flight ?s" using settled_view [OF w] s3(2) by simp
    ultimately show thesis using that [of ?s p3] s3 by simp
  qed
qed

text \<open>A secondary that owes nothing may go to sleep.\<close>

lemma sleep_settled:
  assumes settled: "settled None s" and p: "lookup pid s = Some p" "playerId p \<noteq> 0" "queue p = []"
  obtains s' where "PlayerSleep pid s = Some s'" "settled None s'" "roster s' = roster s"
proof -
  have seated: "seated None s" and bar: "barrier None s" using settled by (simp_all add: settled_def)
  from sleep_returns [OF seated p(1)] obtain s' where s': "PlayerSleep pid s = Some s'" "seated None s'" "slumber True pid s s'" by blast
  have same: "waiting s' = waiting s" "nAttached s' = nAttached s" "attachedPlayers s' = attachedPlayers s"
    using s'(3) by (simp_all add: slumber_def)
  have own: "face s pid = Some (playerId p, [], asleep p)" using p by (simp add: face_def)
  have "barrier None s'"
    unfolding barrier_face
  proof (intro conjI allI impI)
    fix i assume "bit (waiting s') i"
    then show "1 \<le> i" "i < nAttached s'" using same bar by (auto simp: barrier_def)
  next
    fix k i q a assume owing: "face s' k = Some (i, q, a) \<and> bit (waiting s') (nat i)"
    show "\<not> a" "list_ex acking (in_flight None k @ q)"
    proof -
      have "k \<noteq> pid"
        using owing same own face_slumber [OF s'(3), of k] barrier_owes [OF bar own] by (auto simp: in_flight_def)
      with face_slumber [OF s'(3), of k] owing same barrier_owes [OF bar, of k i q a]
      show "\<not> a" "list_ex acking (in_flight None k @ q)" by simp_all
    qed
  qed
  moreover have "primary_asleep s' = primary_asleep s"
  proof -
    have "attachedPlayers s ! 0 \<noteq> pid"
    proof
      assume "attachedPlayers s ! 0 = pid"
      then obtain p0 where "lookup pid s = Some p0" "playerId p0 = int 0"
        using seated_attached [OF seated, of 0] seated_bounds(1) [OF seated] by auto
      with p show False by simp
    qed
    with face_slumber [OF s'(3), of "attachedPlayers s ! 0"] same show ?thesis unfolding primary_face [of s'] primary_face [of s] by simp
  qed
  ultimately have "settled None s'" using s'(2) settled same by (simp add: settled_def)
  with that s'(1) roster_slumber [OF s'(3)] show thesis by blast
qed

text \<open>A driver that is plugged in and has a player.\<close>

definition plugged :: "nat \<Rightarrow> 'g lockstep \<Rightarrow> bool" where
  "plugged d s \<longleftrightarrow> coordinated (drivers s d) \<and> lookup (lockstepId (drivers s d)) s \<noteq> None"

lemma plugged_player:
  assumes "plugged d s"
  obtains p where "lookup (lockstepId (drivers s d)) s = Some p"
  using assms by (auto simp: plugged_def)

lemma lockstepEvent_settled:
  assumes settled: "settled None s" and plugged: "plugged d s"
  obtains s' where "lockstepEvent ops cyclesLate d s = Some s'" "settled None s'"
proof -
  let ?pid = "lockstepId (drivers s d)"
  have seated: "seated None s" using settled by (simp add: settled_def)
  have linked: "coordinated (drivers s d)" using plugged by (simp add: plugged_def)
  obtain p where p: "lookup ?pid s = Some p" by (rule plugged_player [OF plugged])
  note number = seated_number [OF seated p]
  have no_detach: "(case queue p of [] \<Rightarrow> False | e # _ \<Rightarrow> ev_type e = DUALBOY_SIO_EV_DETACH) = False"
    using seated_seat [OF seated p] by (cases "queue p") (auto simp: seat_ok_def pending_def event_ok_def)
  obtain s1 p1 where s1: "own_clock ops ?pid s = Some s1" "settled None s1" "lookup ?pid s1 = Some p1" "queue p1 = queue p"
    "playerId p1 = playerId p" by (rule own_clock_returns [OF settled p])
  obtain sync where sync: "untilNextSync ops ?pid s1 = Some sync" using untilNextSync_returns [OF s1(3)] by blast
  have "weight (queue p1) < receive_turns p" using s1(4) by (simp add: receive_turns_def)
  from receive_due_returns [OF s1(2,3) this, of ops cyclesLate sync False] obtain n2 s2 q where
    s2: "receive_due (receive_turns p) ops ?pid cyclesLate (sync, False, s1) = Some (n2, False, s2)" "settled None s2"
    "lookup ?pid s2 = Some q" by blast
  define n3 where "n3 = (case queue q of [] \<Rightarrow> n2 | e # _ \<Rightarrow> min n2 (cycleDelta (timestamp e) (lockstep_time ops q s2)))"
  have run: "lockstepEvent ops cyclesLate d s = do {
      (n4, s3) \<leftarrow> (if syncArmed s2 \<and> playerId q \<noteq> 0 \<and> n3 \<le> LOCKSTEP_INTERVAL \<and> queue q = []
         then do { s3 \<leftarrow> PlayerSleep ?pid s2; Some (max n3 4, s3) } else Some (n3, s2));
      Some (update_timing d (mTimingSchedule ops Lockstep_Event (sanitizeDelay n4)) s3) }"
    using linked p number s1(1) sync s2(1,3) no_detach
    by (cases "queue q") (simp_all add: lockstepEvent_def Let_def n3_def)
  have "\<exists>n4 s3. (if syncArmed s2 \<and> playerId q \<noteq> 0 \<and> n3 \<le> LOCKSTEP_INTERVAL \<and> queue q = []
      then do { s3 \<leftarrow> PlayerSleep ?pid s2; Some (max n3 4, s3) } else Some (n3, s2)) = Some (n4, s3) \<and> settled None s3"
  proof (cases "syncArmed s2 \<and> playerId q \<noteq> 0 \<and> n3 \<le> LOCKSTEP_INTERVAL \<and> queue q = []")
    case True
    then obtain s3 where "PlayerSleep ?pid s2 = Some s3" "settled None s3" using sleep_settled [OF s2(2,3)] by metis
    with True show ?thesis by simp
  next
    case False
    show ?thesis unfolding if_not_P [OF False] using s2(2) by blast
  qed
  then obtain n4 s3 where s3: "(if syncArmed s2 \<and> playerId q \<noteq> 0 \<and> n3 \<le> LOCKSTEP_INTERVAL \<and> queue q = []
      then do { s3 \<leftarrow> PlayerSleep ?pid s2; Some (max n3 4, s3) } else Some (n3, s2)) = Some (n4, s3)" "settled None s3" by blast
  let ?s = "update_timing d (mTimingSchedule ops Lockstep_Event (sanitizeDelay n4)) s3"
  have "watch ?s = watch s3" by simp
  then have "settled None ?s" using settled_view s3(2) by metis
  moreover have "lockstepEvent ops cyclesLate d s = Some ?s" unfolding run s3(1) by simp
  ultimately show thesis using that by blast
qed



section \<open>The driver's callbacks\<close>

lemma watch_player_mode: "watch (update_player pid (\<lambda>p. p\<lparr>mode := m\<rparr>) s) = watch s"
  "watch (update_player pid (\<lambda>p. p\<lparr>dataReceived := b\<rparr>) s) = watch s"
  "watch (update_player pid (\<lambda>p. p\<lparr>cycleOffset := c\<rparr>) s) = watch s"
  by (rule watch_update_player, simp add: watched_def)+

lemma targets_secondary: "targets (TARGET_ALL AND NOT (2 ^ 0)) s = targets TARGET_SECONDARY s"
  by (simp add: TARGET_SECONDARY_def TARGET_PRIMARY_def)

text \<open>An operation returns and keeps the invariant.\<close>

definition keeps :: "('g lockstep \<Rightarrow> 'g lockstep option) \<Rightarrow> 'g lockstep \<Rightarrow> bool" where
  "keeps f s \<longleftrightarrow> (\<exists>s'. f s = Some s' \<and> settled None s')"

lemma keeps_watch: "f s = Some s' \<Longrightarrow> watch s' = watch s \<Longrightarrow> settled None s \<Longrightarrow> keeps f s"
  using settled_view [of s' s None] by (simp add: keeps_def)

lemma lockstepEvent_keeps: "settled None s \<Longrightarrow> plugged d s \<Longrightarrow> keeps (lockstepEvent ops cyclesLate d) s"
  using lockstepEvent_settled by (metis keeps_def)

lemma DriverSetMode_keeps:
  assumes settled: "settled None s" and plugged: "plugged d s"
  shows "keeps (DriverSetMode ops m d) s"
proof -
  let ?pid = "lockstepId (drivers s d)"
  have seated: "seated None s" using settled by (simp add: settled_def)
  have linked: "coordinated (drivers s d)" using plugged by (simp add: plugged_def)
  obtain p where p: "lookup ?pid s = Some p" by (rule plugged_player [OF plugged])
  note number = seated_number [OF seated p]
  show ?thesis
  proof (cases "loadingMachineState (drivers s d) \<or> m = mode p")
    case True
    with settled linked p show ?thesis by (auto simp: keeps_def DriverSetMode_def Let_def)
  next
    case False
    let ?s1 = "update_player ?pid (\<lambda>p. p\<lparr>mode := m\<rparr>) s"
    let ?e = "\<lparr>ev_type = DUALBOY_SIO_EV_MODE_SET m, timestamp = lockstep_time ops p ?s1, ev_player = playerId p\<rparr>"
    let ?s2 = "if playerId p = 0 then ?s1\<lparr>transferMode := m\<rparr> else ?s1"
    have w2: "watch ?s2 = watch s" by (simp add: watch_player_mode)
    have two: "settled None ?s2" "seated None ?s2" using settled_view [OF w2] seated_view [OF w2] settled seated by simp_all
    have p2: "lookup ?pid ?s2 = Some (p\<lparr>mode := m\<rparr>)" using p by simp
    have n2: "0 \<le> playerId p" "playerId p < int (nAttached ?s2)" using number by simp_all
    obtain s3 p3 where s3: "setReady ops ?pid (playerId p) m ?s2 = Some s3" "watch s3 = watch ?s2" "lookup ?pid s3 = Some p3"
      by (rule setReady_returns [OF two(2) p2 n2])
    have three: "settled None s3" "seated None s3" using settled_view [OF s3(2)] seated_view [OF s3(2)] two by simp_all
    have number3: "playerId p3 = playerId p" using face_watch [OF s3(2), of ?pid] p2 s3(3) by (simp add: face_def)
    have bit: "TARGET (playerId p) = Some (2 ^ nat (playerId p))" using number TARGET_seat [of "nat (playerId p)"] by simp
    have ok: "event_ok (nAttached s3) ?e" using number watch_simps(1) [OF s3(2)] by (simp add: event_ok_def)
    let ?target = "TARGET_ALL AND NOT (2 ^ nat (playerId p))"
    obtain queued s4 accepted where s4: "enqueueEvent ops ?e ?target s3 = Some (queued, s4)" "seated None s4"
      "posted ?e accepted s3 s4" "accepted \<subseteq> targets ?target s3" "queued \<Longrightarrow> accepted = targets ?target s3"
      by (rule enqueue_returns [OF three(2) ok]) blast
    have four: "settled None s4" by (rule posted_settled [OF s4(3,2) three(1)])
    let ?s5 = "if queued then stop_cpu (driver p) s4 else s4"
    have w5: "watch ?s5 = watch s4" by simp
    have five: "settled None ?s5" using settled_view [OF w5] four by simp
    have run: "DriverSetMode ops m d s = (if (playerId p = 0 \<and> waiting s = 0) \<and> queued then WaitOnPlayers ops ?pid ?s5 else Some ?s5)"
      using False linked p s3(1) bit s4(1) by (simp add: DriverSetMode_def Let_def)
    show ?thesis
    proof (cases "(playerId p = 0 \<and> waiting s = 0) \<and> queued")
      case go: False
      have "DriverSetMode ops m d s = Some ?s5" unfolding run if_not_P [OF go] by (rule refl)
      with five show ?thesis by (auto simp: keeps_def)
    next
      case go: True
      have w: "waiting ?s5 = 0" using go s4(3) watch_simps(3) [OF s3(2)] by (simp add: posted_def)
      obtain p4 where p4: "lookup ?pid s4 = Some p4" "playerId p4 = playerId p3"
        using posted_lookup [OF s4(3) s3(3)] by metis
      then have p5: "lookup ?pid ?s5 = Some p4" "playerId p4 = 0" using go number3 by simp_all
      have "prompted s4" by (rule posted_prompted [OF three(2) s4(3)]) (use s4(5) go targets_secondary [of s3] in \<open>simp_all add: acking_def\<close>)
      then have "prompted ?s5" using prompted_view [OF w5] by simp
      from WaitOnPlayers_returns [OF five p5 w this, where ops = ops] obtain s' where "WaitOnPlayers ops ?pid ?s5 = Some s'" "settled None s'" by blast
      then show ?thesis unfolding keeps_def run if_P [OF go] by blast
    qed
  qed
qed


lemma DriverStart_keeps:
  assumes settled: "settled None s" and plugged: "plugged d s"
  shows "keeps (\<lambda>s. map_option snd (DriverStart ops d s)) s"
proof -
  let ?pid = "lockstepId (drivers s d)"
  have seated: "seated None s" using settled by (simp add: settled_def)
  have linked: "coordinated (drivers s d)" using plugged by (simp add: plugged_def)
  obtain p where p: "lookup ?pid s = Some p" by (rule plugged_player [OF plugged])
  show ?thesis
  proof (cases "transferActive s \<or> playerId p \<noteq> 0")
    case True
    with settled linked p show ?thesis by (auto simp: keeps_def DriverStart_def Let_def)
  next
    case False
    let ?s0 = "s\<lparr>multiData := replicate (length (multiData s)) 0xFFFF\<rparr>"
    have w0: "watch ?s0 = watch s" by (simp add: watch_def)
    have zero: "seated None ?s0" "settled None ?s0" using seated_view [OF w0] settled_view [OF w0] seated settled by simp_all
    obtain s1 where s1: "setData 0 (driver p) ?s0 = Some s1" "watch s1 = watch ?s0"
      by (rule setData_returns [OF zero(1), of 0 "driver p"]) auto
    have w1: "watch s1 = watch s" using s1(2) w0 by simp
    have one: "seated None s1" "settled None s1" using seated_view [OF w1] settled_view [OF w1] seated settled by simp_all
    obtain p1 where p1: "lookup ?pid s1 = Some p1" "playerId p1 = playerId p" "queue p1 = queue p"
      by (rule roster_lookup [OF roster_watch [OF w1] p])
    define e where "e = \<lparr>ev_type = DUALBOY_SIO_EV_TRANSFER_START (cycleAdd (lockstep_time ops p s1)
        (GBASIOTransferCycles ops (mode p) (siocnt (machine_of (driver p) s1)) (int (nAttached s1) - 1))),
        timestamp = lockstep_time ops p s1, ev_player = 0\<rparr>"
    have ok: "event_ok (nAttached s1) e" using seated_bounds [OF one(1)] by (simp add: event_ok_def e_def)
    obtain queued s2 accepted where s2: "enqueueEvent ops e TARGET_SECONDARY s1 = Some (queued, s2)" "seated None s2"
      "posted e accepted s1 s2" "accepted \<subseteq> targets TARGET_SECONDARY s1" "queued \<Longrightarrow> accepted = targets TARGET_SECONDARY s1"
      by (rule enqueue_returns [OF one(1) ok]) blast
    have two: "settled None s2" by (rule posted_settled [OF s2(3,2) one(2)])
    let ?s3 = "s2\<lparr>transferActive := True\<rparr>"
    let ?s4 = "if mode p = GBA_SIO_MULTI \<and> \<not> syncArmed ?s3 then ?s3\<lparr>syncArmed := True, nextHardSync := HARD_SYNC_INTERVAL\<rparr> else ?s3"
    have w4: "watch ?s4 = watch s2" by simp
    have four: "settled None ?s4" using settled_view [OF w4] two by simp
    have run: "DriverStart ops d s = (if \<not> queued then Some (False, s2)
        else do { s5 \<leftarrow> (if waiting ?s4 \<noteq> 0 then Some ?s4 else WaitOnPlayers ops ?pid ?s4); Some (True, s5) })"
      using False linked p s1(1) s2(1) by (simp add: DriverStart_def Let_def e_def)
    show ?thesis
    proof (cases "queued \<and> waiting ?s4 = 0")
      case go: False
      with two four show ?thesis by (cases queued) (auto simp: keeps_def run)
    next
      case go: True
      obtain p2 where p2: "lookup ?pid s2 = Some p2" "playerId p2 = playerId p1" using posted_lookup [OF s2(3) p1(1)] by metis
      then have p4: "lookup ?pid ?s4 = Some p2" "playerId p2 = 0" using p1 False by simp_all
      have "prompted s2" by (rule posted_prompted [OF one(1) s2(3)]) (use s2(5) go in \<open>simp_all add: acking_def e_def\<close>)
      then have "prompted ?s4" using prompted_view [OF w4] by simp
      from WaitOnPlayers_returns [OF four p4 _ this, where ops = ops] go obtain s' where s': "WaitOnPlayers ops ?pid ?s4 = Some s'" "settled None s'"
        by blast
      have "DriverStart ops d s = Some (True, s')" using run go s'(1) by simp
      with s'(2) show ?thesis by (simp add: keeps_def)
    qed
  qed
qed

lemma finish_barrier_settled:
  assumes settled: "settled None s" and p: "lookup pid s = Some p"
  shows "\<exists>s'. finish_barrier ops pid s = Some s' \<and> settled None s'"
proof (cases "playerId p \<noteq> 0 \<or> \<not> syncArmed s")
  case True
  with settled p show ?thesis by (auto simp: finish_barrier_def)
next
  case False
  show ?thesis
  proof (cases "waiting s = 0")
    case True
    have zero: "playerId p = 0" using False by simp
    obtain s' p' where "hardSync ops pid s = Some s'" "settled None s'" "lookup pid s' = Some p'" "playerId p' = 0" "queue p' = queue p"
      by (rule hardSync_returns [OF settled p zero True])
    with False True p show ?thesis by (simp add: finish_barrier_def)
  next
    case busy: False
    have w: "watch (s\<lparr>nextHardSync := -1\<rparr>) = watch s" by simp
    from False busy p settled_view [OF w] settled show ?thesis by (simp add: finish_barrier_def)
  qed
qed

lemma received_settled:
  assumes settled: "settled None s" and p: "lookup pid s = Some p"
  obtains s' where "finish_barrier ops pid (update_player pid (\<lambda>p. p\<lparr>dataReceived := False\<rparr>) s) = Some s'" "settled None s'"
proof -
  let ?s = "update_player pid (\<lambda>p. p\<lparr>dataReceived := False\<rparr>) s"
  have "settled None ?s" using settled_view [OF watch_player_mode(2)] settled by metis
  moreover have "lookup pid ?s = Some (p\<lparr>dataReceived := False\<rparr>)" using p by simp
  ultimately show thesis using finish_barrier_settled that by metis
qed

lemma previous_data_returns:
  assumes "seated None s" "lookup pid s = Some p"
  obtains v where "previous_data p s missing = Some v"
proof -
  have "nat (playerId p - 1) < length (normalData s)" using seated_number [OF assms] seated_bounds [OF assms(1)] by linarith
  with that show thesis by (cases "playerId p > 0 \<and> dataReceived p") (auto simp: previous_data_def rd_def)
qed

lemma DriverFinish_keeps:
  assumes settled: "settled None s" and plugged: "plugged d s"
  shows "keeps (\<lambda>s. map_option snd (DriverFinishMultiplayer ops data d s)) s"
    "keeps (\<lambda>s. map_option snd (DriverFinishNormal8 ops d s)) s"
    "keeps (\<lambda>s. map_option snd (DriverFinishNormal32 ops d s)) s"
proof -
  let ?pid = "lockstepId (drivers s d)"
  have seated: "seated None s" using settled by (simp add: settled_def)
  have linked: "coordinated (drivers s d)" using plugged by (simp add: plugged_def)
  obtain p where p: "lookup ?pid s = Some p" by (rule plugged_player [OF plugged])
  obtain s' where s': "finish_barrier ops ?pid (update_player ?pid (\<lambda>p. p\<lparr>dataReceived := False\<rparr>) s) = Some s'" "settled None s'"
    by (rule received_settled [OF settled p])
  obtain v where v: "previous_data p s 0xFF = Some v" by (rule previous_data_returns [OF seated p])
  obtain u where u: "previous_data p s 0xFFFFFFFF = Some u" by (rule previous_data_returns [OF seated p])
  show "keeps (\<lambda>s. map_option snd (DriverFinishMultiplayer ops data d s)) s"
    using linked p s' settled by (cases "transferMode s = GBA_SIO_MULTI") (auto simp: keeps_def DriverFinishMultiplayer_def Let_def)
  show "keeps (\<lambda>s. map_option snd (DriverFinishNormal8 ops d s)) s"
    using linked p s' settled v by (cases "transferMode s = GBA_SIO_NORMAL_8") (auto simp: keeps_def DriverFinishNormal8_def Let_def)
  show "keeps (\<lambda>s. map_option snd (DriverFinishNormal32 ops d s)) s"
    using linked p s' settled u by (cases "transferMode s = GBA_SIO_NORMAL_32") (auto simp: keeps_def DriverFinishNormal32_def Let_def)
qed

lemma reset_schedule_returns:
  assumes settled: "settled None s" and p: "lookup pid s = Some p"
  obtains s' where "reset_schedule ops d pid s = Some s'" "watch s' = watch s"
proof (cases "mTimingIsScheduled ops Lockstep_Event (timing (machine_of d s))")
  case True
  with that show thesis by (simp add: reset_schedule_def)
next
  case False
  have seated: "seated None s" using settled by (simp add: settled_def)
  obtain s1 p1 where s1: "setReady ops pid (playerId p) (mode p) s = Some s1" "watch s1 = watch s" "lookup pid s1 = Some p1"
    by (rule setReady_returns [OF seated p seated_number(1,2) [OF seated p]])
  have one: "seated None s1" using seated_view [OF s1(2)] seated by simp
  have zero: "(0::int) < int (nAttached s1)" using seated_bounds [OF one] by simp
  obtain s2 p2 where s2: "setReady ops pid 0 (transferMode s1) s1 = Some s2" "watch s2 = watch s1" "lookup pid s2 = Some p2"
    by (rule setReady_returns [OF one s1(3) order_refl zero])
  obtain n where n: "untilNextSync ops pid s2 = Some n" using untilNextSync_returns [OF s2(3)] by blast
  show thesis
  proof (cases "length (players s1) = 1")
    case True
    with False p s1 that show thesis by (simp add: reset_schedule_def)
  next
    case False
    with \<open>\<not> mTimingIsScheduled ops Lockstep_Event (timing (machine_of d s))\<close> p s1 s2 n that show thesis by (simp add: reset_schedule_def)
  qed
qed

lemma DriverReset_returns:
  assumes settled: "settled None s" and plugged: "plugged d s"
  obtains s' where "DriverReset ops memory d s = Some s'" "watch s' = watch s"
proof -
  let ?pid = "lockstepId (drivers s d)"
  let ?s0 = "s\<lparr>syncArmed := False\<rparr>"
  let ?s1 = "update_player ?pid (\<lambda>p. p\<lparr>cycleOffset := cycleDelta (mTimingCurrentTime ops (timing (machine_of d ?s0))) (cycle ?s0)\<rparr>) ?s0"
  have linked: "coordinated (drivers s d)" using plugged by (simp add: plugged_def)
  obtain p where p: "lookup ?pid s = Some p" by (rule plugged_player [OF plugged])
  have seated: "seated None s" using settled by (simp add: settled_def)
  have attached: "?pid \<noteq> 0" using seated_seat [OF seated p] by (simp add: seat_ok_def)
  have w1: "watch ?s1 = watch s" by (simp add: watch_player_mode)
  have one: "settled None ?s1" using settled settled_view [OF w1] by simp
  obtain p1 where p1: "lookup ?pid ?s1 = Some p1" using p by simp
  obtain s' where s': "reset_schedule ops d ?pid ?s1 = Some s'" "watch s' = watch ?s1" by (rule reset_schedule_returns [OF one p1])
  have "DriverReset ops memory d s = Some s'" using linked p attached s'(1) by (simp add: DriverReset_def Let_def)
  with that s'(2) w1 show thesis by simp
qed

lemma DriverReset_keeps:
  assumes settled: "settled None s" and plugged: "plugged d s"
  shows "keeps (DriverReset ops memory d) s"
proof -
  obtain s' where "DriverReset ops memory d s = Some s'" "watch s' = watch s"
    by (rule DriverReset_returns [OF settled plugged])
  then show ?thesis by (rule keeps_watch [OF _ _ settled])
qed



section \<open>The group stays the same\<close>

text \<open>No callback changes how many players are attached, or the keys of the table.\<close>

definition enrolled :: "'g lockstep \<Rightarrow> nat \<times> u32 list" where
  "enrolled s = (nAttached s, map fst (players s))"

lemma enrolled_update [simp]:
  "enrolled (update_player pid f s) = enrolled s" "enrolled (update_driver d g s) = enrolled s"
  "enrolled (update_machine d h s) = enrolled s" "enrolled (stop_cpu d s) = enrolled s"
  "enrolled (s\<lparr>waiting := w\<rparr>) = enrolled s" "enrolled (s\<lparr>nextHardSync := n\<rparr>) = enrolled s"
  "enrolled (s\<lparr>transferActive := b\<rparr>) = enrolled s" "enrolled (s\<lparr>syncArmed := b\<rparr>) = enrolled s"
  "enrolled (s\<lparr>transferMode := m\<rparr>) = enrolled s" "enrolled (s\<lparr>multiData := md\<rparr>) = enrolled s"
  "enrolled (s\<lparr>highWater := n'\<rparr>) = enrolled s" "enrolled (s\<lparr>droppedEvents := u\<rparr>) = enrolled s"
  "enrolled (s\<lparr>cycle := c\<rparr>) = enrolled s"
  by (auto simp: enrolled_def update_player_def stop_cpu_def update_machine_def update_driver_def)

lemma enrolled_watch: "watch s' = watch s \<Longrightarrow> enrolled s' = enrolled s"
  by (simp add: enrolled_def watch_def)

lemma update_timing_count [simp]: "enrolled (update_timing d f s) = enrolled s"
  by (simp add: update_timing_def)

lemma setReady_count: "setReady ops pid i m s = Some s' \<Longrightarrow> enrolled s' = enrolled s"
  using setReady_watch enrolled_watch by blast

lemma setData_count: "setData i d s = Some s' \<Longrightarrow> enrolled s' = enrolled s"
  using setData_watch enrolled_watch by blast

lemma wake_count: "PlayerWake pid s = Some s' \<Longrightarrow> enrolled s' = enrolled s"
  by (auto simp: PlayerWake_def split: Option.bind_splits if_splits)

lemma sleep_count: "PlayerSleep pid s = Some s' \<Longrightarrow> enrolled s' = enrolled s"
  by (auto simp: PlayerSleep_def split: Option.bind_splits if_splits)

lemma wake_list_count: "fold_opt wake_attached is s = Some s' \<Longrightarrow> enrolled s' = enrolled s"
proof (induction "is" arbitrary: s)
  case (Cons i "is")
  then obtain s1 where s1: "wake_attached i s = Some s1" "fold_opt wake_attached is s1 = Some s'" by (auto split: Option.bind_splits)
  from s1(1) have "enrolled s1 = enrolled s" by (auto simp: wake_attached_def split: Option.bind_splits if_splits dest: wake_count)
  with Cons.IH [OF s1(2)] show ?case by simp
qed simp

lemma enqueue_for_count: "enqueue_for ops e target i (b, s) = Some (b', s') \<Longrightarrow> enrolled s' = enrolled s"
proof -
  assume run: "enqueue_for ops e target i (b, s) = Some (b', s')"
  have "enrolled s5 = enrolled s4" if "rescheduleForQueueHead ops pid s4 = Some s5" for pid and s4 s5 :: "'a lockstep"
    using reschedule_watch [OF that] enrolled_watch by blast
  with run show ?thesis
    by (auto simp: enqueue_for_def Let_def split: Option.bind_splits option.splits if_splits)
qed

lemma enqueue_list_count: "fold_opt (enqueue_for ops e target) is st = Some (b', s') \<Longrightarrow> enrolled s' = enrolled (snd st)"
proof (induction "is" arbitrary: st)
  case (Cons i "is")
  obtain b s where st: "st = (b, s)" by fastforce
  from Cons.prems st obtain b1 s1 where one: "enqueue_for ops e target i (b, s) = Some (b1, s1)"
    "fold_opt (enqueue_for ops e target) is (b1, s1) = Some (b', s')" by (auto split: Option.bind_splits)
  with Cons.IH [OF one(2)] enqueue_for_count [OF one(1)] st show ?case by simp
qed auto

lemma enqueue_count: "enqueueEvent ops e target s = Some (b', s') \<Longrightarrow> enrolled s' = enrolled s"
  unfolding enqueueEvent_def by (drule enqueue_list_count) (simp only: snd_conv)

lemma advance_count: "advanceCycle ops pid s = Some s' \<Longrightarrow> enrolled s' = enrolled s"
  using advanceCycle_watch enrolled_watch by blast

lemma wait_count: "WaitOnPlayers ops pid s = Some s' \<Longrightarrow> enrolled s' = enrolled s"
proof -
  assume run: "WaitOnPlayers ops pid s = Some s'"
  show ?thesis
  proof (cases "nAttached s < 2")
    case True
    with run show ?thesis by (auto simp: WaitOnPlayers_def split: Option.bind_splits if_splits)
  next
    case False
    with run obtain s1 w s2 where "advanceCycle ops pid s = Some s1" "PlayerSleep pid (s1\<lparr>waiting := w\<rparr>) = Some s2"
      "fold_opt wake_attached [1..<nAttached s2] s2 = Some s'"
      by (auto simp: WaitOnPlayers_def WakePlayers_def split: Option.bind_splits if_splits)
    from advance_count [OF this(1)] sleep_count [OF this(2)] wake_list_count [OF this(3)] show ?thesis by simp
  qed
qed

lemma hardSync_count: "hardSync ops pid s = Some s' \<Longrightarrow> enrolled s' = enrolled s"
  by (auto simp: hardSync_def split: Option.bind_splits if_splits dest!: enqueue_count wait_count)

lemma ack_count: "AckPlayer pid s = Some s' \<Longrightarrow> enrolled s' = enrolled s"
proof -
  assume run: "AckPlayer pid s = Some s'"
  have "enrolled s2 = enrolled s1" if "fold_opt set_received is s1 = Some s2" for "is" and s1 s2 :: "'a lockstep"
    using all_received_watch [OF that] enrolled_watch by blast
  with run show ?thesis
    by (auto simp: AckPlayer_def Let_def split: Option.bind_splits if_splits dest!: sleep_count wake_count)
qed

lemma receive_event_count: "receive_event ops pid late e (n, w, s) = Some (n', w', s') \<Longrightarrow> enrolled s' = enrolled s"
  by (auto simp: receive_event_def receive_attach_def receive_transfer_def receive_mode_def receive_detach_def Let_def
      split: event_type.splits Option.bind_splits if_splits dest!: setReady_count setData_count enqueue_count ack_count)

lemma receive_due_count: "receive_due turns ops pid late (n, w, s) = Some (n', w', s') \<Longrightarrow> enrolled s' = enrolled s"
proof (induction turns arbitrary: n w s)
  case (Suc turns)
  then show ?case
    by (auto split: Option.bind_splits list.splits if_splits dest!: receive_event_count)
qed simp

lemma bind_SomeE:
  assumes "Option.bind m f = Some r"
  obtains x where "m = Some x" "f x = Some r"
  using assms by (cases m) auto

lemma own_clock_count: "own_clock ops pid s = Some s' \<Longrightarrow> enrolled s' = enrolled s"
proof -
  assume run: "own_clock ops pid s = Some s'"
  then obtain p where p: "lookup pid s = Some p" by (auto simp: own_clock_def split: Option.bind_splits)
  show ?thesis
  proof (cases "playerId p \<noteq> 0 \<or> cycleDelta (lockstep_time ops p s) (cycle s) < 0")
    case True
    with run p show ?thesis by (simp add: own_clock_def)
  next
    case False
    let ?rest = "\<lambda>s2. if syncArmed s2 \<and> nextHardSync s2 < 0
        then do {
          s3 \<leftarrow> (if waiting s2 = 0 then hardSync ops pid s2 else Some s2);
          Some (s3\<lparr>nextHardSync := delayAddSaturated (nextHardSync s3) HARD_SYNC_INTERVAL\<rparr>)
        } else Some s2"
    have "own_clock ops pid s = do {
        s1 \<leftarrow> advanceCycle ops pid s; s2 \<leftarrow> (if \<not> transferActive s1 then WakePlayers s1 else Some s1); ?rest s2 }"
      using p False unfolding own_clock_def by simp
    with run have all: "do {
        s1 \<leftarrow> advanceCycle ops pid s; s2 \<leftarrow> (if \<not> transferActive s1 then WakePlayers s1 else Some s1); ?rest s2 } = Some s'"
      by (simp only:)
    obtain s1 where s1: "advanceCycle ops pid s = Some s1"
      and later: "do { s2 \<leftarrow> (if \<not> transferActive s1 then WakePlayers s1 else Some s1); ?rest s2 } = Some s'"
      by (rule bind_SomeE [OF all])
    obtain s2 where s2: "(if \<not> transferActive s1 then WakePlayers s1 else Some s1) = Some s2" and rest: "?rest s2 = Some s'"
      by (rule bind_SomeE [OF later])
    have "enrolled s2 = enrolled s1"
      using s2 wake_list_count [of "[1..<nAttached s1]" s1 s2] by (cases "transferActive s1") (simp_all add: WakePlayers_def)
    moreover have "enrolled s' = enrolled s2"
      using rest hardSync_count [of ops pid s2] by (cases "waiting s2 = 0") (auto split: if_splits Option.bind_splits)
    ultimately show ?thesis using advance_count [OF s1] by simp
  qed
qed

lemma lockstepEvent_count: "lockstepEvent ops late d s = Some s' \<Longrightarrow> enrolled s' = enrolled s"
  by (auto simp: lockstepEvent_def Let_def split: Option.bind_splits if_splits
      dest!: own_clock_count receive_due_count sleep_count)

lemma DriverSetMode_count: "DriverSetMode ops m d s = Some s' \<Longrightarrow> enrolled s' = enrolled s"
  by (auto simp: DriverSetMode_def Let_def split: Option.bind_splits if_splits dest!: setReady_count enqueue_count wait_count)

lemma DriverStart_count: "DriverStart ops d s = Some (b, s') \<Longrightarrow> enrolled s' = enrolled s"
  by (auto simp: DriverStart_def Let_def split: Option.bind_splits if_splits dest!: setData_count enqueue_count wait_count)

lemma finish_count: "finish_barrier ops pid s = Some s' \<Longrightarrow> enrolled s' = enrolled s"
  by (auto simp: finish_barrier_def split: Option.bind_splits if_splits dest!: hardSync_count)

lemma DriverFinish_count:
  "DriverFinishMultiplayer ops data d s = Some (x, s') \<Longrightarrow> enrolled s' = enrolled s"
  "DriverFinishNormal8 ops d s = Some (y, s') \<Longrightarrow> enrolled s' = enrolled s"
  "DriverFinishNormal32 ops d s = Some (z, s') \<Longrightarrow> enrolled s' = enrolled s"
  by (auto simp: DriverFinishMultiplayer_def DriverFinishNormal8_def DriverFinishNormal32_def Let_def
      split: Option.bind_splits if_splits dest!: finish_count)

end
