(* ===== verification/Lockstep_Attach.thy ===== *)
theory Lockstep_Attach
  imports Lockstep_Sync "HOL-Library.Multiset"
begin

text \<open>
  Attaching the two drivers of a pair. Whatever order the player table iterates in, the machines get
  the numbers 0 and 1, and the group that results is settled.
\<close>


section \<open>Numbers for players\<close>

text \<open>What the code relies on of the table: an iteration visits every entry once.\<close>

definition iterates :: "'g mgba \<Rightarrow> bool" where
  "iterates ops \<longleftrightarrow> (\<forall>ks. mset (table_iteration ops ks) = mset ks)"

lemma iterates_one: "iterates ops \<Longrightarrow> table_iteration ops [k] = [k]"
  unfolding iterates_def by (metis mset_single_iff_right mset.simps(1) mset.simps(2))

lemma iterates_two: "iterates ops \<Longrightarrow> table_iteration ops [k, j] = [k, j] \<or> table_iteration ops [k, j] = [j, k]"
proof -
  assume "iterates ops"
  then have "mset (table_iteration ops [k, j]) = {#k, j#}" by (simp add: iterates_def)
  then show ?thesis
    by (cases "table_iteration ops [k, j]"; cases "tl (table_iteration ops [k, j])"; cases "tl (tl (table_iteration ops [k, j]))")
      (auto simp: add_eq_conv_ex)
qed

definition plain_player :: "player \<Rightarrow> bool" where
  "plain_player p \<longleftrightarrow> length (otherModes p) = MAX_GBAS \<and> \<not> asleep p \<and> queue p = [] \<and> queueDepth p = 0 \<and>
     freeList p = DUALBOY_MAX_LOCKSTEP_EVENTS"

text \<open>A driver of machine \<open>m\<close> that is attached to the coordinator and whose machine is not blocked.\<close>

definition fresh_driver :: "nat \<Rightarrow> u32 \<Rightarrow> 'g driver \<Rightarrow> bool" where
  "fresh_driver m k d \<longleftrightarrow> coordinated d \<and> lockstepId d = k \<and> machine_index (user d) = m \<and> \<not> blocked (user d)"

text \<open>The group after the first driver has been plugged in.\<close>

definition one_attached :: "'g lockstep \<Rightarrow> bool" where
  "one_attached s \<longleftrightarrow> map fst (players s) = [1] \<and>
     (\<exists>p. lookup 1 s = Some p \<and> plain_player p \<and> driver p = 0 \<and> playerId p = 0) \<and>
     nextId s = 1 \<and> nAttached s = 1 \<and> length (attachedPlayers s) = 4 \<and> waiting s = 0 \<and>
     length (multiData s) = 4 \<and> length (normalData s) = 4 \<and>
     fresh_driver 0 1 (drivers s 0) \<and> fresh_driver 1 0 (drivers s 1)"

lemma sort_two:
  assumes "lookup 1 s = Some p" "lookup 2 s = Some q" "length (attachedPlayers s) = 4"
  shows "sort_players [[1], [2], [], []] s =
    update_player 2 (\<lambda>p. p\<lparr>playerId := 1\<rparr>) (update_player 1 (\<lambda>p. p\<lparr>playerId := 0\<rparr>)
      (s\<lparr>attachedPlayers := (attachedPlayers s)[0 := 1, 1 := 2]\<rparr>))"
proof -
  have order: "concat (map (\<lambda>i. [0..<Suc i]) [0..<MAX_GBAS]) = [0, 0, 1, 0, 1, 2, 0, 1, 2, 3]"
    by (simp add: MAX_GBAS_def upt_rec)
  have first: "assign_ids [1] (0, s) = ([], 1, update_player 1 (\<lambda>p. p\<lparr>playerId := 0\<rparr>) (s\<lparr>attachedPlayers := (attachedPlayers s)[0 := 1]\<rparr>))"
    using assms by (simp add: MAX_GBAS_def)
  have second: "assign_ids [2] (Suc 0, update_player 1 (\<lambda>p. p\<lparr>playerId := 0\<rparr>) (s\<lparr>attachedPlayers := (attachedPlayers s)[0 := 1]\<rparr>)) =
     ([], 2, update_player 2 (\<lambda>p. p\<lparr>playerId := 1\<rparr>) ((update_player 1 (\<lambda>p. p\<lparr>playerId := 0\<rparr>)
       (s\<lparr>attachedPlayers := (attachedPlayers s)[0 := 1]\<rparr>))\<lparr>attachedPlayers := (attachedPlayers s)[0 := 1, 1 := 2]\<rparr>))"
    using assms by (simp add: MAX_GBAS_def)
  show ?thesis
    unfolding sort_players_def order
    using first second by (simp add: assign_slot_def) (simp add: update_player_def)
qed


text \<open>\<open>reset_schedule\<close> leaves the watched part alone whenever it returns; it returns for seated players.\<close>

lemma untilNextSync_none: "untilNextSync ops pid s \<noteq> None \<or> lookup pid s = None"
  using untilNextSync_returns by fastforce

lemma reset_schedule_watch:
  assumes "reset_schedule ops d pid s = Some s'"
  shows "watch s' = watch s"
proof (cases "mTimingIsScheduled ops Lockstep_Event (timing (machine_of d s))")
  case True
  with assms show ?thesis by (simp add: reset_schedule_def)
next
  case False
  with assms obtain p s1 where s1: "lookup pid s = Some p" "setReady ops pid (playerId p) (mode p) s = Some s1"
    by (auto simp: reset_schedule_def split: Option.bind_splits)
  show ?thesis
  proof (cases "length (players s1) = 1")
    case True
    with assms s1 False setReady_watch [OF s1(2)] show ?thesis by (auto simp: reset_schedule_def)
  next
    case other: False
    with assms s1 False obtain s2 n where s2: "setReady ops pid 0 (transferMode s1) s1 = Some s2" "untilNextSync ops pid s2 = Some n"
      "s' = update_timing d (mTimingSchedule ops Lockstep_Event (sanitizeDelay n)) s2"
      by (auto simp: reset_schedule_def split: Option.bind_splits if_splits)
    with setReady_watch [OF s1(2)] setReady_watch [OF s2(1)] show ?thesis by simp
  qed
qed

lemma count_two:
  assumes "attachedPlayers s = [1, 2, 0, 0]" "lookup 1 s \<noteq> None" "lookup 2 s \<noteq> None"
  shows "fold count_attached [0..<MAX_GBAS] (0, s) = (2, s)"
proof -
  have order: "[0..<MAX_GBAS] = [0, 1, 2, 3]" by (simp add: MAX_GBAS_def upt_rec)
  show ?thesis unfolding order using assms by (simp add: count_attached_def)
qed

lemma reconfig_two:
  assumes keys: "map fst (players s) = [1, 2]" and iter: "iterates ops"
    and p: "lookup 1 s = Some p" "lookup 2 s = Some q"
    and wish: "machine_index (user (drivers s (driver p))) = 0" "machine_index (user (drivers s (driver q))) = 1"
  shows "reconfigPlayers ops s = Some (update_player 2 (\<lambda>p. p\<lparr>playerId := 1\<rparr>) (update_player 1 (\<lambda>p. p\<lparr>playerId := 0\<rparr>)
      (s\<lparr>attachedPlayers := [1, 2, 0, 0], nAttached := 2\<rparr>)))"
proof -
  let ?s1 = "s\<lparr>attachedPlayers := replicate MAX_GBAS 0\<rparr>"
  have two: "length (players s) = 2" using arg_cong [OF keys, of length] by simp
  have prefs: "collect_preferences (table_iteration ops [1, 2]) 0 ?s1 (replicate MAX_GBAS []) = Some [[1], [2], [], []]"
    using iterates_two [OF iter, of 1 2] p wish
    by (auto simp: lockstep_requested_id_def MAX_GBAS_def numeral_eq_Suc)
  have sorted: "sort_players [[1], [2], [], []] ?s1 = update_player 2 (\<lambda>p. p\<lparr>playerId := 1\<rparr>) (update_player 1 (\<lambda>p. p\<lparr>playerId := 0\<rparr>)
      (s\<lparr>attachedPlayers := [1, 2, 0, 0]\<rparr>))"
    using sort_two [of ?s1 p q] p by (simp add: MAX_GBAS_def numeral_eq_Suc)
  have count: "fold count_attached [0..<MAX_GBAS] (0, sort_players [[1], [2], [], []] ?s1) = (2, sort_players [[1], [2], [], []] ?s1)"
    by (rule count_two) (use p sorted in simp_all)
  show ?thesis
    unfolding reconfigPlayers_def Let_def keys
    using two prefs count sorted by (simp add: update_player_def)
qed

text \<open>The state before the second player announces itself.\<close>

lemma pair_settled:
  assumes "nAttached s = 2" "attachedPlayers s = [1, 2, 0, 0]" "waiting s = 0" "length (multiData s) = 4" "length (normalData s) = 4"
    and "map fst (players s) = [1, 2]" "lookup 1 s = Some p" "lookup 2 s = Some q"
    and "plain_player p" "driver p = 0" "playerId p = 0" "plain_player q" "driver q = 1" "playerId q = 1"
    and "fresh_driver 0 1 (drivers s 0)" "fresh_driver 1 2 (drivers s 1)"
  shows "settled None s"
proof -
  have only: "k = 1 \<or> k = 2" if "lookup k s = Some r" for k r
    using that assms(6) by (auto simp: lookup_def dest!: map_of_SomeD)
  have "seat_ok None s k r" if "lookup k s = Some r" for k r
    using only [OF that] that assms
    by (auto simp: seat_ok_def plain_player_def fresh_driver_def accounted_queue_def pending_def)
  moreover have "\<exists>r. lookup (attachedPlayers s ! i) s = Some r \<and> playerId r = int i" if "i < nAttached s" for i
    using that assms by (auto simp: less_2_cases_iff)
  ultimately have "seated None s" using assms by (simp add: seated_def MAX_GBAS_def)
  moreover have "barrier None s" using assms(3) by (simp add: barrier_def owes_def)
  moreover have "\<not> primary_asleep s" using assms by (simp add: primary_asleep_def plain_player_def)
  ultimately show ?thesis by (simp add: settled_def)
qed


definition frame where
  "frame s = (map fst (players s), nextId s, (\<lambda>d. user (drivers s d)))"

lemma frame_update [simp]:
  "frame (update_player pid f s) = frame s" "frame (update_machine d g s) = frame s" "frame (update_timing d h s) = frame s"
  "frame (s\<lparr>cycle := c\<rparr>) = frame s"
  by (auto simp: frame_def update_player_def update_timing_def update_machine_def update_driver_def fun_eq_iff)

lemma setReady_frame: "setReady ops pid i m s = Some s' \<Longrightarrow> frame s' = frame s"
  by (auto simp: setReady_def Let_def split: Option.bind_splits if_splits)

lemma reset_schedule_frame:
  assumes "reset_schedule ops d pid s = Some s'"
  shows "frame s' = frame s"
proof (cases "mTimingIsScheduled ops Lockstep_Event (timing (machine_of d s))")
  case True
  with assms show ?thesis by (simp add: reset_schedule_def)
next
  case False
  with assms obtain p s1 where s1: "lookup pid s = Some p" "setReady ops pid (playerId p) (mode p) s = Some s1"
    by (auto simp: reset_schedule_def split: Option.bind_splits)
  show ?thesis
  proof (cases "length (players s1) = 1")
    case True
    with assms s1 False setReady_frame [OF s1(2)] show ?thesis by (auto simp: reset_schedule_def)
  next
    case other: False
    with assms s1 False obtain s2 n where s2: "setReady ops pid 0 (transferMode s1) s1 = Some s2" "untilNextSync ops pid s2 = Some n"
      "s' = update_timing d (mTimingSchedule ops Lockstep_Event (sanitizeDelay n)) s2"
      by (auto simp: reset_schedule_def split: Option.bind_splits if_splits)
    with setReady_frame [OF s1(2)] setReady_frame [OF s2(1)] show ?thesis by simp
  qed
qed

lemma single_settled:
  assumes "nAttached s = 1" "attachedPlayers s = [1, 0, 0, 0]" "waiting s = 0" "length (multiData s) = 4" "length (normalData s) = 4"
    and "map fst (players s) = [1]" "lookup 1 s = Some p" "plain_player p" "driver p = 0" "playerId p = 0"
    and "fresh_driver 0 1 (drivers s 0)"
  shows "settled None s"
proof -
  have only: "k = 1" if "lookup k s = Some r" for k r
    using that assms(6) by (auto simp: lookup_def dest!: map_of_SomeD)
  have "seat_ok None s k r" if "lookup k s = Some r" for k r
    using only [OF that] that assms
    by (auto simp: seat_ok_def plain_player_def fresh_driver_def accounted_queue_def pending_def)
  moreover have "\<exists>r. lookup (attachedPlayers s ! i) s = Some r \<and> playerId r = int i" if "i < nAttached s" for i
    using that assms by auto
  ultimately have "seated None s" using assms by (simp add: seated_def MAX_GBAS_def)
  moreover have "barrier None s" using assms(3) by (simp add: barrier_def owes_def)
  moreover have "\<not> primary_asleep s" using assms by (simp add: primary_asleep_def plain_player_def)
  ultimately show ?thesis by (simp add: settled_def)
qed

lemma plain_watched: "watched p' = watched p \<Longrightarrow> plain_player p' = plain_player p \<and> driver p' = driver p \<and> playerId p' = playerId p"
  by (auto simp: watched_def plain_player_def)

lemma fresh_same:
  assumes "watch s' = watch s" "frame s' = frame s"
  shows "fresh_driver m k (drivers s' d) = fresh_driver m k (drivers s d)"
  using watch_driver [OF assms(1), of d] assms(2) by (simp add: fresh_driver_def frame_def fun_eq_iff)

lemma first_attached:
  assumes iter: "iterates ops" and players: "players s = []" "nextId s = 0" "waiting s = 0" "length (multiData s) = 4" "length (normalData s) = 4"
    and drivers: "fresh_driver 0 0 (drivers s 0)" "fresh_driver 1 0 (drivers s 1)"
  obtains s' where "DriverReset ops True 0 s = Some s'" "one_attached s'"
proof -
  define n where "n = new_player ops 0 (sio_mode (machine_of 0 s))"
  define now where "now = mTimingCurrentTime ops (timing (machine_of 0 s))"
  define c where "c = cycleDelta now now"
  let ?t = "\<lambda>p. s\<lparr>syncArmed := False, nextId := 1, players := [(1, p)], drivers := (drivers s)(0 := (drivers s 0)\<lparr>lockstepId := 1\<rparr>),
      attachedPlayers := [1, 0, 0, 0], cycle := now, nextHardSync := HARD_SYNC_INTERVAL,
      transferMode := (if transferActive s then transferMode s else mode p), nAttached := 1\<rparr>"
  let ?s = "?t (n\<lparr>playerId := 0, cycleOffset := c\<rparr>)"
  have order: "[0..<MAX_GBAS] = [0, 1, 2, 3]" "replicate MAX_GBAS (0 :: u32) = [0, 0, 0, 0]" by (simp_all add: MAX_GBAS_def upt_rec numeral_eq_Suc)
  have keys: "table_iteration ops [1] = [1]" by (rule iterates_one [OF iter])
  have "reconfigPlayers ops (update_driver 0 (\<lambda>dr. dr\<lparr>lockstepId := 1\<rparr>)
      (s\<lparr>syncArmed := False, nextId := 1, players := [(1, n)]\<rparr>)) = Some (?t (n\<lparr>playerId := 0\<rparr>))"
    unfolding reconfigPlayers_def order
    by (simp add: keys rd_def lookup_def update_player_def update_driver_def count_attached_def now_def n_def new_player_def)
  then have attach: "attach_player ops 0 (s\<lparr>syncArmed := False\<rparr>) = Some (1, ?s)"
    using players by (simp add: attach_player_def update_player_def update_driver_def lookup_def n_def now_def c_def new_player_def)
  have plain: "plain_player (n\<lparr>playerId := 0, cycleOffset := c\<rparr>)" "driver n = 0" by (simp_all add: plain_player_def n_def new_player_def)
  have lookup: "lookup 1 ?s = Some (n\<lparr>playerId := 0, cycleOffset := c\<rparr>)" by (simp add: lookup_def)
  have "settled None ?s"
    by (rule single_settled [where p = "n\<lparr>playerId := 0, cycleOffset := c\<rparr>"]) (use players drivers plain in \<open>auto simp: lookup_def fresh_driver_def\<close>)
  then obtain s' where s': "reset_schedule ops 0 1 ?s = Some s'" by (rule reset_schedule_returns [OF _ lookup])
  note w = reset_schedule_watch [OF s'] and fr = reset_schedule_frame [OF s']
  have "DriverReset ops True 0 s = Some s'" using attach s' drivers by (simp add: DriverReset_def fresh_driver_def)
  moreover have "one_attached s'"
  proof -
    obtain p' where p': "lookup 1 s' = Some p'" "watched (n\<lparr>playerId := 0, cycleOffset := c\<rparr>) = watched p'"
      by (rule lookup_same_view [OF w [symmetric] lookup])
    note same = plain_watched [OF p'(2)]
    have "map fst (players s') = [1]" "nextId s' = 1" using fr by (simp_all add: frame_def)
    moreover have "nAttached s' = 1" "length (attachedPlayers s') = 4" "waiting s' = 0" "length (multiData s') = 4"
      "length (normalData s') = 4" using watch_simps [OF w] players by simp_all
    moreover have "fresh_driver 0 1 (drivers s' 0)" "fresh_driver 1 0 (drivers s' 1)"
      unfolding fresh_same [OF w fr] using drivers by (auto simp: fresh_driver_def)
    ultimately show ?thesis using p'(1) same plain by (auto simp: one_attached_def)
  qed
  ultimately show thesis by (rule that)
qed


lemma posted_then_same:
  assumes "posted e accepted b t" "watch s' = watch t" "lookup k b = Some p"
  shows "\<exists>p'. lookup k s' = Some p' \<and> driver p' = driver p"
proof -
  obtain q where q: "lookup k t = Some q" "driver q = driver p" by (rule posted_lookup [OF assms(1,3)])
  obtain p' where "lookup k s' = Some p'" "watched q = watched p'" by (rule lookup_same_view [OF assms(2) [symmetric] q(1)])
  with q(2) plain_watched [of q p'] show ?thesis by auto
qed

lemma second_attached:
  assumes iter: "iterates ops" and one: "one_attached s"
  obtains s' where "DriverReset ops True 1 s = Some s'" "settled None s'" "nAttached s' = 2" "map fst (players s') = [1, 2]"
    "attachedPlayers s' = [1, 2, 0, 0]"
    "lockstepId (drivers s' 0) = 1" "lockstepId (drivers s' 1) = 2"
proof -
  obtain p where p: "lookup 1 s = Some p" "plain_player p" "driver p = 0" "playerId p = 0"
    and s: "map fst (players s) = [1]" "nextId s = 1" "waiting s = 0" "length (multiData s) = 4" "length (normalData s) = 4"
      "fresh_driver 0 1 (drivers s 0)" "fresh_driver 1 0 (drivers s 1)"
    using one unfolding one_attached_def by (elim conjE exE) (rule that)
  define n where "n = new_player ops 1 (sio_mode (machine_of 1 s))"
  let ?a = "update_driver 1 (\<lambda>dr. dr\<lparr>lockstepId := 2\<rparr>) (s\<lparr>syncArmed := False, nextId := 2, players := players s @ [(2, n)]\<rparr>)"
  have two: "length (players s) = 1" using arg_cong [OF s(1), of length] by simp
  have looked: "lookup 1 ?a = Some p" "lookup 2 ?a = Some n"
    using p(1) s(1) by (auto simp: lookup_def update_driver_def map_add_Some_iff map_of_eq_None_iff simp flip: set_map)
  have plain: "plain_player n" "driver n = 1" by (simp_all add: plain_player_def n_def new_player_def)
  let ?b = "update_player 2 (\<lambda>p. p\<lparr>playerId := 1\<rparr>) (update_player 1 (\<lambda>p. p\<lparr>playerId := 0\<rparr>) (?a\<lparr>attachedPlayers := [1, 2, 0, 0], nAttached := 2\<rparr>))"
  have keys: "map fst (players ?a) = [1, 2]" using s(1) by (simp add: update_driver_def)
  have reconfig: "reconfigPlayers ops ?a = Some ?b"
    by (rule reconfig_two [OF keys iter looked]) (use p plain s in \<open>simp_all add: fresh_driver_def\<close>)
  define c where "c = cycleDelta (mTimingCurrentTime ops (timing (machine_of 1 ?b))) (cycle ?b)"
  define b where "b = update_player 2 (\<lambda>p. p\<lparr>cycleOffset := c\<rparr>) ?b"
  have lb: "lookup 2 b = Some (n\<lparr>playerId := 1, cycleOffset := c\<rparr>)" "lookup 1 b = Some (p\<lparr>playerId := 0\<rparr>)"
    using looked by (simp_all add: b_def)
  have sb: "settled None b"
    by (rule pair_settled [where p = "p\<lparr>playerId := 0\<rparr>" and q = "n\<lparr>playerId := 1, cycleOffset := c\<rparr>"])
      (use p plain s lb keys in \<open>auto simp: b_def fresh_driver_def plain_player_def update_player_def case_prod_beta o_def\<close>)
  have seated: "seated None b" using sb by (simp add: settled_def)
  let ?e = "\<lparr>ev_type = DUALBOY_SIO_EV_ATTACH, timestamp = lockstep_time ops (n\<lparr>playerId := 1, cycleOffset := c\<rparr>) b, ev_player = 1\<rparr>"
  have nb: "nAttached b = 2" "attachedPlayers b = [1, 2, 0, 0]" by (simp_all add: b_def)
  have ok: "event_ok (nAttached b) ?e" using nb by (simp add: event_ok_def)
  obtain queued t accepted where t: "enqueueEvent ops ?e (TARGET_ALL AND NOT (2 ^ 1)) b = Some (queued, t)" "seated None t" "posted ?e accepted b t"
    by (rule enqueue_returns [OF seated ok]) blast
  have st: "settled None t" by (rule posted_settled [OF t(3,2) sb])
  obtain q where q: "lookup 2 t = Some q" using posted_lookup [OF t(3) lb(1)] by metis
  let ?z = "s\<lparr>syncArmed := False\<rparr>"
  have fresh: "fresh_id (Suc (length (players ?z))) (map fst (players ?z)) (nextId ?z) = Some 2" using s two by simp
  have reconfig_z: "reconfigPlayers ops (update_driver 1 (\<lambda>dr. dr\<lparr>lockstepId := 2\<rparr>)
      (?z\<lparr>nextId := 2, players := players ?z @ [(2, new_player ops 1 (sio_mode (machine_of 1 ?z)))]\<rparr>)) = Some ?b"
    using reconfig by (simp add: n_def)
  have attach: "attach_player ops 1 ?z = Some (2, t)"
    unfolding attach_player_def fresh Option.bind.bind_lunit reconfig_z Let_def b_def [unfolded c_def, symmetric] lb(1)
    using t(1) by (simp add: TARGET_def)
  obtain s' where s': "reset_schedule ops 1 2 t = Some s'" "watch s' = watch t" by (rule reset_schedule_returns [OF st q])
  have "DriverReset ops True 1 s = Some s'" using attach s'(1) s by (simp add: DriverReset_def fresh_driver_def)
  moreover have "settled None s'" using settled_view [OF s'(2)] st by simp
  moreover have "nAttached s' = 2" using watch_simps [OF s'(2)] t(3) nb by (simp add: posted_def)
  moreover have "map fst (players s') = [1, 2]"
  proof -
    have "map fst (players b) = [1, 2]" using keys by (simp add: b_def update_player_def case_prod_unfold o_def)
    with enqueue_count [OF t(1)] watch_simps(7) [OF s'(2)] show ?thesis by (simp add: enrolled_def)
  qed
  moreover have "attachedPlayers s' = [1, 2, 0, 0]" using watch_simps [OF s'(2)] t(3) nb by (simp add: posted_def)
  moreover have "lockstepId (drivers s' 0) = 1" "lockstepId (drivers s' 1) = 2"
  proof -
    have seatedt: "seated None s'" using calculation(2) by (simp add: settled_def)
    obtain p1 where p1: "lookup 1 s' = Some p1" "driver p1 = 0"
      using posted_then_same [OF t(3) s'(2) lb(2)] p(3) by auto
    obtain p2 where p2: "lookup 2 s' = Some p2" "driver p2 = 1"
      using posted_then_same [OF t(3) s'(2) lb(1)] plain(2) by auto
    from seated_seat [OF seatedt p1(1)] p1(2) show "lockstepId (drivers s' 0) = 1" by (simp add: seat_ok_def)
    from seated_seat [OF seatedt p2(1)] p2(2) show "lockstepId (drivers s' 1) = 2" by (simp add: seat_ok_def)
  qed
  ultimately show thesis by (rule that)
qed

end
