(* ===== verification/Lockstep_State.thy ===== *)
theory Lockstep_State
  imports Lockstep_Sync
begin

text \<open>
  The savestate of a link driver in \<open>mgba_lockstep.c\<close>. \<open>struct DualBoyGBASIOLockstepSerializedState\<close> is
  \<open>0xC70\<close> bytes of 32-bit little-endian fields and two pairs of 16-bit fields; here it is the list of its
  796 words, and a field is a word index (the byte offset the static assertions fix, divided by four).
  Validation rejects any state that would not load into a well-formed player, loading cannot fail after
  it, and a saved player of a settled group passes it and is restored.
\<close>


section \<open>Layout\<close>

definition STATE_WORDS :: nat where
  "STATE_WORDS = 796"

definition DRIVER_STATE_VERSION :: u32 where
  "DRIVER_STATE_VERSION = 2"

text \<open>The word of the first field of an event; the twelve words are timestamp, player, flags, five reserved, the union.\<close>

definition event_word :: "nat \<Rightarrow> nat" where
  "event_word i = 16 + 12 * i"

definition COORDINATOR_WORD :: nat where
  "COORDINATOR_WORD = 784"

text \<open>\<open>DECL_BITS\<close>: a field of \<open>n\<close> bits from bit \<open>a\<close>.\<close>

definition get_bits :: "nat \<Rightarrow> nat \<Rightarrow> u32 \<Rightarrow> u32" where
  "get_bits a n flags = take_bit n (drop_bit a flags)"

definition set_bits :: "nat \<Rightarrow> nat \<Rightarrow> u32 \<Rightarrow> u32 \<Rightarrow> u32" where
  "set_bits a n v flags = (flags AND NOT (push_bit a (mask n))) OR push_bit a (take_bit n v)"

abbreviation "DriverMode_bits \<equiv> get_bits 0 3"
abbreviation "NumEvents_bits \<equiv> get_bits 3 7"
abbreviation "Asleep_bit \<equiv> get_bits 10 1"
abbreviation "DataReceived_bit \<equiv> get_bits 11 1"
abbreviation "EventScheduled_bit \<equiv> get_bits 12 1"
abbreviation "PlayerMode_bits i \<equiv> get_bits (13 + 3 * i) 3"
abbreviation "SyncArmed_bit \<equiv> get_bits 25 1"
abbreviation "TransferMode_bits \<equiv> get_bits 28 3"

definition GetTransferActive :: "u32 \<Rightarrow> u32" where
  "GetTransferActive source = drop_bit 31 source AND 1"

definition SetTransferActive :: "u32 \<Rightarrow> u32 \<Rightarrow> u32" where
  "SetTransferActive source b = (source AND 0x7fffffff) OR push_bit 31 (b AND 1)"

text \<open>The \<open>j\<close>-th 16-bit field from word \<open>k\<close>.\<close>

definition load_half :: "u32 list \<Rightarrow> nat \<Rightarrow> nat \<Rightarrow> u16" where
  "load_half w k j = ucast (drop_bit (16 * (j mod 2)) (w ! (k + j div 2)))"

definition store_half :: "nat \<Rightarrow> nat \<Rightarrow> u16 \<Rightarrow> u32 list \<Rightarrow> u32 list" where
  "store_half k j v w = w[k + j div 2 := set_bits (16 * (j mod 2)) 16 (ucast v) (w ! (k + j div 2))]"


section \<open>Modes and events as numbers\<close>

fun modeEnumToInt :: "sio_mode \<Rightarrow> u32" where
  "modeEnumToInt GBA_SIO_MULTI = 1"
| "modeEnumToInt GBA_SIO_NORMAL_8 = 2"
| "modeEnumToInt GBA_SIO_NORMAL_32 = 3"
| "modeEnumToInt GBA_SIO_GPIO = 4"
| "modeEnumToInt GBA_SIO_UART = 5"
| "modeEnumToInt GBA_SIO_JOYBUS = 6"
| "modeEnumToInt GBA_SIO_NONE = 0"

definition modeIntToEnum :: "u32 \<Rightarrow> sio_mode" where
  "modeIntToEnum m = [GBA_SIO_NONE, GBA_SIO_MULTI, GBA_SIO_NORMAL_8, GBA_SIO_NORMAL_32, GBA_SIO_GPIO, GBA_SIO_UART,
     GBA_SIO_JOYBUS, GBA_SIO_NONE] ! unat (m AND 7)"

definition allZero :: "u32 list \<Rightarrow> nat \<Rightarrow> nat \<Rightarrow> bool" where
  "allZero w k n = list_all (\<lambda>i. w ! i = 0) [k..<k + n]"

definition serializedModeValid :: "u32 \<Rightarrow> bool" where
  "serializedModeValid m = (m \<le> 6)"

definition all_modes :: "sio_mode list" where
  "all_modes = [GBA_SIO_NONE, GBA_SIO_NORMAL_8, GBA_SIO_NORMAL_32, GBA_SIO_MULTI, GBA_SIO_UART, GBA_SIO_GPIO, GBA_SIO_JOYBUS]"

text \<open>An event stores the number mGBA gives its mode.\<close>

definition eventModeValid :: "'g mgba \<Rightarrow> u32 \<Rightarrow> bool" where
  "eventModeValid ops v = (v \<in> mode_value ops ` set all_modes)"

definition event_mode :: "'g mgba \<Rightarrow> u32 \<Rightarrow> sio_mode option" where
  "event_mode ops v = find (\<lambda>m. mode_value ops m = v) all_modes"

fun type_number :: "event_type \<Rightarrow> u32" where
  "type_number DUALBOY_SIO_EV_ATTACH = 0"
| "type_number DUALBOY_SIO_EV_DETACH = 1"
| "type_number DUALBOY_SIO_EV_HARD_SYNC = 2"
| "type_number (DUALBOY_SIO_EV_MODE_SET m) = 3"
| "type_number (DUALBOY_SIO_EV_TRANSFER_START f) = 4"


section \<open>Validation\<close>

definition event_valid :: "'g mgba \<Rightarrow> nat \<Rightarrow> u32 list \<Rightarrow> nat \<Rightarrow> bool" where
  "event_valid ops n w i =
     (let k = event_word i; flags = w ! (k + 2); type = get_bits 0 3 flags; who = sint (w ! (k + 1)) in
      flags AND NOT 7 = 0 \<and> allZero w (k + 3) 5 \<and> allZero w (k + 9) 3 \<and> type \<le> 4 \<and>
      (if type = 0 \<or> type = 1 \<or> type = 3 then 0 \<le> who \<and> who < int n else who = 0) \<and>
      (if type = 3 then eventModeValid ops (w ! (k + 8)) else type = 4 \<or> allZero w (k + 8) 1))"

definition ValidateState :: "'g mgba \<Rightarrow> nat \<Rightarrow> u32 list option \<Rightarrow> 'g lockstep \<Rightarrow> bool" where
  "ValidateState ops d data s =
     (case data of
        None \<Rightarrow> False
      | Some w \<Rightarrow>
          if length w \<noteq> STATE_WORDS \<or> \<not> coordinated (drivers s d) \<or> lockstepId (drivers s d) = 0 then False
          else if nAttached s < 1 \<or> nAttached s > MAX_GBAS then False
          else case lookup (lockstepId (drivers s d)) s of
            None \<Rightarrow> False
          | Some p \<Rightarrow>
              if playerId p < 0 \<or> playerId p \<ge> int (nAttached s) then False
              else if w ! 0 \<noteq> DRIVER_STATE_VERSION \<or> \<not> allZero w 2 2 \<or> \<not> allZero w 5 7 \<or> \<not> allZero w 14 2 then False
              else if w ! 12 \<noteq> word_of_int (playerId p) then False
              else let flags = w ! 1 in
              if flags AND 0x0C000000 \<noteq> 0 \<or> \<not> serializedModeValid (DriverMode_bits flags) \<or>
                 \<not> list_all (\<lambda>i. serializedModeValid (PlayerMode_bits i flags)) [0..<4] then False
              else let eventCount = unat (NumEvents_bits flags) in
              if eventCount > DUALBOY_MAX_LOCKSTEP_EVENTS then False
              else if \<not> list_all (event_valid ops (nAttached s) w) [0..<eventCount] then False
              else if playerId p = 0
              then serializedModeValid (TransferMode_bits flags) \<and> allZero w (COORDINATOR_WORD + 3) 3 \<and>
                   (let waiting_bits = w ! (COORDINATOR_WORD + 1); attachedMask = push_bit (nAttached s) 1 - 1
                    in waiting_bits AND NOT attachedMask = 0 \<and> waiting_bits AND 1 = 0)
              else flags AND 0xF2000000 = 0 \<and> allZero w COORDINATOR_WORD 12)"


section \<open>Loading\<close>

definition load_event :: "'g mgba \<Rightarrow> u32 list \<Rightarrow> nat \<Rightarrow> lockstep_event option" where
  "load_event ops w i =
     (let k = event_word i; type = get_bits 0 3 (w ! (k + 2)) in do {
        kind \<leftarrow> (if type = 0 then Some DUALBOY_SIO_EV_ATTACH
                else if type = 1 then Some DUALBOY_SIO_EV_DETACH
                else if type = 2 then Some DUALBOY_SIO_EV_HARD_SYNC
                else if type = 3 then map_option DUALBOY_SIO_EV_MODE_SET (event_mode ops (w ! (k + 8)))
                else if type = 4 then Some (DUALBOY_SIO_EV_TRANSFER_START (sint (w ! (k + 8))))
                else None);
        Some \<lparr>ev_type = kind, timestamp = sint (w ! k), ev_player = sint (w ! (k + 1))\<rparr>
      })"

fun load_events :: "'g mgba \<Rightarrow> u32 list \<Rightarrow> nat list \<Rightarrow> lockstep_event list option" where
  "load_events ops w [] = Some []"
| "load_events ops w (i # is) = do { e \<leftarrow> load_event ops w i; q \<leftarrow> load_events ops w is; Some (e # q) }"

definition load_schedule :: "'g mgba \<Rightarrow> nat \<Rightarrow> u32 list \<Rightarrow> 'g \<Rightarrow> 'g" where
  "load_schedule ops d w t =
     (let t1 = mTimingDeschedule ops Lockstep_Event t
      in if EventScheduled_bit (w ! 1) \<noteq> 0 then mTimingSchedule ops Lockstep_Event (sanitizeDelay (sint (w ! 4))) t1 else t1)"

definition load_asleep :: "u32 \<Rightarrow> bool \<Rightarrow> 'g lockstep \<Rightarrow> 'g lockstep option" where
  "load_asleep pid sleeping s = do {
     p \<leftarrow> lookup pid s;
     let s1 = (if asleep p = sleeping then s
               else update_driver (driver p)
                 (\<lambda>d. d\<lparr>user := (if sleeping then lockstep_sleep (ready s) (user d) else lockstep_wake (user d))\<rparr>) s)
     in Some (update_player pid (\<lambda>p. p\<lparr>asleep := sleeping\<rparr>) s1)
   }"

definition load_coordinator :: "u32 list \<Rightarrow> 'g lockstep \<Rightarrow> 'g lockstep" where
  "load_coordinator w s =
     (let k = COORDINATOR_WORD; flags = w ! 1 in
      s\<lparr>cycle := sint (w ! k), waiting := w ! (k + 1), nextHardSync := sint (w ! (k + 2)),
        multiData := map (load_half w (k + 6)) [0..<4], normalData := map (\<lambda>i. w ! (k + 8 + i)) [0..<4],
        transferMode := modeIntToEnum (TransferMode_bits flags), transferActive := (GetTransferActive flags \<noteq> 0),
        syncArmed := (SyncArmed_bit flags \<noteq> 0)\<rparr>)"

definition load_player :: "u32 list \<Rightarrow> player \<Rightarrow> player" where
  "load_player w p =
     (let flags = w ! 1 in
      p\<lparr>cycleOffset := sint (w ! 13), dataReceived := (DataReceived_bit flags \<noteq> 0), mode := modeIntToEnum (DriverMode_bits flags),
        otherModes := map (\<lambda>i. modeIntToEnum (PlayerMode_bits i flags)) [0..<4]\<rparr>)"

definition load_queue :: "lockstep_event list \<Rightarrow> player \<Rightarrow> player" where
  "load_queue q p = p\<lparr>queue := q, freeList := DUALBOY_MAX_LOCKSTEP_EVENTS - length q, queueDepth := length q, maxQueueDepth := length q\<rparr>"

definition LoadState :: "'g mgba \<Rightarrow> u32 list option \<Rightarrow> nat \<Rightarrow> 'g lockstep \<Rightarrow> (bool \<times> 'g lockstep) option" where
  "LoadState ops data d s =
     (if \<not> ValidateState ops d data s then Some (False, s)
      else do {
        w \<leftarrow> data;
        if w ! 0 > DRIVER_STATE_VERSION then Some (False, s)
        else let pid = lockstepId (drivers s d) in do {
          p \<leftarrow> lookup pid s;
          if sint (w ! 12) \<noteq> playerId p then Some (False, s)
          else let flags = w ! 1;
                   s1 = update_timing d (load_schedule ops d w) (update_player pid (load_player w) s) in do {
            s2 \<leftarrow> load_asleep pid (Asleep_bit flags \<noteq> 0) s1;
            q \<leftarrow> load_events ops w [0..<min (unat (NumEvents_bits flags)) DUALBOY_MAX_LOCKSTEP_EVENTS];
            let s3 = update_player pid (load_queue q) s2;
                s4 = (if length q > highWater s3 then s3\<lparr>highWater := length q\<rparr> else s3) in do {
              s5 \<leftarrow> rescheduleForQueueHead ops pid s4;
              let s6 = (if playerId p = 0 then load_coordinator w s5 else s5) in
              Some (True, update_timing d (mTimingInterrupt ops) s6)
            }
          }
        }
      })"


section \<open>Saving\<close>

fun store_event :: "'g mgba \<Rightarrow> lockstep_event \<Rightarrow> nat \<Rightarrow> u32 list \<Rightarrow> u32 list" where
  "store_event ops e i w =
     (let k = event_word i; w1 = w[k := word_of_int (timestamp e), k + 1 := word_of_int (ev_player e)];
          w2 = (case ev_type e of DUALBOY_SIO_EV_MODE_SET m \<Rightarrow> w1[k + 8 := mode_value ops m]
                | DUALBOY_SIO_EV_TRANSFER_START f \<Rightarrow> w1[k + 8 := word_of_int f] | _ \<Rightarrow> w1)
      in w2[k + 2 := set_bits 0 3 (type_number (ev_type e)) 0])"

fun store_events :: "'g mgba \<Rightarrow> lockstep_event list \<Rightarrow> nat \<Rightarrow> u32 list \<Rightarrow> u32 list" where
  "store_events ops [] i w = w"
| "store_events ops (e # q) i w = store_events ops q (Suc i) (store_event ops e i w)"

definition player_flags :: "'g mgba \<Rightarrow> bool \<Rightarrow> player \<Rightarrow> u32" where
  "player_flags ops scheduled p =
     fold (\<lambda>i. set_bits (13 + 3 * i) 3 (modeEnumToInt (otherModes p ! i))) [0..<4]
       (set_bits 12 1 (of_bool scheduled)
         (set_bits 0 3 (modeEnumToInt (mode p))
           (set_bits 11 1 (of_bool (dataReceived p)) (set_bits 10 1 (of_bool (asleep p)) 0))))"

definition store_coordinator :: "'g lockstep \<Rightarrow> u32 list \<Rightarrow> u32 list" where
  "store_coordinator s w =
     (let k = COORDINATOR_WORD;
          w1 = w[k := word_of_int (cycle s), k + 1 := waiting s, k + 2 := word_of_int (nextHardSync s)]
      in fold (\<lambda>i w. (store_half (k + 6) i (multiData s ! i) w)[k + 8 + i := normalData s ! i]) [0..<4] w1)"

definition coordinator_flags :: "'g lockstep \<Rightarrow> u32 \<Rightarrow> u32" where
  "coordinator_flags s flags =
     set_bits 25 1 (of_bool (syncArmed s))
       (SetTransferActive (set_bits 28 3 (modeEnumToInt (transferMode s)) flags) (of_bool (transferActive s)))"

text \<open>\<open>None\<close> inside: no state was written, because memory or the player was missing.\<close>

definition SaveState :: "'g mgba \<Rightarrow> bool \<Rightarrow> nat \<Rightarrow> 'g lockstep \<Rightarrow> u32 list option option" where
  "SaveState ops memory d s =
     (if \<not> coordinated (drivers s d) then None
      else if \<not> memory then Some None
      else let t = timing (machine_of d s);
               w1 = (replicate STATE_WORDS 0)[0 := DRIVER_STATE_VERSION,
                 4 := word_of_int (cycleFromBits (event_when ops Lockstep_Event t - word_of_int (mTimingCurrentTime ops t)))]
           in case lookup (lockstepId (drivers s d)) s of
             None \<Rightarrow> Some None
           | Some p \<Rightarrow>
               if length (otherModes p) \<noteq> MAX_GBAS \<or> length (multiData s) \<noteq> 4 \<or> length (normalData s) \<noteq> 4 then None
               else let w2 = w1[12 := word_of_int (playerId p), 13 := word_of_int (cycleOffset p)];
                   flags1 = player_flags ops (mTimingIsScheduled ops Lockstep_Event t) p;
                   saved = take DUALBOY_MAX_LOCKSTEP_EVENTS (queue p);
                   w3 = store_events ops saved 0 w2;
                   flags2 = set_bits 3 7 (of_nat (length saved)) flags1
               in Some (Some (if playerId p = 0 then (store_coordinator s w3)[1 := coordinator_flags s flags2] else w3[1 := flags2])))"



section \<open>Bit fields\<close>

lemma below_4: "i < 4 \<Longrightarrow> i = 0 \<or> i = 1 \<or> i = 2 \<or> i = (3 :: nat)"
  by auto

lemma get_set_same: "a + n \<le> 32 \<Longrightarrow> get_bits a n (set_bits a n v flags) = take_bit n v"
  by (rule bit_word_eqI) (auto simp: get_bits_def set_bits_def bit_simps)

lemma get_set_other: "a + n \<le> b \<or> b + m \<le> a \<Longrightarrow> get_bits a n (set_bits b m v flags) = get_bits a n flags"
  by (rule bit_word_eqI) (auto simp: get_bits_def set_bits_def bit_simps dest: bit_imp_le_length)

lemma get_transfer_other: "a + n \<le> 31 \<Longrightarrow> get_bits a n (SetTransferActive flags b) = get_bits a n flags"
proof (rule bit_word_eqI)
  fix k assume "a + n \<le> 31" "k < LENGTH(32)"
  have low: "(0x7fffffff :: u32) = mask 31" by (simp add: mask_eq_exp_minus_1)
  show "bit (get_bits a n (SetTransferActive flags b)) k = bit (get_bits a n flags) k"
    using \<open>a + n \<le> 31\<close> unfolding get_bits_def SetTransferActive_def low by (auto simp: bit_simps)
qed

lemma transfer_set_other: "b + m \<le> 31 \<Longrightarrow> GetTransferActive (set_bits b m v flags) = GetTransferActive flags"
  by (rule bit_word_eqI) (auto simp: GetTransferActive_def set_bits_def bit_simps)

lemma transfer_set_same: "GetTransferActive (SetTransferActive flags (of_bool b)) = of_bool b"
proof (rule bit_word_eqI)
  fix k assume "k < LENGTH(32)"
  have low: "(0x7fffffff :: u32) = mask 31" by (simp add: mask_eq_exp_minus_1)
  show "bit (GetTransferActive (SetTransferActive flags (of_bool b))) k = bit (of_bool b :: u32) k"
    unfolding GetTransferActive_def SetTransferActive_def low by (auto simp: bit_simps)
qed

lemma take_one_bool [simp]: "take_bit (Suc 0) (of_bool b :: u32) = of_bool b"
  by (cases b) simp_all

lemma mode_number [simp]: "take_bit 3 (modeEnumToInt m) = modeEnumToInt m" "modeEnumToInt m \<le> 6"
  by (cases m; simp add: take_bit_eq_mod)+

lemma mode_of_number [simp]: "modeIntToEnum (modeEnumToInt m) = m"
  by (cases m) (simp_all add: modeIntToEnum_def)

lemma type_number_small [simp]: "take_bit 3 (type_number t) = type_number t"
  by (cases t) (simp_all add: take_bit_eq_mod)

lemma load_half_bits: "load_half w k j = ucast (get_bits (16 * (j mod 2)) 16 (w ! (k + j div 2)))"
  by (rule bit_word_eqI) (auto simp: load_half_def get_bits_def bit_simps)

lemma half_word: "ucast (take_bit 16 (ucast v :: u32)) = (v :: u16)"
  by (rule bit_word_eqI) (auto simp: bit_simps)

lemma half_stored:
  assumes "j < 4" "i < 4" "k + 1 < length w"
  shows "load_half (store_half k i v w) k j = (if i = j then v else load_half w k j)"
proof -
  have small: "i div 2 < 2" "j div 2 < 2" using assms by auto
  show ?thesis
  proof (cases "i div 2 = j div 2")
    case False
    then show ?thesis using assms by (auto simp: load_half_def store_half_def)
  next
    case same: True
    have cell: "k + j div 2 < length w" using assms(3) small by simp
    have stored: "store_half k i v w ! (k + j div 2) = set_bits (16 * (i mod 2)) 16 (ucast v) (w ! (k + j div 2))"
      using same cell by (simp add: store_half_def)
    show ?thesis
    proof (cases "i mod 2 = j mod 2")
      case True
      with same have "i = j" by (metis div_mult_mod_eq)
      moreover have "16 * (j mod 2) + 16 \<le> 32" by presburger
      ultimately show ?thesis unfolding load_half_bits stored using half_word by (simp add: get_set_same)
    next
      case False
      then have apart: "16 * (j mod 2) + 16 \<le> 16 * (i mod 2) \<or> 16 * (i mod 2) + 16 \<le> 16 * (j mod 2)"
        by (auto simp: mod2_eq_if split: if_splits)
      show ?thesis unfolding load_half_bits stored get_set_other [OF apart] using False by auto
    qed
  qed
qed


section \<open>Stored events\<close>

definition event_cell :: "'g mgba \<Rightarrow> lockstep_event \<Rightarrow> nat \<Rightarrow> u32 \<Rightarrow> u32" where
  "event_cell ops e c old =
     (if c = 0 then word_of_int (timestamp e) else if c = 1 then word_of_int (ev_player e)
      else if c = 2 then set_bits 0 3 (type_number (ev_type e)) 0
      else if c = 8 then (case ev_type e of DUALBOY_SIO_EV_MODE_SET m \<Rightarrow> mode_value ops m
        | DUALBOY_SIO_EV_TRANSFER_START f \<Rightarrow> word_of_int f | _ \<Rightarrow> old)
      else old)"

declare store_event.simps [simp del]

lemma store_event_length [simp]: "length (store_event ops e i w) = length w"
  by (simp add: store_event.simps Let_def split: event_type.split)

lemma store_events_length [simp]: "length (store_events ops q i w) = length w"
  by (induction q arbitrary: i w) simp_all

lemma store_event_cell:
  assumes "event_word i + 12 \<le> length w" "c < 12"
  shows "store_event ops e i w ! (event_word i + c) = event_cell ops e c (w ! (event_word i + c))"
  using assms by (auto simp: store_event.simps Let_def event_cell_def nth_list_update split: event_type.split)

lemma store_event_outside:
  assumes "k < event_word i \<or> event_word (Suc i) \<le> k"
  shows "store_event ops e i w ! k = w ! k"
  using assms by (auto simp: store_event.simps Let_def event_word_def nth_list_update split: event_type.split)

lemma store_events_outside: "k < event_word i \<or> event_word (i + length q) \<le> k \<Longrightarrow> store_events ops q i w ! k = w ! k"
proof (induction q arbitrary: i w)
  case (Cons e q)
  have "k < event_word (Suc i) \<or> event_word (Suc i + length q) \<le> k" "k < event_word i \<or> event_word (Suc i) \<le> k"
    using Cons.prems by (auto simp: event_word_def)
  with Cons.IH [of "Suc i"] store_event_outside [of k i ops e w] show ?case by simp
qed simp

lemma store_events_cell:
  assumes "n < length q" "event_word (i + length q) \<le> length w" "c < 12"
  shows "store_events ops q i w ! (event_word (i + n) + c) = event_cell ops (q ! n) c (w ! (event_word (i + n) + c))"
  using assms
proof (induction q arbitrary: i n w)
  case (Cons e q)
  show ?case
  proof (cases n)
    case 0
    have "event_word i + c < event_word (Suc i)" using Cons.prems by (simp add: event_word_def)
    then have "store_events ops (e # q) i w ! (event_word i + c) = store_event ops e i w ! (event_word i + c)"
      using store_events_outside [of "event_word i + c" "Suc i" q] by simp
    with 0 store_event_cell [of i w c ops e] Cons.prems show ?thesis by (simp add: event_word_def)
  next
    case (Suc m)
    have "store_events ops (e # q) i w ! (event_word (Suc i + m) + c) =
        event_cell ops (q ! m) c (store_event ops e i w ! (event_word (Suc i + m) + c))"
      using Cons.IH [of m "Suc i" "store_event ops e i w"] Cons.prems Suc by simp
    moreover have "store_event ops e i w ! (event_word (Suc i + m) + c) = w ! (event_word (Suc i + m) + c)"
      by (rule store_event_outside) (simp add: event_word_def)
    ultimately show ?thesis using Suc by simp
  qed
qed simp

lemma allZero_iff: "allZero w k n \<longleftrightarrow> (\<forall>j < n. w ! (k + j) = 0)"
proof -
  have "set [k..<k + n] = (\<lambda>j. k + j) ` {..<n}" by (simp add: lessThan_atLeast0 add.commute)
  then show ?thesis by (auto simp: allZero_def list_all_iff)
qed

text \<open>Signed 32-bit values.\<close>

definition int32 :: "int \<Rightarrow> bool" where
  "int32 x \<longleftrightarrow> INT32_MIN \<le> x \<and> x \<le> INT32_MAX"

lemma int32_back [simp]: "int32 x \<Longrightarrow> sint (word_of_int x :: u32) = x"
  by (simp add: int32_def INT32_MIN_def INT32_MAX_def sint_sbintrunc' signed_take_bit_int_eq_self)

definition int32_event :: "lockstep_event \<Rightarrow> bool" where
  "int32_event e \<longleftrightarrow> int32 (timestamp e) \<and> (case ev_type e of DUALBOY_SIO_EV_TRANSFER_START f \<Rightarrow> int32 f | _ \<Rightarrow> True)"

text \<open>mGBA numbers its modes differently.\<close>

definition distinct_modes :: "'g mgba \<Rightarrow> bool" where
  "distinct_modes ops \<longleftrightarrow> inj (mode_value ops)"

lemma event_mode_back: "distinct_modes ops \<Longrightarrow> event_mode ops (mode_value ops m) = Some m"
  unfolding distinct_modes_def event_mode_def all_modes_def
  by (cases m) (auto simp: inj_eq)

lemma event_mode_valid [simp]: "eventModeValid ops (mode_value ops m)"
  by (cases m) (simp_all add: eventModeValid_def all_modes_def)

lemma small_int32: "0 \<le> x \<Longrightarrow> x \<le> 4 \<Longrightarrow> int32 x"
  by (simp add: int32_def INT32_MIN_def INT32_MAX_def)

lemma stored_event_loads:
  assumes cells: "\<And>c. c < 12 \<Longrightarrow> w ! (event_word i + c) = event_cell ops e c 0"
    and e: "int32_event e" "event_ok n e" "n \<le> 4" and modes: "distinct_modes ops"
  shows "load_event ops w i = Some e" "event_valid ops n w i"
proof -
  have who: "int32 (ev_player e)" using e by (auto simp: event_ok_def intro: small_int32)
  have flags: "w ! (event_word i + 2) = set_bits 0 3 (type_number (ev_type e)) 0"
    using cells [of 2] by (simp add: event_cell_def)
  have type: "get_bits 0 3 (w ! (event_word i + 2)) = type_number (ev_type e)" unfolding flags by (simp add: get_set_same)
  have rest: "w ! (event_word i + 2) AND NOT 7 = 0"
  proof -
    have seven: "(7 :: u32) = mask 3" by (simp add: mask_eq_exp_minus_1)
    show ?thesis unfolding flags seven by (rule bit_word_eqI) (auto simp: set_bits_def bit_simps simp del: type_number_small)
  qed
  have zero: "allZero w (event_word i + 3) 5" "allZero w (event_word i + 9) 3"
  proof -
    have "w ! (event_word i + (3 + j)) = 0" if "j < 5" for j using that cells [of "3 + j"] by (simp add: event_cell_def)
    then show "allZero w (event_word i + 3) 5" by (simp add: allZero_iff add.assoc)
    have "w ! (event_word i + (9 + j)) = 0" if "j < 3" for j using that cells [of "9 + j"] by (simp add: event_cell_def)
    then show "allZero w (event_word i + 9) 3" by (simp add: allZero_iff add.assoc)
  qed
  have fields: "w ! event_word i = word_of_int (timestamp e)" "w ! (event_word i + 1) = word_of_int (ev_player e)"
    using cells [of 0] cells [of 1] by (simp_all add: event_cell_def)
  have union: "w ! (event_word i + 8) = event_cell ops e 8 0" using cells [of 8] by simp
  show "load_event ops w i = Some e"
    using e who type fields union modes
    by (cases "ev_type e") (auto simp: load_event_def Let_def event_cell_def int32_event_def event_mode_back)
  show "event_valid ops n w i"
    using e who type rest zero fields union
    by (cases "ev_type e") (auto simp: event_valid_def Let_def event_cell_def event_ok_def allZero_iff)
qed



section \<open>A saved state is valid\<close>

definition saved_flags :: "'g mgba \<Rightarrow> player \<Rightarrow> 'g lockstep \<Rightarrow> nat \<Rightarrow> u32" where
  "saved_flags ops p s d =
     (let f = set_bits 3 7 (of_nat (length (queue p)))
        (player_flags ops (mTimingIsScheduled ops Lockstep_Event (timing (machine_of d s))) p)
      in if playerId p = 0 then coordinator_flags s f else f)"

lemma player_flags_unfold:
  "player_flags ops scheduled p =
     set_bits 22 3 (modeEnumToInt (otherModes p ! 3)) (set_bits 19 3 (modeEnumToInt (otherModes p ! 2))
       (set_bits 16 3 (modeEnumToInt (otherModes p ! 1)) (set_bits 13 3 (modeEnumToInt (otherModes p ! 0))
         (set_bits 12 1 (of_bool scheduled) (set_bits 0 3 (modeEnumToInt (mode p))
           (set_bits 11 1 (of_bool (dataReceived p)) (set_bits 10 1 (of_bool (asleep p)) 0)))))))"
proof -
  have four: "[0..<4] = [0, 1, 2, 3]" by (simp add: upt_rec)
  show ?thesis unfolding player_flags_def four by simp
qed

lemma get_bits_zero [simp]: "get_bits a n 0 = 0"
  by (simp add: get_bits_def)

lemma masked_zero: "flags AND push_bit a (mask n) = 0 \<longleftrightarrow> get_bits a n flags = (0 :: u32)" if "a + n \<le> 32"
proof
  assume zero: "flags AND push_bit a (mask n) = 0"
  show "get_bits a n flags = 0"
  proof (rule bit_word_eqI)
    fix k assume "k < LENGTH(32)"
    have "\<not> bit (flags AND push_bit a (mask n)) (a + k)" using zero by simp
    then show "bit (get_bits a n flags) k = bit (0 :: u32) k"
      using that by (auto simp: get_bits_def bit_simps)
  qed
next
  assume zero: "get_bits a n flags = 0"
  show "flags AND push_bit a (mask n) = 0"
  proof (rule bit_word_eqI)
    fix k assume "k < LENGTH(32)"
    have "\<not> bit (get_bits a n flags) (k - a)" using zero by simp
    then show "bit (flags AND push_bit a (mask n)) k = bit (0 :: u32) k"
      using that by (auto simp: get_bits_def bit_simps)
  qed
qed

lemma reserved_masks:
  "(0x0C000000 :: u32) = push_bit 26 (mask 2)" "(0xF2000000 :: u32) = push_bit 25 (mask 1) OR push_bit 28 (mask 4)"
  by (simp_all add: mask_eq_exp_minus_1 push_bit_eq_mult)

lemma saved_bits:
  assumes "length (queue p) \<le> 8"
  shows "DriverMode_bits (saved_flags ops p s d) = modeEnumToInt (mode p)"
    "i < 4 \<Longrightarrow> PlayerMode_bits i (saved_flags ops p s d) = modeEnumToInt (otherModes p ! i)"
    "NumEvents_bits (saved_flags ops p s d) = of_nat (length (queue p))"
    "Asleep_bit (saved_flags ops p s d) = of_bool (asleep p)"
    "DataReceived_bit (saved_flags ops p s d) = of_bool (dataReceived p)"
    "EventScheduled_bit (saved_flags ops p s d) = of_bool (mTimingIsScheduled ops Lockstep_Event (timing (machine_of d s)))"
    "get_bits 26 2 (saved_flags ops p s d) = 0"
    "playerId p \<noteq> 0 \<Longrightarrow> get_bits 25 1 (saved_flags ops p s d) = 0"
    "playerId p \<noteq> 0 \<Longrightarrow> get_bits 28 4 (saved_flags ops p s d) = 0"
    "playerId p = 0 \<Longrightarrow> SyncArmed_bit (saved_flags ops p s d) = of_bool (syncArmed s)"
    "playerId p = 0 \<Longrightarrow> TransferMode_bits (saved_flags ops p s d) = modeEnumToInt (transferMode s)"
    "playerId p = 0 \<Longrightarrow> GetTransferActive (saved_flags ops p s d) = of_bool (transferActive s)"
proof -
  have count: "take_bit 7 (of_nat (length (queue p)) :: u32) = of_nat (length (queue p))"
  proof -
    have "length (queue p) < 2 ^ 7" using assms by simp
    then have "take_bit 7 (length (queue p)) = length (queue p)" by (rule take_bit_nat_eq_self)
    then show ?thesis unfolding take_bit_of_nat by simp
  qed
  note simps = saved_flags_def player_flags_unfold coordinator_flags_def Let_def get_set_same get_set_other get_transfer_other
    transfer_set_other transfer_set_same count
  show "DriverMode_bits (saved_flags ops p s d) = modeEnumToInt (mode p)"
    "NumEvents_bits (saved_flags ops p s d) = of_nat (length (queue p))"
    "Asleep_bit (saved_flags ops p s d) = of_bool (asleep p)"
    "DataReceived_bit (saved_flags ops p s d) = of_bool (dataReceived p)"
    "EventScheduled_bit (saved_flags ops p s d) = of_bool (mTimingIsScheduled ops Lockstep_Event (timing (machine_of d s)))"
    "get_bits 26 2 (saved_flags ops p s d) = 0"
    "playerId p \<noteq> 0 \<Longrightarrow> get_bits 25 1 (saved_flags ops p s d) = 0"
    "playerId p \<noteq> 0 \<Longrightarrow> get_bits 28 4 (saved_flags ops p s d) = 0"
    "playerId p = 0 \<Longrightarrow> SyncArmed_bit (saved_flags ops p s d) = of_bool (syncArmed s)"
    "playerId p = 0 \<Longrightarrow> TransferMode_bits (saved_flags ops p s d) = modeEnumToInt (transferMode s)"
    "playerId p = 0 \<Longrightarrow> GetTransferActive (saved_flags ops p s d) = of_bool (transferActive s)"
    by (simp_all add: simps)
  show "PlayerMode_bits i (saved_flags ops p s d) = modeEnumToInt (otherModes p ! i)" if "i < 4"
  proof -
    from below_4 [OF that] show ?thesis by (elim disjE) (simp_all add: simps)
  qed
qed


text \<open>The words of a saved state.\<close>

definition saved :: "'g mgba \<Rightarrow> player \<Rightarrow> 'g lockstep \<Rightarrow> nat \<Rightarrow> u32 list \<Rightarrow> bool" where
  "saved ops p s d w \<longleftrightarrow> length w = STATE_WORDS \<and> w ! 0 = DRIVER_STATE_VERSION \<and> w ! 1 = saved_flags ops p s d \<and>
     w ! 2 = 0 \<and> w ! 3 = 0 \<and> allZero w 5 7 \<and> w ! 12 = word_of_int (playerId p) \<and> w ! 13 = word_of_int (cycleOffset p) \<and>
     w ! 14 = 0 \<and> w ! 15 = 0 \<and>
     (\<forall>i c. i < length (queue p) \<and> c < 12 \<longrightarrow> w ! (event_word i + c) = event_cell ops (queue p ! i) c 0) \<and>
     (if playerId p = 0
      then w ! 784 = word_of_int (cycle s) \<and> w ! 785 = waiting s \<and> w ! 786 = word_of_int (nextHardSync s) \<and> allZero w 787 3 \<and>
        (\<forall>j < 4. load_half w 790 j = multiData s ! j \<and> w ! (792 + j) = normalData s ! j)
      else allZero w 784 12)"

lemma halves_stored:
  assumes "length w = 796" "length m = 4" "length n = 4"
  defines "w' \<equiv> fold (\<lambda>i w. (store_half 790 i (m ! i) w)[792 + i := n ! i]) [0..<4] (w :: u32 list)"
  shows "length w' = 796" "\<And>k. k < 790 \<Longrightarrow> w' ! k = w ! k"
    "\<And>j. j < 4 \<Longrightarrow> load_half w' 790 j = m ! j" "\<And>j. j < 4 \<Longrightarrow> w' ! (792 + j) = n ! j"
proof -
  have four: "[0..<4] = [0, 1, 2, 3]" by (simp add: upt_rec)
  have len: "length (store_half k i v x) = length x" for k i v and x :: "u32 list" by (simp add: store_half_def)
  have low: "store_half 790 i v x ! k = x ! k" if "k < 790 \<or> k \<ge> 792" "i < 4" for i v k and x :: "u32 list"
  proof -
    have "i div 2 < 2" using that(2) by auto
    with that(1) show ?thesis by (auto simp: store_half_def nth_list_update)
  qed
  have kept: "load_half (x[792 + i := v]) 790 j = load_half x 790 j" if "j < 4" for x :: "u32 list" and i j v
  proof -
    have "j div 2 < 2" using that by auto
    then show ?thesis by (auto simp: load_half_def nth_list_update)
  qed
  have inside: "790 + 1 < length x" if "length x = 796" for x :: "u32 list" using that by simp
  show "length w' = 796" using assms(1) by (simp add: w'_def four len)
  show "w' ! k = w ! k" if "k < 790" for k
    using that assms(1) by (simp add: w'_def four low nth_list_update)
  show "load_half w' 790 j = m ! j" if "j < 4" for j
    using that assms(1) unfolding w'_def four
    by (simp add: kept [of _ _ 0, simplified] kept [of _ _ 1, simplified] kept [of _ _ 2, simplified] kept [of _ _ 3, simplified] half_stored len)
      (auto simp: less_Suc_eq numeral_eq_Suc)
  show "w' ! (792 + j) = n ! j" if "j < 4" for j
  proof -
    from below_4 [OF that] show ?thesis using assms(1)
      by (elim disjE) (simp_all add: w'_def four low len nth_list_update)
  qed
qed


lemma SaveState_saved:
  assumes linked: "coordinated (drivers s d)" and p: "lookup (lockstepId (drivers s d)) s = Some p"
    and sizes: "length (otherModes p) = 4" "length (multiData s) = 4" "length (normalData s) = 4" "length (queue p) \<le> 8"
  obtains w where "SaveState ops True d s = Some (Some w)" "saved ops p s d w"
proof -
  let ?t = "timing (machine_of d s)"
  define w2 where "w2 = (replicate STATE_WORDS 0)[0 := DRIVER_STATE_VERSION,
      4 := word_of_int (cycleFromBits (event_when ops Lockstep_Event ?t - word_of_int (mTimingCurrentTime ops ?t))),
      12 := word_of_int (playerId p), 13 := (word_of_int (cycleOffset p) :: u32)]"
  define w3 where "w3 = store_events ops (queue p) 0 w2"
  define w4 where "w4 = (if playerId p = 0 then store_coordinator s w3 else w3)"
  define w where "w = w4[1 := saved_flags ops p s d]"
  have all: "take DUALBOY_MAX_LOCKSTEP_EVENTS (queue p) = queue p" using sizes(4) by (simp add: DUALBOY_MAX_LOCKSTEP_EVENTS_def)
  have "SaveState ops True d s = Some (Some w)"
    using linked p sizes all
    by (simp add: SaveState_def Let_def w_def w4_def w3_def w2_def saved_flags_def MAX_GBAS_def)
  moreover have "saved ops p s d w"
  proof -
    have len2: "length w2 = 796" by (simp add: w2_def STATE_WORDS_def)
    have len3: "length w3 = 796" using len2 by (simp add: w3_def)
    have low3: "w3 ! k = w2 ! k" if "k < 16 \<or> 112 \<le> k" for k
      unfolding w3_def by (rule store_events_outside) (use that sizes(4) in \<open>simp add: event_word_def; linarith\<close>)
    have events3: "w3 ! (event_word i + c) = event_cell ops (queue p ! i) c 0" if "i < length (queue p)" "c < 12" for i c
    proof -
      have inside: "event_word (0 + length (queue p)) \<le> length w2" using sizes(4) len2 by (simp add: event_word_def)
      have "w2 ! (event_word i + c) = 0" using that sizes(4) len2 by (simp add: w2_def event_word_def nth_list_update STATE_WORDS_def)
      with store_events_cell [OF that(1) inside that(2), of ops] show ?thesis by (simp add: w3_def)
    qed
    have w3: "w3 ! 0 = DRIVER_STATE_VERSION" "w3 ! 2 = 0" "w3 ! 3 = 0" "w3 ! 12 = word_of_int (playerId p)"
      "w3 ! 13 = word_of_int (cycleOffset p)" "w3 ! 14 = 0" "w3 ! 15 = 0" "allZero w3 5 7"
      unfolding allZero_iff
      by (auto simp: low3 w2_def STATE_WORDS_def nth_list_update)
    have high3: "w3 ! k = 0" if "112 \<le> k" "k < 796" for k
      using that by (simp add: low3 w2_def STATE_WORDS_def nth_list_update)
    let ?w1 = "w3[784 := word_of_int (cycle s), 785 := waiting s, 786 := word_of_int (nextHardSync s)]"
    have len1: "length ?w1 = 796" using len3 by simp
    note halves = halves_stored [OF len1 sizes(2,3)]
    have coordinator: "store_coordinator s w3 =
        fold (\<lambda>i w. (store_half 790 i (multiData s ! i) w)[792 + i := normalData s ! i]) [0..<4] ?w1"
      by (simp add: store_coordinator_def COORDINATOR_WORD_def)
    have len4: "length w4 = 796" using len3 halves(1) by (simp add: w4_def coordinator)
    have low4: "w4 ! k = w3 ! k" if "k < 784" for k
      using that halves(2) len3 by (simp add: w4_def coordinator)
    have low: "w ! k = w3 ! k" if "k \<noteq> 1" "k < 784" for k using that low4 by (simp add: w_def)
    have head: "w ! 1 = saved_flags ops p s d" using len4 by (simp add: w_def)
    have events: "w ! (event_word i + c) = event_cell ops (queue p ! i) c 0" if "i < length (queue p)" "c < 12" for i c
      using events3 [OF that] low [of "event_word i + c"] that sizes(4) by (simp add: event_word_def)
    have "if playerId p = 0
        then w ! 784 = word_of_int (cycle s) \<and> w ! 785 = waiting s \<and> w ! 786 = word_of_int (nextHardSync s) \<and> allZero w 787 3 \<and>
          (\<forall>j < 4. load_half w 790 j = multiData s ! j \<and> w ! (792 + j) = normalData s ! j)
        else allZero w 784 12"
    proof (cases "playerId p = 0")
      case True
      then have w4: "w4 = store_coordinator s w3" by (simp add: w4_def)
      have same: "w ! k = w4 ! k" if "k \<noteq> 1" for k using that by (simp add: w_def)
      have "load_half w 790 j = load_half w4 790 j" for j by (simp add: load_half_def same)
      moreover have "w4 ! 784 = word_of_int (cycle s)" "w4 ! 785 = waiting s" "w4 ! 786 = word_of_int (nextHardSync s)"
        using halves(2) [of 784] halves(2) [of 785] halves(2) [of 786] len3 by (simp_all add: w4 coordinator)
      moreover have "w4 ! (787 + j) = 0" if "j < 3" for j
        using halves(2) [of "787 + j"] that high3 [of "787 + j"] len3 by (simp add: w4 coordinator)
      moreover have "load_half w4 790 j = multiData s ! j" "w4 ! (792 + j) = normalData s ! j" if "j < 4" for j
        using halves(3,4) [OF that] by (simp_all add: w4 coordinator)
      ultimately show ?thesis using True by (simp add: same allZero_iff)
    next
      case False
      then have "w ! (784 + j) = 0" if "j < 12" for j
        using that high3 [of "784 + j"] by (simp add: w_def w4_def)
      with False show ?thesis by (simp add: allZero_iff)
    qed
    then show ?thesis
      unfolding saved_def
      using len4 w3 low head events by (simp add: w_def STATE_WORDS_def allZero_iff)
  qed
  ultimately show thesis by (rule that)
qed

lemma settled_attached:
  assumes "settled flight s"
  shows "seated flight s" "1 \<le> nAttached s" "nAttached s \<le> 4"
  using assms seated_bounds [of flight s] by (auto simp: settled_def)

lemma waiting_fits:
  assumes "barrier flight s" "nAttached s \<le> 4"
  shows "waiting s AND NOT (push_bit (nAttached s) 1 - 1) = 0" "waiting s AND 1 = 0"
proof -
  have mask: "push_bit (nAttached s) 1 - 1 = (mask (nAttached s) :: u32)" by (simp add: mask_eq_exp_minus_1)
  have bits: "bit (waiting s) i \<Longrightarrow> 1 \<le> i \<and> i < nAttached s" for i using assms(1) by (simp add: barrier_def)
  show "waiting s AND NOT (push_bit (nAttached s) 1 - 1) = 0"
    unfolding mask by (rule bit_word_eqI) (use bits in \<open>auto simp: bit_simps\<close>)
  show "waiting s AND 1 = 0"
  proof (rule bit_word_eqI)
    fix k
    show "bit (waiting s AND 1) k = bit (0 :: u32) k" using bits [of 0] by (cases k) (auto simp: bit_simps)
  qed
qed

definition int32_player :: "player \<Rightarrow> bool" where
  "int32_player p \<longleftrightarrow> int32 (cycleOffset p) \<and> list_all int32_event (queue p)"

lemma saved_events:
  assumes "saved ops p s d w" "seat_ok None s pid p" "nAttached s \<le> 4" "int32_player p" "distinct_modes ops" "i < length (queue p)"
  shows "load_event ops w i = Some (queue p ! i)" "event_valid ops (nAttached s) w i"
proof -
  have cells: "w ! (event_word i + c) = event_cell ops (queue p ! i) c 0" if "c < 12" for c
    using assms(1,6) that by (simp add: saved_def)
  have e: "int32_event (queue p ! i)" "event_ok (nAttached s) (queue p ! i)"
    using assms(2,4,6) by (auto simp: int32_player_def seat_ok_def pending_def list_all_length)
  show "load_event ops w i = Some (queue p ! i)" by (rule stored_event_loads(1) [OF cells e assms(3,5)])
  show "event_valid ops (nAttached s) w i" by (rule stored_event_loads(2) [OF cells e assms(3,5)])
qed

lemma queue_bounded: "seat_ok None s pid p \<Longrightarrow> length (queue p) \<le> 8"
  by (auto simp: seat_ok_def accounted_queue_def pending_def DUALBOY_MAX_LOCKSTEP_EVENTS_def)

lemma saved_count:
  assumes "length (queue p) \<le> 8"
  shows "unat (NumEvents_bits (saved_flags ops p s d)) = length (queue p)"
  unfolding saved_bits(3) [OF assms] using assms by (simp add: unat_of_nat)

lemma saved_valid:
  assumes settled: "settled None s" and linked: "coordinated (drivers s d)" and p: "lookup (lockstepId (drivers s d)) s = Some p"
    and w: "saved ops p s d w" and ranges: "int32_player p" and modes: "distinct_modes ops"
  shows "ValidateState ops d (Some w) s"
proof -
  note attached = settled_attached [OF settled]
  note seat = seated_seat [OF attached(1) p]
  note few = queue_bounded [OF seat]
  note bits = saved_bits [OF few, where ops = ops and s = s and d = d]
  have flags: "w ! 1 = saved_flags ops p s d" using w by (simp add: saved_def)
  have zero26: "w ! 1 AND 0x0C000000 = 0" unfolding reserved_masks(1) flags using masked_zero [of 26 2] bits(7) by simp
  have high: "w ! 1 AND 0xF2000000 = 0" if "playerId p \<noteq> 0"
  proof -
    have "saved_flags ops p s d AND push_bit 25 (mask 1) = 0" "saved_flags ops p s d AND push_bit 28 (mask 4) = 0"
      by (rule iffD2 [OF masked_zero], simp, rule bits(8) [OF that], rule iffD2 [OF masked_zero], simp, rule bits(9) [OF that])
    then show ?thesis unfolding reserved_masks(2) flags bit.conj_disj_distrib by (simp only: or.right_neutral)
  qed
  have events: "list_all (event_valid ops (nAttached s) w) [0..<length (queue p)]"
    using saved_events(2) [OF w seat attached(3) ranges modes] by (simp add: list_all_iff)
  have bar: "barrier None s" using settled by (simp add: settled_def)
  have main: "if playerId p = 0
      then serializedModeValid (TransferMode_bits (w ! 1)) \<and> allZero w (COORDINATOR_WORD + 3) 3 \<and>
           (let waiting_bits = w ! (COORDINATOR_WORD + 1); attachedMask = push_bit (nAttached s) 1 - 1
            in waiting_bits AND NOT attachedMask = 0 \<and> waiting_bits AND 1 = 0)
      else w ! 1 AND 0xF2000000 = 0 \<and> allZero w COORDINATOR_WORD 12"
  proof (cases "playerId p = 0")
    case True
    then show ?thesis
      using w waiting_fits [OF bar attached(3)] bits(11) flags
      by (simp add: saved_def COORDINATOR_WORD_def Let_def serializedModeValid_def)
  next
    case False
    then show ?thesis using w high by (simp add: saved_def COORDINATOR_WORD_def)
  qed
  have player_modes: "list_all (\<lambda>i. serializedModeValid (PlayerMode_bits i (w ! 1))) [0..<4]"
    using bits(2) flags by (auto simp: list_all_iff serializedModeValid_def)
  have count: "unat (NumEvents_bits (w ! 1)) = length (queue p)" unfolding flags by (rule saved_count [OF few])
  have small: "\<not> DUALBOY_MAX_LOCKSTEP_EVENTS < length (queue p)" using few by (simp add: DUALBOY_MAX_LOCKSTEP_EVENTS_def)
  have words: "length w = STATE_WORDS" "w ! 0 = DRIVER_STATE_VERSION" "allZero w 5 7" "w ! 12 = word_of_int (playerId p)"
    using w by (simp_all add: saved_def)
  have reserved: "allZero w 2 2" "allZero w 14 2" using w by (simp_all add: saved_def allZero_def upt_rec)
  have mode0: "serializedModeValid (DriverMode_bits (w ! 1))" unfolding flags bits(1) by (simp add: serializedModeValid_def)
  have seatn: "\<not> playerId p < 0" "\<not> int (nAttached s) \<le> playerId p" "lockstepId (drivers s d) \<noteq> 0"
    using seat by (auto simp: seat_ok_def)
  show ?thesis
    unfolding ValidateState_def option.case Let_def p count
    using words reserved linked seatn attached zero26 mode0 player_modes small events main
    by (auto simp: MAX_GBAS_def Let_def split: if_splits)
qed



section \<open>Loading cannot fail after validation\<close>

lemma event_mode_some: "eventModeValid ops v \<Longrightarrow> \<exists>m. event_mode ops v = Some m"
  unfolding eventModeValid_def event_mode_def find_None_iff not_None_eq [symmetric] by auto

lemma valid_event_loads:
  assumes "event_valid ops n w i"
  shows "\<exists>e. load_event ops w i = Some e"
proof -
  let ?t = "get_bits 0 3 (w ! (event_word i + 2))"
  have small: "?t \<le> 4" using assms by (simp add: event_valid_def Let_def)
  have mode: "?t = 3 \<Longrightarrow> \<exists>m. event_mode ops (w ! (event_word i + 8)) = Some m"
    using assms event_mode_some by (auto simp: event_valid_def Let_def)
  have "?t = 0 \<or> ?t = 1 \<or> ?t = 2 \<or> ?t = 3 \<or> ?t = 4"
  proof -
    have "unat ?t \<le> 4" using small by (simp add: word_le_nat_alt)
    then have "unat ?t = 0 \<or> unat ?t = 1 \<or> unat ?t = 2 \<or> unat ?t = 3 \<or> unat ?t = 4" by linarith
    then show ?thesis by (simp add: word_unat_eq_iff)
  qed
  with mode show ?thesis by (auto simp: load_event_def Let_def)
qed

lemma valid_events_load:
  assumes "\<forall>i \<in> set is. event_valid ops n w i"
  shows "\<exists>q. load_events ops w is = Some q \<and> length q = length is"
  using assms by (induction "is") (auto dest!: valid_event_loads)

text \<open>What loading does to the group: one player changes, and the coordinator if it is the primary.\<close>

definition loaded_player :: "u32 list \<Rightarrow> lockstep_event list \<Rightarrow> player \<Rightarrow> player" where
  "loaded_player w q p = load_queue q ((load_player w p)\<lparr>asleep := Asleep_bit (w ! 1) \<noteq> 0\<rparr>)"

lemma ValidateState_valid:
  assumes "ValidateState ops d (Some w) s"
  obtains p where "lookup (lockstepId (drivers s d)) s = Some p" "coordinated (drivers s d)" "0 \<le> playerId p"
    "playerId p < int (nAttached s)" "nAttached s \<le> 4" "w ! 0 = DRIVER_STATE_VERSION" "w ! 12 = word_of_int (playerId p)"
    "unat (NumEvents_bits (w ! 1)) \<le> 8" "\<forall>i < unat (NumEvents_bits (w ! 1)). event_valid ops (nAttached s) w i"
  using assms by (auto simp: ValidateState_def Let_def MAX_GBAS_def DUALBOY_MAX_LOCKSTEP_EVENTS_def list_all_iff not_less
      split: if_splits option.splits)

lemma lookup_load_coordinator: "lookup k (load_coordinator w s) = lookup k s"
  by (simp add: load_coordinator_def Let_def lookup_def)

lemma LoadState_valid:
  assumes valid: "ValidateState ops d (Some w) s" and p: "lookup (lockstepId (drivers s d)) s = Some p"
  shows "\<exists>q s'. LoadState ops (Some w) d s = Some (True, s') \<and>
     load_events ops w [0..<unat (NumEvents_bits (w ! 1))] = Some q \<and> length q = unat (NumEvents_bits (w ! 1)) \<and>
     (\<forall>k. lookup k s' = (if k = lockstepId (drivers s d) then Some (loaded_player w q p) else lookup k s)) \<and>
     nAttached s' = nAttached s \<and> attachedPlayers s' = attachedPlayers s \<and>
     (\<forall>e. coordinated (drivers s' e) = coordinated (drivers s e) \<and> lockstepId (drivers s' e) = lockstepId (drivers s e)) \<and>
     (\<forall>e. e \<noteq> driver p \<longrightarrow> blocked (user (drivers s' e)) = blocked (user (drivers s e))) \<and>
     ((blocked (user (drivers s (driver p))) \<longrightarrow> asleep p) \<longrightarrow>
        blocked (user (drivers s' (driver p))) \<longrightarrow> Asleep_bit (w ! 1) \<noteq> 0) \<and>
     (if playerId p = 0
      then cycle s' = sint (w ! 784) \<and> waiting s' = w ! 785 \<and> nextHardSync s' = sint (w ! 786) \<and>
        multiData s' = map (load_half w 790) [0..<4] \<and> normalData s' = map (\<lambda>i. w ! (792 + i)) [0..<4] \<and>
        transferMode s' = modeIntToEnum (TransferMode_bits (w ! 1)) \<and> transferActive s' = (GetTransferActive (w ! 1) \<noteq> 0) \<and>
        syncArmed s' = (SyncArmed_bit (w ! 1) \<noteq> 0)
      else cycle s' = cycle s \<and> waiting s' = waiting s \<and> nextHardSync s' = nextHardSync s \<and> multiData s' = multiData s \<and>
        normalData s' = normalData s \<and> transferMode s' = transferMode s \<and> transferActive s' = transferActive s \<and>
        syncArmed s' = syncArmed s)"
proof -
  let ?pid = "lockstepId (drivers s d)"
  define n where "n = unat (NumEvents_bits (w ! 1))"
  have facts: "0 \<le> playerId p" "playerId p < 4" "w ! 0 = DRIVER_STATE_VERSION" "w ! 12 = word_of_int (playerId p)" "n \<le> 8"
    "\<forall>i \<in> set [0..<n]. event_valid ops (nAttached s) w i"
  proof -
    obtain r where r: "lookup ?pid s = Some r" "coordinated (drivers s d)" "0 \<le> playerId r" "playerId r < int (nAttached s)"
      "nAttached s \<le> 4" "w ! 0 = DRIVER_STATE_VERSION" "w ! 12 = word_of_int (playerId r)" "unat (NumEvents_bits (w ! 1)) \<le> 8"
      "\<forall>i < unat (NumEvents_bits (w ! 1)). event_valid ops (nAttached s) w i" by (rule ValidateState_valid [OF valid])
    then have "r = p" using p by simp
    with r show "0 \<le> playerId p" "playerId p < 4" "w ! 0 = DRIVER_STATE_VERSION" "w ! 12 = word_of_int (playerId p)" "n \<le> 8"
      "\<forall>i \<in> set [0..<n]. event_valid ops (nAttached s) w i" unfolding n_def by simp_all
  qed
  from valid_events_load [OF facts(6)] obtain q where q: "load_events ops w [0..<n] = Some q" "length q = n" by auto
  have who: "sint (w ! 12) = playerId p" using facts by (simp add: small_int32)
  let ?asleep = "Asleep_bit (w ! 1) \<noteq> 0"
  define s1 where "s1 = update_timing d (load_schedule ops d w) (update_player ?pid (load_player w) s)"
  have p1: "lookup ?pid s1 = Some (load_player w p)" using p by (simp add: s1_def)
  define s2 where "s2 = update_player ?pid (\<lambda>p. p\<lparr>asleep := ?asleep\<rparr>)
      (if asleep p = ?asleep then s1
       else update_driver (driver p) (\<lambda>d. d\<lparr>user := (if ?asleep then lockstep_sleep (ready s1) (user d) else lockstep_wake (user d))\<rparr>) s1)"
  have load_fields: "asleep (load_player w p) = asleep p" "driver (load_player w p) = driver p" "playerId (load_player w p) = playerId p"
    by (simp_all add: load_player_def Let_def)
  have asleep: "load_asleep ?pid ?asleep s1 = Some s2"
    using p1 load_fields by (simp add: load_asleep_def s2_def)
  define s3 where "s3 = update_player ?pid (load_queue q) s2"
  define s4 where "s4 = (if n > highWater s3 then s3\<lparr>highWater := n\<rparr> else s3)"
  have l4: "lookup k s4 = (if k = ?pid then Some (loaded_player w q p) else lookup k s)" for k
    using p by (auto simp: s4_def s3_def s2_def s1_def loaded_player_def)
  obtain s5 where s5: "rescheduleForQueueHead ops ?pid s4 = Some s5" "watch s5 = watch s4" "players s5 = players s4"
    "transferMode s5 = transferMode s4" "transferActive s5 = transferActive s4" "syncArmed s5 = syncArmed s4"
    by (rule reschedule_returns [of ?pid s4 "loaded_player w q p"]) (simp add: l4)
  have s5_more: "cycle s5 = cycle s4" "nextHardSync s5 = nextHardSync s4" "multiData s5 = multiData s4" "normalData s5 = normalData s4"
    using s5(1) by (auto simp: rescheduleForQueueHead_def Let_def update_timing_def update_machine_def update_driver_def
        split: Option.bind_splits list.splits if_splits)
  define s6 where "s6 = (if playerId p = 0 then load_coordinator w s5 else s5)"
  define s' where "s' = update_timing d (mTimingInterrupt ops) s6"
  have load: "LoadState ops (Some w) d s = Some (True, s')"
  proof -
    have "n > highWater s3 \<Longrightarrow> rescheduleForQueueHead ops ?pid (s3\<lparr>highWater := n\<rparr>) = Some s5"
      "\<not> n > highWater s3 \<Longrightarrow> rescheduleForQueueHead ops ?pid s3 = Some s5" using s5(1) by (simp_all add: s4_def)
    then show ?thesis
      using valid p facts(3) who q asleep facts(5)
      by (simp add: LoadState_def Let_def s1_def [symmetric] n_def [symmetric] s3_def [symmetric] s'_def s6_def
          DRIVER_STATE_VERSION_def min_def DUALBOY_MAX_LOCKSTEP_EVENTS_def del: One_nat_def)
  qed
  have l': "lookup k s' = (if k = ?pid then Some (loaded_player w q p) else lookup k s)" for k
    using l4 [of k] lookup_players [OF s5(3), of k] by (auto simp: s'_def s6_def lookup_load_coordinator)
  have same: "nAttached s' = nAttached s" "attachedPlayers s' = attachedPlayers s"
    using watch_simps [OF s5(2)]
    by (simp_all add: s'_def s6_def load_coordinator_def Let_def s4_def s3_def s2_def s1_def update_timing_def update_machine_def)
  have drivers: "coordinated (drivers s' e) = coordinated (drivers s4 e) \<and> lockstepId (drivers s' e) = lockstepId (drivers s4 e) \<and>
      blocked (user (drivers s' e)) = blocked (user (drivers s4 e))" for e
    using watch_driver [OF s5(2), of e] by (auto simp: s'_def s6_def load_coordinator_def Let_def update_timing_def update_machine_def)
  have drivers4: "coordinated (drivers s4 e) = coordinated (drivers s e)" "lockstepId (drivers s4 e) = lockstepId (drivers s e)"
    "e \<noteq> driver p \<Longrightarrow> blocked (user (drivers s4 e)) = blocked (user (drivers s e))"
    "(blocked (user (drivers s (driver p))) \<longrightarrow> asleep p) \<longrightarrow> blocked (user (drivers s4 (driver p))) \<longrightarrow> ?asleep" for e
    by (auto simp: s4_def s3_def s2_def s1_def update_timing_def update_machine_def lockstep_sleep_def lockstep_wake_def)
  have coordinator: "cycle s4 = cycle s" "waiting s4 = waiting s" "nextHardSync s4 = nextHardSync s" "multiData s4 = multiData s"
    "normalData s4 = normalData s" "transferMode s4 = transferMode s" "transferActive s4 = transferActive s" "syncArmed s4 = syncArmed s"
    by (simp_all add: s4_def s3_def s2_def s1_def update_timing_def update_machine_def update_driver_def update_player_def)
  show ?thesis
    using load q l' same drivers drivers4 coordinator s5 s5_more watch_simps(3) [OF s5(2)]
    unfolding n_def [symmetric]
    by (intro exI [of _ q] exI [of _ s'])
      (simp add: s'_def s6_def load_coordinator_def Let_def COORDINATOR_WORD_def update_timing_def update_machine_def update_driver_def)
qed



section \<open>A saved state is restored\<close>

text \<open>Two states of the same group: players, numbers and drivers.\<close>

definition same_seating :: "'g lockstep \<Rightarrow> 'g lockstep \<Rightarrow> bool" where
  "same_seating s t \<longleftrightarrow> nAttached t = nAttached s \<and> attachedPlayers t = attachedPlayers s \<and>
     (\<forall>k. map_option (\<lambda>p. (playerId p, driver p)) (lookup k t) = map_option (\<lambda>p. (playerId p, driver p)) (lookup k s)) \<and>
     (\<forall>d. coordinated (drivers t d) = coordinated (drivers s d) \<and> lockstepId (drivers t d) = lockstepId (drivers s d))"

lemma same_seating_lookup:
  assumes "same_seating s t" "lookup k s = Some p"
  obtains p2 where "lookup k t = Some p2" "playerId p2 = playerId p" "driver p2 = driver p"
proof -
  have "map_option (\<lambda>p. (playerId p, driver p)) (lookup k t) = Some (playerId p, driver p)"
    using assms by (simp add: same_seating_def)
  then show thesis using that by (cases "lookup k t") auto
qed

lemma ValidateState_seating:
  assumes "same_seating s t"
  shows "ValidateState ops d data t = ValidateState ops d data s"
proof -
  have eq: "nAttached t = nAttached s" "coordinated (drivers t d) = coordinated (drivers s d)"
    "lockstepId (drivers t d) = lockstepId (drivers s d)" using assms by (simp_all add: same_seating_def)
  show ?thesis
  proof (cases "lookup (lockstepId (drivers s d)) s")
    case None
    with assms have "map_option (\<lambda>p. (playerId p, driver p)) (lookup (lockstepId (drivers s d)) t) = None"
      by (simp add: same_seating_def)
    then have none: "lookup (lockstepId (drivers s d)) t = None" by simp
    show ?thesis unfolding ValidateState_def eq None none by (rule refl)
  next
    case (Some p)
    obtain p2 where p2: "lookup (lockstepId (drivers s d)) t = Some p2" "playerId p2 = playerId p" "driver p2 = driver p"
      by (rule same_seating_lookup [OF assms Some])
    show ?thesis unfolding ValidateState_def eq Some p2(1) option.case p2(2) by (rule refl)
  qed
qed

text \<open>A player as it was saved; \<open>maxQueueDepth\<close> is a diagnostic and starts again.\<close>

definition resumes :: "player \<Rightarrow> player \<Rightarrow> bool" where
  "resumes p p' \<longleftrightarrow> driver p' = driver p \<and> playerId p' = playerId p \<and> mode p' = mode p \<and> otherModes p' = otherModes p \<and>
     asleep p' = asleep p \<and> cycleOffset p' = cycleOffset p \<and> queue p' = queue p \<and> dataReceived p' = dataReceived p \<and>
     queueDepth p' = queueDepth p \<and> freeList p' = freeList p"

definition coordinator_resumes :: "'g lockstep \<Rightarrow> 'g lockstep \<Rightarrow> bool" where
  "coordinator_resumes s s' \<longleftrightarrow> cycle s' = cycle s \<and> waiting s' = waiting s \<and> nextHardSync s' = nextHardSync s \<and>
     multiData s' = multiData s \<and> normalData s' = normalData s \<and> transferMode s' = transferMode s \<and>
     transferActive s' = transferActive s \<and> syncArmed s' = syncArmed s"

lemma load_events_all:
  "(\<And>i. i \<in> set is \<Longrightarrow> load_event ops w i = Some (f i)) \<Longrightarrow> load_events ops w is = Some (map f is)"
  by (induction "is") simp_all

lemma loaded_resumes:
  assumes w: "saved ops p s d w" and seat: "seat_ok None s pid p" and ranges: "int32 (cycleOffset p)"
    and p2: "playerId p2 = playerId p" "driver p2 = driver p"
  shows "resumes p (loaded_player w (queue p) p2)"
proof -
  note few = queue_bounded [OF seat]
  note bits = saved_bits [OF few, where ops = ops and s = s and d = d]
  have flags: "w ! 1 = saved_flags ops p s d" "w ! 13 = word_of_int (cycleOffset p)" using w by (simp_all add: saved_def)
  have len: "length (otherModes p) = 4" using seat by (simp add: seat_ok_def MAX_GBAS_def)
  have "map (\<lambda>i. modeIntToEnum (PlayerMode_bits i (w ! 1))) [0..<4] = otherModes p"
    by (rule nth_equalityI) (use len bits(2) in \<open>simp_all add: flags(1) del: One_nat_def\<close>)
  moreover have "freeList p = DUALBOY_MAX_LOCKSTEP_EVENTS - length (queue p)" "queueDepth p = length (queue p)"
    using seat by (auto simp: seat_ok_def accounted_queue_def pending_def)
  ultimately show ?thesis
    using p2 bits flags ranges
    by (simp add: resumes_def loaded_player_def load_queue_def load_player_def Let_def)
qed

lemma LoadState_saved:
  assumes settled: "settled None s" and p: "lookup (lockstepId (drivers s d)) s = Some p" "coordinated (drivers s d)"
    and w: "saved ops p s d w" and ranges: "int32_player p" "playerId p = 0 \<longrightarrow> int32 (cycle s) \<and> int32 (nextHardSync s)"
    and modes: "distinct_modes ops" and seating: "same_seating s t"
  obtains t' where "LoadState ops (Some w) d t = Some (True, t')" "same_seating s t'"
    "\<exists>p'. lookup (lockstepId (drivers s d)) t' = Some p' \<and> resumes p p'"
    "\<forall>k. k \<noteq> lockstepId (drivers s d) \<longrightarrow> lookup k t' = lookup k t"
    "if playerId p = 0 then coordinator_resumes s t' else coordinator_resumes t t'"
    "\<forall>e. e \<noteq> driver p \<longrightarrow> blocked (user (drivers t' e)) = blocked (user (drivers t e))"
    "(\<forall>p2. lookup (lockstepId (drivers s d)) t = Some p2 \<longrightarrow> blocked (user (drivers t (driver p2))) \<longrightarrow> asleep p2) \<longrightarrow>
       blocked (user (drivers t' (driver p))) \<longrightarrow> asleep p"
proof -
  let ?pid = "lockstepId (drivers s d)"
  note attached = settled_attached [OF settled]
  note seat = seated_seat [OF attached(1) p(1)]
  note few = queue_bounded [OF seat]
  have flags: "w ! 1 = saved_flags ops p s d" using w by (simp add: saved_def)
  note bits = saved_bits [OF few, where ops = ops and s = s and d = d]
  have "ValidateState ops d (Some w) s" by (rule saved_valid [OF settled p(2,1) w ranges(1) modes])
  then have valid: "ValidateState ops d (Some w) t" using ValidateState_seating [OF seating] by blast
  have pid: "lockstepId (drivers t d) = ?pid" using seating by (simp add: same_seating_def)
  obtain p2 where p2: "lookup ?pid t = Some p2" "playerId p2 = playerId p" "driver p2 = driver p"
    by (rule same_seating_lookup [OF seating p(1)])
  have count: "unat (NumEvents_bits (w ! 1)) = length (queue p)" unfolding flags by (rule saved_count [OF few])
  have events: "load_events ops w [0..<length (queue p)] = Some (queue p)"
    using load_events_all [of "[0..<length (queue p)]" ops w "\<lambda>i. queue p ! i"]
      saved_events(1) [OF w seat attached(3) ranges(1) modes] by (simp add: map_nth)
  have looked: "lookup (lockstepId (drivers t d)) t = Some p2" using p2 pid by simp
  obtain q t' where load: "LoadState ops (Some w) d t = Some (True, t')" "load_events ops w [0..<unat (NumEvents_bits (w ! 1))] = Some q"
    and effect: "\<And>k. lookup k t' = (if k = ?pid then Some (loaded_player w q p2) else lookup k t)"
      "nAttached t' = nAttached t" "attachedPlayers t' = attachedPlayers t"
      "\<And>e. coordinated (drivers t' e) = coordinated (drivers t e)" "\<And>e. lockstepId (drivers t' e) = lockstepId (drivers t e)"
      "\<And>e. e \<noteq> driver p2 \<Longrightarrow> blocked (user (drivers t' e)) = blocked (user (drivers t e))"
      "(blocked (user (drivers t (driver p2))) \<longrightarrow> asleep p2) \<longrightarrow>
         blocked (user (drivers t' (driver p2))) \<longrightarrow> Asleep_bit (w ! 1) \<noteq> 0"
    and coordinator: "if playerId p2 = 0
      then cycle t' = sint (w ! 784) \<and> waiting t' = w ! 785 \<and> nextHardSync t' = sint (w ! 786) \<and>
        multiData t' = map (load_half w 790) [0..<4] \<and> normalData t' = map (\<lambda>i. w ! (792 + i)) [0..<4] \<and>
        transferMode t' = modeIntToEnum (TransferMode_bits (w ! 1)) \<and> transferActive t' = (GetTransferActive (w ! 1) \<noteq> 0) \<and>
        syncArmed t' = (SyncArmed_bit (w ! 1) \<noteq> 0)
      else cycle t' = cycle t \<and> waiting t' = waiting t \<and> nextHardSync t' = nextHardSync t \<and> multiData t' = multiData t \<and>
        normalData t' = normalData t \<and> transferMode t' = transferMode t \<and> transferActive t' = transferActive t \<and>
        syncArmed t' = syncArmed t"
    using LoadState_valid [OF valid looked] pid by auto
  have q: "q = queue p" using load(2) events count by simp
  have "resumes p (loaded_player w (queue p) p2)"
    by (rule loaded_resumes [OF w seat _ p2(2,3)]) (use ranges(1) in \<open>simp add: int32_player_def\<close>)
  then have player: "\<exists>p'. lookup ?pid t' = Some p' \<and> resumes p p'" using effect(1) q by simp
  have kept: "playerId (loaded_player w q p2) = playerId p" "driver (loaded_player w q p2) = driver p"
    using p2 by (simp_all add: loaded_player_def load_queue_def load_player_def Let_def)
  have "same_seating s t'"
    using seating effect(2-5) kept p(1) effect(1) unfolding same_seating_def by auto
  moreover have "if playerId p = 0 then coordinator_resumes s t' else coordinator_resumes t t'"
  proof (cases "playerId p = 0")
    case True
    have sizes: "length (multiData s) = 4" "length (normalData s) = 4" using seated_bounds [OF attached(1)] by simp_all
    have "map (load_half w 790) [0..<4] = multiData s" "map (\<lambda>i. w ! (792 + i)) [0..<4] = normalData s"
      by (rule nth_equalityI; use w True sizes in \<open>simp add: saved_def\<close>)+
    then show ?thesis
      using True w coordinator p2(2) ranges(2) bits(10-12) flags
      by (simp add: coordinator_resumes_def saved_def)
  next
    case False
    with coordinator p2(2) show ?thesis by (simp add: coordinator_resumes_def)
  qed
  moreover have "Asleep_bit (w ! 1) \<noteq> 0 \<longleftrightarrow> asleep p" unfolding flags bits(4) by simp
  ultimately show thesis
    using that [of t'] load(1) player effect p2 by auto
qed

end
