(* ===== verification/Mgba_Link.thy ===== *)
theory Mgba_Link
  imports Lockstep_Attach
begin

text \<open>
  The part of \<open>engines/mgba/mgba_adapter.c\<close> that owns the link: plugging the two serial drivers in and
  out, switching the link, and the cooperative loop that runs one linked frame. A core reaches the link
  only through the callbacks of its driver, so what an emulated program does is a list of such calls;
  which calls a core makes is a parameter. Every list of calls returns, and the loop never finds both
  machines blocked.
\<close>


section \<open>What a core does to the link\<close>

text \<open>
  The callbacks of a driver, and the execution of the core itself, which may change its own machine in
  any way. \<open>Loading\<close> is the flag that restoring a machine state sets around \<open>loadState\<close>. The callbacks
  that only compute an answer (\<open>handlesMode\<close>, \<open>connectedDevices\<close>, \<open>deviceId\<close>, \<open>writeSIOCNT\<close>, \<open>writeRCNT\<close>) take
  no step, and \<open>init\<close>, \<open>deinit\<close>, \<open>saveState\<close> and \<open>loadState\<close> are called by the adapter only.
\<close>

datatype 'g link_call =
    Timing_Callback u32
  | Set_Mode sio_mode
  | Start_Transfer
  | Finish_Multiplayer "u16 list"
  | Finish_Normal8
  | Finish_Normal32
  | Reset_Driver
  | Loading bool
  | Execute "'g machine \<Rightarrow> 'g machine"

fun perform :: "'g mgba \<Rightarrow> nat \<Rightarrow> 'g link_call \<Rightarrow> 'g lockstep \<Rightarrow> 'g lockstep option" where
  "perform ops d (Timing_Callback late) s = lockstepEvent ops late d s"
| "perform ops d (Set_Mode m) s = DriverSetMode ops m d s"
| "perform ops d Start_Transfer s = map_option snd (DriverStart ops d s)"
| "perform ops d (Finish_Multiplayer data) s = map_option snd (DriverFinishMultiplayer ops data d s)"
| "perform ops d Finish_Normal8 s = map_option snd (DriverFinishNormal8 ops d s)"
| "perform ops d Finish_Normal32 s = map_option snd (DriverFinishNormal32 ops d s)"
| "perform ops d Reset_Driver s = DriverReset ops True d s"
| "perform ops d (Loading b) s = Some (update_driver d (\<lambda>dr. dr\<lparr>loadingMachineState := b\<rparr>) s)"
| "perform ops d (Execute f) s = Some (update_machine d f s)"

definition perform_all :: "'g mgba \<Rightarrow> nat \<Rightarrow> 'g link_call list \<Rightarrow> 'g lockstep \<Rightarrow> 'g lockstep option" where
  "perform_all ops d calls s = fold_opt (perform ops d) calls s"

text \<open>A step of the linked pair: one of the two machines makes a call.\<close>

inductive link_step :: "'g mgba \<Rightarrow> 'g lockstep \<Rightarrow> 'g lockstep \<Rightarrow> bool" for ops where
  call: "d < DUALBOY_MACHINE_COUNT \<Longrightarrow> perform ops d c s = Some s' \<Longrightarrow> link_step ops s s'"

inductive link_run :: "'g mgba \<Rightarrow> 'g lockstep \<Rightarrow> 'g lockstep \<Rightarrow> bool" for ops where
  idle: "link_run ops s s"
| more: "link_run ops s t \<Longrightarrow> link_step ops t u \<Longrightarrow> link_run ops s u"

inductive_cases link_stepE: "link_step ops s s'"


section \<open>The linked pair\<close>

definition linked_pair :: "'g lockstep \<Rightarrow> bool" where
  "linked_pair s \<longleftrightarrow> settled None s \<and> nAttached s = DUALBOY_MACHINE_COUNT \<and> distinct (map fst (players s))"

lemma linked_pair_seated: "linked_pair s \<Longrightarrow> seated None s"
  by (simp add: linked_pair_def settled_def)

text \<open>The two players of a linked pair sit at the two drivers.\<close>

lemma linked_pair_players:
  assumes "linked_pair s"
  obtains p q where "lookup (attachedPlayers s ! 0) s = Some p" "playerId p = 0" "lookup (attachedPlayers s ! 1) s = Some q"
    "playerId q = 1" "{driver p, driver q} = {0, 1}" "seat_ok None s (attachedPlayers s ! 0) p"
    "seat_ok None s (attachedPlayers s ! 1) q"
proof -
  note seated = linked_pair_seated [OF assms]
  have two: "0 < nAttached s" "1 < nAttached s" using assms by (simp_all add: linked_pair_def)
  obtain p where p: "lookup (attachedPlayers s ! 0) s = Some p" "playerId p = int 0" "seat_ok None s (attachedPlayers s ! 0) p"
    by (rule seated_attached [OF seated two(1)])
  obtain q where q: "lookup (attachedPlayers s ! 1) s = Some q" "playerId q = int 1" "seat_ok None s (attachedPlayers s ! 1) q"
    by (rule seated_attached [OF seated two(2)])
  have "driver p < 2" "driver q < 2" using p(3) q(3) by (simp_all add: seat_ok_def)
  moreover have "attachedPlayers s ! 1 \<noteq> attachedPlayers s ! 0" using p q by auto
  then have "driver q \<noteq> driver p" by (rule seated_drivers_differ [OF seated p(1) q(1)])
  ultimately have "{driver p, driver q} = {0, 1}" by auto
  with p q that show thesis by simp
qed

lemma linked_pair_plugged:
  assumes "linked_pair s" "d < DUALBOY_MACHINE_COUNT"
  shows "plugged d s"
proof -
  obtain p q where pq: "lookup (attachedPlayers s ! 0) s = Some p" "playerId p = 0"
    "lookup (attachedPlayers s ! 1) s = Some q" "playerId q = 1" "{driver p, driver q} = {0, 1}"
    "seat_ok None s (attachedPlayers s ! 0) p" "seat_ok None s (attachedPlayers s ! 1) q"
    by (rule linked_pair_players [OF assms(1)])
  have "d \<in> {driver p, driver q}" unfolding pq(5) using assms(2) by auto
  with pq(1,3,6,7) show ?thesis by (auto simp: plugged_def seat_ok_def)
qed

text \<open>One of the machines may always run.\<close>

lemma linked_pair_runner:
  assumes "linked_pair s"
  obtains d where "d < DUALBOY_MACHINE_COUNT" "\<not> blocked (user (drivers s d))"
proof -
  obtain p q where pq: "lookup (attachedPlayers s ! 0) s = Some p" "playerId p = 0"
    "lookup (attachedPlayers s ! 1) s = Some q" "playerId q = 1" "{driver p, driver q} = {0, 1}"
    "seat_ok None s (attachedPlayers s ! 0) p" "seat_ok None s (attachedPlayers s ! 1) q"
    by (rule linked_pair_players [OF assms])
  have bar: "barrier None s" and prim: "primary_asleep s \<Longrightarrow> waiting s \<noteq> 0" using assms by (auto simp: linked_pair_def settled_def)
  show thesis
  proof (cases "asleep p")
    case False
    with pq(6) show thesis by (intro that [of "driver p"]) (auto simp: seat_ok_def)
  next
    case True
    with pq(1) prim have "waiting s \<noteq> 0" by (simp add: primary_asleep_def)
    then obtain i where i: "bit (waiting s) i" by (auto simp: bit_eq_iff)
    with bar have "1 \<le> i" "i < nAttached s" by (simp_all add: barrier_def)
    then have "i = 1" using assms by (simp add: linked_pair_def)
    with i pq(4) have "owes s q" by (simp add: owes_def)
    with bar pq(3) have "\<not> asleep q" by (auto simp: barrier_def)
    with pq(7) show thesis by (intro that [of "driver q"]) (auto simp: seat_ok_def)
  qed
qed

lemma perform_enrolled: "perform ops d c s = Some s' \<Longrightarrow> d < DUALBOY_MACHINE_COUNT \<Longrightarrow> linked_pair s \<Longrightarrow> enrolled s' = enrolled s"
proof (cases c)
  case Reset_Driver
  assume run: "perform ops d c s = Some s'" and d: "d < DUALBOY_MACHINE_COUNT" and "linked_pair s"
  then have plug: "plugged d s" and settled: "settled None s" by (auto simp: linked_pair_plugged linked_pair_def)
  obtain t where t: "DriverReset ops True d s = Some t" "watch t = watch s" by (rule DriverReset_returns [OF settled plug])
  with run Reset_Driver enrolled_watch [OF t(2)] show ?thesis by simp
qed (auto dest: lockstepEvent_count DriverSetMode_count DriverStart_count DriverFinish_count)

lemma perform_linked:
  assumes "linked_pair s" "d < DUALBOY_MACHINE_COUNT"
  obtains s' where "perform ops d c s = Some s'" "linked_pair s'"
proof -
  note plug = linked_pair_plugged [OF assms]
  have settled: "settled None s" using assms(1) by (simp add: linked_pair_def)
  have "keeps (perform ops d c) s"
  proof (cases c)
    case (Loading b)
    show ?thesis by (rule keeps_watch [OF _ watch_machine(4) settled]) (simp add: Loading)
  next
    case (Execute f)
    show ?thesis by (rule keeps_watch [OF _ watch_machine(1) settled]) (simp add: Execute)
  qed (use lockstepEvent_keeps [OF settled plug] DriverSetMode_keeps [OF settled plug] DriverStart_keeps [OF settled plug]
      DriverFinish_keeps [OF settled plug] DriverReset_keeps [OF settled plug] in \<open>simp_all add: keeps_def\<close>)
  then obtain s' where s': "perform ops d c s = Some s'" "settled None s'" by (auto simp: keeps_def)
  with perform_enrolled [OF s'(1) assms(2,1)] assms(1) that show thesis by (simp add: linked_pair_def enrolled_def)
qed

lemma perform_all_linked:
  assumes "linked_pair s" "d < DUALBOY_MACHINE_COUNT"
  obtains s' where "perform_all ops d calls s = Some s'" "linked_pair s'"
  using assms(1)
proof (induction calls arbitrary: s thesis)
  case Nil
  then show ?case by (simp add: perform_all_def)
next
  case (Cons c calls)
  obtain s1 where s1: "perform ops d c s = Some s1" "linked_pair s1" by (rule perform_linked [OF Cons.prems(2) assms(2)])
  obtain s' where "perform_all ops d calls s1 = Some s'" "linked_pair s'" by (rule Cons.IH [OF _ s1(2)])
  with s1(1) Cons.prems(1) [of s'] show ?case by (simp add: perform_all_def)
qed



section \<open>The pair and its cores\<close>

text \<open>
  The fields of \<open>struct mgba_pair\<close> that concern the link; \<open>users[i]\<close> is the user of driver \<open>i\<close>, and
  \<open>pair_ready\<close> is the field \<open>ready\<close> of the link.
\<close>

record 'g mgba_pair =
  link :: "'g lockstep"
  has_core :: "nat \<Rightarrow> bool"
  crashed :: "nat \<Rightarrow> bool"
  coordinator_initialized :: bool
  link_configured :: bool
  link_enabled :: bool

text \<open>
  The operations of \<open>struct mCore\<close>. \<open>runLoop\<close> and \<open>core_reset\<close> tell which calls the core makes from a
  state, and whether it reports a crash.
\<close>

record 'g mgba_core =
  setPeripheral :: "nat \<Rightarrow> bool \<Rightarrow> 'g lockstep \<Rightarrow> 'g lockstep option"
  core_reset :: "nat \<Rightarrow> 'g lockstep \<Rightarrow> 'g link_call list"
  runLoop :: "nat \<Rightarrow> 'g lockstep \<Rightarrow> 'g link_call list \<times> bool"
  frameCounter :: "'g machine \<Rightarrow> u32"

definition MGBA_COOPERATIVE_WATCHDOG :: nat where
  "MGBA_COOPERATIVE_WATCHDOG = 4000000"


section \<open>Switching the link\<close>

definition unblock_user :: "nat \<Rightarrow> 'g lockstep \<Rightarrow> 'g lockstep" where
  "unblock_user i = update_driver i (\<lambda>d. d\<lparr>user := (user d)\<lparr>blocked := False\<rparr>\<rparr>)"

definition unplug_machine :: "'g mgba_core \<Rightarrow> (nat \<Rightarrow> bool) \<Rightarrow> nat \<Rightarrow> 'g lockstep \<Rightarrow> 'g lockstep option" where
  "unplug_machine core present i s = (if present i then setPeripheral core i False s else Some s)"

definition detach_machine :: "'g mgba \<Rightarrow> nat \<Rightarrow> 'g lockstep \<Rightarrow> 'g lockstep option" where
  "detach_machine ops i s = do {
     s1 \<leftarrow> (if coordinated (drivers s i) then CoordinatorDetach ops i s else Some s);
     Some (unblock_user i s1)
   }"

definition detach_link :: "'g mgba \<Rightarrow> 'g mgba_core \<Rightarrow> 'g mgba_pair \<Rightarrow> 'g mgba_pair option" where
  "detach_link ops core p =
     (if \<not> coordinator_initialized p then Some (p\<lparr>link_enabled := False\<rparr>)
      else do {
        s1 \<leftarrow> fold_opt (unplug_machine core (has_core p)) [0..<DUALBOY_MACHINE_COUNT] (link p);
        s2 \<leftarrow> fold_opt (detach_machine ops) [0..<DUALBOY_MACHINE_COUNT] s1;
        Some (p\<lparr>link := CoordinatorDeinit s2, coordinator_initialized := False, link_enabled := False\<rparr>)
      })"

definition create_driver :: "nat \<Rightarrow> 'g lockstep \<Rightarrow> 'g lockstep" where
  "create_driver i s = CoordinatorAttach i (DriverCreate i \<lparr>machine_index = i, blocked = False\<rparr> s)"

text \<open>Plugging the drivers in stops at the first one that got no player.\<close>

fun plug_machines :: "'g mgba_core \<Rightarrow> nat list \<Rightarrow> 'g lockstep \<Rightarrow> (bool \<times> 'g lockstep) option" where
  "plug_machines core [] s = Some (True, s)"
| "plug_machines core (i # is) s = do {
     s1 \<leftarrow> setPeripheral core i True s;
     if lockstepId (drivers s1 i) = 0 then Some (False, s1) else plug_machines core is s1
   }"

definition attach_link :: "'g mgba \<Rightarrow> 'g mgba_core \<Rightarrow> 'g mgba_pair \<Rightarrow> (bool \<times> 'g mgba_pair) option" where
  "attach_link ops core p =
     (if \<not> ready (link p) then Some (False, p)
      else let s0 = fold create_driver [0..<DUALBOY_MACHINE_COUNT] (CoordinatorInit ops (link p)) in do {
        (plugged_in, s1) \<leftarrow> plug_machines core [0..<DUALBOY_MACHINE_COUNT] s0;
        let p1 = p\<lparr>link := s1, coordinator_initialized := True\<rparr> in
        if plugged_in then Some (True, p1\<lparr>link_enabled := True\<rparr>)
        else do { p2 \<leftarrow> detach_link ops core p1; Some (False, p2) }
      })"

text \<open>Both machines are reset, the second one first.\<close>

definition reset_core :: "'g mgba \<Rightarrow> 'g mgba_core \<Rightarrow> nat \<Rightarrow> 'g mgba_pair \<Rightarrow> 'g mgba_pair option" where
  "reset_core ops core i p = do {
     s \<leftarrow> perform_all ops i (core_reset core i (link p)) (link p);
     Some (p\<lparr>crashed := (crashed p)(i := False), link := s\<rparr>)
   }"

definition reset_cores :: "'g mgba \<Rightarrow> 'g mgba_core \<Rightarrow> 'g mgba_pair \<Rightarrow> 'g mgba_pair option" where
  "reset_cores ops core p = fold_opt (reset_core ops core) (rev [0..<DUALBOY_MACHINE_COUNT]) p"

definition mgba_set_link :: "'g mgba \<Rightarrow> 'g mgba_core \<Rightarrow> bool \<Rightarrow> 'g mgba_pair \<Rightarrow> (bool \<times> 'g mgba_pair) option" where
  "mgba_set_link ops core enabled p =
     (if \<not> ready (link p) then Some (False, p)
      else if link_configured p \<and> link_enabled p = enabled then Some (True, p)
      else do {
        p1 \<leftarrow> (if coordinator_initialized p then detach_link ops core p else Some p);
        (attached, p2) \<leftarrow> (if enabled then attach_link ops core p1 else Some (True, p1));
        if \<not> attached then Some (False, p2)
        else do {
          p3 \<leftarrow> reset_cores ops core (p2\<lparr>link_enabled := enabled\<rparr>);
          Some (True, p3\<lparr>link_configured := True\<rparr>)
        }
      })"


section \<open>A linked frame\<close>

definition machine_has_pending_link_events :: "'g mgba_pair \<Rightarrow> nat \<Rightarrow> bool" where
  "machine_has_pending_link_events p i \<longleftrightarrow>
     coordinator_initialized p \<and> link_enabled p \<and> i < DUALBOY_MACHINE_COUNT \<and> lockstepId (drivers (link p) i) \<noteq> 0 \<and>
     (case lookup (lockstepId (drivers (link p) i)) (link p) of None \<Rightarrow> False | Some q \<Rightarrow> queue q \<noteq> [])"

datatype frame_outcome = Frame_Done | Machine_Crashed nat | All_Blocked | Watchdog_Expired

text \<open>The variables of the loop: the watchdog, whether a machine ran in this turn, and which frames are done.\<close>

record 'g frame_loop =
  pair :: "'g mgba_pair"
  watchdog :: nat
  ran_any :: bool
  frame_done :: "nat \<Rightarrow> bool"

definition blocked_count :: "'g lockstep \<Rightarrow> nat" where
  "blocked_count s = length (filter (\<lambda>i. blocked (user (drivers s i))) [0..<DUALBOY_MACHINE_COUNT])"

text \<open>The turn of one machine. The second component tells whether the machines after it still run.\<close>

definition run_machine ::
  "'g mgba \<Rightarrow> 'g mgba_core \<Rightarrow> (nat \<Rightarrow> u32) \<Rightarrow> nat \<Rightarrow> nat \<Rightarrow> 'g frame_loop \<Rightarrow> ('g frame_loop \<times> bool) option" where
  "run_machine ops core start_frames n_blocked i l =
     (let p = pair l in
      if blocked (user (drivers (link p) i)) \<or>
         frame_done l i \<and> n_blocked = 0 \<and> \<not> machine_has_pending_link_events p i
      then Some (l, True)
      else let (calls, crash) = runLoop core i (link p) in do {
        s \<leftarrow> perform_all ops i calls (link p);
        let p1 = p\<lparr>link := s, crashed := (crashed p)(i := crashed p i \<or> crash)\<rparr>;
            l1 = l\<lparr>pair := p1, watchdog := watchdog l - 1, ran_any := True\<rparr>
        in if crashed p1 i then Some (l1, False)
           else let l2 = (if \<not> frame_done l1 i \<and> frameCounter core (machine_of i s) \<noteq> start_frames i
                          then l1\<lparr>frame_done := (frame_done l1)(i := True)\<rparr> else l1)
                in Some (l2, watchdog l2 \<noteq> 0)
      })"

fun run_machines ::
  "'g mgba \<Rightarrow> 'g mgba_core \<Rightarrow> (nat \<Rightarrow> u32) \<Rightarrow> nat \<Rightarrow> nat list \<Rightarrow> 'g frame_loop \<Rightarrow> (nat option \<times> 'g frame_loop) option" where
  "run_machines ops core start_frames n_blocked [] l = Some (None, l)"
| "run_machines ops core start_frames n_blocked (i # is) l = do {
     (l1, go) \<leftarrow> run_machine ops core start_frames n_blocked i l;
     if go then run_machines ops core start_frames n_blocked is l1
     else if crashed (pair l1) i then Some (Some i, l1) else Some (None, l1)
   }"

text \<open>One pass of the loop body: an outcome ends the frame.\<close>

definition frame_turn ::
  "'g mgba \<Rightarrow> 'g mgba_core \<Rightarrow> (nat \<Rightarrow> u32) \<Rightarrow> 'g frame_loop \<Rightarrow> (frame_outcome option \<times> 'g frame_loop) option" where
  "frame_turn ops core start_frames l = do {
     (crash, l1) \<leftarrow> run_machines ops core start_frames (blocked_count (link (pair l))) [0..<DUALBOY_MACHINE_COUNT]
       (l\<lparr>ran_any := False\<rparr>);
     Some (case crash of
       Some i \<Rightarrow> (Some (Machine_Crashed i), l1)
     | None \<Rightarrow>
         if \<not> ran_any l1 then (Some All_Blocked, l1)
         else if list_all (\<lambda>i. frame_done l1 i \<and> \<not> machine_has_pending_link_events (pair l1) i) [0..<DUALBOY_MACHINE_COUNT]
         then (Some Frame_Done, l1)
         else (None, l1))
   }"


lemma run_machine_watchdog:
  assumes "run_machine ops core start_frames n_blocked i l = Some (l1, go)"
  shows "watchdog l1 \<le> watchdog l" "ran_any l \<Longrightarrow> ran_any l1"
    "watchdog l \<noteq> 0 \<Longrightarrow> ran_any l1 \<Longrightarrow> ran_any l \<or> watchdog l1 < watchdog l" "go \<Longrightarrow> watchdog l \<noteq> 0 \<Longrightarrow> watchdog l1 \<noteq> 0"
  using assms by (auto simp: run_machine_def Let_def split: if_splits prod.splits Option.bind_splits)

lemma run_machines_watchdog:
  assumes "run_machines ops core start_frames n_blocked is l = Some (crash, l1)" "watchdog l \<noteq> 0"
  shows "watchdog l1 \<le> watchdog l \<and> (ran_any l1 \<longrightarrow> ran_any l \<or> watchdog l1 < watchdog l)"
  using assms
proof (induction "is" arbitrary: l)
  case (Cons i "is")
  then obtain l2 go where one: "run_machine ops core start_frames n_blocked i l = Some (l2, go)"
    and rest: "(if go then run_machines ops core start_frames n_blocked is l2
      else if crashed (pair l2) i then Some (Some i, l2) else Some (None, l2)) = Some (crash, l1)"
    by (auto split: Option.bind_splits)
  note step = run_machine_watchdog [OF one]
  show ?case
  proof (cases go)
    case True
    with rest Cons.IH [of l2] step Cons.prems(2) show ?thesis by fastforce
  next
    case False
    with rest step Cons.prems(2) show ?thesis by (auto split: if_splits)
  qed
qed simp

lemma frame_turn_watchdog:
  assumes "frame_turn ops core start_frames l = Some (None, l1)" "watchdog l \<noteq> 0"
  shows "watchdog l1 < watchdog l"
  using assms run_machines_watchdog [of ops core start_frames _ _ "l\<lparr>ran_any := False\<rparr>" None l1]
  by (fastforce simp: frame_turn_def split: Option.bind_splits option.splits if_splits)

text \<open>A pass that does not end the frame has used up some of the watchdog, so the loop ends.\<close>

function run_frames ::
  "'g mgba \<Rightarrow> 'g mgba_core \<Rightarrow> (nat \<Rightarrow> u32) \<Rightarrow> 'g frame_loop \<Rightarrow> (frame_outcome \<times> 'g frame_loop) option" where
  "run_frames ops core start_frames l =
     (if watchdog l = 0 then Some (Watchdog_Expired, l)
      else do {
        (outcome, l1) \<leftarrow> frame_turn ops core start_frames l;
        case outcome of Some r \<Rightarrow> Some (r, l1) | None \<Rightarrow> run_frames ops core start_frames l1
      })"
  by auto
termination
  by (relation "measure (\<lambda>(ops, core, start_frames, l). watchdog l)") (auto dest: frame_turn_watchdog)

declare run_frames.simps [simp del]

definition run_linked_frame :: "'g mgba \<Rightarrow> 'g mgba_core \<Rightarrow> 'g mgba_pair \<Rightarrow> (frame_outcome \<times> 'g mgba_pair) option" where
  "run_linked_frame ops core p = do {
     (r, l) \<leftarrow> run_frames ops core (\<lambda>i. frameCounter core (machine_of i (link p)))
       \<lparr>pair = p, watchdog = MGBA_COOPERATIVE_WATCHDOG, ran_any = False, frame_done = (\<lambda>i. False)\<rparr>;
     Some (r, pair l)
   }"



section \<open>The loop on a linked pair\<close>

definition frame_ok :: "'g frame_loop \<Rightarrow> bool" where
  "frame_ok l \<longleftrightarrow> linked_pair (link (pair l)) \<and> coordinator_initialized (pair l) \<and> link_enabled (pair l)"

text \<open>Why a machine is passed over, and that some machine is not finished.\<close>

definition skipped :: "nat \<Rightarrow> 'g frame_loop \<Rightarrow> nat \<Rightarrow> bool" where
  "skipped n_blocked l i \<longleftrightarrow> blocked (user (drivers (link (pair l)) i)) \<or>
     frame_done l i \<and> n_blocked = 0 \<and> \<not> machine_has_pending_link_events (pair l) i"

definition finished :: "'g frame_loop \<Rightarrow> bool" where
  "finished l \<longleftrightarrow> list_all (\<lambda>i. frame_done l i \<and> \<not> machine_has_pending_link_events (pair l) i) [0..<DUALBOY_MACHINE_COUNT]"

lemma run_machine_skip: "skipped n l i \<Longrightarrow> run_machine ops core sf n i l = Some (l, True)"
  by (simp add: run_machine_def skipped_def Let_def)

lemma run_machine_runs:
  assumes ok: "frame_ok l" and i: "i < DUALBOY_MACHINE_COUNT" and runs: "\<not> skipped n l i"
  obtains l1 go where "run_machine ops core sf n i l = Some (l1, go)" "frame_ok l1" "ran_any l1"
proof -
  obtain calls crash where calls: "runLoop core i (link (pair l)) = (calls, crash)" by (cases "runLoop core i (link (pair l))")
  have "linked_pair (link (pair l))" using ok by (simp add: frame_ok_def)
  from perform_all_linked [OF this i] obtain s where s: "perform_all ops i calls (link (pair l)) = Some s" "linked_pair s" by blast
  have skip: "\<not> (blocked (user (drivers (link (pair l)) i)) \<or>
      frame_done l i \<and> n = 0 \<and> \<not> machine_has_pending_link_events (pair l) i)" using runs by (simp add: skipped_def)
  have "\<exists>l1 go. run_machine ops core sf n i l = Some (l1, go) \<and> frame_ok l1 \<and> ran_any l1"
    using ok s(2) unfolding run_machine_def Let_def if_not_P [OF skip] calls prod.case s(1) Option.bind.bind_lunit
    by (cases "crashed (pair l) i \<or> crash"; cases "frame_done l i"; cases "frameCounter core (machine_of i s) = sf i")
      (auto simp: frame_ok_def intro: exI [of _ False])
  with that show thesis by blast
qed

lemma run_machines_returns:
  assumes "frame_ok l" "\<forall>i \<in> set is. i < DUALBOY_MACHINE_COUNT"
  shows "\<exists>crash l1. run_machines ops core sf n is l = Some (crash, l1) \<and> frame_ok l1 \<and> (ran_any l \<longrightarrow> ran_any l1) \<and>
    (\<not> ran_any l1 \<longrightarrow> (\<forall>i \<in> set is. skipped n l i)) \<and> (\<forall>i. crash = Some i \<longrightarrow> crashed (pair l1) i)"
  using assms
proof (induction "is" arbitrary: l)
  case (Cons i "is")
  show ?case
  proof (cases "skipped n l i")
    case True
    with Cons.IH [of l] Cons.prems show ?thesis by (auto simp: run_machine_skip)
  next
    case False
    obtain l1 go where l1: "run_machine ops core sf n i l = Some (l1, go)" "frame_ok l1" "ran_any l1"
      by (rule run_machine_runs [OF Cons.prems(1) _ False]) (use Cons.prems in auto)
    with Cons.IH [OF l1(2)] Cons.prems(2) show ?thesis by (cases go) auto
  qed
qed simp

lemma not_all_skipped:
  assumes ok: "frame_ok l" and live: "\<not> finished l"
  shows "\<exists>i < DUALBOY_MACHINE_COUNT. \<not> skipped (blocked_count (link (pair l))) l i"
proof -
  have "linked_pair (link (pair l))" using ok by (simp add: frame_ok_def)
  then obtain d where d: "d < DUALBOY_MACHINE_COUNT" "\<not> blocked (user (drivers (link (pair l)) d))" by (rule linked_pair_runner)
  obtain i where i: "i < DUALBOY_MACHINE_COUNT" "\<not> (frame_done l i \<and> \<not> machine_has_pending_link_events (pair l) i)"
    using live by (auto simp: finished_def list_all_iff)
  show ?thesis
  proof (cases "blocked_count (link (pair l)) = 0")
    case True
    with i have "\<not> blocked (user (drivers (link (pair l)) i))" by (auto simp: blocked_count_def filter_empty_conv)
    with i show ?thesis by (auto simp: skipped_def)
  next
    case False
    with d show ?thesis by (auto simp: skipped_def)
  qed
qed

lemma frame_turn_returns:
  assumes ok: "frame_ok l" and live: "\<not> finished l"
  obtains r l1 where "frame_turn ops core sf l = Some (r, l1)" "frame_ok l1" "r \<noteq> Some All_Blocked" "r \<noteq> Some Watchdog_Expired"
    "r = None \<longrightarrow> \<not> finished l1" "r = Some Frame_Done \<longrightarrow> finished l1" "\<forall>i. r = Some (Machine_Crashed i) \<longrightarrow> crashed (pair l1) i"
proof -
  let ?l = "l\<lparr>ran_any := False\<rparr>" and ?n = "blocked_count (link (pair l))"
  have "frame_ok ?l" using ok by (simp add: frame_ok_def)
  then obtain crash l1 where l1: "run_machines ops core sf ?n [0..<DUALBOY_MACHINE_COUNT] ?l = Some (crash, l1)" "frame_ok l1"
    "\<not> ran_any l1 \<longrightarrow> (\<forall>i \<in> set [0..<DUALBOY_MACHINE_COUNT]. skipped ?n ?l i)" "\<forall>i. crash = Some i \<longrightarrow> crashed (pair l1) i"
    using run_machines_returns [of ?l "[0..<DUALBOY_MACHINE_COUNT]" ops core sf ?n] by auto
  have ran: "ran_any l1" using l1(3) not_all_skipped [OF ok live] by (auto simp: skipped_def)
  have run: "frame_turn ops core sf l = Some (case crash of Some i \<Rightarrow> (Some (Machine_Crashed i), l1)
      | None \<Rightarrow> if finished l1 then (Some Frame_Done, l1) else (None, l1))"
    unfolding frame_turn_def l1(1) finished_def using ran by simp
  show thesis
  proof (cases crash)
    case None
    with run l1 that [of "if finished l1 then Some Frame_Done else None" l1] show thesis by (auto split: if_splits)
  next
    case (Some i)
    with run l1 that [of "Some (Machine_Crashed i)" l1] show thesis by auto
  qed
qed

lemma run_frames_returns:
  assumes "frame_ok l" "\<not> finished l"
  shows "\<exists>r l1. run_frames ops core sf l = Some (r, l1) \<and> frame_ok l1 \<and> r \<noteq> All_Blocked \<and> (r = Frame_Done \<longrightarrow> finished l1) \<and>
    (\<forall>i. r = Machine_Crashed i \<longrightarrow> crashed (pair l1) i)"
  using assms
proof (induction "watchdog l" arbitrary: l rule: less_induct)
  case less
  show ?case
  proof (cases "watchdog l = 0")
    case True
    with less.prems show ?thesis by (simp add: run_frames.simps)
  next
    case False
    obtain r l1 where l1: "frame_turn ops core sf l = Some (r, l1)" "frame_ok l1" "r \<noteq> Some All_Blocked" "r \<noteq> Some Watchdog_Expired"
      "r = None \<longrightarrow> \<not> finished l1" "r = Some Frame_Done \<longrightarrow> finished l1" "\<forall>i. r = Some (Machine_Crashed i) \<longrightarrow> crashed (pair l1) i"
      by (rule frame_turn_returns [OF less.prems])
    show ?thesis
    proof (cases r)
      case None
      have "watchdog l1 < watchdog l" using frame_turn_watchdog l1(1) None False by blast
      from less.hyps [OF this l1(2)] l1(5) None have "\<exists>r l2. run_frames ops core sf l1 = Some (r, l2) \<and> frame_ok l2 \<and>
        r \<noteq> All_Blocked \<and> (r = Frame_Done \<longrightarrow> finished l2) \<and> (\<forall>i. r = Machine_Crashed i \<longrightarrow> crashed (pair l2) i)" by blast
      then show ?thesis by (subst run_frames.simps) (simp add: False l1(1) None)
    next
      case (Some o1)
      with l1 False show ?thesis by (subst run_frames.simps) auto
    qed
  qed
qed

end
