(* ===== verification/Mgba_Switch.thy ===== *)
theory Mgba_Switch
  imports Mgba_Link
begin

text \<open>
  Switching the link of a pair on and off. Whatever state the drivers are in, with no, one or two
  players, detaching returns and leaves no player, no attached driver and no blocked machine; attaching
  ends with a linked pair or with everything detached again.
\<close>


section \<open>Removing players\<close>

text \<open>What removing a player depends on: the table with the drivers and numbers of its players.\<close>

definition seats :: "'g lockstep \<Rightarrow> (u32 \<times> nat \<times> int) list" where
  "seats s = map (\<lambda>(k, p). (k, driver p, playerId p)) (players s)"

definition outline where
  "outline s = (seats s, nAttached s, length (attachedPlayers s), (\<lambda>d. (coordinated (drivers s d), lockstepId (drivers s d))),
     (\<lambda>d. blocked (user (drivers s d))), ready s)"

definition detachable :: "'g lockstep \<Rightarrow> bool" where
  "detachable s \<longleftrightarrow> distinct (map fst (seats s)) \<and> length (seats s) \<le> 2 \<and> nAttached s \<le> 4 \<and> length (attachedPlayers s) = 4 \<and>
     list_all (\<lambda>(k, d, n). k \<noteq> 0 \<and> 0 \<le> n \<and> n < 4 \<and> d < DUALBOY_MACHINE_COUNT \<and> coordinated (drivers s d) \<and>
       lockstepId (drivers s d) = k) (seats s)"

lemma detachable_same:
  assumes "seats s' = seats s" "nAttached s' = nAttached s" "length (attachedPlayers s') = length (attachedPlayers s)"
    "\<forall>d. coordinated (drivers s' d) = coordinated (drivers s d)" "\<forall>d. lockstepId (drivers s' d) = lockstepId (drivers s d)"
  shows "detachable s' = detachable s"
  using assms by (simp add: detachable_def)

lemma detachable_outline: "outline s' = outline s \<Longrightarrow> detachable s' = detachable s"
  by (rule detachable_same) (simp_all add: outline_def fun_eq_iff)

lemma seats_lookup: "map_of (seats s) k = map_option (\<lambda>p. (driver p, playerId p)) (lookup k s)"
proof -
  have "map_of (map (\<lambda>(k, p). (k, driver p, playerId p)) ps) k = map_option (\<lambda>p. (driver p, playerId p)) (map_of ps k)" for ps
    by (induction ps) auto
  then show ?thesis by (simp add: seats_def lookup_def)
qed

lemma detachable_player:
  assumes "detachable s" "lookup k s = Some p"
  shows "k \<noteq> 0" "0 \<le> playerId p" "playerId p < 4" "driver p < DUALBOY_MACHINE_COUNT" "coordinated (drivers s (driver p))"
    "lockstepId (drivers s (driver p)) = k"
proof -
  have "map_of (seats s) k = Some (driver p, playerId p)" using assms(2) by (simp add: seats_lookup)
  then have "(k, driver p, playerId p) \<in> set (seats s)" by (rule map_of_SomeD)
  with assms(1) show "k \<noteq> 0" "0 \<le> playerId p" "playerId p < 4" "driver p < DUALBOY_MACHINE_COUNT"
    "coordinated (drivers s (driver p))" "lockstepId (drivers s (driver p)) = k"
    by (auto simp: detachable_def list_all_iff)
qed

lemma seats_update_player:
  assumes "\<And>p. driver (f p) = driver p \<and> playerId (f p) = playerId p"
  shows "seats (update_player k f s) = seats s"
  using assms by (auto simp: seats_def update_player_def)

lemma outline_put [simp]: "outline (update_player k (put_event e) s) = outline s"
  by (simp add: outline_def seats_update_player put_event_def)

lemma outline_other [simp]:
  "outline (s\<lparr>highWater := n\<rparr>) = outline s" "outline (s\<lparr>droppedEvents := u\<rparr>) = outline s" "outline (update_timing d f s) = outline s"
  "outline (s\<lparr>waiting := w\<rparr>) = outline s" "outline (s\<lparr>transferActive := b\<rparr>) = outline s" "outline (s\<lparr>syncArmed := b\<rparr>) = outline s"
  by (auto simp: outline_def seats_def update_timing_def update_machine_def update_driver_def fun_eq_iff)

lemma reschedule_outline: "rescheduleForQueueHead ops k s = Some s' \<Longrightarrow> outline s' = outline s"
  by (auto simp: rescheduleForQueueHead_def Let_def split: Option.bind_splits list.splits if_splits)

lemma enqueue_for_outline:
  assumes "length (attachedPlayers s) = 4" "i < 4"
  shows "\<exists>b' s'. enqueue_for ops e target i (b, s) = Some (b', s') \<and> outline s' = outline s"
proof -
  obtain bit where bit: "TARGET (int i) = Some bit" using assms(2) by (simp add: TARGET_def)
  have pid: "rd (attachedPlayers s) i = Some (attachedPlayers s ! i)" using assms by (simp add: rd_def)
  let ?k = "attachedPlayers s ! i"
  show ?thesis
  proof (cases "target AND bit = 0")
    case True
    then show ?thesis by (simp add: enqueue_for_def bit)
  next
    case other: False
    show ?thesis
    proof (cases "lookup ?k s")
      case None
      with other show ?thesis by (auto simp: enqueue_for_def bit pid intro: exI [of _ False])
    next
      case (Some p)
      show ?thesis
      proof (cases "freeList p = 0")
        case True
        with other Some show ?thesis by (auto simp: enqueue_for_def bit pid intro: exI [of _ False])
      next
        case False
        let ?s1 = "update_player ?k (put_event e) s"
        let ?s2 = "if queueDepth p + 1 > maxQueueDepth p then ?s1\<lparr>highWater := max (highWater ?s1) (queueDepth p + 1)\<rparr> else ?s1"
        have "lookup ?k ?s2 = Some (put_event e p)" using Some by simp
        from reschedule_returns [OF this, of ops] obtain s3 where s3: "rescheduleForQueueHead ops ?k ?s2 = Some s3" by blast
        have "outline s3 = outline s" using reschedule_outline [OF s3] by simp
        with s3 other Some False show ?thesis by (simp add: enqueue_for_def bit pid Let_def)
      qed
    qed
  qed
qed

lemma enqueue_outline:
  assumes "length (attachedPlayers s) = 4" "nAttached s \<le> 4"
  obtains b s' where "enqueueEvent ops e target s = Some (b, s')" "outline s' = outline s"
proof -
  have "\<exists>b' s'. fold_opt (enqueue_for ops e target) is (b, s) = Some (b', s') \<and> outline s' = outline s"
    if "\<forall>i \<in> set is. i < 4" "length (attachedPlayers s) = 4" for "is" b and s :: "'a lockstep"
    using that
  proof (induction "is" arbitrary: b s)
    case (Cons i "is")
    obtain b1 s1 where one: "enqueue_for ops e target i (b, s) = Some (b1, s1)" "outline s1 = outline s"
      using enqueue_for_outline [of s i ops e target b] Cons.prems by auto
    then have "length (attachedPlayers s1) = 4" using Cons.prems(2) by (simp add: outline_def)
    with Cons.IH [of s1 b1] Cons.prems(1) one show ?case by auto
  qed simp
  from this [of "[0..<nAttached s]" s True] assms that show thesis by (auto simp: enqueueEvent_def)
qed

lemma count_small:
  assumes "k \<noteq> 0" "lookup k s \<noteq> None" "attachedPlayers s = [k, 0, 0, 0]"
  shows "fold count_attached [0..<MAX_GBAS] (0, s) = (1, s)"
  using assms by (simp add: MAX_GBAS_def upt_rec count_attached_def)

text \<open>With one player left or none, everybody gets the number zero.\<close>

lemma reconfig_small:
  assumes iter: "iterates ops" and few: "length (players s) \<le> 1" and key: "\<And>k p. lookup k s = Some p \<Longrightarrow> k \<noteq> 0"
  obtains s' where "reconfigPlayers ops s = Some s'" "seats s' = map (\<lambda>(k, d, n). (k, d, 0)) (seats s)" "drivers s' = drivers s"
    "ready s' = ready s" "nAttached s' \<le> 1" "length (attachedPlayers s') = 4"
proof (cases "players s")
  case Nil
  let ?s = "s\<lparr>attachedPlayers := [0, 0, 0, 0], nAttached := 0\<rparr>"
  have "reconfigPlayers ops s = Some ?s"
    using Nil by (simp add: reconfigPlayers_def MAX_GBAS_def upt_rec count_attached_def numeral_eq_Suc)
  then show thesis by (rule that) (use Nil in \<open>simp_all add: seats_def\<close>)
next
  case (Cons e rest)
  then obtain k p where one: "players s = [(k, p)]" using few by (cases e) auto
  have look: "lookup k s = Some p" by (simp add: lookup_def one)
  have k: "k \<noteq> 0" by (rule key [OF look])
  let ?s = "s\<lparr>players := [(k, p\<lparr>playerId := 0\<rparr>)], attachedPlayers := [k, 0, 0, 0],
      cycle := mTimingCurrentTime ops (timing (machine_of (driver p) s)), nextHardSync := HARD_SYNC_INTERVAL,
      transferMode := (if transferActive s then transferMode s else mode p), nAttached := 1\<rparr>"
  have order: "[0..<MAX_GBAS] = [0, 1, 2, 3]" "replicate MAX_GBAS (0 :: u32) = [0, 0, 0, 0]" by (simp_all add: MAX_GBAS_def upt_rec numeral_eq_Suc)
  have "reconfigPlayers ops s = Some ?s"
    unfolding reconfigPlayers_def order
    using k by (simp add: one iterates_one [OF iter] rd_def lookup_def update_player_def count_attached_def)
  then show thesis by (rule that) (simp_all add: seats_def one)
qed

text \<open>No machine becomes blocked.\<close>

definition calmer :: "'g lockstep \<Rightarrow> 'g lockstep \<Rightarrow> bool" where
  "calmer s s' \<longleftrightarrow> (\<forall>d. blocked (user (drivers s' d)) \<longrightarrow> blocked (user (drivers s d))) \<and> ready s' = ready s"

lemma wake_calmer:
  assumes "lookup k s = Some p"
  obtains s' where "PlayerWake k s = Some s'" "calmer s s'" "seats s' = seats s" "nAttached s' = nAttached s"
    "length (attachedPlayers s') = length (attachedPlayers s)" "\<forall>d. coordinated (drivers s' d) = coordinated (drivers s d)"
    "\<forall>d. lockstepId (drivers s' d) = lockstepId (drivers s d)"
proof (cases "asleep p")
  case False
  with assms that [of s] show thesis by (simp add: PlayerWake_def calmer_def)
next
  case True
  let ?s = "update_driver (driver p) (\<lambda>d. d\<lparr>user := lockstep_wake (user d)\<rparr>) (update_player k (\<lambda>p. p\<lparr>asleep := False\<rparr>) s)"
  have "PlayerWake k s = Some ?s" using True assms by (simp add: PlayerWake_def)
  moreover have "seats ?s = seats s" by (auto simp: seats_def update_driver_def update_player_def)
  moreover have "calmer s ?s" by (auto simp: calmer_def lockstep_wake_def)
  ultimately show thesis by (intro that [of ?s]) simp_all
qed

lemma removePlayer_returns:
  assumes iter: "iterates ops" and ok: "detachable s" and p: "lookup k s = Some p"
  obtains s' where "removePlayer ops k s = Some s'" "detachable s'" "map fst (seats s') = filter (\<lambda>j. j \<noteq> k) (map fst (seats s))"
    "\<forall>d. coordinated (drivers s' d) = coordinated (drivers s d)" "\<forall>d. lockstepId (drivers s' d) = lockstepId (drivers s d)"
    "calmer s s'"
proof -
  note player = detachable_player [OF ok p]
  obtain bit where bit: "TARGET (playerId p) = Some bit" using player by (simp add: TARGET_def)
  let ?e = "\<lparr>ev_type = DUALBOY_SIO_EV_DETACH, timestamp = lockstep_time ops p s, ev_player = playerId p\<rparr>"
  have shape: "length (attachedPlayers s) = 4" "nAttached s \<le> 4" using ok by (simp_all add: detachable_def)
  obtain b s1 where s1: "enqueueEvent ops ?e (TARGET_ALL AND NOT bit) s = Some (b, s1)" "outline s1 = outline s"
    by (rule enqueue_outline [OF shape])
  have ok1: "detachable s1" using detachable_outline [OF s1(2)] ok by simp
  have same: "seats s1 = seats s" "lockstepId (drivers s1 d) = lockstepId (drivers s d)" "coordinated (drivers s1 d) = coordinated (drivers s d)"
      "blocked (user (drivers s1 d)) = blocked (user (drivers s d))" "ready s1 = ready s" for d
    using s1(2) by (simp_all add: outline_def fun_eq_iff)
  let ?s2 = "s1\<lparr>waiting := 0, transferActive := False, syncArmed := False, players := filter (\<lambda>(key, _). key \<noteq> k) (players s1)\<rparr>"
  have seats2: "seats ?s2 = filter (\<lambda>(j, _). j \<noteq> k) (seats s)"
    unfolding same(1) [symmetric] by (simp add: seats_def filter_map o_def case_prod_unfold)
  have mem: "k \<in> fst ` set (seats s)"
  proof -
    have "map_of (seats s) k = Some (driver p, playerId p)" by (simp add: seats_lookup p)
    from map_of_SomeD [OF this] show ?thesis by (rule rev_image_eqI) simp
  qed
  have "length (filter (\<lambda>(j, _). j \<noteq> k) (seats s)) < length (seats s)"
  proof -
    obtain e where "e \<in> set (seats s)" "fst e = k" using mem by auto
    then show ?thesis by (intro length_filter_less [of e]) auto
  qed
  then have "length (seats ?s2) < length (seats s)" unfolding seats2 .
  moreover have "length (players ?s2) = length (seats ?s2)" by (simp add: seats_def)
  moreover have "length (seats s) \<le> 2" using ok by (simp add: detachable_def)
  ultimately have few: "length (players ?s2) \<le> 1" by linarith
  have keys: "j \<noteq> 0" if "lookup j ?s2 = Some q" for j q
  proof -
    have "map_of (seats ?s2) j = Some (driver q, playerId q)" using that by (simp only: seats_lookup option.map)
    then have "(j, driver q, playerId q) \<in> set (seats s)" unfolding seats2 by (auto dest: map_of_SomeD)
    with ok show ?thesis by (auto simp: detachable_def list_all_iff)
  qed
  obtain s3 where s3: "reconfigPlayers ops ?s2 = Some s3" "seats s3 = map (\<lambda>(k, d, n). (k, d, 0)) (seats ?s2)" "drivers s3 = drivers ?s2"
    "ready s3 = ready ?s2" "nAttached s3 \<le> 1" "length (attachedPlayers s3) = 4"
    by (rule reconfig_small [OF iter few keys])
  have ok3: "detachable s3"
    using ok s3(2-6) same unfolding detachable_def seats2
    by (auto simp: list_all_iff o_def case_prod_unfold length_filter_le [THEN order_trans] distinct_map_filter)
  have id: "lockstepId (drivers s1 (driver p)) = k" using same(2) player(6) by simp
  have rd: "rd (attachedPlayers s3) 0 = Some (attachedPlayers s3 ! 0)" using s3(6) by (simp add: rd_def)
  have run: "removePlayer ops k s = (if lookup (attachedPlayers s3 ! 0) s3 = None then Some s3 else PlayerWake (attachedPlayers s3 ! 0) s3)"
    using s3(1) id rd by (simp add: removePlayer_def p bit s1(1))
  have names: "map fst (seats s3) = filter (\<lambda>j. j \<noteq> k) (map fst (seats s))"
    unfolding s3(2) seats2 by (simp add: filter_map o_def case_prod_unfold)
  show thesis
  proof (cases "lookup (attachedPlayers s3 ! 0) s3")
    case None
    show thesis by (rule that [of s3]) (use run None ok3 names s3(3,4) same in \<open>simp_all add: calmer_def\<close>)
  next
    case (Some q)
    obtain s4 where s4: "PlayerWake (attachedPlayers s3 ! 0) s3 = Some s4" "calmer s3 s4" "seats s4 = seats s3" "nAttached s4 = nAttached s3"
      "length (attachedPlayers s4) = length (attachedPlayers s3)" "\<forall>d. coordinated (drivers s4 d) = coordinated (drivers s3 d)"
      "\<forall>d. lockstepId (drivers s4 d) = lockstepId (drivers s3 d)" by (rule wake_calmer [OF Some])
    have "detachable s4" using detachable_same [OF s4(3-7)] ok3 by simp
    then show thesis
      by (rule that [of s4, rotated]) (use run Some s4 names s3(3,4) same in \<open>simp_all add: calmer_def\<close>)
  qed
qed


section \<open>Taking the link down\<close>

text \<open>
  What the adapter relies on of \<open>setPeripheral\<close>: plugging a driver in calls its \<open>init\<close>, for which memory
  may be missing, and plugging nothing in calls at most the \<open>deinit\<close> of the driver that was there.
\<close>

definition plugs :: "'g mgba \<Rightarrow> 'g mgba_core \<Rightarrow> bool" where
  "plugs ops core \<longleftrightarrow> (\<forall>d s. (\<exists>memory. setPeripheral core d True s = map_option snd (DriverInit ops memory d s)) \<and>
     (setPeripheral core d False s = Some s \<or> setPeripheral core d False s = DriverDeinit ops d s))"

lemma lookup_seats_None: "lookup k s = None \<longleftrightarrow> k \<notin> fst ` set (seats s)"
  by (simp add: seats_lookup flip: map_of_eq_None_iff)

lemma forget_detachable:
  assumes ok: "detachable s" and gone: "lookup (lockstepId (drivers s d)) s = None"
    and same: "seats s' = seats s" "nAttached s' = nAttached s" "length (attachedPlayers s') = length (attachedPlayers s)"
    and others: "\<And>e. e \<noteq> d \<Longrightarrow> drivers s' e = drivers s e"
  shows "detachable s'"
proof -
  have "e \<noteq> d" if "(k, e, n) \<in> set (seats s)" for k e n
  proof
    assume "e = d"
    with that ok have "lockstepId (drivers s d) = k" by (auto simp: detachable_def list_all_iff)
    with that gone show False by (force simp: lookup_seats_None)
  qed
  with others have "drivers s' e = drivers s e" if "(k, e, n) \<in> set (seats s)" for k e n using that by blast
  with ok same show ?thesis by (fastforce simp: detachable_def list_all_iff)
qed

lemma seats_drivers [simp]:
  "seats (update_driver d g s) = seats s" "seats (update_machine d h s) = seats s" "seats (update_timing d f s) = seats s"
  by (simp_all add: seats_def update_timing_def update_machine_def update_driver_def)

lemma removed_gone:
  assumes "map fst (seats s') = filter (\<lambda>j. j \<noteq> k) (map fst (seats s))"
  shows "lookup k s' = None"
  using arg_cong [OF assms, of set] by (auto simp: lookup_seats_None simp flip: set_map)

lemma remove_if_present:
  assumes iter: "iterates ops" and ok: "detachable s"
  obtains s' where "(if lookup k s = None then Some s else removePlayer ops k s) = Some s'" "detachable s'" "lookup k s' = None"
    "fst ` set (seats s') \<subseteq> fst ` set (seats s)"
    "\<forall>d. coordinated (drivers s' d) = coordinated (drivers s d)" "\<forall>d. lockstepId (drivers s' d) = lockstepId (drivers s d)"
    "calmer s s'"
proof (cases "lookup k s")
  case None
  with ok that [of s] show thesis by (simp add: calmer_def)
next
  case (Some p)
  obtain s' where s': "removePlayer ops k s = Some s'" "detachable s'" "map fst (seats s') = filter (\<lambda>j. j \<noteq> k) (map fst (seats s))"
    "\<forall>d. coordinated (drivers s' d) = coordinated (drivers s d)" "\<forall>d. lockstepId (drivers s' d) = lockstepId (drivers s d)"
    "calmer s s'" by (rule removePlayer_returns [OF iter ok Some])
  have "fst ` set (seats s') \<subseteq> fst ` set (seats s)" using arg_cong [OF s'(3), of set] by auto
  with that [of s'] s' Some removed_gone [OF s'(3)] show thesis by simp
qed

text \<open>The drivers below \<open>n\<close> are detached; no player sits at one of them.\<close>

definition detached_below :: "nat \<Rightarrow> 'g lockstep \<Rightarrow> bool" where
  "detached_below n s \<longleftrightarrow> (\<forall>d < n. \<not> coordinated (drivers s d) \<and> \<not> blocked (user (drivers s d)))"

lemma unplug_detachable:
  assumes iter: "iterates ops" and plug: "plugs ops core" and ok: "detachable s"
    and linked: "\<forall>d < DUALBOY_MACHINE_COUNT. coordinated (drivers s d)" and d: "d < DUALBOY_MACHINE_COUNT"
  obtains s' where "unplug_machine core present d s = Some s'" "detachable s'" "\<forall>d < DUALBOY_MACHINE_COUNT. coordinated (drivers s' d)"
    "ready s' = ready s"
proof -
  have "\<exists>s'. DriverDeinit ops d s = Some s' \<and> detachable s' \<and> (\<forall>d < DUALBOY_MACHINE_COUNT. coordinated (drivers s' d)) \<and>
      ready s' = ready s"
  proof -
    let ?k = "lockstepId (drivers s d)"
    obtain s1 where s1: "(if lookup ?k s = None then Some s else removePlayer ops ?k s) = Some s1" "detachable s1" "lookup ?k s1 = None"
      "fst ` set (seats s1) \<subseteq> fst ` set (seats s)"
      "\<forall>d. coordinated (drivers s1 d) = coordinated (drivers s d)" "\<forall>d. lockstepId (drivers s1 d) = lockstepId (drivers s d)"
      "calmer s s1" by (rule remove_if_present [OF iter ok])
    have "lookup (lockstepId (drivers s1 d)) s1 = None" using s1(3,6) by simp
    then have "detachable (update_driver d (\<lambda>dr. dr\<lparr>lockstepId := 0\<rparr>) (update_timing d (mTimingDeschedule ops Lockstep_Event) s1))"
      by (rule forget_detachable [OF s1(2)]) (simp_all add: update_timing_def update_machine_def)
    with s1 linked d show ?thesis by (auto simp: DriverDeinit_def update_timing_def update_machine_def calmer_def)
  qed
  moreover have "setPeripheral core d False s = Some s \<or> setPeripheral core d False s = DriverDeinit ops d s"
    using plug by (simp add: plugs_def)
  ultimately have "\<exists>s'. unplug_machine core present d s = Some s' \<and> detachable s' \<and> (\<forall>d < DUALBOY_MACHINE_COUNT. coordinated (drivers s' d)) \<and>
      ready s' = ready s"
    using ok linked by (cases "present d") (auto simp: unplug_machine_def)
  with that show thesis by blast
qed


lemma detach_machine_returns:
  assumes iter: "iterates ops" and ok: "detachable s" and below: "detached_below d s" and d: "d < DUALBOY_MACHINE_COUNT"
  obtains s' where "detach_machine ops d s = Some s'" "detachable s'" "detached_below (Suc d) s'" "ready s' = ready s"
proof -
  let ?k = "lockstepId (drivers s d)"
  have unblock: "detachable (unblock_user d t) = detachable t" for t :: "'a lockstep"
    by (rule detachable_same) (simp_all add: unblock_user_def)
  show thesis
  proof (cases "coordinated (drivers s d)")
    case False
    then have "detach_machine ops d s = Some (unblock_user d s)" by (simp add: detach_machine_def)
    moreover have "detached_below (Suc d) (unblock_user d s)"
      using below False by (auto simp: detached_below_def unblock_user_def less_Suc_eq)
    moreover have "ready (unblock_user d s) = ready s" by (simp add: unblock_user_def)
    ultimately show thesis using that ok unblock by blast
  next
    case True
    obtain s1 where s1: "(if lookup ?k s = None then Some s else removePlayer ops ?k s) = Some s1" "detachable s1" "lookup ?k s1 = None"
      "fst ` set (seats s1) \<subseteq> fst ` set (seats s)"
      "\<forall>d. coordinated (drivers s1 d) = coordinated (drivers s d)" "\<forall>d. lockstepId (drivers s1 d) = lockstepId (drivers s d)"
      "calmer s s1" by (rule remove_if_present [OF iter ok])
    let ?s = "update_driver d (\<lambda>dr. dr\<lparr>coordinated := False\<rparr>) s1"
    have "CoordinatorDetach ops d s = Some ?s" unfolding CoordinatorDetach_def s1(1) using True by simp
    then have run: "detach_machine ops d s = Some (unblock_user d ?s)" using True by (simp add: detach_machine_def)
    have "lookup (lockstepId (drivers s1 d)) s1 = None" using s1(3,6) by simp
    then have "detachable ?s" by (rule forget_detachable [OF s1(2)]) simp_all
    moreover have "detached_below (Suc d) (unblock_user d ?s)"
      using below s1(5,7) by (auto simp: detached_below_def unblock_user_def less_Suc_eq calmer_def)
    moreover have "ready (unblock_user d ?s) = ready s" using s1(7) by (simp add: unblock_user_def calmer_def)
    ultimately show thesis using that run unblock by blast
  qed
qed

lemma detached_empty:
  assumes "detachable s" "detached_below DUALBOY_MACHINE_COUNT s"
  shows "players s = []"
proof -
  have "seats s = []"
  proof (rule ccontr)
    assume "seats s \<noteq> []"
    then obtain k d n rest where "seats s = (k, d, n) # rest" by (metis list.exhaust surj_pair)
    with assms show False by (auto simp: detachable_def detached_below_def)
  qed
  then show ?thesis by (simp add: seats_def)
qed

text \<open>The link is down: nothing of it is left.\<close>

definition link_down :: "'g mgba_pair \<Rightarrow> bool" where
  "link_down p \<longleftrightarrow> \<not> link_enabled p \<and> \<not> coordinator_initialized p \<and> players (link p) = [] \<and>
     (\<forall>d < DUALBOY_MACHINE_COUNT. \<not> coordinated (drivers (link p) d) \<and> \<not> blocked (user (drivers (link p) d)))"

lemma detach_link_returns:
  assumes iter: "iterates ops" and plug: "plugs ops core" and up: "coordinator_initialized p"
    and ok: "detachable (link p)" and linked: "\<forall>d < DUALBOY_MACHINE_COUNT. coordinated (drivers (link p) d)"
  obtains p' where "detach_link ops core p = Some p'" "link_down p'" "link_configured p' = link_configured p"
    "ready (link p') = ready (link p)"
proof -
  have machines: "0 < DUALBOY_MACHINE_COUNT" "1 < DUALBOY_MACHINE_COUNT" by simp_all
  obtain s1 where s1: "unplug_machine core (has_core p) 0 (link p) = Some s1" "detachable s1"
    "\<forall>d < DUALBOY_MACHINE_COUNT. coordinated (drivers s1 d)" "ready s1 = ready (link p)" by (rule unplug_detachable [OF iter plug ok linked machines(1)])
  obtain s2 where s2: "unplug_machine core (has_core p) 1 s1 = Some s2" "detachable s2"
    "\<forall>d < DUALBOY_MACHINE_COUNT. coordinated (drivers s2 d)" "ready s2 = ready s1" by (rule unplug_detachable [OF iter plug s1(2,3) machines(2)])
  obtain s3 where s3: "detach_machine ops 0 s2 = Some s3" "detachable s3" "detached_below (Suc 0) s3" "ready s3 = ready s2"
    by (rule detach_machine_returns [OF iter s2(2) _ machines(1)]) (simp add: detached_below_def)
  obtain s4 where s4: "detach_machine ops 1 s3 = Some s4" "detachable s4" "detached_below (Suc 1) s4" "ready s4 = ready s3"
    by (rule detach_machine_returns [OF iter s3(2) _ machines(2)]) (use s3(3) in simp)
  have two: "[0..<DUALBOY_MACHINE_COUNT] = [0, 1]" by (simp add: upt_rec)
  let ?p = "p\<lparr>link := CoordinatorDeinit s4, coordinator_initialized := False, link_enabled := False\<rparr>"
  have "detach_link ops core p = Some ?p" using up s1(1) s2(1) s3(1) s4(1) unfolding detach_link_def two by simp
  moreover have "link_down ?p"
    using s4(3) by (auto simp: link_down_def CoordinatorDeinit_def detached_below_def numeral_2_eq_2)
  moreover have "ready (link ?p) = ready (link p)" using s1(4) s2(4) s3(4) s4(4) by (simp add: CoordinatorDeinit_def)
  ultimately show thesis using that by simp
qed



section \<open>Putting the link up\<close>

lemma linked_pair_detachable:
  assumes linked: "linked_pair s"
  shows "detachable s" "\<forall>d < DUALBOY_MACHINE_COUNT. coordinated (drivers s d)"
proof -
  note seated = linked_pair_seated [OF linked]
  have two: "nAttached s = 2" and keys: "distinct (map fst (players s))" using linked by (simp_all add: linked_pair_def)
  have player: "lookup k s = Some p" if "(k, p) \<in> set (players s)" for k p
    using that keys by (simp add: lookup_def)
  have seat: "k \<in> {attachedPlayers s ! 0, attachedPlayers s ! 1} \<and> k \<noteq> 0 \<and> 0 \<le> playerId p \<and> playerId p < 2 \<and>
      driver p < 2 \<and> coordinated (drivers s (driver p)) \<and> lockstepId (drivers s (driver p)) = k" if "(k, p) \<in> set (players s)" for k p
  proof -
    have ok: "seat_ok None s k p" by (rule seated_seat [OF seated player [OF that]])
    then have "nat (playerId p) = 0 \<or> nat (playerId p) = 1" using two by (auto simp: seat_ok_def)
    with ok two show ?thesis by (auto simp: seat_ok_def)
  qed
  have "fst ` set (players s) \<subseteq> {attachedPlayers s ! 0, attachedPlayers s ! 1}" by (auto simp del: One_nat_def dest!: seat)
  then have "card (fst ` set (players s)) \<le> card {attachedPlayers s ! 0, attachedPlayers s ! 1}" by (intro card_mono) simp_all
  also have "\<dots> \<le> 2" by (simp add: card_insert_if)
  finally have "length (players s) \<le> 2" using distinct_card [OF keys] by simp
  moreover have "map fst (seats s) = map fst (players s)" by (simp add: seats_def case_prod_unfold o_def)
  moreover have "length (seats s) = length (players s)" by (simp add: seats_def)
  moreover have "list_all (\<lambda>(k, d, n). k \<noteq> 0 \<and> 0 \<le> n \<and> n < 4 \<and> d < DUALBOY_MACHINE_COUNT \<and> coordinated (drivers s d) \<and>
      lockstepId (drivers s d) = k) (seats s)"
    by (auto simp: list_all_iff seats_def dest!: seat)
  ultimately show "detachable s"
    using keys two seated_bounds(3) [OF seated] by (simp add: detachable_def)
  show "\<forall>d < DUALBOY_MACHINE_COUNT. coordinated (drivers s d)"
    using linked_pair_plugged [OF linked] by (simp add: plugged_def)
qed

lemma one_attached_detachable:
  assumes "one_attached s"
  shows "detachable s" "\<forall>d < DUALBOY_MACHINE_COUNT. coordinated (drivers s d)"
proof -
  obtain p where p: "players s = [(1, p)]" "playerId p = 0" "driver p = 0"
    using assms by (auto simp: one_attached_def lookup_def)
  with assms show "detachable s" by (simp add: detachable_def seats_def one_attached_def fresh_driver_def)
  show "\<forall>d < DUALBOY_MACHINE_COUNT. coordinated (drivers s d)"
    using assms by (auto simp: one_attached_def fresh_driver_def less_2_cases_iff)
qed

text \<open>The coordinator is empty and both drivers are attached to it.\<close>

definition link_start :: "'g lockstep \<Rightarrow> bool" where
  "link_start s \<longleftrightarrow> players s = [] \<and> nextId s = 0 \<and> waiting s = 0 \<and> nAttached s = 0 \<and> length (attachedPlayers s) = 4 \<and>
     length (multiData s) = 4 \<and> length (normalData s) = 4 \<and> fresh_driver 0 0 (drivers s 0) \<and> fresh_driver 1 0 (drivers s 1)"

lemma start_link: "link_start (fold create_driver [0..<DUALBOY_MACHINE_COUNT] (CoordinatorInit ops s))"
proof -
  have two: "[0..<DUALBOY_MACHINE_COUNT] = [0, 1]" by (simp add: upt_rec)
  show ?thesis unfolding two
    by (simp add: link_start_def create_driver_def CoordinatorAttach_def DriverCreate_def CoordinatorInit_def update_driver_def
        fresh_driver_def MAX_GBAS_def)
qed

lemma start_detachable:
  assumes "link_start s"
  shows "detachable s" "\<forall>d < DUALBOY_MACHINE_COUNT. coordinated (drivers s d)"
  using assms by (auto simp: link_start_def detachable_def seats_def fresh_driver_def less_2_cases_iff)

lemma reset_without_memory:
  assumes "coordinated (drivers s d)" "lockstepId (drivers s d) = 0"
  shows "DriverReset ops False d s = Some (s\<lparr>syncArmed := False\<rparr>)"
  using assms by (simp add: DriverReset_def)

text \<open>There is memory for every player.\<close>

definition memory_holds :: "'g mgba \<Rightarrow> 'g mgba_core \<Rightarrow> bool" where
  "memory_holds ops core \<longleftrightarrow> (\<forall>d s. setPeripheral core d True s = map_option snd (DriverInit ops True d s))"

lemma plugs_memory:
  assumes "plugs ops core"
  obtains memory where "setPeripheral core d True s = map_option snd (DriverInit ops memory d s)" "\<not> memory \<longrightarrow> \<not> memory_holds ops core"
proof (cases "setPeripheral core d True s = map_option snd (DriverInit ops True d s)")
  case True
  then show thesis using that by blast
next
  case False
  with assms obtain memory where "setPeripheral core d True s = map_option snd (DriverInit ops memory d s)" unfolding plugs_def by blast
  moreover have "\<not> memory_holds ops core" using False unfolding memory_holds_def by blast
  ultimately show thesis using that by blast
qed

text \<open>Plugging in ends with a linked pair, or at the first driver without memory; then everything can be detached.\<close>

lemma plug_machines_returns:
  assumes iter: "iterates ops" and plug: "plugs ops core" and start: "link_start s"
  obtains s' where "plug_machines core [0..<DUALBOY_MACHINE_COUNT] s = Some (True, s')" "linked_pair s'"
  | s' where "plug_machines core [0..<DUALBOY_MACHINE_COUNT] s = Some (False, s')" "detachable s'"
    "\<forall>d < DUALBOY_MACHINE_COUNT. coordinated (drivers s' d)" "\<not> memory_holds ops core"
proof -
  have two: "[0..<DUALBOY_MACHINE_COUNT] = [0, 1]" by (simp add: upt_rec)
  have facts: "players s = []" "nextId s = 0" "waiting s = 0" "length (multiData s) = 4" "length (normalData s) = 4"
    "fresh_driver 0 0 (drivers s 0)" "fresh_driver 1 0 (drivers s 1)" using start by (simp_all add: link_start_def)
  have armed: "detachable (t\<lparr>syncArmed := False\<rparr>) = detachable t" for t :: "'a lockstep"
    by (rule detachable_outline) simp
  obtain m0 where m0: "setPeripheral core 0 True s = map_option snd (DriverInit ops m0 0 s)" "\<not> m0 \<longrightarrow> \<not> memory_holds ops core"
    by (rule plugs_memory [OF plug])
  show thesis
  proof (cases m0)
    case False
    have "DriverReset ops False 0 s = Some (s\<lparr>syncArmed := False\<rparr>)"
      by (rule reset_without_memory) (use facts(6) in \<open>simp_all add: fresh_driver_def\<close>)
    then have "plug_machines core [0, 1] s = Some (False, s\<lparr>syncArmed := False\<rparr>)"
      using m0 False facts(6) by (simp add: DriverInit_def fresh_driver_def)
    then show thesis by (rule that(2) [unfolded two]) (use start_detachable [OF start] armed m0 False in simp_all)
  next
    case True
    obtain s1 where s1: "DriverReset ops True 0 s = Some s1" "one_attached s1" by (rule first_attached [OF iter facts])
    have "lockstepId (drivers s1 0) = 1" using s1(2) by (simp add: one_attached_def fresh_driver_def)
    then have first: "plug_machines core [0, 1] s = plug_machines core [1] s1" using m0 True s1(1) by (simp add: DriverInit_def)
    obtain m1 where m1: "setPeripheral core 1 True s1 = map_option snd (DriverInit ops m1 1 s1)" "\<not> m1 \<longrightarrow> \<not> memory_holds ops core"
      by (rule plugs_memory [OF plug])
    show thesis
    proof (cases m1)
      case False
      have fresh: "fresh_driver 1 0 (drivers s1 1)" using s1(2) by (simp add: one_attached_def)
      have "DriverReset ops False 1 s1 = Some (s1\<lparr>syncArmed := False\<rparr>)"
        by (rule reset_without_memory) (use fresh in \<open>simp_all add: fresh_driver_def\<close>)
      then have "plug_machines core [0, 1] s = Some (False, s1\<lparr>syncArmed := False\<rparr>)"
        using m1 False fresh unfolding first by (simp add: DriverInit_def fresh_driver_def)
      then show thesis by (rule that(2) [unfolded two]) (use one_attached_detachable [OF s1(2)] armed m1 False in simp_all)
    next
      case True
      obtain s2 where s2: "DriverReset ops True 1 s1 = Some s2" "settled None s2" "nAttached s2 = 2" "map fst (players s2) = [1, 2]"
        "attachedPlayers s2 = [1, 2, 0, 0]" "lockstepId (drivers s2 0) = 1" "lockstepId (drivers s2 1) = 2"
        by (rule second_attached [OF iter s1(2)])
      have "plug_machines core [0, 1] s = Some (True, s2)"
        using m1 True s2(1,7) unfolding first by (simp add: DriverInit_def)
      then show thesis by (rule that(1) [unfolded two]) (use s2 in \<open>simp add: linked_pair_def\<close>)
    qed
  qed
qed


lemma attach_link_returns:
  assumes iter: "iterates ops" and plug: "plugs ops core" and ready: "ready (link p)"
  obtains p' where "attach_link ops core p = Some (True, p')" "linked_pair (link p')" "coordinator_initialized p'" "link_enabled p'"
    "link_configured p' = link_configured p"
  | p' where "attach_link ops core p = Some (False, p')" "link_down p'" "link_configured p' = link_configured p" "\<not> memory_holds ops core"
proof -
  let ?s = "fold create_driver [0..<DUALBOY_MACHINE_COUNT] (CoordinatorInit ops (link p))"
  show thesis
  proof (rule plug_machines_returns [OF iter plug start_link [of ops "link p"]])
    fix s' assume s': "plug_machines core [0..<DUALBOY_MACHINE_COUNT] ?s = Some (True, s')" "linked_pair s'"
    let ?p = "p\<lparr>link := s', coordinator_initialized := True, link_enabled := True\<rparr>"
    have "attach_link ops core p = Some (True, ?p)" using ready s'(1) unfolding attach_link_def Let_def by (simp del: upt_Suc)
    then show thesis by (rule that(1)) (use s'(2) in simp_all)
  next
    fix s' assume s': "plug_machines core [0..<DUALBOY_MACHINE_COUNT] ?s = Some (False, s')" "detachable s'"
      "\<forall>d < DUALBOY_MACHINE_COUNT. coordinated (drivers s' d)" "\<not> memory_holds ops core"
    let ?p = "p\<lparr>link := s', coordinator_initialized := True\<rparr>"
    obtain p' where p': "detach_link ops core ?p = Some p'" "link_down p'" "link_configured p' = link_configured ?p"
      "ready (link p') = ready (link ?p)" by (rule detach_link_returns [OF iter plug, of ?p]) (use s' in simp_all)
    have "attach_link ops core p = Some (False, p')" using ready s'(1) p'(1) unfolding attach_link_def Let_def by (simp del: upt_Suc)
    then show thesis by (rule that(2)) (use p' s'(4) in simp_all)
  qed
qed

text \<open>What the state of the pair promises between calls, and that a core without a driver leaves the link alone.\<close>

definition pair_ok :: "'g mgba_pair \<Rightarrow> bool" where
  "pair_ok p \<longleftrightarrow> (link_enabled p \<longrightarrow> coordinator_initialized p) \<and>
     (if coordinator_initialized p then linked_pair (link p)
      else \<forall>d < DUALBOY_MACHINE_COUNT. \<not> coordinated (drivers (link p) d) \<and> \<not> blocked (user (drivers (link p) d)))"

fun executes :: "'g link_call \<Rightarrow> bool" where
  "executes (Execute f) = True"
| "executes c = False"

definition quiet_without_driver :: "'g mgba_core \<Rightarrow> bool" where
  "quiet_without_driver core \<longleftrightarrow> (\<forall>d s. \<not> coordinated (drivers s d) \<longrightarrow> list_all executes (core_reset core d s))"

lemma executes_quiet:
  assumes "list_all executes calls"
  shows "\<exists>s'. perform_all ops d calls s = Some s' \<and> (\<forall>e. coordinated (drivers s' e) = coordinated (drivers s e)) \<and>
    (\<forall>e. user (drivers s' e) = user (drivers s e))"
  using assms
proof (induction calls arbitrary: s)
  case Nil
  then show ?case by (simp add: perform_all_def)
next
  case (Cons c calls)
  then obtain f where c: "c = Execute f" by (cases c) auto
  from Cons.IH [of "update_machine d f s"] Cons.prems obtain s' where
    "perform_all ops d calls (update_machine d f s) = Some s'"
    "\<forall>e. coordinated (drivers s' e) = coordinated (drivers (update_machine d f s) e)"
    "\<forall>e. user (drivers s' e) = user (drivers (update_machine d f s) e)" by auto
  then show ?case by (auto simp: perform_all_def c update_machine_def)
qed

lemma reset_core_returns:
  assumes quiet: "quiet_without_driver core" and ok: "pair_ok p" and d: "d < DUALBOY_MACHINE_COUNT"
  obtains p' where "reset_core ops core d p = Some p'" "pair_ok p'" "link_enabled p' = link_enabled p"
    "coordinator_initialized p' = coordinator_initialized p"
proof (cases "coordinator_initialized p")
  case True
  then have "linked_pair (link p)" using ok by (simp add: pair_ok_def)
  then obtain s where s: "perform_all ops d (core_reset core d (link p)) (link p) = Some s" "linked_pair s" by (rule perform_all_linked [OF _ d])
  show thesis
    by (rule that [of "p\<lparr>crashed := (crashed p)(d := False), link := s\<rparr>"]) (use s ok True in \<open>simp_all add: reset_core_def pair_ok_def\<close>)
next
  case False
  have "list_all executes (core_reset core d (link p))" using quiet ok False d by (auto simp: quiet_without_driver_def pair_ok_def)
  from executes_quiet [OF this, of ops d "link p"] obtain s where s: "perform_all ops d (core_reset core d (link p)) (link p) = Some s"
    "\<forall>e. coordinated (drivers s e) = coordinated (drivers (link p) e)" "\<forall>e. user (drivers s e) = user (drivers (link p) e)" by blast
  show thesis
    by (rule that [of "p\<lparr>crashed := (crashed p)(d := False), link := s\<rparr>"]) (use s ok False in \<open>simp_all add: reset_core_def pair_ok_def\<close>)
qed

lemma reset_cores_returns:
  assumes quiet: "quiet_without_driver core" and ok: "pair_ok p"
  obtains p' where "reset_cores ops core p = Some p'" "pair_ok p'" "link_enabled p' = link_enabled p"
    "coordinator_initialized p' = coordinator_initialized p"
proof -
  have machines: "0 < DUALBOY_MACHINE_COUNT" "1 < DUALBOY_MACHINE_COUNT" by simp_all
  have two: "rev [0..<DUALBOY_MACHINE_COUNT] = [1, 0]" by (simp add: upt_rec)
  obtain p1 where p1: "reset_core ops core 1 p = Some p1" "pair_ok p1" "link_enabled p1 = link_enabled p"
    "coordinator_initialized p1 = coordinator_initialized p" by (rule reset_core_returns [OF quiet ok machines(2)])
  obtain p2 where p2: "reset_core ops core 0 p1 = Some p2" "pair_ok p2" "link_enabled p2 = link_enabled p1"
    "coordinator_initialized p2 = coordinator_initialized p1" by (rule reset_core_returns [OF quiet p1(2) machines(1)])
  have "reset_cores ops core p = Some p2" unfolding reset_cores_def two using p1(1) p2(1) by simp
  with p1 p2 that show thesis by simp
qed


lemma down_ok: "link_down p \<Longrightarrow> pair_ok p"
  by (simp add: link_down_def pair_ok_def)

lemma take_down_returns:
  assumes iter: "iterates ops" and plug: "plugs ops core" and ok: "pair_ok p"
  obtains p' where "(if coordinator_initialized p then detach_link ops core p else Some p) = Some p'" "pair_ok p'"
    "\<not> coordinator_initialized p'" "\<not> link_enabled p'" "ready (link p') = ready (link p)"
proof (cases "coordinator_initialized p")
  case True
  then have linked: "linked_pair (link p)" using ok by (simp add: pair_ok_def)
  obtain p' where "detach_link ops core p = Some p'" "link_down p'" "link_configured p' = link_configured p" "ready (link p') = ready (link p)"
    by (rule detach_link_returns [OF iter plug True linked_pair_detachable [OF linked]])
  with that [of p'] True down_ok [of p'] show thesis by (simp add: link_down_def)
next
  case False
  with that [of p] ok show thesis by (simp add: pair_ok_def)
qed

text \<open>C10. Switching the link always returns, whatever memory the players get. It succeeds when there is
  memory for both players, and then the link is as asked: switched on, the two machines are a linked
  pair. When it fails the link is down, with no driver attached and no machine left blocked. Without
  two loaded machines nothing changes.\<close>

theorem set_link_correct:
  assumes iter: "iterates ops" and plug: "plugs ops core" and quiet: "quiet_without_driver core" and ok: "pair_ok p"
  shows "\<exists>r p'. mgba_set_link ops core enabled p = Some (r, p') \<and> pair_ok p' \<and>
    (r \<longrightarrow> link_enabled p' = enabled \<and> (enabled \<longrightarrow> linked_pair (link p'))) \<and>
    (\<not> r \<longrightarrow> p' = p \<and> \<not> ready (link p) \<or> enabled \<and> \<not> link_enabled p' \<and> \<not> coordinator_initialized p') \<and>
    (ready (link p) \<and> memory_holds ops core \<longrightarrow> r)"
proof (cases "ready (link p) \<and> \<not> (link_configured p \<and> link_enabled p = enabled)")
  case False
  with ok show ?thesis by (auto simp: mgba_set_link_def pair_ok_def)
next
  case True
  obtain p1 where p1: "(if coordinator_initialized p then detach_link ops core p else Some p) = Some p1" "pair_ok p1"
    "\<not> coordinator_initialized p1" "\<not> link_enabled p1" "ready (link p1) = ready (link p)"
    by (rule take_down_returns [OF iter plug ok])
  let ?rest = "\<lambda>p2. do { p3 \<leftarrow> reset_cores ops core (p2\<lparr>link_enabled := enabled\<rparr>); Some (True, p3\<lparr>link_configured := True\<rparr>) }"
  have run: "mgba_set_link ops core enabled p = do {
      (attached, p2) \<leftarrow> (if enabled then attach_link ops core p1 else Some (True, p1));
      if \<not> attached then Some (False, p2) else ?rest p2 }"
    unfolding mgba_set_link_def p1(1) using True by auto
  have finish: "\<exists>p'. ?rest p2 = Some (True, p') \<and> pair_ok p' \<and> link_enabled p' = enabled \<and> (enabled \<longrightarrow> linked_pair (link p'))"
    if p2: "pair_ok (p2\<lparr>link_enabled := enabled\<rparr>)" for p2
  proof -
    obtain p3 where p3: "reset_cores ops core (p2\<lparr>link_enabled := enabled\<rparr>) = Some p3" "pair_ok p3" "link_enabled p3 = enabled"
      "coordinator_initialized p3 = coordinator_initialized (p2\<lparr>link_enabled := enabled\<rparr>)"
      by (rule reset_cores_returns [OF quiet p2]) simp
    then show ?thesis by (auto simp: pair_ok_def split: if_splits)
  qed
  show ?thesis
  proof (cases enabled)
    case False
    with p1 have "pair_ok (p1\<lparr>link_enabled := enabled\<rparr>)" by (simp add: pair_ok_def)
    from finish [OF this] run False show ?thesis by auto
  next
    case on: True
    have ready: "ready (link p1)" using p1(5) True by simp
    show ?thesis
    proof (rule attach_link_returns [OF iter plug ready])
      fix p2 assume p2: "attach_link ops core p1 = Some (True, p2)" "linked_pair (link p2)" "coordinator_initialized p2" "link_enabled p2"
      then have "pair_ok (p2\<lparr>link_enabled := enabled\<rparr>)" using on by (simp add: pair_ok_def)
      from finish [OF this] run p2(1) on show ?thesis by auto
    next
      fix p2 assume p2: "attach_link ops core p1 = Some (False, p2)" "link_down p2" "\<not> memory_holds ops core"
      with run on down_ok [of p2] show ?thesis by (auto simp: link_down_def)
    qed
  qed
qed

end
