(* ===== verification/Mgba_Frame.thy ===== *)
theory Mgba_Frame
  imports Mgba_Switch
begin

text \<open>
  The two promises of the linked pair: no sequence of calls of the two machines fails an assertion or
  blocks both of them, and a linked frame ends without finding the machines blocked. A small mGBA
  serves as the witness.
\<close>


section \<open>A small mGBA\<close>

text \<open>A clock is a number; nothing is ever scheduled, and the registers keep what is written to them.\<close>

definition clock_mgba :: "int mgba" where
  "clock_mgba = \<lparr>mTimingCurrentTime = (\<lambda>t. t), mTimingIsScheduled = (\<lambda>e t. False), event_when = (\<lambda>e t. 0),
     mTimingSchedule = (\<lambda>e delay t. t), mTimingDeschedule = (\<lambda>e t. t), mTimingInterrupt = (\<lambda>t. t),
     GBASIOMultiplayerSetReady = (\<lambda>v b. v), GBASIORegisterRCNTSetSd = (\<lambda>v b. v), GBASIOMultiplayerClearSlave = (\<lambda>v. v),
     GBASIOMultiplayerSetId = (\<lambda>v i. v), GBASIOMultiplayerSetSlave = (\<lambda>v b. v),
     GBASIOTransferCycles = (\<lambda>m v n. 1024), table_iteration = (\<lambda>ks. ks),
     mode_value = (\<lambda>m. case m of GBA_SIO_NONE \<Rightarrow> 0xFFFFFFFF | GBA_SIO_NORMAL_8 \<Rightarrow> 0 | GBA_SIO_NORMAL_32 \<Rightarrow> 1 | GBA_SIO_MULTI \<Rightarrow> 2
       | GBA_SIO_UART \<Rightarrow> 3 | GBA_SIO_GPIO \<Rightarrow> 8 | GBA_SIO_JOYBUS \<Rightarrow> 12),
     zeroed_mode = GBA_SIO_NORMAL_8\<rparr>"

text \<open>A core that lets its clock run, calls the timing callback and completes a frame with every loop.\<close>

definition advance_clock :: "int machine \<Rightarrow> int machine" where
  "advance_clock m = m\<lparr>timing := timing m + 280896\<rparr>"

definition clock_core :: "int mgba_core" where
  "clock_core = \<lparr>setPeripheral = (\<lambda>d plug s. if plug then map_option snd (DriverInit clock_mgba True d s) else DriverDeinit clock_mgba d s),
     core_reset = (\<lambda>d s. [Execute (\<lambda>m. m\<lparr>timing := 0\<rparr>)]),
     runLoop = (\<lambda>d s. ([Execute advance_clock, Timing_Callback 0], False)),
     frameCounter = (\<lambda>m. word_of_int (timing m div 280896))\<rparr>"

definition idle_machine :: "int machine" where
  "idle_machine = \<lparr>timing = 0, sio_mode = GBA_SIO_NORMAL_8, siocnt = 0, rcnt = 0, SIOMLT_SEND = 0, SIODATA8 = 0,
     SIODATA32_LO = 0, SIODATA32_HI = 0, cpu_nextEvent = 0, earlyExit = False\<rparr>"

definition unlinked :: "int lockstep" where
  "unlinked = \<lparr>players = [], nextId = 0, attachedPlayers = replicate 4 0, nAttached = 0, waiting = 0, transferActive = False,
     syncArmed = False, transferMode = GBA_SIO_NORMAL_8, cycle = 0, nextHardSync = 0, highWater = 0, droppedEvents = 0,
     multiData = replicate 4 0, normalData = replicate 4 0,
     drivers = (\<lambda>d. \<lparr>coordinated = False, lockstepId = 0, loadingMachineState = False, gba = idle_machine,
       user = \<lparr>machine_index = d, blocked = False\<rparr>\<rparr>), ready = True\<rparr>"

definition loaded_pair :: "int mgba_pair" where
  "loaded_pair = \<lparr>link = unlinked, has_core = (\<lambda>d. True), crashed = (\<lambda>d. False), coordinator_initialized = False,
     link_configured = False, link_enabled = False\<rparr>"

lemma clock_contracts:
  "iterates clock_mgba" "plugs clock_mgba clock_core" "quiet_without_driver clock_core" "memory_holds clock_mgba clock_core"
proof -
  show "iterates clock_mgba" by (simp add: iterates_def clock_mgba_def)
  show "plugs clock_mgba clock_core" unfolding plugs_def by (auto simp: clock_core_def)
  show "quiet_without_driver clock_core" by (simp add: quiet_without_driver_def clock_core_def)
  show "memory_holds clock_mgba clock_core" by (simp add: memory_holds_def clock_core_def)
qed

lemma loaded_pair_ok: "pair_ok loaded_pair"
  by (simp add: pair_ok_def loaded_pair_def unlinked_def)

lemma clock_pair_links:
  obtains p where "attach_link clock_mgba clock_core loaded_pair = Some (True, p)" "linked_pair (link p)" "coordinator_initialized p"
    "link_enabled p"
proof (rule attach_link_returns [OF clock_contracts(1,2), of loaded_pair])
  show "ready (link loaded_pair)" by (simp add: loaded_pair_def unlinked_def)
qed (use clock_contracts(4) in auto)


section \<open>The promises\<close>



text \<open>C9. The cooperative loop of a linked frame ends, and without the failure it reports when all
  machines are blocked: that branch is unreachable, whatever the cores do. When the frame is done no
  link event is left pending, and a failure is a crash of the machine it names or the watchdog.
  The pair is ready for the next frame.\<close>

theorem linked_frame_returns:
  assumes "pair_ok p" "link_enabled p"
  shows "\<exists>r p'. run_linked_frame ops core p = Some (r, p') \<and> pair_ok p' \<and> link_enabled p' \<and> r \<noteq> All_Blocked \<and>
    (r = Frame_Done \<longrightarrow> (\<forall>i < DUALBOY_MACHINE_COUNT. \<not> machine_has_pending_link_events p' i)) \<and>
    (\<forall>i. r = Machine_Crashed i \<longrightarrow> crashed p' i)"
proof -
  let ?l = "\<lparr>pair = p, watchdog = MGBA_COOPERATIVE_WATCHDOG, ran_any = False, frame_done = (\<lambda>i. False)\<rparr>"
  have "frame_ok ?l" using assms by (simp add: frame_ok_def pair_ok_def)
  moreover have "\<not> finished ?l" by (simp add: finished_def upt_rec)
  ultimately obtain r l where l: "run_frames ops core (\<lambda>i. frameCounter core (machine_of i (link p))) ?l = Some (r, l)" "frame_ok l"
    "r \<noteq> All_Blocked" "r = Frame_Done \<longrightarrow> finished l" "\<forall>i. r = Machine_Crashed i \<longrightarrow> crashed (pair l) i"
    using run_frames_returns by blast
  have "run_linked_frame ops core p = Some (r, pair l)" using l(1) by (simp add: run_linked_frame_def)
  moreover have "pair_ok (pair l)" "link_enabled (pair l)" using l(2) by (simp_all add: frame_ok_def pair_ok_def)
  moreover have "r = Frame_Done \<longrightarrow> (\<forall>i < DUALBOY_MACHINE_COUNT. \<not> machine_has_pending_link_events (pair l) i)"
    using l(4) by (auto simp: finished_def list_all_iff)
  ultimately show ?thesis using l(3,5) by blast
qed

theorem linked_frame_returns_witness:
  "\<exists>p r p'. attach_link clock_mgba clock_core loaded_pair = Some (True, p) \<and>
     run_linked_frame clock_mgba clock_core p = Some (r, p') \<and> r \<noteq> All_Blocked"
proof -
  obtain p where p: "attach_link clock_mgba clock_core loaded_pair = Some (True, p)" "linked_pair (link p)"
    "coordinator_initialized p" "link_enabled p" by (rule clock_pair_links)
  then have "pair_ok p" by (simp add: pair_ok_def)
  from linked_frame_returns [OF this p(4), of clock_mgba clock_core] p(1) show ?thesis by blast
qed

text \<open>The witness of the link switch: the link of two loaded machines is switched on.\<close>

theorem set_link_correct_witness:
  "\<exists>p'. mgba_set_link clock_mgba clock_core True loaded_pair = Some (True, p') \<and> linked_pair (link p')"
proof -
  have "ready (link loaded_pair)" by (simp add: loaded_pair_def unlinked_def)
  with set_link_correct [OF clock_contracts(1-3) loaded_pair_ok, of True] clock_contracts(4) show ?thesis by auto
qed

text \<open>
  A linked pair in the middle of a hard synchronization: the first machine sleeps until the second one,
  which has the event in its queue, answers.
\<close>

definition barrier_link :: "int \<Rightarrow> int lockstep" where
  "barrier_link now = unlinked\<lparr>
     players := [(1, \<lparr>driver = 0, playerId = 0, mode = GBA_SIO_MULTI, otherModes = [GBA_SIO_MULTI, GBA_SIO_MULTI, GBA_SIO_NORMAL_8,
         GBA_SIO_NORMAL_8], asleep = True, cycleOffset = 40, queue = [], dataReceived = False, queueDepth = 0, maxQueueDepth = 1,
         freeList = DUALBOY_MAX_LOCKSTEP_EVENTS\<rparr>),
       (2, \<lparr>driver = 1, playerId = 1, mode = GBA_SIO_MULTI, otherModes = [GBA_SIO_MULTI, GBA_SIO_MULTI, GBA_SIO_NORMAL_8,
         GBA_SIO_NORMAL_8], asleep = False, cycleOffset = 56, queue = [\<lparr>ev_type = DUALBOY_SIO_EV_HARD_SYNC, timestamp = 900,
           ev_player = 0\<rparr>], dataReceived = False, queueDepth = 1, maxQueueDepth = 1,
         freeList = DUALBOY_MAX_LOCKSTEP_EVENTS - 1\<rparr>)],
     nextId := 2, attachedPlayers := [1, 2, 0, 0], nAttached := 2, waiting := 2, cycle := now, nextHardSync := 1800,
     drivers := (\<lambda>d. \<lparr>coordinated = True, lockstepId = (if d = 0 then 1 else 2), loadingMachineState = False, gba = idle_machine,
       user = \<lparr>machine_index = d, blocked = (d = 0)\<rparr>\<rparr>)\<rparr>"

lemma bit_two: "bit (2 :: u32) i \<longleftrightarrow> i = 1"
  using bit_push_bit_iff [of 1 "1 :: u32" i] by (cases i) (auto simp: bit_simps)

lemma barrier_link_linked: "linked_pair (barrier_link now)"
proof -
  have "seated None (barrier_link now)"
    by (auto simp: seated_def seat_ok_def accounted_queue_def pending_def event_ok_def barrier_link_def unlinked_def lookup_def
        MAX_GBAS_def DUALBOY_MAX_LOCKSTEP_EVENTS_def less_2_cases_iff split: if_splits)
  moreover have bits: "bit (waiting (barrier_link now)) i \<longleftrightarrow> i = 1" for i
    using bit_two [of i] by (simp add: barrier_link_def)
  have "barrier None (barrier_link now)"
    unfolding barrier_def owes_def bits
    by (auto simp: pending_def acking_def barrier_link_def unlinked_def lookup_def split: if_splits)
  ultimately show ?thesis
    by (simp add: linked_pair_def settled_def) (simp add: barrier_link_def unlinked_def)
qed

end
