(* ===== verification/Mgba_Link_State.thy ===== *)
theory Mgba_Link_State
  imports Mgba_Frame Lockstep_State
begin

text \<open>
  The savestate of the link in \<open>mgba_adapter.c\<close>: a header of 32 bytes and the states of the two drivers.
  Restoring checks both driver states before it loads the first, so it changes nothing or loads both;
  what serialization wrote is accepted and brings the players and the coordinator back.
\<close>


section \<open>Bytes\<close>

definition put_u16_le :: "u16 \<Rightarrow> bytes" where
  "put_u16_le v = [ucast v, ucast (drop_bit 8 v)]"

definition put_u32_le :: "u32 \<Rightarrow> bytes" where
  "put_u32_le v = [ucast v, ucast (drop_bit 8 v), ucast (drop_bit 16 v), ucast (drop_bit 24 v)]"

definition load_u16_le :: "bytes \<Rightarrow> nat \<Rightarrow> u16 option" where
  "load_u16_le source i = do {
     b0 \<leftarrow> rd source i; b1 \<leftarrow> rd source (i + 1);
     Some (ucast b0 OR push_bit 8 (ucast b1))
   }"

definition load_u32_le :: "bytes \<Rightarrow> nat \<Rightarrow> u32 option" where
  "load_u32_le source i = do {
     b0 \<leftarrow> rd source i; b1 \<leftarrow> rd source (i + 1); b2 \<leftarrow> rd source (i + 2); b3 \<leftarrow> rd source (i + 3);
     Some (ucast b0 OR push_bit 8 (ucast b1) OR push_bit 16 (ucast b2) OR push_bit 24 (ucast b3))
   }"

text \<open>A driver state in memory: the words of the structure, each in little-endian order.\<close>

definition state_bytes :: "u32 list \<Rightarrow> bytes" where
  "state_bytes w = concat (map put_u32_le w)"

fun state_words :: "bytes \<Rightarrow> u32 list" where
  "state_words (b0 # b1 # b2 # b3 # rest) =
     (ucast b0 OR push_bit 8 (ucast b1) OR push_bit 16 (ucast b2) OR push_bit 24 (ucast b3)) # state_words rest"
| "state_words rest = []"

lemma state_words_bytes: "state_words (state_bytes w) = w"
  by (induction w) (simp_all add: state_bytes_def put_u32_le_def le32_split)

lemma state_bytes_length: "length (state_bytes w) = 4 * length w"
  by (induction w) (simp_all add: state_bytes_def put_u32_le_def)

lemma load_put_u16: "load_u16_le (pre @ put_u16_le v @ post) (length pre) = Some v"
  by (simp add: load_u16_le_def put_u16_le_def rd_def nth_append le16_split)

lemma load_put_u32: "load_u32_le (pre @ put_u32_le v @ post) (length pre) = Some v"
  by (simp add: load_u32_le_def put_u32_le_def rd_def nth_append le32_split)


section \<open>Writing\<close>

definition MGBA_LINK_STATE_HEADER_SIZE :: nat where
  "MGBA_LINK_STATE_HEADER_SIZE = 32"

definition MGBA_LINK_STATE_VERSION :: u16 where
  "MGBA_LINK_STATE_VERSION = 2"

definition MGBA_LINK_STATE_FLAG_ENABLED :: u32 where
  "MGBA_LINK_STATE_FLAG_ENABLED = 1"

definition MGBA_LOCKSTEP_DRIVER_STATE_SIZE :: nat where
  "MGBA_LOCKSTEP_DRIVER_STATE_SIZE = 0xc70"

definition MGBA_LINK_STATE_CAPACITY :: nat where
  "MGBA_LINK_STATE_CAPACITY = MGBA_LINK_STATE_HEADER_SIZE + 2 * MGBA_LOCKSTEP_DRIVER_STATE_SIZE"

definition mgba_link_state_size :: "'g mgba_pair \<Rightarrow> nat" where
  "mgba_link_state_size p = MGBA_LINK_STATE_CAPACITY"

definition link_magic :: bytes where
  "link_magic = [0x44, 0x42, 0x47, 0x4C]"

text \<open>The states of the drivers; \<open>memory i\<close> is the answer of \<open>calloc\<close>. A missing or misshapen one is \<open>Some None\<close>.\<close>

fun save_drivers :: "'g mgba \<Rightarrow> (nat \<Rightarrow> bool) \<Rightarrow> nat list \<Rightarrow> 'g lockstep \<Rightarrow> bytes list option option" where
  "save_drivers ops memory [] s = Some (Some [])"
| "save_drivers ops memory (i # is) s = do {
     state \<leftarrow> SaveState ops (memory i) i s;
     case state of
       None \<Rightarrow> Some None
     | Some w \<Rightarrow>
         if length (state_bytes w) \<noteq> MGBA_LOCKSTEP_DRIVER_STATE_SIZE then Some None
         else do { rest \<leftarrow> save_drivers ops memory is s; Some (map_option ((#) (state_bytes w)) rest) }
   }"

definition link_bytes :: "bool \<Rightarrow> bytes list \<Rightarrow> bytes" where
  "link_bytes enabled parts =
     link_magic @ put_u16_le MGBA_LINK_STATE_VERSION @ put_u16_le (of_nat MGBA_LINK_STATE_HEADER_SIZE) @
     put_u32_le (if enabled then MGBA_LINK_STATE_FLAG_ENABLED else 0) @
     put_u32_le (if enabled then of_nat DUALBOY_MACHINE_COUNT else 0) @
     put_u32_le (if enabled then of_nat (length (parts ! 0)) else 0) @
     put_u32_le (if enabled then of_nat (length (parts ! 1)) else 0) @ replicate 8 0 @ concat parts"

text \<open>The result: success, the buffer and the length written. Null pairs and lengths are left out.\<close>

definition mgba_serialize_link ::
  "'g mgba \<Rightarrow> (nat \<Rightarrow> bool) \<Rightarrow> 'g mgba_pair \<Rightarrow> bytes option \<Rightarrow> nat \<Rightarrow> (bool \<times> bytes option \<times> nat) option" where
  "mgba_serialize_link ops memory p data capacity =
     (case data of
        None \<Rightarrow> Some (False, None, 0)
      | Some buffer \<Rightarrow>
          if capacity < MGBA_LINK_STATE_HEADER_SIZE then Some (False, data, 0)
          else do {
            states \<leftarrow> (if \<not> link_enabled p then Some (Some [])
                      else if \<not> coordinator_initialized p then Some None
                      else save_drivers ops memory [0..<DUALBOY_MACHINE_COUNT] (link p));
            case states of
              None \<Rightarrow> Some (False, data, 0)
            | Some parts \<Rightarrow>
                let required = MGBA_LINK_STATE_HEADER_SIZE + length (concat parts) in
                if capacity < required then Some (False, data, 0)
                else do {
                  out \<leftarrow> blit buffer 0 (link_bytes (link_enabled p) parts);
                  Some (True, Some out, required)
                }
          })"


section \<open>Restoring\<close>

definition lockstep_payload_valid :: "'g mgba \<Rightarrow> 'g mgba_pair \<Rightarrow> bytes \<Rightarrow> nat \<Rightarrow> bool" where
  "lockstep_payload_valid ops p payload i \<longleftrightarrow>
     i < DUALBOY_MACHINE_COUNT \<and> length payload = MGBA_LOCKSTEP_DRIVER_STATE_SIZE \<and>
     ValidateState ops i (Some (state_words payload)) (link p)"

definition restore_drivers :: "'g mgba \<Rightarrow> bytes \<Rightarrow> bytes \<Rightarrow> 'g mgba_pair \<Rightarrow> (bool \<times> 'g mgba_pair) option" where
  "restore_drivers ops payload0 payload1 p = do {
     (ok1, s1) \<leftarrow> LoadState ops (Some (state_words payload1)) 1 (link p);
     if \<not> ok1 then Some (False, p\<lparr>link := s1\<rparr>)
     else do { (ok0, s0) \<leftarrow> LoadState ops (Some (state_words payload0)) 0 s1; Some (ok0, p\<lparr>link := s0\<rparr>) }
   }"

definition mgba_unserialize_link :: "'g mgba \<Rightarrow> 'g mgba_pair \<Rightarrow> bytes option \<Rightarrow> nat \<Rightarrow> (bool \<times> 'g mgba_pair) option" where
  "mgba_unserialize_link ops p data n =
     (case data of
        None \<Rightarrow> Some (False, p)
      | Some bytes \<Rightarrow>
          if n < MGBA_LINK_STATE_HEADER_SIZE then Some (False, p)
          else do {
            magic \<leftarrow> slice bytes 0 4;
            version \<leftarrow> load_u16_le bytes 4;
            header \<leftarrow> load_u16_le bytes 6;
            reserved0 \<leftarrow> load_u32_le bytes 24;
            reserved1 \<leftarrow> load_u32_le bytes 28;
            if magic \<noteq> link_magic \<or> version \<noteq> MGBA_LINK_STATE_VERSION \<or> header \<noteq> of_nat MGBA_LINK_STATE_HEADER_SIZE \<or>
               reserved0 \<noteq> 0 \<or> reserved1 \<noteq> 0 then Some (False, p)
            else do {
              flags \<leftarrow> load_u32_le bytes 8;
              machines \<leftarrow> load_u32_le bytes 12;
              length0 \<leftarrow> load_u32_le bytes 16;
              length1 \<leftarrow> load_u32_le bytes 20;
              if flags AND NOT MGBA_LINK_STATE_FLAG_ENABLED \<noteq> 0 then Some (False, p)
              else if flags AND MGBA_LINK_STATE_FLAG_ENABLED = 0
              then Some (\<not> link_enabled p \<and> machines = 0 \<and> length0 = 0 \<and> length1 = 0 \<and> n = MGBA_LINK_STATE_HEADER_SIZE, p)
              else if \<not> link_enabled p \<or> \<not> coordinator_initialized p \<or> machines \<noteq> of_nat DUALBOY_MACHINE_COUNT \<or>
                unat length0 \<noteq> MGBA_LOCKSTEP_DRIVER_STATE_SIZE \<or> unat length1 \<noteq> MGBA_LOCKSTEP_DRIVER_STATE_SIZE \<or>
                n \<noteq> MGBA_LINK_STATE_HEADER_SIZE + unat length0 + unat length1 then Some (False, p)
              else do {
                payload0 \<leftarrow> slice bytes MGBA_LINK_STATE_HEADER_SIZE (unat length0);
                payload1 \<leftarrow> slice bytes (MGBA_LINK_STATE_HEADER_SIZE + unat length0) (unat length1);
                if \<not> lockstep_payload_valid ops p payload0 0 \<or> \<not> lockstep_payload_valid ops p payload1 1 then Some (False, p)
                else restore_drivers ops payload0 payload1 p
              }
            }
          })"



section \<open>Restoring is all or nothing\<close>

text \<open>A player whose queue accounts for all slots.\<close>

definition tidy :: "player \<Rightarrow> bool" where
  "tidy q \<longleftrightarrow> length (queue q) + freeList q = DUALBOY_MAX_LOCKSTEP_EVENTS \<and> queueDepth q = length (queue q) \<and>
     length (otherModes q) = MAX_GBAS"

lemma load_valid_step:
  assumes valid: "ValidateState ops d (Some w) s"
  obtains s' q where "LoadState ops (Some w) d s = Some (True, s')" "same_seating s s'"
    "lookup (lockstepId (drivers s d)) s' = Some q" "tidy q" "\<forall>k. k \<noteq> lockstepId (drivers s d) \<longrightarrow> lookup k s' = lookup k s"
proof -
  let ?k = "lockstepId (drivers s d)"
  obtain p where p: "lookup ?k s = Some p" and few: "unat (NumEvents_bits (w ! 1)) \<le> 8" by (rule ValidateState_valid [OF valid])
  obtain q s' where load: "LoadState ops (Some w) d s = Some (True, s')" "length q = unat (NumEvents_bits (w ! 1))"
    and effect: "\<And>k. lookup k s' = (if k = ?k then Some (loaded_player w q p) else lookup k s)"
      "nAttached s' = nAttached s" "attachedPlayers s' = attachedPlayers s"
      "\<And>e. coordinated (drivers s' e) = coordinated (drivers s e)" "\<And>e. lockstepId (drivers s' e) = lockstepId (drivers s e)"
    using LoadState_valid [OF valid p] by blast
  have same: "playerId (loaded_player w q p) = playerId p" "driver (loaded_player w q p) = driver p"
    by (simp_all add: loaded_player_def load_queue_def load_player_def Let_def)
  have tidy: "tidy (loaded_player w q p)"
    using few load(2)
    by (simp add: tidy_def loaded_player_def load_queue_def load_player_def Let_def DUALBOY_MAX_LOCKSTEP_EVENTS_def MAX_GBAS_def)
  have "same_seating s s'" using effect p same by (auto simp: same_seating_def)
  with load(1) effect(1) tidy show thesis by (intro that) auto
qed

lemma same_seating_trans: "same_seating s t \<Longrightarrow> same_seating t u \<Longrightarrow> same_seating s u"
  by (simp add: same_seating_def)

lemma restore_drivers_valid:
  assumes "lockstep_payload_valid ops p payload0 0" "lockstep_payload_valid ops p payload1 1"
  obtains p' where "restore_drivers ops payload0 payload1 p = Some (True, p')" "p' = p\<lparr>link := link p'\<rparr>" "same_seating (link p) (link p')"
    "\<forall>d < DUALBOY_MACHINE_COUNT. \<exists>q. lookup (lockstepId (drivers (link p) d)) (link p') = Some q \<and> tidy q"
    "\<forall>k. k \<notin> {lockstepId (drivers (link p) 0), lockstepId (drivers (link p) 1)} \<longrightarrow> lookup k (link p') = lookup k (link p)"
proof -
  have valid: "ValidateState ops 1 (Some (state_words payload1)) (link p)" "ValidateState ops 0 (Some (state_words payload0)) (link p)"
    using assms by (simp_all add: lockstep_payload_valid_def)
  obtain s1 q1 where s1: "LoadState ops (Some (state_words payload1)) 1 (link p) = Some (True, s1)" "same_seating (link p) s1"
    "lookup (lockstepId (drivers (link p) 1)) s1 = Some q1" "tidy q1"
    "\<forall>k. k \<noteq> lockstepId (drivers (link p) 1) \<longrightarrow> lookup k s1 = lookup k (link p)" by (rule load_valid_step [OF valid(1)])
  have again: "ValidateState ops 0 (Some (state_words payload0)) s1" using valid(2) ValidateState_seating [OF s1(2)] by blast
  obtain s0 q0 where s0: "LoadState ops (Some (state_words payload0)) 0 s1 = Some (True, s0)" "same_seating s1 s0"
    "lookup (lockstepId (drivers s1 0)) s0 = Some q0" "tidy q0"
    "\<forall>k. k \<noteq> lockstepId (drivers s1 0) \<longrightarrow> lookup k s0 = lookup k s1" by (rule load_valid_step [OF again])
  have id: "lockstepId (drivers s1 0) = lockstepId (drivers (link p) 0)" using s1(2) by (simp add: same_seating_def)
  have "\<exists>q. lookup (lockstepId (drivers (link p) d)) s0 = Some q \<and> tidy q" if "d < DUALBOY_MACHINE_COUNT" for d
    using that s0(3-5) s1(3,4) unfolding id
    by (cases "lockstepId (drivers (link p) 1) = lockstepId (drivers (link p) 0)") (auto simp: less_2_cases_iff)
  moreover have "restore_drivers ops payload0 payload1 p = Some (True, p\<lparr>link := s0\<rparr>)" using s1(1) s0(1) by (simp add: restore_drivers_def)
  moreover have "same_seating (link p) s0" by (rule same_seating_trans [OF s1(2) s0(2)])
  moreover have "\<forall>k. k \<notin> {lockstepId (drivers (link p) 0), lockstepId (drivers (link p) 1)} \<longrightarrow> lookup k s0 = lookup k (link p)"
    using s0(5) s1(5) id by auto
  ultimately show thesis by (intro that [of "p\<lparr>link := s0\<rparr>"]) simp_all
qed

lemma load_inside: "i + 2 \<le> length bytes \<Longrightarrow> \<exists>v. load_u16_le bytes i = Some v" "i + 4 \<le> length bytes \<Longrightarrow> \<exists>v. load_u32_le bytes i = Some v"
  by (simp_all add: load_u16_le_def load_u32_le_def rd_def)

text \<open>A chain of refusals.\<close>

lemma gates_closed:
  assumes "a \<or> b \<or> c \<or> d" "u \<longrightarrow> w"
  shows "\<exists>r. (if a then Some (False, p) else if b then Some (False, p) else if c then Some (u, p) else if d then Some (False, p) else rest)
    = Some (r, p) \<and> (r \<longrightarrow> w)"
  using assms by auto

lemma gates_open:
  assumes "\<not> (a \<or> b \<or> c \<or> d)"
  shows "(if a then Some (False, p) else if b then Some (False, p) else if c then Some (u, p) else if d then Some (False, p) else rest) = rest"
  using assms by auto

text \<open>
  Restoring the link is all or nothing. For every input of the length it is said to have, the adapter
  answers without reading outside it; when the link is switched on and the answer is success, both
  drivers were loaded, with the same players in the same places and queues that account for every
  event slot, and nothing but the link has changed; in every other case nothing has changed at all.
\<close>

theorem unserialize_link_all_or_nothing:
  assumes inside: "\<And>bytes. data = Some bytes \<Longrightarrow> n \<le> length bytes"
  shows "\<exists>r p'. mgba_unserialize_link ops p data n = Some (r, p') \<and>
    (if r \<and> link_enabled p
     then p' = p\<lparr>link := link p'\<rparr> \<and> same_seating (link p) (link p') \<and>
       (\<forall>d < DUALBOY_MACHINE_COUNT. \<exists>q. lookup (lockstepId (drivers (link p) d)) (link p') = Some q \<and> tidy q)
     else p' = p)"
proof (cases data)
  case None
  then have "mgba_unserialize_link ops p data n = Some (False, p)" by (simp add: mgba_unserialize_link_def)
  then show ?thesis by fastforce
next
  case (Some bytes)
  note n = inside [OF Some]
  show ?thesis
  proof (cases "n < MGBA_LINK_STATE_HEADER_SIZE")
    case True
    then have "mgba_unserialize_link ops p data n = Some (False, p)" by (simp add: mgba_unserialize_link_def Some)
    then show ?thesis by fastforce
  next
    case False
    then have long: "32 \<le> length bytes" using n by (simp add: MGBA_LINK_STATE_HEADER_SIZE_def)
    have halves: "\<exists>v. load_u16_le bytes i = Some v" if "i \<le> 30" for i by (rule load_inside(1)) (use long that in simp)
    have words: "\<exists>v. load_u32_le bytes i = Some v" if "i \<le> 28" for i by (rule load_inside(2)) (use long that in simp)
    have "\<exists>v. slice bytes 0 4 = Some v" using long by (simp add: slice_def)
    with halves [of 4] halves [of 6] words [of 24] words [of 28] words [of 8] words [of 12] words [of 16] words [of 20]
    obtain magic version header r0 r1 flags machines l0 l1 where header:
      "slice bytes 0 4 = Some magic" "load_u16_le bytes 4 = Some version" "load_u16_le bytes 6 = Some header"
      "load_u32_le bytes 24 = Some r0" "load_u32_le bytes 28 = Some r1" "load_u32_le bytes 8 = Some flags"
      "load_u32_le bytes 12 = Some machines" "load_u32_le bytes 16 = Some l0" "load_u32_le bytes 20 = Some l1"
      by auto
    let ?foreign = "magic \<noteq> link_magic \<or> version \<noteq> MGBA_LINK_STATE_VERSION \<or> header \<noteq> of_nat MGBA_LINK_STATE_HEADER_SIZE \<or>
        r0 \<noteq> 0 \<or> r1 \<noteq> 0"
    let ?unlinked = "\<not> link_enabled p \<and> machines = 0 \<and> l0 = 0 \<and> l1 = 0 \<and> n = MGBA_LINK_STATE_HEADER_SIZE"
    let ?misfit = "\<not> link_enabled p \<or> \<not> coordinator_initialized p \<or> machines \<noteq> of_nat DUALBOY_MACHINE_COUNT \<or>
        unat l0 \<noteq> MGBA_LOCKSTEP_DRIVER_STATE_SIZE \<or> unat l1 \<noteq> MGBA_LOCKSTEP_DRIVER_STATE_SIZE \<or>
        n \<noteq> MGBA_LINK_STATE_HEADER_SIZE + unat l0 + unat l1"
    let ?restore = "do {
        payload0 \<leftarrow> slice bytes MGBA_LINK_STATE_HEADER_SIZE (unat l0);
        payload1 \<leftarrow> slice bytes (MGBA_LINK_STATE_HEADER_SIZE + unat l0) (unat l1);
        if \<not> lockstep_payload_valid ops p payload0 0 \<or> \<not> lockstep_payload_valid ops p payload1 1 then Some (False, p)
        else restore_drivers ops payload0 payload1 p }"
    have run: "mgba_unserialize_link ops p data n =
        (if ?foreign then Some (False, p)
         else if flags AND NOT MGBA_LINK_STATE_FLAG_ENABLED \<noteq> 0 then Some (False, p)
         else if flags AND MGBA_LINK_STATE_FLAG_ENABLED = 0 then Some (?unlinked, p)
         else if ?misfit then Some (False, p) else ?restore)"
      unfolding mgba_unserialize_link_def Some option.case header Option.bind.bind_lunit if_not_P [OF False] by (rule refl)
    have restore: "\<exists>r p'. ?restore = Some (r, p') \<and> (if r then p' = p\<lparr>link := link p'\<rparr> \<and> same_seating (link p) (link p') \<and>
        (\<forall>d < DUALBOY_MACHINE_COUNT. \<exists>q. lookup (lockstepId (drivers (link p) d)) (link p') = Some q \<and> tidy q) else p' = p)"
      if fit: "\<not> ?misfit"
    proof -
      have room: "MGBA_LINK_STATE_HEADER_SIZE + unat l0 \<le> length bytes"
        "MGBA_LINK_STATE_HEADER_SIZE + unat l0 + unat l1 \<le> length bytes" using fit n by linarith+
      obtain payload0 payload1 where parts: "slice bytes MGBA_LINK_STATE_HEADER_SIZE (unat l0) = Some payload0"
        "slice bytes (MGBA_LINK_STATE_HEADER_SIZE + unat l0) (unat l1) = Some payload1"
        using slice_inside [OF room(1)] slice_inside [OF room(2)] by blast
      show ?thesis
      proof (cases "lockstep_payload_valid ops p payload0 0 \<and> lockstep_payload_valid ops p payload1 1")
        case True
        obtain p' where "restore_drivers ops payload0 payload1 p = Some (True, p')" "p' = p\<lparr>link := link p'\<rparr>" "same_seating (link p) (link p')"
          "\<forall>d < DUALBOY_MACHINE_COUNT. \<exists>q. lookup (lockstepId (drivers (link p) d)) (link p') = Some q \<and> tidy q"
          "\<forall>k. k \<notin> {lockstepId (drivers (link p) 0), lockstepId (drivers (link p) 1)} \<longrightarrow> lookup k (link p') = lookup k (link p)"
          by (rule restore_drivers_valid [of ops p payload0 payload1]) (use True in auto)
        then show ?thesis unfolding parts using True by auto
      next
        case False
        then have "?restore = Some (False, p)" unfolding parts by auto
        then show ?thesis by fastforce
      qed
    qed
    show ?thesis
    proof (cases "?foreign \<or> flags AND NOT MGBA_LINK_STATE_FLAG_ENABLED \<noteq> 0 \<or> flags AND MGBA_LINK_STATE_FLAG_ENABLED = 0 \<or> ?misfit")
      case True
      have "?unlinked \<longrightarrow> \<not> link_enabled p" by blast
      from gates_closed [OF True this, of p ?restore] obtain r where
        "mgba_unserialize_link ops p data n = Some (r, p)" "r \<longrightarrow> \<not> link_enabled p" unfolding run by blast
      then show ?thesis by auto
    next
      case fit: False
      have eq: "mgba_unserialize_link ops p data n = ?restore" unfolding run by (rule gates_open [OF fit])
      have le: "link_enabled p" and "\<not> ?misfit" using fit by blast+
      from restore [OF this(2)] show ?thesis unfolding eq using le by simp
    qed
  qed
qed



section \<open>A saved link is restored\<close>

lemma linked_pair_driver:
  assumes linked: "linked_pair s" and d: "d < DUALBOY_MACHINE_COUNT"
  obtains q where "lookup (lockstepId (drivers s d)) s = Some q" "driver q = d" "seat_ok None s (lockstepId (drivers s d)) q"
proof -
  obtain p q where pq: "lookup (attachedPlayers s ! 0) s = Some p" "playerId p = 0" "lookup (attachedPlayers s ! 1) s = Some q"
    "playerId q = 1" "{driver p, driver q} = {0, 1}" "seat_ok None s (attachedPlayers s ! 0) p"
    "seat_ok None s (attachedPlayers s ! 1) q" by (rule linked_pair_players [OF linked])
  have ids: "lockstepId (drivers s (driver p)) = attachedPlayers s ! 0" "lockstepId (drivers s (driver q)) = attachedPlayers s ! 1"
    using pq(6,7) by (simp_all add: seat_ok_def)
  have "d \<in> {driver p, driver q}" unfolding pq(5) using d by auto
  then show thesis
  proof
    assume "d = driver p"
    with pq(1,6) ids(1) show thesis by (intro that [of p]) simp_all
  next
    assume "d \<in> {driver q}"
    then have "d = driver q" by simp
    with pq(3,7) ids(2) show thesis by (intro that [of q]) simp_all
  qed
qed

lemma linked_pair_keys:
  assumes "linked_pair s" "lookup k s = Some q"
  shows "k = lockstepId (drivers s (driver q))" "driver q < DUALBOY_MACHINE_COUNT"
  using seated_seat [OF linked_pair_seated [OF assms(1)] assms(2)] by (simp_all add: seat_ok_def)

lemma resumed_settled:
  assumes settled: "settled None s" and seating: "same_seating s t"
    and players: "\<And>k q. lookup k s = Some q \<Longrightarrow> \<exists>q'. lookup k t = Some q' \<and> resumes q q'"
    and resumed: "coordinator_resumes s t"
    and block: "\<And>k q'. lookup k t = Some q' \<Longrightarrow> blocked (user (drivers t (driver q'))) \<Longrightarrow> asleep q'"
  shows "settled None t"
proof -
  have seated: "seated None s" and bar: "barrier None s" using settled by (simp_all add: settled_def)
  have same: "nAttached t = nAttached s" "attachedPlayers t = attachedPlayers s" "waiting t = waiting s"
    "multiData t = multiData s" "normalData t = normalData s"
    "\<And>d. coordinated (drivers t d) = coordinated (drivers s d)" "\<And>d. lockstepId (drivers t d) = lockstepId (drivers s d)"
    using seating resumed by (simp_all add: same_seating_def coordinator_resumes_def)
  have origin: "\<exists>q. lookup k s = Some q \<and> resumes q q'" if q': "lookup k t = Some q'" for k q'
  proof -
    have "map_option (\<lambda>p. (playerId p, driver p)) (lookup k t) = map_option (\<lambda>p. (playerId p, driver p)) (lookup k s)"
      using seating by (simp add: same_seating_def)
    with q' obtain q where q: "lookup k s = Some q" by (cases "lookup k s") auto
    with players [OF q] q' show ?thesis by auto
  qed
  have "seat_ok None t k q'" if q': "lookup k t = Some q'" for k q'
  proof -
    obtain q where q: "lookup k s = Some q" "resumes q q'" using origin [OF q'] by blast
    from seated_seat [OF seated q(1)] block [OF q'] q(2) show ?thesis
      by (simp add: seat_ok_def resumes_def accounted_queue_def pending_def same)
  qed
  moreover have "\<exists>q'. lookup (attachedPlayers t ! i) t = Some q' \<and> playerId q' = int i" if i: "i < nAttached t" for i
  proof -
    obtain q where q: "lookup (attachedPlayers s ! i) s = Some q" "playerId q = int i" "seat_ok None s (attachedPlayers s ! i) q"
      by (rule seated_attached [OF seated]) (use i same in simp)
    with players [OF q(1)] same show ?thesis by (auto simp: resumes_def)
  qed
  ultimately have "seated None t" using seated same by (simp add: seated_def)
  moreover have "barrier None t"
    unfolding barrier_def
  proof (intro conjI allI impI)
    fix i assume "bit (waiting t) i"
    with bar same show "1 \<le> i" "i < nAttached t" by (simp_all add: barrier_def)
  next
    fix k q' assume owing: "lookup k t = Some q' \<and> owes t q'"
    then obtain q where q: "lookup k s = Some q" "resumes q q'" using origin by blast
    with owing same have "owes s q" by (simp add: owes_def resumes_def)
    with bar q show "\<not> asleep q'" "list_ex acking (pending None k q')" by (auto simp: barrier_def resumes_def pending_def)
  qed
  moreover have "primary_asleep t \<longrightarrow> waiting t \<noteq> 0"
  proof
    assume "primary_asleep t"
    then obtain q' where "lookup (attachedPlayers s ! 0) t = Some q'" "asleep q'" using same by (auto simp: primary_asleep_def)
    with origin have "primary_asleep s" by (fastforce simp: primary_asleep_def resumes_def)
    with settled same show "waiting t \<noteq> 0" by (simp add: settled_def)
  qed
  ultimately show ?thesis by (simp add: settled_def)
qed

lemma load_enrolled:
  assumes "LoadState ops data d s = Some (r, s')"
  shows "enrolled s' = enrolled s"
proof -
  have "enrolled (load_coordinator w t) = enrolled t" for w and t :: "'a lockstep" by (simp add: load_coordinator_def Let_def enrolled_def)
  moreover have "enrolled t' = enrolled t" if "rescheduleForQueueHead ops k t = Some t'" for k and t t' :: "'a lockstep"
    by (rule enrolled_watch [OF reschedule_watch [OF that]])
  ultimately show ?thesis
    using assms by (auto simp: LoadState_def load_asleep_def Let_def split: Option.bind_splits if_splits)
qed

definition machine_ints :: "'g lockstep \<Rightarrow> bool" where
  "machine_ints s \<longleftrightarrow> (\<forall>k q. lookup k s = Some q \<longrightarrow> int32_player q) \<and> int32 (cycle s) \<and> int32 (nextHardSync s)"

lemma coordinator_resumes_trans: "coordinator_resumes s t \<Longrightarrow> coordinator_resumes t u \<Longrightarrow> coordinator_resumes s u"
  by (simp add: coordinator_resumes_def)

lemma link_bytes_length: "length (link_bytes True [part0, part1]) = 32 + length part0 + length part1"
  by (simp add: link_bytes_def link_magic_def put_u16_le_def put_u32_le_def)

text \<open>The header of a written link with two parts, read back.\<close>

lemma link_bytes_fields:
  fixes part0 part1 rest :: bytes
  defines "bytes \<equiv> link_bytes True [part0, part1] @ rest"
  shows "slice bytes 0 4 = Some link_magic" "load_u16_le bytes 4 = Some MGBA_LINK_STATE_VERSION"
    "load_u16_le bytes 6 = Some (of_nat MGBA_LINK_STATE_HEADER_SIZE)"
    "load_u32_le bytes 8 = Some MGBA_LINK_STATE_FLAG_ENABLED" "load_u32_le bytes 12 = Some (of_nat DUALBOY_MACHINE_COUNT)"
    "load_u32_le bytes 16 = Some (of_nat (length part0))" "load_u32_le bytes 20 = Some (of_nat (length part1))"
    "load_u32_le bytes 24 = Some 0" "load_u32_le bytes 28 = Some 0"
    "slice bytes MGBA_LINK_STATE_HEADER_SIZE (length part0) = Some part0"
    "slice bytes (MGBA_LINK_STATE_HEADER_SIZE + length part0) (length part1) = Some part1"
proof -
  have split: "bytes = link_magic @ put_u16_le MGBA_LINK_STATE_VERSION @ put_u16_le (of_nat MGBA_LINK_STATE_HEADER_SIZE) @
      put_u32_le MGBA_LINK_STATE_FLAG_ENABLED @ put_u32_le (of_nat DUALBOY_MACHINE_COUNT) @ put_u32_le (of_nat (length part0)) @
      put_u32_le (of_nat (length part1)) @ put_u32_le 0 @ put_u32_le 0 @ part0 @ part1 @ rest"
    by (simp add: bytes_def link_bytes_def put_u32_le_def numeral_eq_Suc del: machine_count_2)
  have l: "length (put_u16_le v) = 2" "length (put_u32_le x) = 4" "length link_magic = 4" for v x
    by (simp_all add: put_u16_le_def put_u32_le_def link_magic_def)
  have u16: "load_u16_le bytes (length pre) = Some v" if "bytes = pre @ put_u16_le v @ post" for pre v post
    unfolding that by (rule load_put_u16)
  have u32: "load_u32_le bytes (length pre) = Some v" if "bytes = pre @ put_u32_le v @ post" for pre v post
    unfolding that by (rule load_put_u32)
  let ?a = "link_magic" and ?v = "put_u16_le MGBA_LINK_STATE_VERSION" and ?h = "put_u16_le (of_nat MGBA_LINK_STATE_HEADER_SIZE)"
    and ?f = "put_u32_le MGBA_LINK_STATE_FLAG_ENABLED" and ?m = "put_u32_le (of_nat DUALBOY_MACHINE_COUNT)"
    and ?l0 = "put_u32_le (of_nat (length part0))" and ?l1 = "put_u32_le (of_nat (length part1))" and ?z = "put_u32_le 0"
  show "load_u16_le bytes 4 = Some MGBA_LINK_STATE_VERSION" using u16 [of ?a] by (simp add: split l)
  show "load_u16_le bytes 6 = Some (of_nat MGBA_LINK_STATE_HEADER_SIZE)" using u16 [of "?a @ ?v"] by (simp add: split l)
  show "load_u32_le bytes 8 = Some MGBA_LINK_STATE_FLAG_ENABLED" using u32 [of "?a @ ?v @ ?h"] by (simp add: split l)
  show "load_u32_le bytes 12 = Some (of_nat DUALBOY_MACHINE_COUNT)" using u32 [of "?a @ ?v @ ?h @ ?f"] by (simp add: split l)
  show "load_u32_le bytes 16 = Some (of_nat (length part0))" using u32 [of "?a @ ?v @ ?h @ ?f @ ?m"] by (simp add: split l)
  show "load_u32_le bytes 20 = Some (of_nat (length part1))" using u32 [of "?a @ ?v @ ?h @ ?f @ ?m @ ?l0"] by (simp add: split l)
  show "load_u32_le bytes 24 = Some 0" using u32 [of "?a @ ?v @ ?h @ ?f @ ?m @ ?l0 @ ?l1"] by (simp add: split l)
  show "load_u32_le bytes 28 = Some 0" using u32 [of "?a @ ?v @ ?h @ ?f @ ?m @ ?l0 @ ?l1 @ ?z"] by (simp add: split l)
  show "slice bytes 0 4 = Some link_magic" by (simp add: split slice_def l)
  show "slice bytes MGBA_LINK_STATE_HEADER_SIZE (length part0) = Some part0"
    "slice bytes (MGBA_LINK_STATE_HEADER_SIZE + length part0) (length part1) = Some part1"
    by (simp_all add: split slice_def l MGBA_LINK_STATE_HEADER_SIZE_def)
qed

lemma linked_pair_ids:
  assumes "linked_pair s" and "lookup (lockstepId (drivers s 0)) s = Some q0" "driver q0 = 0"
    and "lookup (lockstepId (drivers s 1)) s = Some q1" "driver q1 = 1"
  shows "(playerId q0 = 0) \<noteq> (playerId q1 = 0)" "lockstepId (drivers s 0) \<noteq> lockstepId (drivers s 1)"
proof -
  obtain p q where pq: "lookup (attachedPlayers s ! 0) s = Some p" "playerId p = 0" "lookup (attachedPlayers s ! 1) s = Some q"
    "playerId q = 1" "{driver p, driver q} = {0, 1}" "seat_ok None s (attachedPlayers s ! 0) p"
    "seat_ok None s (attachedPlayers s ! 1) q" by (rule linked_pair_players [OF assms(1)])
  have ids: "lockstepId (drivers s (driver p)) = attachedPlayers s ! 0" "lockstepId (drivers s (driver q)) = attachedPlayers s ! 1"
    using pq(6,7) by (simp_all add: seat_ok_def)
  from pq(5) consider "driver p = 0" "driver q = 1" | "driver p = 1" "driver q = 0" by (auto simp: doubleton_eq_iff)
  then show "(playerId q0 = 0) \<noteq> (playerId q1 = 0)" using ids pq(1-4) assms(2,4) by cases auto
  show "lockstepId (drivers s 0) \<noteq> lockstepId (drivers s 1)" using assms(2-5) by auto
qed

text \<open>Both drivers of a linked pair write a state, of the size the adapter expects.\<close>

lemma save_driver:
  assumes linked: "linked_pair s" and d: "d < DUALBOY_MACHINE_COUNT"
  obtains q w where "lookup (lockstepId (drivers s d)) s = Some q" "driver q = d" "SaveState ops True d s = Some (Some w)"
    "saved ops q s d w" "length (state_bytes w) = MGBA_LOCKSTEP_DRIVER_STATE_SIZE"
proof -
  obtain q where q: "lookup (lockstepId (drivers s d)) s = Some q" "driver q = d" "seat_ok None s (lockstepId (drivers s d)) q"
    by (rule linked_pair_driver [OF linked d])
  have "coordinated (drivers s d)" using q(2,3) by (auto simp: seat_ok_def)
  moreover have "length (otherModes q) = 4" using q(3) by (simp add: seat_ok_def MAX_GBAS_def)
  moreover have "length (multiData s) = 4" "length (normalData s) = 4" using seated_bounds [OF linked_pair_seated [OF linked]] by simp_all
  ultimately obtain w where w: "SaveState ops True d s = Some (Some w)" "saved ops q s d w"
    using SaveState_saved [OF _ q(1) _ _ _ queue_bounded [OF q(3)], of ops] by blast
  have "length (state_bytes w) = MGBA_LOCKSTEP_DRIVER_STATE_SIZE"
    using w(2) by (simp add: saved_def state_bytes_length STATE_WORDS_def MGBA_LOCKSTEP_DRIVER_STATE_SIZE_def)
  with q(1,2) w that show thesis by blast
qed

text \<open>Loading the two states that were saved, the second driver first, into a pair with the same players.\<close>

lemma load_both:
  assumes s: "linked_pair s" "machine_ints s" and t: "linked_pair t" "same_seating s t" and modes: "distinct_modes ops"
    and q0: "lookup (lockstepId (drivers s 0)) s = Some q0" "driver q0 = 0" "saved ops q0 s 0 w0"
    and q1: "lookup (lockstepId (drivers s 1)) s = Some q1" "driver q1 = 1" "saved ops q1 s 1 w1"
  obtains t1 t0 where "LoadState ops (Some w1) 1 t = Some (True, t1)" "LoadState ops (Some w0) 0 t1 = Some (True, t0)"
    "linked_pair t0" "coordinator_resumes s t0"
    "\<forall>k r. lookup k s = Some r \<longrightarrow> (\<exists>r'. lookup k t0 = Some r' \<and> resumes r r')"
proof -
  let ?k0 = "lockstepId (drivers s 0)" and ?k1 = "lockstepId (drivers s 1)"
  have settled: "settled None s" using s(1) by (simp add: linked_pair_def)
  have coord: "coordinated (drivers s 0)" "coordinated (drivers s 1)"
    using linked_pair_plugged [OF s(1), of 0] linked_pair_plugged [OF s(1), of 1] by (simp_all add: plugged_def)
  have ints: "int32_player q0" "int32_player q1" "int32 (cycle s)" "int32 (nextHardSync s)"
    using s(2) q0(1) q1(1) by (auto simp: machine_ints_def)
  note ids = linked_pair_ids [OF s(1) q0(1,2) q1(1,2)]
  have calm: "asleep r" if "lookup k t = Some r" "blocked (user (drivers t (driver r)))" for k r
    using seated_seat [OF linked_pair_seated [OF t(1)] that(1)] that(2) by (simp add: seat_ok_def)
  obtain t1 where t1: "LoadState ops (Some w1) 1 t = Some (True, t1)" "same_seating s t1"
    "\<exists>r. lookup ?k1 t1 = Some r \<and> resumes q1 r" "\<forall>k. k \<noteq> ?k1 \<longrightarrow> lookup k t1 = lookup k t"
    "if playerId q1 = 0 then coordinator_resumes s t1 else coordinator_resumes t t1"
    "\<forall>e. e \<noteq> driver q1 \<longrightarrow> blocked (user (drivers t1 e)) = blocked (user (drivers t e))"
    "(\<forall>p2. lookup ?k1 t = Some p2 \<longrightarrow> blocked (user (drivers t (driver p2))) \<longrightarrow> asleep p2) \<longrightarrow>
       blocked (user (drivers t1 (driver q1))) \<longrightarrow> asleep q1"
    by (rule LoadState_saved [OF settled q1(1) coord(2) q1(3) ints(2) _ modes t(2)]) (use ints in auto)
  obtain t0 where t0: "LoadState ops (Some w0) 0 t1 = Some (True, t0)" "same_seating s t0"
    "\<exists>r. lookup ?k0 t0 = Some r \<and> resumes q0 r" "\<forall>k. k \<noteq> ?k0 \<longrightarrow> lookup k t0 = lookup k t1"
    "if playerId q0 = 0 then coordinator_resumes s t0 else coordinator_resumes t1 t0"
    "\<forall>e. e \<noteq> driver q0 \<longrightarrow> blocked (user (drivers t0 e)) = blocked (user (drivers t1 e))"
    "(\<forall>p2. lookup ?k0 t1 = Some p2 \<longrightarrow> blocked (user (drivers t1 (driver p2))) \<longrightarrow> asleep p2) \<longrightarrow>
       blocked (user (drivers t0 (driver q0))) \<longrightarrow> asleep q0"
    by (rule LoadState_saved [OF settled q0(1) coord(1) q0(3) ints(1) _ modes t1(2)]) (use ints in auto)
  have keys: "k = ?k0 \<or> k = ?k1" if "lookup k s = Some r" for k r
  proof -
    have "driver r = 0 \<or> driver r = 1" using linked_pair_keys(2) [OF s(1) that] by auto
    with linked_pair_keys(1) [OF s(1) that] show ?thesis by auto
  qed
  have players: "\<exists>r'. lookup k t0 = Some r' \<and> resumes r r'" if r: "lookup k s = Some r" for k r
    using keys [OF r] r q0(1) q1(1) t0(3,4) t1(3) ids(2) by auto
  have coordinator: "coordinator_resumes s t0"
    using t0(5) t1(5) ids(1) coordinator_resumes_trans by (auto split: if_splits)
  have calm0: "asleep r" if r: "lookup k t0 = Some r" "blocked (user (drivers t0 (driver r)))" for k r
  proof -
    obtain r2 where "lookup k s = Some r2" "driver r2 = driver r"
    proof -
      have "map_option (\<lambda>p. (playerId p, driver p)) (lookup k t0) = map_option (\<lambda>p. (playerId p, driver p)) (lookup k s)"
        using t0(2) by (simp add: same_seating_def)
      with r(1) that show thesis by (cases "lookup k s") auto
    qed
    note r2 = this
    from players [OF r2(1)] r(1) have same: "asleep r = asleep r2" by (auto simp: resumes_def)
    have t1_player: "lookup ?k0 t1 = Some p2 \<longrightarrow> blocked (user (drivers t1 (driver p2))) \<longrightarrow> asleep p2" for p2
    proof (intro impI)
      assume p2: "lookup ?k0 t1 = Some p2" "blocked (user (drivers t1 (driver p2)))"
      obtain p3 where "lookup ?k0 t1 = Some p3" "driver p3 = driver q0"
        by (rule same_seating_lookup [OF t1(2) q0(1)])
      with p2 q0(2) have "driver p2 = 0" by simp
      with p2 t1(4,6) ids(2) q1(2) calm [of ?k0 p2] show "asleep p2" by simp
    qed
    from keys [OF r2(1)] show ?thesis
    proof
      assume "k = ?k0"
      with r2 q0(1) have "r2 = q0" by simp
      with t0(7) t1_player r(2) r2(2) same show ?thesis by simp
    next
      assume "k = ?k1"
      with r2 q1(1) have "r2 = q1" by simp
      moreover have "blocked (user (drivers t1 (driver q1)))" using r(2) r2(2) t0(6) q0(2) q1(2) \<open>r2 = q1\<close> by simp
      ultimately show ?thesis using t1(7) calm same by simp
    qed
  qed
  have "settled None t0" by (rule resumed_settled [OF settled t0(2) players coordinator calm0])
  moreover have "enrolled t0 = enrolled t" using load_enrolled [OF t0(1)] load_enrolled [OF t1(1)] by simp
  ultimately have "linked_pair t0" using t(1) by (simp add: linked_pair_def enrolled_def)
  with t1(1) t0(1) coordinator players show thesis by (intro that) auto
qed

text \<open>C8. Link states. A linked pair whose counters fit their 32 bits can always be saved, into a buffer of
  the size that is reported for it, and the bytes written are accepted by every linked pair of the same
  players, whatever their clocks, queues and sleep are by then. Afterwards every player, its queue of
  events and its sleep, and the coordinator with its barrier, transfer and clock are what they were when
  the link was saved; nothing but the link has changed, and the pair is again a linked pair, so that its
  machines can run on.\<close>

theorem link_state_roundtrip:
  assumes p: "pair_ok p" "link_enabled p" "machine_ints (link p)" and modes: "distinct_modes ops"
    and room: "mgba_link_state_size p \<le> length buffer"
    and q: "pair_ok q" "link_enabled q" "same_seating (link p) (link q)"
  shows "\<exists>out used q'. mgba_serialize_link ops (\<lambda>_. True) p (Some buffer) (mgba_link_state_size p) = Some (True, Some out, used) \<and>
    mgba_unserialize_link ops q (Some out) used = Some (True, q') \<and>
    q' = q\<lparr>link := link q'\<rparr> \<and> pair_ok q' \<and> coordinator_resumes (link p) (link q') \<and>
    (\<forall>k r. lookup k (link p) = Some r \<longrightarrow> (\<exists>r'. lookup k (link q') = Some r' \<and> resumes r r'))"
proof -
  have up: "coordinator_initialized p" "linked_pair (link p)" "coordinator_initialized q" "linked_pair (link q)"
    using p(1,2) q(1,2) by (auto simp: pair_ok_def)
  obtain q0 w0 where d0: "lookup (lockstepId (drivers (link p) 0)) (link p) = Some q0" "driver q0 = 0"
    "SaveState ops True 0 (link p) = Some (Some w0)" "saved ops q0 (link p) 0 w0"
    "length (state_bytes w0) = MGBA_LOCKSTEP_DRIVER_STATE_SIZE" by (rule save_driver [OF up(2), of 0]) auto
  obtain q1 w1 where d1: "lookup (lockstepId (drivers (link p) 1)) (link p) = Some q1" "driver q1 = 1"
    "SaveState ops True 1 (link p) = Some (Some w1)" "saved ops q1 (link p) 1 w1"
    "length (state_bytes w1) = MGBA_LOCKSTEP_DRIVER_STATE_SIZE" by (rule save_driver [OF up(2), of 1]) auto
  have two: "[0..<DUALBOY_MACHINE_COUNT] = [0, 1]" by (simp add: upt_rec)
  let ?parts = "[state_bytes w0, state_bytes w1]" and ?n = "MGBA_LINK_STATE_CAPACITY"
  let ?out = "link_bytes True ?parts @ drop ?n buffer"
  have size: "length (link_bytes True ?parts) = ?n" "MGBA_LINK_STATE_HEADER_SIZE + length (concat ?parts) = ?n"
    using d0(5) d1(5) by (simp_all add: link_bytes_length MGBA_LINK_STATE_CAPACITY_def MGBA_LINK_STATE_HEADER_SIZE_def)
  have "save_drivers ops (\<lambda>_. True) [0..<DUALBOY_MACHINE_COUNT] (link p) = Some (Some ?parts)"
    unfolding two using d0(3,5) d1(3,5) by simp
  moreover have "blit buffer 0 (link_bytes True ?parts) = Some ?out"
    using room size(1) by (simp add: blit_def mgba_link_state_size_def)
  ultimately have saved: "mgba_serialize_link ops (\<lambda>_. True) p (Some buffer) (mgba_link_state_size p) = Some (True, Some ?out, ?n)"
    using p(2) up(1) size(2)
    by (simp add: mgba_serialize_link_def mgba_link_state_size_def MGBA_LINK_STATE_CAPACITY_def Let_def)
  obtain t1 t0 where load: "LoadState ops (Some w1) 1 (link q) = Some (True, t1)" "LoadState ops (Some w0) 0 t1 = Some (True, t0)"
    "linked_pair t0" "coordinator_resumes (link p) t0"
    "\<forall>k r. lookup k (link p) = Some r \<longrightarrow> (\<exists>r'. lookup k t0 = Some r' \<and> resumes r r')"
    by (rule load_both [OF up(2) p(3) up(4) q(3) modes d0(1,2,4) d1(1,2,4)])
  have settled: "settled None (link p)" using up(2) by (simp add: linked_pair_def)
  have valid: "lockstep_payload_valid ops q (state_bytes w0) 0" "lockstep_payload_valid ops q (state_bytes w1) 1"
  proof -
    have ints: "int32_player q0" "int32_player q1" using p(3) d0(1) d1(1) by (auto simp: machine_ints_def)
    have coord: "coordinated (drivers (link p) 0)" "coordinated (drivers (link p) 1)"
      using linked_pair_plugged [OF up(2), of 0] linked_pair_plugged [OF up(2), of 1] by (simp_all add: plugged_def)
    have "ValidateState ops 0 (Some w0) (link q)" "ValidateState ops 1 (Some w1) (link q)"
      unfolding ValidateState_seating [OF q(3)]
      by (rule saved_valid [OF settled coord(1) d0(1,4) ints(1) modes], rule saved_valid [OF settled coord(2) d1(1,4) ints(2) modes])
    then show "lockstep_payload_valid ops q (state_bytes w0) 0" "lockstep_payload_valid ops q (state_bytes w1) 1"
      using d0(5) d1(5) by (simp_all add: lockstep_payload_valid_def state_words_bytes)
  qed
  have restored: "restore_drivers ops (state_bytes w0) (state_bytes w1) q = Some (True, q\<lparr>link := t0\<rparr>)"
    using load(1,2) by (simp add: restore_drivers_def state_words_bytes)
  note fields = link_bytes_fields [of "state_bytes w0" "state_bytes w1" "drop ?n buffer"]
  have len: "unat (of_nat (length (state_bytes w0)) :: u32) = length (state_bytes w0)"
    "unat (of_nat (length (state_bytes w1)) :: u32) = length (state_bytes w1)"
    unfolding d0(5) d1(5) by (simp_all add: MGBA_LOCKSTEP_DRIVER_STATE_SIZE_def)
  have "mgba_unserialize_link ops q (Some ?out) ?n = Some (True, q\<lparr>link := t0\<rparr>)"
    unfolding mgba_unserialize_link_def option.case fields Option.bind.bind_lunit len
    using q(2) up(3) valid restored d0(5) d1(5)
    by (simp add: MGBA_LINK_STATE_FLAG_ENABLED_def MGBA_LINK_STATE_CAPACITY_def)
  moreover have "pair_ok (q\<lparr>link := t0\<rparr>)" using q(1) up(3) load(3) by (simp add: pair_ok_def)
  ultimately show ?thesis using saved load(4,5) by (intro exI conjI) (assumption | simp)+
qed

definition barrier_pair :: "int \<Rightarrow> int mgba_pair" where
  "barrier_pair now = loaded_pair\<lparr>link := barrier_link now, coordinator_initialized := True, link_configured := True,
     link_enabled := True\<rparr>"

lemma clock_modes: "distinct_modes clock_mgba"
  unfolding distinct_modes_def by (auto simp: clock_mgba_def inj_def split: sio_mode.splits)

lemma barrier_ints: "int32 now \<Longrightarrow> machine_ints (barrier_link now)"
  by (auto simp: machine_ints_def int32_player_def int32_event_def int32_def INT32_MIN_def INT32_MAX_def barrier_link_def unlinked_def lookup_def split: if_splits)

theorem link_state_roundtrip_witness:
  "\<exists>out used q'. mgba_serialize_link clock_mgba (\<lambda>_. True) (barrier_pair 900) (Some (replicate 7000 0)) (mgba_link_state_size (barrier_pair 900)) =
       Some (True, Some out, used) \<and>
     mgba_unserialize_link clock_mgba (barrier_pair 5000) (Some out) used = Some (True, q') \<and> cycle (link q') = 900"
proof -
  have ok: "pair_ok (barrier_pair now)" "link_enabled (barrier_pair now)" "link (barrier_pair now) = barrier_link now" for now
    by (simp_all add: pair_ok_def barrier_pair_def barrier_link_linked)
  have "machine_ints (link (barrier_pair 900))" unfolding ok(3) by (rule barrier_ints) (simp add: int32_def INT32_MIN_def INT32_MAX_def)
  moreover have "same_seating (link (barrier_pair 900)) (link (barrier_pair 5000))"
    unfolding ok(3) by (simp add: same_seating_def barrier_link_def lookup_def)
  moreover have "mgba_link_state_size (barrier_pair 900) \<le> length (replicate 7000 (0 :: u8))"
    by (simp add: mgba_link_state_size_def MGBA_LINK_STATE_CAPACITY_def MGBA_LINK_STATE_HEADER_SIZE_def MGBA_LOCKSTEP_DRIVER_STATE_SIZE_def)
  moreover have "cycle (link (barrier_pair 900)) = 900" by (simp add: ok(3) barrier_link_def)
  ultimately show ?thesis
    using link_state_roundtrip [of "barrier_pair 900" clock_mgba "replicate 7000 0" "barrier_pair 5000"] ok(1,2) clock_modes
    unfolding coordinator_resumes_def by metis
qed

end
