(* ===== verification/Spec2Isabelle.thy ===== *)
theory Spec2Isabelle
  imports Content Touch_Cursor Compositor Persistence Session State State_Restore Playlist Save_Flush Save_Life
    Options Libretro_Core Libretro_Frame Session_Moves Libretro_Life Lockstep_Attach Lockstep_State Mgba_Frame Mgba_Link_State
begin

text \<open>
  DualBoy is a libretro core that runs two linked handhelds side by side. The theories of this
  library model its own logic, the code under \<open>src/src/frontend\<close> and \<open>src/src/libretro\<close> and the link of
  two Game Boy Advances under \<open>src/src/engines/mgba\<close>, and prove it correct. The emulators themselves
  (mGBA, SameBoy, melonDS) are third-party libraries behind tables of function pointers; they are a
  parameter of the model.

  \<^bold>\<open>The program.\<close> A frontend loads two cartridges. Content detection (\<open>content.c\<close>) classifies each
  image by its header and chooses an engine; a playlist (\<open>playlist.c\<close>) may name the two files. A
  session (\<open>session.c\<close>) owns copies of the images and the pair of machines the engine creates, runs
  frames and changes the link. The compositor (\<open>compositor.c\<close>) puts the frames of both machines
  into one picture and maps touch points back; the touch cursor (\<open>touch_cursor.c\<close>) decides when a
  reticle is visible. Savestates (\<open>state.c\<close>) put both machines and the link into one container and
  restore it as a transaction. The save manager (\<open>save_manager.c\<close>) decides who persists which
  battery memory, holds lock files, loads, imports and flushes it, through the path and file
  routines of \<open>persistence.c\<close>. The libretro layer (\<open>options.c\<close>, \<open>libretro_core.c\<close>) is the
  set of entry points the frontend calls; it reads the core options and drives all of these. For two
  Game Boy Advance games the engine adapter (\<open>mgba_adapter.c\<close>) joins the machines by a scheduler
  (\<open>mgba_lockstep.c\<close>): each machine is a player with a queue of events; the primary waits at barriers
  until the other has answered, and the adapter runs whichever machine is not blocked.

  \<^bold>\<open>How C is modelled.\<close> Fixed-width integers are words of that width where they can wrap
  (\<open>u8\<close>, \<open>u16\<close>, \<open>u32\<close>, \<open>u64\<close>), sizes are \<open>nat\<close> with the overflow checks of the code written out against
  \<open>SIZE_MAX\<close>. Buffers are byte lists; reading or writing outside one has the result \<open>None\<close>
  (\<open>rd\<close>, \<open>slice\<close>, \<open>blit\<close> of \<open>Prelude\<close>), so a theorem that an operation returns \<open>Some\<close> says that it
  stays inside its buffers. \<open>malloc\<close> and \<open>free\<close> work on a heap of live addresses (\<open>Heap\<close>): the \<open>n\<close>-th
  allocation may fail, and freeing what is not live is \<open>None\<close>. System calls are answered by
  lists of results that the theorems quantify over: short reads and writes, interruptions and
  failures in any order. A loop that waits for the system recurses over these answers and is
  \<open>None\<close> when they run out; no other fuel is used. An assertion of the code that fails is \<open>None\<close> too.

  \<^bold>\<open>The theories.\<close>
  \<^item> \<open>Prelude\<close>: bounded access to byte lists, little-endian words, the locale \<open>byte_digest\<close> of
    checksums whose steps are injective, with the FNV hash as an instance. \<open>Heap\<close>: allocation and
    ownership.
  \<^item> \<open>Engine\<close>, \<open>Engine_Ops\<close>: \<open>engine.h\<close>, the data types and the table of engine operations.
  \<^item> \<open>Content\<close>: \<open>content.c\<close>. Detection never reads outside the image, accepted DS headers are
    consistent, a corrupted header byte is noticed, compatibility follows the engine families.
  \<^item> \<open>Touch_Cursor\<close>: \<open>touch_cursor.c\<close>. The invariant of the cursor and its two timeouts.
  \<^item> \<open>Compositor\<close>: \<open>compositor.c\<close>. Composition equals the picture the coordinate mappings
    describe, the mappings are inverse to each other, the reticle stays inside the buffer; the
    geometry arithmetic wraps on frames no engine produces, which is a finding.
  \<^item> \<open>Persistence\<close>: \<open>persistence.c\<close>. Save paths of the two machines never collide, reads return
    the whole file or nothing, and a write is atomic: at every step of it, whatever fails, the
    target holds the old bytes or the new ones.
  \<^item> \<open>Session\<close>: \<open>session.c\<close>. Loading and unloading own and free every allocation once, on every
    failure path; inputs reach the machine of their port, and the framebuffer shows the pictures the two
    machines answered after the frame.
  \<^item> \<open>State\<close>, \<open>State_Restore\<close>: \<open>state.c\<close>. The container round trip, rejection of every
    corrupted byte, and the restore as a transaction that keeps battery memory. What a restore brings
    back is stated for every view of the machines that the engine's states carry, since an adapter may
    keep or reset the rest. The missing null check of \<open>set_link\<close> is a finding.
  \<^item> \<open>Playlist\<close>: \<open>playlist.c\<close>. Path normalization refines the interpretation of path components
    and is idempotent, and the scanner accepts exactly the texts with two acceptable entries.
  \<^item> \<open>Save_Manager\<close>: \<open>save_manager.c\<close>. \<open>Save_Flush\<close>: a flush writes nothing but current bytes of
    the region to its file, a changed byte reaches the file, and a second flush does nothing.
    \<open>Save_Life\<close>: the step relation of a life of the manager and its invariant, with which memory,
    locks and bounds are accounted for from initialization to the end. \<open>Save_Demo\<close>: a small
    session on which the hypotheses of these theorems hold together.
  \<^item> \<open>Options\<close>: \<open>options.c\<close>, the tables of core options. \<open>Libretro\<close>, \<open>Libretro_Core\<close>,
    \<open>Libretro_Frame\<close>: \<open>libretro_core.c\<close>, the context, the entry points and the frame loop; what the
    options read back as and which machine an input reaches.
  \<^item> \<open>Session_Moves\<close>: what every session operation may do to the machines, and which facts about
    battery memory survive. \<open>Libretro_Life\<close>: the entry points account for every allocation and lock.
  \<^item> \<open>Lockstep\<close>: \<open>mgba_lockstep.c\<close>, the coordinator, the players with their queues, the drivers and every
    callback. \<open>Lockstep_Sync\<close>: the invariant of the group (who sits where, who owes the barrier an
    answer, who may sleep), and that every callback returns and keeps it. \<open>Lockstep_Attach\<close>: attaching
    the two drivers makes a group, in whatever order the player table iterates. \<open>Lockstep_State\<close>: the
    savestate of a driver, its validation and its round trip.
  \<^item> \<open>Mgba_Link\<close>, \<open>Mgba_Switch\<close>, \<open>Mgba_Frame\<close>: the link part of \<open>mgba_adapter.c\<close>. \<open>link_step\<close> is a call
    of either machine and \<open>link_run\<close> any sequence of them; no sequence deadlocks, switching the link
    returns with a linked pair or with no link, and a linked frame ends (the loop \<open>run_frames\<close> uses up
    its watchdog of four million turns). \<open>Mgba_Link_State\<close>: the savestate of the link, which is
    restored completely or not at all, and its round trip.

  \<^bold>\<open>What is assumed of engines\<close> is named where it is used: \<open>video_contract\<close> (frames describe their
  buffers), \<open>serializer_contract\<close> and \<open>battery_law\<close> (machine states), \<open>carried_by_states\<close> (what it means
  that a view of the machines is part of their states), \<open>memory_law\<close> and \<open>steady_memory\<close> (the regions of
  battery memory keep their sizes), \<open>engine_promise\<close> (the conjunction the libretro layer relies on). Of
  mGBA: \<open>iterates\<close> (a table iteration visits every entry once), \<open>plugs\<close> (plugging a driver in calls its
  \<open>init\<close>, unplugging at most its \<open>deinit\<close>), \<open>quiet_without_driver\<close> (a core without a driver does not
  touch the link) and \<open>distinct_modes\<close> (its serial modes have different numbers). Each property that
  uses one has a witness with a concrete engine.

  \<^bold>\<open>Not modelled.\<close> Error messages are datatypes or left out; logging, file permission bits and
  close-on-exec flags are not part of the model. The rest of the engine adapters and the OpenGL context
  are glue to libraries whose sources are not in the repository.
\<close>

end
